(* ===== verification/Prelude.thy ===== *)
theory Prelude
  imports Main "HOL-Library.Word" "HOL-Library.Monad_Syntax"
begin

unbundle bit_operations_syntax

text \<open>
  Shared vocabulary of the development: the C integer types, byte buffers with checked
  little-endian loads and stores, tables of fixed-size wire records, half-open address
  ranges and binary search.

  A buffer is the list of its bytes and its \<open>buffer_size\<close> is the length of the list. A load
  outside the buffer is undefined behaviour in C and the value \<open>None\<close> here; a store is a
  list of \<open>(offset, bytes)\<close> writes, and \<open>None\<close> when one of them leaves the buffer. That a
  codec never returns \<open>None\<close> is therefore its memory safety.
\<close>

section \<open>C types\<close>

type_synonym u8 = "8 word"
type_synonym u16 = "16 word"
type_synonym u32 = "32 word"
type_synonym u64 = "64 word"
type_synonym bytes = "u8 list"
type_synonym writes = "(nat \<times> bytes) list"

text \<open>\<open>size_t\<close> values are natural numbers below \<open>2 ^ 64\<close> (the LP64 targets of the project).\<close>

definition SIZE_MAX :: nat where
  "SIZE_MAX = 18446744073709551615"

definition UINT32_MAX :: nat where
  "UINT32_MAX = 4294967295"

text \<open>A pointer and its element count: a NULL pointer still comes with a count.\<close>

datatype 'a carray = Null nat | Arr "'a list"

fun carray_count :: "'a carray \<Rightarrow> nat" where
  "carray_count (Null n) = n"
| "carray_count (Arr xs) = length xs"

named_theorems wire \<open>rewriting of loads over stores\<close>
named_theorems within \<open>records write only inside their slot\<close>

text \<open>The index of the first element with a property, as the search loops of the sources return it.\<close>

definition first_index :: "('a \<Rightarrow> bool) \<Rightarrow> 'a list \<Rightarrow> nat option" where
  "first_index P xs =
     (let n = length (takeWhile (\<lambda>x. \<not> P x) xs) in if n < length xs then Some n else None)"

lemma first_index_SomeD:
  "first_index P xs = Some i \<Longrightarrow> i < length xs \<and> P (xs ! i) \<and> (\<forall>j < i. \<not> P (xs ! j))"
  unfolding first_index_def Let_def
  by (auto split: if_splits dest: nth_length_takeWhile)
    (metis nth_mem set_takeWhileD takeWhile_nth)

lemma first_index_None_iff: "first_index P xs = None \<longleftrightarrow> (\<forall>x \<in> set xs. \<not> P x)"
proof -
  have "length (takeWhile (\<lambda>x. \<not> P x) xs) \<le> length xs" by (rule length_takeWhile_le)
  moreover have "length (takeWhile (\<lambda>x. \<not> P x) xs) = length xs \<longleftrightarrow> (\<forall>x \<in> set xs. \<not> P x)"
    by (metis takeWhile_eq_all_conv takeWhile_eq_take take_all_iff order_refl)
  ultimately show ?thesis by (auto simp: first_index_def Let_def)
qed

lemma list_all_True [simp]: "list_all (\<lambda>_. True) xs"
  by (simp add: list_all_iff)

lemma list_all_upt [simp]: "list_all P [0..<n] \<longleftrightarrow> (\<forall>i < n. P i)"
  by (auto simp: list_all_iff)

lemma all_pairs_sym:
  assumes "\<And>i j. P i j \<longleftrightarrow> P j i"
  shows "(\<forall>i < n. \<forall>j < i. P i j) \<longleftrightarrow> (\<forall>i < n. \<forall>j < n. i \<noteq> j \<longrightarrow> P i (j::nat))"
proof (intro iffI allI impI)
  fix i j assume "\<forall>i < n. \<forall>j < i. P i j" "i < n" "j < n" "i \<noteq> j"
  then show "P i j" using assms [of i j] by (cases "j < i") auto
qed auto

section \<open>Little-endian integers\<close>

definition le16 :: "u16 \<Rightarrow> bytes" where
  "le16 v = [ucast v, ucast (drop_bit 8 v)]"

definition le32 :: "u32 \<Rightarrow> bytes" where
  "le32 v = [ucast v, ucast (drop_bit 8 v), ucast (drop_bit 16 v), ucast (drop_bit 24 v)]"

definition le64 :: "u64 \<Rightarrow> bytes" where
  "le64 v = le32 (ucast v) @ le32 (ucast (drop_bit 32 v))"

definition un16 :: "bytes \<Rightarrow> u16" where
  "un16 b = ucast (b ! 0) OR push_bit 8 (ucast (b ! 1))"

definition un32 :: "bytes \<Rightarrow> u32" where
  "un32 b = ucast (b ! 0) OR push_bit 8 (ucast (b ! 1)) OR
     push_bit 16 (ucast (b ! 2)) OR push_bit 24 (ucast (b ! 3))"

definition un64 :: "bytes \<Rightarrow> u64" where
  "un64 b = ucast (un32 b) OR push_bit 32 (ucast (un32 (drop 4 b)))"

lemma length_le16 [simp]: "length (le16 v) = 2"
  by (simp add: le16_def)

lemma length_le32 [simp]: "length (le32 v) = 4"
  by (simp add: le32_def)

lemma length_le64 [simp]: "length (le64 v) = 8"
  by (simp add: le64_def)

lemma un16_le16 [simp]: "un16 (le16 v) = v"
  by (rule bit_word_eqI) (auto simp: un16_def le16_def bit_simps)

lemma un32_le32_append: "un32 (le32 v @ r) = v"
proof (rule bit_word_eqI)
  fix n assume "n < LENGTH(32)"
  then consider "n < 8" | "8 \<le> n" "n < 16" | "16 \<le> n" "n < 24" | "24 \<le> n" "n < 32"
    by fastforce
  then show "bit (un32 (le32 v @ r)) n \<longleftrightarrow> bit v n"
    by cases (auto simp: un32_def le32_def bit_simps nth_append)
qed

lemma un32_le32 [simp]: "un32 (le32 v) = v"
  using un32_le32_append [of v "[]"] by simp

lemma un64_le64 [simp]: "un64 (le64 v) = v"
  by (rule bit_word_eqI) (auto simp: un64_def le64_def un32_le32_append bit_simps)

lemma unat_of_nat_u32: "n < 2 ^ 32 \<Longrightarrow> unat (of_nat n :: u32) = n"
  by (simp add: unsigned_of_nat take_bit_nat_eq_self)

text \<open>A positive number without bits in common with its predecessor is a power of two.\<close>

lemma and_pred_eq_0_iff: "0 < (n :: nat) \<Longrightarrow> n AND (n - 1) = 0 \<longleftrightarrow> (\<exists>k. n = 2 ^ k)"
proof (induction n rule: less_induct)
  case (less n)
  show ?case
  proof (cases "even n")
    case True
    then obtain m where m: "n = 2 * m" by (elim evenE)
    then have "0 < m" "m < n" using less.prems by auto
    have "(2 * m - 1) div 2 = m - 1" using \<open>0 < m\<close> by presburger
    then have "n AND (n - 1) = 2 * (m AND (m - 1))"
      using m \<open>0 < m\<close> by (subst and_rec) simp
    then have "n AND (n - 1) = 0 \<longleftrightarrow> (\<exists>k. m = 2 ^ k)"
      using less.IH \<open>0 < m\<close> \<open>m < n\<close> by simp
    also have "\<dots> \<longleftrightarrow> (\<exists>k. n = 2 ^ k)"
    proof
      assume "\<exists>k. m = 2 ^ k"
      then show "\<exists>k. n = 2 ^ k" using m by (metis power_Suc)
    next
      assume "\<exists>k. n = 2 ^ k"
      then obtain k where k: "2 * m = 2 ^ k" using m by auto
      then have "m = 2 ^ (k - 1)" by (cases k) auto
      then show "\<exists>k. m = 2 ^ k" by blast
    qed
    finally show ?thesis .
  next
    case False
    then obtain m where m: "n = 2 * m + 1" by (elim oddE)
    then have "n AND (n - 1) = 2 * m"
      by (subst and_rec) simp
    moreover have "(\<exists>k. n = 2 ^ k) \<longleftrightarrow> m = 0"
    proof
      assume "\<exists>k. n = 2 ^ k"
      then obtain k where "2 * m + 1 = (2::nat) ^ k" using m by auto
      then show "m = 0" by (cases k) (auto, presburger)
    qed (use m in \<open>auto intro: exI [of _ 0]\<close>)
    ultimately show ?thesis by simp
  qed
qed

lemma power_of_two_u32:
  assumes "(x :: u32) \<noteq> 0"
  shows "x AND (x - 1) = 0 \<longleftrightarrow> (\<exists>k. unat x = 2 ^ k)"
proof -
  have "x AND (x - 1) = 0 \<longleftrightarrow> unat (x AND (x - 1)) = 0"
    by (simp only: unat_eq_0)
  also have "unat (x AND (x - 1)) = unat x AND (unat x - 1)"
    using assms by (simp add: unsigned_and_eq unat_minus_one)
  also have "0 < unat x" using assms by (simp add: unat_gt_0)
  ultimately show ?thesis
    using and_pred_eq_0_iff [of "unat x"] by metis
qed

section \<open>Checked loads and stores\<close>

definition slice :: "bytes \<Rightarrow> nat \<Rightarrow> nat \<Rightarrow> bytes" where
  "slice b off n = take n (drop off b)"

definition put :: "bytes \<Rightarrow> nat \<Rightarrow> bytes \<Rightarrow> bytes" where
  "put b off xs = take off b @ xs @ drop (off + length xs) b"

definition load_bytes :: "bytes \<Rightarrow> nat \<Rightarrow> nat \<Rightarrow> bytes option" where
  "load_bytes b off n = (if off + n \<le> length b then Some (slice b off n) else None)"

definition load_u16 :: "bytes \<Rightarrow> nat \<Rightarrow> u16 option" where
  "load_u16 b off = map_option un16 (load_bytes b off 2)"

definition load_u32 :: "bytes \<Rightarrow> nat \<Rightarrow> u32 option" where
  "load_u32 b off = map_option un32 (load_bytes b off 4)"

definition load_u64 :: "bytes \<Rightarrow> nat \<Rightarrow> u64 option" where
  "load_u64 b off = map_option un64 (load_bytes b off 8)"

fun store_all :: "bytes \<Rightarrow> writes \<Rightarrow> bytes option" where
  "store_all b [] = Some b"
| "store_all b ((off, xs) # ws) =
     (if off + length xs \<le> length b then store_all (put b off xs) ws else None)"

fun apply_writes :: "bytes \<Rightarrow> writes \<Rightarrow> bytes" where
  "apply_writes b [] = b"
| "apply_writes b ((off, xs) # ws) = apply_writes (put b off xs) ws"

definition writes_in :: "nat \<Rightarrow> nat \<Rightarrow> writes \<Rightarrow> bool" where
  "writes_in lo hi ws \<longleftrightarrow> (\<forall>(off, xs) \<in> set ws. lo \<le> off \<and> off + length xs \<le> hi)"

definition zeros :: "nat \<Rightarrow> bytes" where
  "zeros n = replicate n 0"

definition bytes_are_zero :: "bytes \<Rightarrow> bool" where
  "bytes_are_zero b \<longleftrightarrow> list_all (\<lambda>x. x = 0) b"

lemma length_zeros [simp]: "length (zeros n) = n"
  by (simp add: zeros_def)

lemma length_slice [simp]: "off + n \<le> length b \<Longrightarrow> length (slice b off n) = n"
  by (simp add: slice_def)

lemma length_put [simp]: "off + length xs \<le> length b \<Longrightarrow> length (put b off xs) = length b"
  by (simp add: put_def)

lemma slice_put_same [wire]:
  "off + length xs \<le> length b \<Longrightarrow> length xs = n \<Longrightarrow> slice (put b off xs) off n = xs"
  by (simp add: slice_def put_def)

lemma slice_put_before:
  assumes "off + n \<le> off'" "off' \<le> length b"
  shows "slice (put b off' xs) off n = slice b off n"
  using assms by (auto simp: slice_def put_def min_def drop_take)

lemma slice_put_after:
  assumes "off' + length xs \<le> off" "off' + length xs \<le> length b"
  shows "slice (put b off' xs) off n = slice b off n"
  using assms by (simp add: slice_def put_def min_def)

lemma slice_put_disjoint [wire]:
  assumes "off' + length xs \<le> length b" "off + n \<le> off' \<or> off' + length xs \<le> off"
  shows "slice (put b off' xs) off n = slice b off n"
  using assms slice_put_before [of off n off' b xs] slice_put_after [of off' xs off b n]
  by linarith

lemma slice_slice: "i + n \<le> m \<Longrightarrow> slice (slice b off m) i n = slice b (off + i) n"
  by (simp add: slice_def drop_take min_def add.commute)

lemma slice_zeros [wire]: "off + n \<le> m \<Longrightarrow> slice (zeros m) off n = zeros n"
  by (simp add: slice_def zeros_def)

lemma slice_put_inside:
  assumes "off' \<le> off" "off + n \<le> off' + length xs" "off' + length xs \<le> length b"
  shows "slice (put b off' xs) off n = slice xs (off - off') n"
  using assms by (simp add: slice_def put_def min_def)

lemma un32_zeros [simp]: "un32 (zeros 4) = 0"
  by code_simp

lemma un64_zeros [simp]: "un64 (zeros 8) = 0"
  by code_simp

lemma bytes_are_zero_zeros [simp]: "bytes_are_zero (zeros n)"
  by (simp add: bytes_are_zero_def zeros_def list_all_iff)

lemma load_bytes_in [wire]: "off + n \<le> length b \<Longrightarrow> load_bytes b off n = Some (slice b off n)"
  by (simp add: load_bytes_def)

lemma load_u16_in [wire]: "off + 2 \<le> length b \<Longrightarrow> load_u16 b off = Some (un16 (slice b off 2))"
  by (simp add: load_u16_def load_bytes_def)

lemma load_u32_in [wire]: "off + 4 \<le> length b \<Longrightarrow> load_u32 b off = Some (un32 (slice b off 4))"
  by (simp add: load_u32_def load_bytes_def)

lemma load_u64_in [wire]: "off + 8 \<le> length b \<Longrightarrow> load_u64 b off = Some (un64 (slice b off 8))"
  by (simp add: load_u64_def load_bytes_def)

text \<open>Records with the same bytes have the same fields.\<close>

lemma slice_eq_inside:
  "slice b off w = slice b' off w \<Longrightarrow> k + n \<le> w \<Longrightarrow> slice b (off + k) n = slice b' (off + k) n"
  by (metis slice_slice)

lemma slice_eq_inside0:
  "slice b off w = slice b' off w \<Longrightarrow> n \<le> w \<Longrightarrow> slice b off n = slice b' off n"
  using slice_eq_inside [of b off w b' 0 n] by simp

text \<open>A zero field of a zeroed record.\<close>

lemma slice_of_zeros:
  "slice b off w = zeros w \<Longrightarrow> k + n \<le> w \<Longrightarrow> slice b (off + k) n = zeros n"
  using slice_slice [of k n w b off] by (simp add: slice_zeros)

lemma writes_in_Nil [simp]: "writes_in lo hi []"
  by (simp add: writes_in_def)

lemma writes_in_Cons [simp]:
  "writes_in lo hi ((off, xs) # ws) \<longleftrightarrow> lo \<le> off \<and> off + length xs \<le> hi \<and> writes_in lo hi ws"
  by (auto simp: writes_in_def)

lemma writes_in_append [simp]:
  "writes_in lo hi (ws @ ws') \<longleftrightarrow> writes_in lo hi ws \<and> writes_in lo hi ws'"
  by (auto simp: writes_in_def)

lemma writes_in_mono: "writes_in lo hi ws \<Longrightarrow> lo' \<le> lo \<Longrightarrow> hi \<le> hi' \<Longrightarrow> writes_in lo' hi' ws"
  by (fastforce simp: writes_in_def)

lemma apply_writes_append [simp]:
  "apply_writes b (ws @ ws') = apply_writes (apply_writes b ws) ws'"
  by (induction b ws rule: apply_writes.induct) auto

lemma length_apply_writes [simp]:
  "writes_in lo hi ws \<Longrightarrow> hi \<le> length b \<Longrightarrow> length (apply_writes b ws) = length b"
  by (induction b ws rule: apply_writes.induct) auto

lemma store_all_in:
  "writes_in lo hi ws \<Longrightarrow> hi \<le> length b \<Longrightarrow> store_all b ws = Some (apply_writes b ws)"
  by (induction b ws rule: apply_writes.induct) auto

lemma slice_apply_writes_disjoint:
  "writes_in lo hi ws \<Longrightarrow> hi \<le> length b \<Longrightarrow> off + n \<le> lo \<or> hi \<le> off \<Longrightarrow>
   slice (apply_writes b ws) off n = slice b off n"
proof (induction b ws rule: apply_writes.induct)
  case (2 b p xs ws)
  then have "slice (apply_writes (put b p xs) ws) off n = slice (put b p xs) off n"
    by auto
  also from 2 have "slice (put b p xs) off n = slice b off n"
    by (auto intro!: slice_put_disjoint)
  finally show ?case by simp
qed simp

text \<open>A store that succeeds changes no byte outside the range its writes cover.\<close>

lemma drop_apply_writes:
  assumes "writes_in lo hi ws" "hi \<le> length b"
  shows "drop hi (apply_writes b ws) = drop hi b"
proof -
  have "slice (apply_writes b ws) hi (length b) = slice b hi (length b)"
    using assms by (auto intro: slice_apply_writes_disjoint)
  then show ?thesis using assms by (simp add: slice_def)
qed

text \<open>
  The stores of one record go to ascending, disjoint fields: \<open>layout lo hi ws\<close>. Reading a
  field back is then a lookup in the list of stores, and a field that is not stored keeps
  its bytes.
\<close>

fun fields_from :: "nat \<Rightarrow> writes \<Rightarrow> bool" where
  "fields_from lo [] \<longleftrightarrow> True"
| "fields_from lo ((off, xs) # ws) \<longleftrightarrow> lo \<le> off \<and> xs \<noteq> [] \<and> fields_from (off + length xs) ws"

definition layout :: "nat \<Rightarrow> nat \<Rightarrow> writes \<Rightarrow> bool" where
  "layout lo hi ws \<longleftrightarrow> fields_from lo ws \<and> writes_in lo hi ws"

lemma layout_in: "layout lo hi ws \<Longrightarrow> writes_in lo hi ws"
  by (simp add: layout_def)

lemma fields_from_ge: "fields_from lo ws \<Longrightarrow> writes_in p hi ws \<Longrightarrow> writes_in lo hi ws"
proof (induction lo ws arbitrary: p rule: fields_from.induct)
  case (2 lo off xs ws)
  then have "writes_in (off + length xs) hi ws" by auto
  then show ?case using 2 by (auto elim: writes_in_mono)
qed simp

lemma slice_layout:
  "fields_from lo ws \<Longrightarrow> writes_in lo hi ws \<Longrightarrow> hi \<le> length b \<Longrightarrow> map_of ws off = Some xs \<Longrightarrow>
   slice (apply_writes b ws) off (length xs) = xs"
proof (induction b ws arbitrary: lo rule: apply_writes.induct)
  case (2 b p ys ws)
  have rest: "fields_from (p + length ys) ws" "writes_in (p + length ys) hi ws"
    using "2.prems" fields_from_ge [of "p + length ys" ws lo hi] by auto
  have len: "length (put b p ys) = length b" using "2.prems" by simp
  show ?case
  proof (cases "p = off")
    case True
    then have "ys = xs" using "2.prems" by simp
    have "slice (apply_writes (put b p ys) ws) p (length ys) = slice (put b p ys) p (length ys)"
      using "2.prems" len by (intro slice_apply_writes_disjoint [OF rest(2)]) auto
    then show ?thesis using "2.prems" True \<open>ys = xs\<close> by (simp add: slice_put_same)
  next
    case False
    then show ?thesis using "2.IH" [OF rest] "2.prems" len by simp
  qed
qed simp

lemma slice_gap:
  "list_all (\<lambda>(p, xs). off + n \<le> p \<or> p + length xs \<le> off) ws \<Longrightarrow> writes_in lo hi ws \<Longrightarrow>
   hi \<le> length b \<Longrightarrow> slice (apply_writes b ws) off n = slice b off n"
  by (induction b ws rule: apply_writes.induct) (auto simp: slice_put_disjoint)

lemma load_bytes_layout:
  assumes "layout lo hi ws" "hi \<le> length b" "map_of ws off \<noteq> None" "length (the (map_of ws off)) = n"
  shows "load_bytes (apply_writes b ws) off n = Some (the (map_of ws off))"
proof -
  obtain xs where xs: "map_of ws off = Some xs" using assms by auto
  then have "off + length xs \<le> length b"
    using assms map_of_SomeD [OF xs] by (fastforce simp: layout_def writes_in_def)
  moreover have "length (apply_writes b ws) = length b"
    using assms length_apply_writes [OF layout_in] by blast
  moreover have "slice (apply_writes b ws) off (length xs) = xs"
    using assms xs slice_layout by (auto simp: layout_def)
  ultimately show ?thesis using assms xs by (simp add: load_bytes_def)
qed

lemma load_u32_layout:
  "layout lo hi ws \<Longrightarrow> hi \<le> length b \<Longrightarrow> map_of ws off \<noteq> None \<Longrightarrow> length (the (map_of ws off)) = 4 \<Longrightarrow>
   load_u32 (apply_writes b ws) off = Some (un32 (the (map_of ws off)))"
  by (auto simp: load_u32_def load_bytes_layout)

lemma load_u64_layout:
  "layout lo hi ws \<Longrightarrow> hi \<le> length b \<Longrightarrow> map_of ws off \<noteq> None \<Longrightarrow> length (the (map_of ws off)) = 8 \<Longrightarrow>
   load_u64 (apply_writes b ws) off = Some (un64 (the (map_of ws off)))"
  by (auto simp: load_u64_def load_bytes_layout)

lemma load_bytes_gap:
  assumes "layout lo hi ws" "hi \<le> length b"
    "list_all (\<lambda>(p, xs). off + n \<le> p \<or> p + length xs \<le> off) ws"
  shows "load_bytes (apply_writes b ws) off n = load_bytes b off n"
  using assms slice_gap [OF assms(3) layout_in [OF assms(1)] assms(2)]
    length_apply_writes [OF layout_in [OF assms(1)] assms(2)] by (simp add: load_bytes_def)

lemma load_u32_gap:
  "layout lo hi ws \<Longrightarrow> hi \<le> length b \<Longrightarrow>
   list_all (\<lambda>(p, xs). off + 4 \<le> p \<or> p + length xs \<le> off) ws \<Longrightarrow>
   load_u32 (apply_writes b ws) off = load_u32 b off"
  by (simp add: load_u32_def load_bytes_gap)

lemma load_u64_gap:
  "layout lo hi ws \<Longrightarrow> hi \<le> length b \<Longrightarrow>
   list_all (\<lambda>(p, xs). off + 8 \<le> p \<or> p + length xs \<le> off) ws \<Longrightarrow>
   load_u64 (apply_writes b ws) off = load_u64 b off"
  by (simp add: load_u64_def load_bytes_gap)

lemma load_bytes_disjoint:
  assumes "writes_in lo hi ws" "hi \<le> length b" "off + n \<le> lo \<or> hi \<le> off"
  shows "load_bytes (apply_writes b ws) off n = load_bytes b off n"
  using length_apply_writes [OF assms(1,2)] slice_apply_writes_disjoint [OF assms]
  by (simp add: load_bytes_def)

lemma load_u32_disjoint:
  "writes_in lo hi ws \<Longrightarrow> hi \<le> length b \<Longrightarrow> off + 4 \<le> lo \<or> hi \<le> off \<Longrightarrow>
   load_u32 (apply_writes b ws) off = load_u32 b off"
  by (simp add: load_u32_def load_bytes_disjoint)

lemma load_u64_disjoint:
  "writes_in lo hi ws \<Longrightarrow> hi \<le> length b \<Longrightarrow> off + 8 \<le> lo \<or> hi \<le> off \<Longrightarrow>
   load_u64 (apply_writes b ws) off = load_u64 b off"
  by (simp add: load_u64_def load_bytes_disjoint)

lemmas load_disjoint = load_bytes_disjoint load_u32_disjoint load_u64_disjoint
lemmas load_layout = load_bytes_layout load_u32_layout load_u64_layout
lemmas load_gap = load_bytes_gap load_u32_gap load_u64_gap

declare apply_writes.simps [simp del]

section \<open>Tables of fixed-size records\<close>

text \<open>
  Every wire message of the project is a header followed by tables of fixed-size records,
  written and read by loops over the index. \<open>wire_record\<close> is the contract of one record
  codec; the facts about whole tables are proved once from it.
\<close>

fun table_writes :: "(nat \<Rightarrow> 'v \<Rightarrow> writes) \<Rightarrow> nat \<Rightarrow> nat \<Rightarrow> 'v list \<Rightarrow> writes" where
  "table_writes wr w off [] = []"
| "table_writes wr w off (v # vs) = wr off v @ table_writes wr w (off + w) vs"

text \<open>The reading loop stops at the first record that its body rejects.\<close>

fun read_table ::
    "(bytes \<Rightarrow> nat \<Rightarrow> ('e + 'r) option) \<Rightarrow> nat \<Rightarrow> bytes \<Rightarrow> nat \<Rightarrow> nat \<Rightarrow> ('e + 'r list) option" where
  "read_table rd w b off 0 = Some (Inr [])"
| "read_table rd w b off (Suc n) =
     do { r \<leftarrow> rd b off;
          case r of
            Inl e \<Rightarrow> Some (Inl e)
          | Inr v \<Rightarrow>
              do { rest \<leftarrow> read_table rd w b (off + w) n;
                   case rest of Inl e \<Rightarrow> Some (Inl e) | Inr vs \<Rightarrow> Some (Inr (v # vs)) } }"

lemma read_table_length:
  "read_table rd w b off n = Some (Inr vs) \<Longrightarrow> length vs = n"
  by (induction n arbitrary: off vs)
     (auto split: Option.bind_split_asm sum.split_asm)

lemma read_table_error:
  "read_table rd w b off n = Some (Inl e) \<Longrightarrow> \<exists>off'. rd b off' = Some (Inl e)"
  by (induction n arbitrary: off) (auto split: Option.bind_split_asm sum.split_asm)

locale wire_record =
  fixes width :: nat
    and wr :: "nat \<Rightarrow> 'v \<Rightarrow> writes"
    and rd :: "bytes \<Rightarrow> nat \<Rightarrow> ('e + 'r) option"
    and res :: "'v \<Rightarrow> 'r"
    and ok :: "'v \<Rightarrow> bool"
  assumes wr_in: "ok v \<Longrightarrow> writes_in off (off + width) (wr off v)"
    and rd_wr: "ok v \<Longrightarrow> off + width \<le> length b \<Longrightarrow>
      slice b off width = zeros width \<Longrightarrow> rd (apply_writes b (wr off v)) off = Some (Inr (res v))"
    and rd_cong: "off + width \<le> length b \<Longrightarrow> off + width \<le> length b' \<Longrightarrow>
      slice b off width = slice b' off width \<Longrightarrow> rd b off = rd b' off"
    and rd_in: "off + width \<le> length b \<Longrightarrow> rd b off \<noteq> None"
begin

lemma table_writes_in:
  "list_all ok vs \<Longrightarrow> writes_in off (off + length vs * width) (table_writes wr width off vs)"
proof (induction vs arbitrary: off)
  case (Cons v vs)
  have "writes_in off (off + length (v # vs) * width) (wr off v)"
    using Cons.prems by (auto intro: writes_in_mono [OF wr_in])
  moreover have "writes_in off (off + length (v # vs) * width) (table_writes wr width (off + width) vs)"
    using Cons by (auto intro: writes_in_mono [OF Cons.IH])
  ultimately show ?case by simp
qed simp

lemma read_table_in: "off + n * width \<le> length b \<Longrightarrow> read_table rd width b off n \<noteq> None"
proof (induction n arbitrary: off)
  case (Suc n)
  then have "off + width \<le> length b" and "read_table rd width b (off + width) n \<noteq> None"
    by (auto simp: algebra_simps)
  then show ?case using rd_in [of off b] by (auto split: sum.splits)
qed simp

text \<open>Stores elsewhere do not change a table.\<close>

lemma read_table_disjoint:
  assumes ws: "writes_in lo hi ws" and hi: "hi \<le> length b"
  shows "off + n * width \<le> length b \<Longrightarrow> off + n * width \<le> lo \<or> hi \<le> off \<Longrightarrow>
    read_table rd width (apply_writes b ws) off n = read_table rd width b off n"
proof (induction n arbitrary: off)
  case (Suc n)
  then have "slice (apply_writes b ws) off width = slice b off width"
    using slice_apply_writes_disjoint [OF ws hi] by auto
  then have "rd (apply_writes b ws) off = rd b off"
    using Suc.prems length_apply_writes [OF ws hi] by (intro rd_cong) auto
  moreover have "read_table rd width (apply_writes b ws) (off + width) n = read_table rd width b (off + width) n"
    using Suc by auto
  ultimately show ?case by simp
qed simp

text \<open>Reading back a table written over zeroed bytes gives the records written.\<close>

lemma read_table_writes:
  "list_all ok vs \<Longrightarrow> off + length vs * width \<le> length b \<Longrightarrow>
   slice b off (length vs * width) = zeros (length vs * width) \<Longrightarrow>
   read_table rd width (apply_writes b (table_writes wr width off vs)) off (length vs)
     = Some (Inr (map res vs))"
proof (induction vs arbitrary: b off)
  case (Cons v vs)
  let ?n = "length vs * width"
  define b1 where "b1 = apply_writes b (wr off v)"
  define b2 where "b2 = apply_writes b1 (table_writes wr width (off + width) vs)"
  have v: "writes_in off (off + width) (wr off v)" and vs: "list_all ok vs"
    using Cons.prems wr_in by auto
  have bounds: "off + width + ?n \<le> length b" "length b1 = length b"
    using Cons.prems(2) length_apply_writes [OF v, of b] by (auto simp: b1_def)
  have zero: "slice b off width = zeros width" "slice b (off + width) ?n = zeros ?n"
    using Cons.prems(3) slice_slice [of 0 width "length (v # vs) * width" b off]
      slice_slice [of width ?n "length (v # vs) * width" b off] by (simp_all add: slice_zeros)
  have "slice b1 (off + width) ?n = slice b (off + width) ?n"
    unfolding b1_def using bounds(1) by (intro slice_apply_writes_disjoint [OF v]) auto
  with zero have "slice b1 (off + width) ?n = zeros ?n" by simp
  then have rest: "read_table rd width b2 (off + width) (length vs) = Some (Inr (map res vs))"
    unfolding b2_def using Cons.IH vs bounds by auto
  have "slice b2 off width = slice b1 off width"
    unfolding b2_def using bounds
    by (intro slice_apply_writes_disjoint [OF table_writes_in [OF vs]]) auto
  moreover have "length b2 = length b"
    unfolding b2_def using bounds by (auto intro!: trans [OF length_apply_writes [OF table_writes_in [OF vs]]])
  ultimately have "rd b2 off = rd b1 off"
    using bounds by (intro rd_cong) auto
  also have "rd b1 off = Some (Inr (res v))"
    unfolding b1_def using Cons.prems bounds zero by (intro rd_wr) auto
  finally show ?case using rest by (simp add: b1_def b2_def)
qed simp

end

section \<open>Address ranges\<close>

text \<open>The addresses of the range of \<open>n\<close> bytes at \<open>a\<close>, as mathematical integers.\<close>

definition addresses :: "u64 \<Rightarrow> u64 \<Rightarrow> nat set" where
  "addresses a n = {unat a ..< unat a + unat n}"

text \<open>The range ends at or below \<open>UINT64_MAX\<close>, so that \<open>base + length\<close> does not wrap.\<close>

definition no_wrap :: "u64 \<Rightarrow> u64 \<Rightarrow> bool" where
  "no_wrap a n \<longleftrightarrow> unat a + unat n < 2 ^ 64"

lemma unat_u64_lt: "unat (x :: u64) < 2 ^ 64"
  using unsigned_less [of x] by simp

lemma unat_u32_lt: "unat (x :: u32) < 2 ^ 32"
  using unsigned_less [of x] by simp

lemma le_max_minus_iff: "(a :: u64) \<le> (-1) - n \<longleftrightarrow> no_wrap a n"
proof -
  have "unat ((-1 :: u64) - n) = unat (-1 :: u64) - unat n"
    by (rule unat_sub) simp
  moreover have "unat (-1 :: u64) = 2 ^ 64 - 1"
    by (simp add: unsigned_minus_1_eq_mask mask_eq_exp_minus_1)
  ultimately show ?thesis
    using unat_u64_lt [of n] by (auto simp: word_le_nat_alt no_wrap_def)
qed

lemma no_wrap_unat: "no_wrap a n \<Longrightarrow> unat (a + n) = unat a + unat n"
  by (simp add: no_wrap_def unat_word_ariths)

lemma overlap_iff:
  assumes "no_wrap a n" "no_wrap b m" "n \<noteq> 0" "m \<noteq> 0"
  shows "a < b + m \<and> b < a + n \<longleftrightarrow> addresses a n \<inter> addresses b m \<noteq> {}"
proof -
  have "0 < unat n" "0 < unat m"
    using assms by (simp_all add: unat_gt_0)
  then have "addresses a n \<inter> addresses b m \<noteq> {} \<longleftrightarrow>
      unat a < unat b + unat m \<and> unat b < unat a + unat n"
    by (auto simp: addresses_def)
  then show ?thesis
    using assms by (simp add: word_less_nat_alt no_wrap_unat)
qed

lemma inside_iff:
  assumes "no_wrap a n" "no_wrap b m" "n \<noteq> 0"
  shows "b \<le> a \<and> a + n \<le> b + m \<longleftrightarrow> addresses a n \<subseteq> addresses b m"
proof -
  have "0 < unat n" using assms by (simp add: unat_gt_0)
  then show ?thesis
    using assms by (auto simp: addresses_def word_le_nat_alt no_wrap_unat)
qed

section \<open>Binary search\<close>

text \<open>
  The search loop shared by the lookups of the project. \<open>key\<close> reads the key at an index
  and may fail, which ends the search; \<open>None\<close> is the sources' \<open>SIZE_MAX\<close>.
\<close>

function bsearch :: "(nat \<Rightarrow> 'k::linorder option) \<Rightarrow> 'k \<Rightarrow> nat \<Rightarrow> nat \<Rightarrow> nat option" where
  "bsearch key k left right =
     (if left < right then
        let middle = left + (right - left) div 2 in
        (case key middle of
           None \<Rightarrow> None
         | Some x \<Rightarrow>
             if x = k then Some middle
             else if x < k then bsearch key k (middle + 1) right
             else bsearch key k left middle)
      else None)"
  by pat_completeness auto
termination
  by (relation "measure (\<lambda>(key, k, left, right). right - left)") auto

declare bsearch.simps [simp del]

lemma bsearch_step:
  assumes "left < right" "key (left + (right - left) div 2) = Some x"
  shows "bsearch key k left right =
    (if x = k then Some (left + (right - left) div 2)
     else if x < k then bsearch key k (left + (right - left) div 2 + 1) right
     else bsearch key k left (left + (right - left) div 2))"
  using assms by (simp add: bsearch.simps [of key k left right] Let_def)

lemma bsearch_Some_step:
  assumes "bsearch key k left right = Some i"
  obtains x where "left < right" "key (left + (right - left) div 2) = Some x"
  using assms
  by (auto simp: bsearch.simps [of key k left right] Let_def split: if_splits option.splits)

lemma bsearch_sound:
  "bsearch key k left right = Some i \<Longrightarrow> left \<le> i \<and> i < right \<and> key i = Some k"
proof (induction key k left right rule: bsearch.induct)
  case (1 key k left right)
  let ?m = "left + (right - left) div 2"
  from "1.prems" obtain x where lt: "left < right" and x: "key ?m = Some x"
    by (rule bsearch_Some_step)
  note step = bsearch_step [of left right key x k, OF lt x]
  consider "x = k" | "x \<noteq> k" "x < k" | "x \<noteq> k" "\<not> x < k" by blast
  then show ?case
  proof cases
    case 1
    then show ?thesis using "1.prems" step lt x by auto
  next
    case 2
    then have "?m + 1 \<le> i \<and> i < right \<and> key i = Some k"
      using "1.IH"(1) [OF lt refl x] "1.prems" step by presburger
    then show ?thesis by simp
  next
    case 3
    then have "left \<le> i \<and> i < ?m \<and> key i = Some k"
      using "1.IH"(2) [OF lt refl x] "1.prems" step by presburger
    moreover have "?m < right" using lt by auto
    ultimately show ?thesis by linarith
  qed
qed

text \<open>On strictly increasing keys the search finds every key that is there.\<close>

lemma bsearch_complete:
  assumes mono: "\<And>i j. i < j \<Longrightarrow> j < n \<Longrightarrow> f i < f j"
    and key: "\<And>i. i < n \<Longrightarrow> key i = Some (f i)"
  shows "right \<le> n \<Longrightarrow> left \<le> i \<Longrightarrow> i < right \<Longrightarrow> bsearch key (f i) left right = Some i"
proof (induction "right - left" arbitrary: left right rule: less_induct)
  case less
  let ?m = "left + (right - left) div 2"
  have lt: "left < right" and m: "left \<le> ?m" "?m < right" using less.prems by auto
  then have x: "key ?m = Some (f ?m)" using less.prems key by simp
  note step = bsearch_step [of left right key "f ?m" "f i", OF lt x]
  consider "?m = i" | "?m < i" | "i < ?m" by linarith
  then show ?case
  proof cases
    case 1
    then show ?thesis using step by simp
  next
    case 2
    then have "f ?m < f i" using mono less.prems by simp
    then have "bsearch key (f i) left right = bsearch key (f i) (?m + 1) right"
      using step by (simp add: less_imp_neq)
    also have "\<dots> = Some i" using less.prems 2 lt by (intro less.hyps) auto
    finally show ?thesis .
  next
    case 3
    then have "f i < f ?m" using mono less.prems m by simp
    then have "f ?m \<noteq> f i" "\<not> f ?m < f i" by auto
    then have "bsearch key (f i) left right = bsearch key (f i) left ?m"
      using step by (simp only: if_False)
    also have "\<dots> = Some i" using less.prems 3 lt m by (intro less.hyps) auto
    finally show ?thesis .
  qed
qed

end
