(* ===== verification/Protocol.thy ===== *)
theory Protocol
  imports Prelude
begin

text \<open>
  The transport protocol of \<open>protocol/src/protocol.c\<close> with the layout constants of
  \<open>protocol/generated/include/kobox2/protocol_layout.h\<close>: validation of a channel model
  (queues and shared regions), the codec of the channel header with its queue and region
  tables, and the codec of the message envelope.

  Arguments: \<open>outs\<close> says that every output pointer is non-NULL; a NULL input pointer is
  \<open>None\<close> or \<open>Null n\<close>. The outer option of a codec is \<open>None\<close> exactly for undefined
  behaviour (an access outside the buffer or a NULL dereference).
\<close>

section \<open>Data\<close>

datatype kb2_protocol_status =
    KB2_PROTOCOL_OK
  | KB2_PROTOCOL_INVALID_ARGUMENT
  | KB2_PROTOCOL_BUFFER_TOO_SMALL
  | KB2_PROTOCOL_OVERFLOW
  | KB2_PROTOCOL_MALFORMED
  | KB2_PROTOCOL_SCHEMA_MISMATCH

record kb2_protocol_channel =
  ch_feature_bits :: u64
  ch_channel_id :: u64
  ch_generation :: u64
  ch_protocol_id :: u32
  ch_flags :: u32

record kb2_protocol_queue =
  q_queue_id :: u32
  q_role :: u32
  q_queue_size :: u32
  q_flags :: u32
  q_descriptor_address :: u64
  q_available_address :: u64
  q_used_address :: u64
  q_available_notification_id :: u32
  q_used_notification_id :: u32
  q_max_chain_length :: u32
  q_max_indirect_length :: u32
  q_max_outstanding :: u32

record kb2_protocol_region =
  rg_region_id :: u32
  rg_rights :: u32
  rg_transport_base :: u64
  rg_length :: u64

record kb2_protocol_message_envelope =
  env_protocol_id :: u32
  env_opcode :: u32
  env_flags :: u32
  env_generation :: u64
  env_correlation_id :: u64
  env_payload_length :: u32

abbreviation (input) KB2_PROTOCOL_MIN_QUEUES :: nat where "KB2_PROTOCOL_MIN_QUEUES \<equiv> 1"
abbreviation (input) KB2_PROTOCOL_MAX_QUEUES :: nat where "KB2_PROTOCOL_MAX_QUEUES \<equiv> 1024"
abbreviation (input) KB2_PROTOCOL_MAX_REGIONS :: nat where "KB2_PROTOCOL_MAX_REGIONS \<equiv> 1024"
abbreviation (input) KB2_PROTOCOL_QUEUE_SIZE_MIN :: u32 where "KB2_PROTOCOL_QUEUE_SIZE_MIN \<equiv> 1"
abbreviation (input) KB2_PROTOCOL_QUEUE_SIZE_MAX :: u32 where "KB2_PROTOCOL_QUEUE_SIZE_MAX \<equiv> 32768"
abbreviation (input) KB2_PROTOCOL_TRANSPORT_FEATURES_REQUIRED :: u64 where
  "KB2_PROTOCOL_TRANSPORT_FEATURES_REQUIRED \<equiv> 805306368"
abbreviation (input) KB2_PROTOCOL_CHANNEL_FLAG_MANAGEMENT :: u32 where
  "KB2_PROTOCOL_CHANNEL_FLAG_MANAGEMENT \<equiv> 1"
abbreviation (input) KB2_PROTOCOL_CHANNEL_FLAG_DATA :: u32 where "KB2_PROTOCOL_CHANNEL_FLAG_DATA \<equiv> 2"
abbreviation (input) KB2_PROTOCOL_QUEUE_ROLE_EVENT :: u32 where "KB2_PROTOCOL_QUEUE_ROLE_EVENT \<equiv> 1"
abbreviation (input) KB2_PROTOCOL_QUEUE_ROLE_REQUEST :: u32 where "KB2_PROTOCOL_QUEUE_ROLE_REQUEST \<equiv> 2"
abbreviation (input) KB2_PROTOCOL_CHANNEL_REQUEST_QUEUES_MIN :: nat where
  "KB2_PROTOCOL_CHANNEL_REQUEST_QUEUES_MIN \<equiv> 1"
abbreviation (input) KB2_PROTOCOL_CHANNEL_EVENT_QUEUES_MAX :: nat where
  "KB2_PROTOCOL_CHANNEL_EVENT_QUEUES_MAX \<equiv> 1"
abbreviation (input) KB2_PROTOCOL_REGION_RIGHT_READ :: u32 where "KB2_PROTOCOL_REGION_RIGHT_READ \<equiv> 1"
abbreviation (input) KB2_PROTOCOL_REGION_RIGHT_WRITE :: u32 where "KB2_PROTOCOL_REGION_RIGHT_WRITE \<equiv> 2"

definition kb2_protocol_abi_identity :: bytes where
  "kb2_protocol_abi_identity = [0x64, 0x65, 0x76, 0x00]"

definition kb2_protocol_schema_digest :: bytes where
  "kb2_protocol_schema_digest =
    [0xf8, 0x55, 0x61, 0x67, 0x8b, 0x4a, 0x58, 0x93,
     0x61, 0xae, 0xb4, 0xd4, 0x29, 0x31, 0x21, 0x7c,
     0x2c, 0x7c, 0x58, 0xdc, 0xb3, 0x0a, 0xf4, 0xca,
     0xc8, 0xae, 0x74, 0x15, 0xb0, 0xb1, 0xc4, 0x23]"

section \<open>Validation of a channel model\<close>

definition kb2_size_add_multiply :: "nat \<Rightarrow> nat \<Rightarrow> nat \<Rightarrow> nat option" where
  "kb2_size_add_multiply base count width =
     (if count \<noteq> 0 \<and> width > (SIZE_MAX - base) div count then None
      else Some (base + count * width))"

definition kb2_u64_range_valid :: "u64 \<Rightarrow> u64 \<Rightarrow> bool" where
  "kb2_u64_range_valid base len \<longleftrightarrow> len \<noteq> 0 \<and> base \<le> (-1) - len"

definition kb2_ranges_overlap :: "u64 \<Rightarrow> u64 \<Rightarrow> u64 \<Rightarrow> u64 \<Rightarrow> bool" where
  "kb2_ranges_overlap left_base left_length right_base right_length \<longleftrightarrow>
     left_base < right_base + right_length \<and> right_base < left_base + left_length"

definition kb2_range_has_rights :: "u64 \<Rightarrow> u64 \<Rightarrow> u32 \<Rightarrow> kb2_protocol_region list \<Rightarrow> bool" where
  "kb2_range_has_rights base len required_rights regions \<longleftrightarrow>
     kb2_u64_range_valid base len \<and>
     list_ex (\<lambda>region. (rg_rights region AND required_rights) = required_rights \<and>
        rg_transport_base region \<le> base \<and>
        base + len \<le> rg_transport_base region + rg_length region) regions"

definition kb2_queue_range_length :: "kb2_protocol_queue \<Rightarrow> nat \<Rightarrow> u64" where
  "kb2_queue_range_length queue range_index =
     (if range_index = 0 then ucast (q_queue_size queue) * 16
      else if range_index = 1 then 6 + ucast (q_queue_size queue) * 2
      else if range_index = 2 then 6 + ucast (q_queue_size queue) * 8
      else 0)"

definition kb2_queue_range_base :: "kb2_protocol_queue \<Rightarrow> nat \<Rightarrow> u64" where
  "kb2_queue_range_base queue range_index =
     (if range_index = 0 then q_descriptor_address queue
      else if range_index = 1 then q_available_address queue
      else if range_index = 2 then q_used_address queue
      else 0)"

definition kb2_region_conflict :: "kb2_protocol_region \<Rightarrow> kb2_protocol_region \<Rightarrow> bool" where
  "kb2_region_conflict region other \<longleftrightarrow>
     rg_region_id region = rg_region_id other \<or>
     kb2_ranges_overlap (rg_transport_base region) (rg_length region)
       (rg_transport_base other) (rg_length other)"

definition kb2_validate_regions :: "kb2_protocol_region list \<Rightarrow> bool" where
  "kb2_validate_regions regions \<longleftrightarrow>
     (let known_rights = KB2_PROTOCOL_REGION_RIGHT_READ OR KB2_PROTOCOL_REGION_RIGHT_WRITE in
      list_all (\<lambda>left. let region = regions ! left in
        rg_region_id region \<noteq> 0 \<and> rg_rights region \<noteq> 0 \<and>
        (rg_rights region AND NOT known_rights) = 0 \<and>
        kb2_u64_range_valid (rg_transport_base region) (rg_length region) \<and>
        list_all (\<lambda>right. \<not> kb2_region_conflict region (regions ! right)) [0..<left])
      [0..<length regions])"

definition kb2_queue_identity_unique :: "kb2_protocol_queue list \<Rightarrow> nat \<Rightarrow> bool" where
  "kb2_queue_identity_unique queues index \<longleftrightarrow>
     list_all (\<lambda>previous.
        \<not> (q_queue_id (queues ! index) = q_queue_id (queues ! previous) \<or>
           q_available_notification_id (queues ! index) = q_available_notification_id (queues ! previous) \<or>
           q_available_notification_id (queues ! index) = q_used_notification_id (queues ! previous) \<or>
           q_used_notification_id (queues ! index) = q_available_notification_id (queues ! previous) \<or>
           q_used_notification_id (queues ! index) = q_used_notification_id (queues ! previous)))
       [0..<index] \<and>
     q_available_notification_id (queues ! index) \<noteq> q_used_notification_id (queues ! index)"

definition kb2_queue_ranges_unique :: "kb2_protocol_queue list \<Rightarrow> nat \<Rightarrow> bool" where
  "kb2_queue_ranges_unique queues index \<longleftrightarrow>
     list_all (\<lambda>current_range.
       list_all (\<lambda>previous.
         list_all (\<lambda>previous_range.
             \<not> kb2_ranges_overlap
                 (kb2_queue_range_base (queues ! index) current_range)
                 (kb2_queue_range_length (queues ! index) current_range)
                 (kb2_queue_range_base (queues ! previous) previous_range)
                 (kb2_queue_range_length (queues ! previous) previous_range))
           [0..<(if previous = index then current_range else 3)])
         [0..<index + 1])
       [0..<3]"

definition kb2_queue_valid_at ::
    "kb2_protocol_queue list \<Rightarrow> kb2_protocol_region list \<Rightarrow> nat \<Rightarrow> bool" where
  "kb2_queue_valid_at queues regions index \<longleftrightarrow>
     (let queue = queues ! index;
          ring_rights = KB2_PROTOCOL_REGION_RIGHT_READ OR KB2_PROTOCOL_REGION_RIGHT_WRITE in
      q_queue_id queue \<noteq> 0 \<and> q_flags queue = 0 \<and>
      (q_role queue = KB2_PROTOCOL_QUEUE_ROLE_EVENT \<or>
       q_role queue = KB2_PROTOCOL_QUEUE_ROLE_REQUEST) \<and>
      KB2_PROTOCOL_QUEUE_SIZE_MIN \<le> q_queue_size queue \<and>
      q_queue_size queue \<le> KB2_PROTOCOL_QUEUE_SIZE_MAX \<and>
      (q_queue_size queue AND (q_queue_size queue - 1)) = 0 \<and>
      q_available_notification_id queue \<noteq> 0 \<and> q_used_notification_id queue \<noteq> 0 \<and>
      q_max_chain_length queue \<noteq> 0 \<and> q_max_chain_length queue \<le> q_queue_size queue \<and>
      q_max_indirect_length queue \<noteq> 0 \<and>
      q_max_indirect_length queue \<le> KB2_PROTOCOL_QUEUE_SIZE_MAX \<and>
      q_max_outstanding queue \<noteq> 0 \<and> q_max_outstanding queue \<le> q_queue_size queue \<and>
      kb2_queue_identity_unique queues index \<and>
      (q_descriptor_address queue AND 15) = 0 \<and> (q_available_address queue AND 1) = 0 \<and>
      (q_used_address queue AND 3) = 0 \<and>
      kb2_range_has_rights (q_descriptor_address queue) (kb2_queue_range_length queue 0)
        ring_rights regions \<and>
      kb2_range_has_rights (q_available_address queue) (kb2_queue_range_length queue 1)
        ring_rights regions \<and>
      kb2_range_has_rights (q_used_address queue) (kb2_queue_range_length queue 2)
        ring_rights regions \<and>
      kb2_queue_ranges_unique queues index)"

definition kb2_validate_queues ::
    "kb2_protocol_queue list \<Rightarrow> kb2_protocol_region list \<Rightarrow> bool" where
  "kb2_validate_queues queues regions \<longleftrightarrow>
     list_all (kb2_queue_valid_at queues regions) [0..<length queues] \<and>
     length (filter (\<lambda>q. q_role q = KB2_PROTOCOL_QUEUE_ROLE_EVENT) queues)
       \<le> KB2_PROTOCOL_CHANNEL_EVENT_QUEUES_MAX \<and>
     length (filter (\<lambda>q. q_role q \<noteq> KB2_PROTOCOL_QUEUE_ROLE_EVENT) queues)
       \<ge> KB2_PROTOCOL_CHANNEL_REQUEST_QUEUES_MIN"

fun kb2_validate_channel_model ::
    "kb2_protocol_channel option \<Rightarrow> kb2_protocol_queue carray \<Rightarrow> kb2_protocol_region carray \<Rightarrow> bool" where
  "kb2_validate_channel_model (Some channel) (Arr queues) (Arr regions) \<longleftrightarrow>
     KB2_PROTOCOL_MIN_QUEUES \<le> length queues \<and> length queues \<le> KB2_PROTOCOL_MAX_QUEUES \<and>
     length regions \<noteq> 0 \<and> length regions \<le> KB2_PROTOCOL_MAX_REGIONS \<and>
     ch_feature_bits channel = KB2_PROTOCOL_TRANSPORT_FEATURES_REQUIRED \<and>
     ch_channel_id channel \<noteq> 0 \<and> ch_generation channel \<noteq> 0 \<and> ch_protocol_id channel \<noteq> 0 \<and>
     (ch_flags channel = KB2_PROTOCOL_CHANNEL_FLAG_MANAGEMENT \<or>
      ch_flags channel = KB2_PROTOCOL_CHANNEL_FLAG_DATA) \<and>
     kb2_validate_regions regions \<and> kb2_validate_queues queues regions"
| "kb2_validate_channel_model _ _ _ \<longleftrightarrow> False"

definition kb2_protocol_channel_validate ::
    "kb2_protocol_channel option \<Rightarrow> kb2_protocol_queue carray \<Rightarrow> kb2_protocol_region carray
     \<Rightarrow> kb2_protocol_status" where
  "kb2_protocol_channel_validate channel queues regions =
     (if kb2_validate_channel_model channel queues regions
      then KB2_PROTOCOL_OK else KB2_PROTOCOL_MALFORMED)"

definition kb2_protocol_copy_schema_digest :: "bool \<Rightarrow> nat \<Rightarrow> kb2_protocol_status \<times> bytes option" where
  "kb2_protocol_copy_schema_digest outs digest_size =
     (if \<not> outs \<or> digest_size \<noteq> length kb2_protocol_schema_digest
      then (KB2_PROTOCOL_INVALID_ARGUMENT, None)
      else (KB2_PROTOCOL_OK, Some kb2_protocol_schema_digest))"

section \<open>Channel codec\<close>

definition kb2_protocol_channel_encoded_size ::
    "nat \<Rightarrow> nat \<Rightarrow> bool \<Rightarrow> kb2_protocol_status + nat" where
  "kb2_protocol_channel_encoded_size queue_count region_count size_out =
     (if \<not> size_out \<or> queue_count < KB2_PROTOCOL_MIN_QUEUES \<or>
         queue_count > KB2_PROTOCOL_MAX_QUEUES \<or>
         region_count = 0 \<or> region_count > KB2_PROTOCOL_MAX_REGIONS
      then Inl KB2_PROTOCOL_INVALID_ARGUMENT
      else case Option.bind (kb2_size_add_multiply 96 queue_count 64)
                  (\<lambda>sz. kb2_size_add_multiply sz region_count 32) of
        None \<Rightarrow> Inl KB2_PROTOCOL_OVERFLOW
      | Some sz \<Rightarrow> if sz > UINT32_MAX then Inl KB2_PROTOCOL_OVERFLOW else Inr sz)"

definition kb2_encode_queue :: "nat \<Rightarrow> kb2_protocol_queue \<Rightarrow> writes" where
  "kb2_encode_queue destination queue =
    [(destination + 0, le32 (q_queue_id queue)),
     (destination + 4, le32 (q_role queue)),
     (destination + 8, le32 (q_queue_size queue)),
     (destination + 12, le32 (q_flags queue)),
     (destination + 16, le64 (q_descriptor_address queue)),
     (destination + 24, le64 (q_available_address queue)),
     (destination + 32, le64 (q_used_address queue)),
     (destination + 40, le32 (q_available_notification_id queue)),
     (destination + 44, le32 (q_used_notification_id queue)),
     (destination + 48, le32 (q_max_chain_length queue)),
     (destination + 52, le32 (q_max_indirect_length queue)),
     (destination + 56, le32 (q_max_outstanding queue))]"

definition kb2_encode_region :: "nat \<Rightarrow> kb2_protocol_region \<Rightarrow> writes" where
  "kb2_encode_region destination region =
    [(destination + 0, le32 (rg_region_id region)),
     (destination + 4, le32 (rg_rights region)),
     (destination + 8, le64 (rg_transport_base region)),
     (destination + 16, le64 (rg_length region))]"

text \<open>The stores of the channel header, after the \<open>memset\<close> of the whole encoding.\<close>

definition kb2_encode_channel_header ::
    "nat \<Rightarrow> kb2_protocol_channel \<Rightarrow> nat \<Rightarrow> nat \<Rightarrow> writes" where
  "kb2_encode_channel_header encoded_size channel queue_count region_count =
    [(0, le32 (of_nat encoded_size)),
     (4, kb2_protocol_abi_identity),
     (8, kb2_protocol_schema_digest),
     (40, le64 (ch_feature_bits channel)),
     (48, le64 (ch_channel_id channel)),
     (56, le64 (ch_generation channel)),
     (64, le32 (ch_protocol_id channel)),
     (68, le32 (ch_flags channel)),
     (72, le32 (of_nat queue_count)),
     (76, le32 (of_nat region_count)),
     (80, le32 (of_nat 96)),
     (84, le32 (of_nat (96 + queue_count * 64)))]"

definition kb2_protocol_channel_encode ::
    "bytes option \<Rightarrow> bool \<Rightarrow> kb2_protocol_channel option \<Rightarrow> kb2_protocol_queue carray
     \<Rightarrow> kb2_protocol_region carray
     \<Rightarrow> (kb2_protocol_status \<times> nat option \<times> bytes option) option" where
  "kb2_protocol_channel_encode buffer encoded_size_out channel queues regions =
     (case buffer of
        None \<Rightarrow> Some (KB2_PROTOCOL_INVALID_ARGUMENT, None, buffer)
      | Some b \<Rightarrow>
        if \<not> encoded_size_out then Some (KB2_PROTOCOL_INVALID_ARGUMENT, None, buffer)
        else (case kb2_protocol_channel_encoded_size (carray_count queues) (carray_count regions) True of
          Inl status \<Rightarrow> Some (status, None, buffer)
        | Inr encoded_size \<Rightarrow>
          if length b < encoded_size then Some (KB2_PROTOCOL_BUFFER_TOO_SMALL, Some encoded_size, buffer)
          else if \<not> kb2_validate_channel_model channel queues regions
          then Some (KB2_PROTOCOL_MALFORMED, Some encoded_size, buffer)
          else (case (channel, queues, regions) of
            (Some ch, Arr qs, Arr rs) \<Rightarrow>
              do { b' \<leftarrow> store_all b ((0, zeros encoded_size) #
                     kb2_encode_channel_header encoded_size ch (length qs) (length rs) @
                     table_writes kb2_encode_queue 64 96 qs @
                     table_writes kb2_encode_region 32 (96 + length qs * 64) rs);
                   Some (KB2_PROTOCOL_OK, Some encoded_size, Some b') }
          | _ \<Rightarrow> None)))"

definition kb2_decode_queue :: "bytes \<Rightarrow> nat \<Rightarrow> kb2_protocol_queue option" where
  "kb2_decode_queue b source = do {
     queue_id \<leftarrow> load_u32 b (source + 0);
     role \<leftarrow> load_u32 b (source + 4);
     queue_size \<leftarrow> load_u32 b (source + 8);
     flags \<leftarrow> load_u32 b (source + 12);
     descriptor_address \<leftarrow> load_u64 b (source + 16);
     available_address \<leftarrow> load_u64 b (source + 24);
     used_address \<leftarrow> load_u64 b (source + 32);
     available_notification_id \<leftarrow> load_u32 b (source + 40);
     used_notification_id \<leftarrow> load_u32 b (source + 44);
     max_chain_length \<leftarrow> load_u32 b (source + 48);
     max_indirect_length \<leftarrow> load_u32 b (source + 52);
     max_outstanding \<leftarrow> load_u32 b (source + 56);
     Some \<lparr>q_queue_id = queue_id, q_role = role, q_queue_size = queue_size, q_flags = flags,
       q_descriptor_address = descriptor_address, q_available_address = available_address,
       q_used_address = used_address,
       q_available_notification_id = available_notification_id,
       q_used_notification_id = used_notification_id,
       q_max_chain_length = max_chain_length, q_max_indirect_length = max_indirect_length,
       q_max_outstanding = max_outstanding\<rparr> }"

definition kb2_decode_region :: "bytes \<Rightarrow> nat \<Rightarrow> kb2_protocol_region option" where
  "kb2_decode_region b source = do {
     region_id \<leftarrow> load_u32 b (source + 0);
     rights \<leftarrow> load_u32 b (source + 4);
     transport_base \<leftarrow> load_u64 b (source + 8);
     len \<leftarrow> load_u64 b (source + 16);
     Some \<lparr>rg_region_id = region_id, rg_rights = rights, rg_transport_base = transport_base,
       rg_length = len\<rparr> }"

text \<open>
  The bodies of the two table loops of the decoder; \<open>Inl\<close> is the loop's
  \<open>return KB2_PROTOCOL_MALFORMED\<close> for a reserved field that is not zero.
\<close>

definition kb2_decode_queue_row ::
    "bytes \<Rightarrow> nat \<Rightarrow> (kb2_protocol_status + kb2_protocol_queue) option" where
  "kb2_decode_queue_row b source = do {
     reserved \<leftarrow> load_u32 b (source + 60);
     if reserved \<noteq> 0 then Some (Inl KB2_PROTOCOL_MALFORMED)
     else do { queue \<leftarrow> kb2_decode_queue b source; Some (Inr queue) } }"

definition kb2_decode_region_row ::
    "bytes \<Rightarrow> nat \<Rightarrow> (kb2_protocol_status + kb2_protocol_region) option" where
  "kb2_decode_region_row b source = do {
     reserved \<leftarrow> load_u64 b (source + 24);
     if reserved \<noteq> 0 then Some (Inl KB2_PROTOCOL_MALFORMED)
     else do { region \<leftarrow> kb2_decode_region b source; Some (Inr region) } }"

text \<open>
  The decoder. The second component is what \<open>*queue_count_out\<close> and \<open>*region_count_out\<close>
  receive, the third the complete model; the partial contents of the output arrays after a
  failure are not part of the contract and not represented.
\<close>

definition kb2_protocol_channel_decode ::
    "bytes option \<Rightarrow> bool \<Rightarrow> nat \<Rightarrow> nat \<Rightarrow>
     (kb2_protocol_status \<times> (nat \<times> nat) option \<times>
      (kb2_protocol_channel \<times> kb2_protocol_queue list \<times> kb2_protocol_region list) option) option" where
  "kb2_protocol_channel_decode buffer outs queue_capacity region_capacity =
     (case buffer of
        None \<Rightarrow> Some (KB2_PROTOCOL_INVALID_ARGUMENT, None, None)
      | Some b \<Rightarrow>
        if \<not> outs then Some (KB2_PROTOCOL_INVALID_ARGUMENT, None, None)
        else if length b < 96 then Some (KB2_PROTOCOL_BUFFER_TOO_SMALL, None, None)
        else do {
          abi_identity \<leftarrow> load_bytes b 4 4;
          schema_digest \<leftarrow> load_bytes b 8 32;
          if abi_identity \<noteq> kb2_protocol_abi_identity \<or> schema_digest \<noteq> kb2_protocol_schema_digest
          then Some (KB2_PROTOCOL_SCHEMA_MISMATCH, None, None)
          else do {
            reserved_0 \<leftarrow> load_u32 b 88;
            reserved_1 \<leftarrow> load_u32 b 92;
            if reserved_0 \<noteq> 0 \<or> reserved_1 \<noteq> 0 then Some (KB2_PROTOCOL_MALFORMED, None, None)
            else do {
              queue_count \<leftarrow> map_option unat (load_u32 b 72);
              region_count \<leftarrow> map_option unat (load_u32 b 76);
              case kb2_protocol_channel_encoded_size queue_count region_count True of
                Inl _ \<Rightarrow> Some (KB2_PROTOCOL_MALFORMED, Some (queue_count, region_count), None)
              | Inr expected_size \<Rightarrow> do {
                  queue_table_offset \<leftarrow> map_option unat (load_u32 b 80);
                  region_table_offset \<leftarrow> map_option unat (load_u32 b 84);
                  total_size \<leftarrow> map_option unat (load_u32 b 0);
                  if total_size \<noteq> expected_size \<or> queue_table_offset \<noteq> 96 \<or>
                     region_table_offset \<noteq> queue_table_offset + queue_count * 64
                  then Some (KB2_PROTOCOL_MALFORMED, Some (queue_count, region_count), None)
                  else if length b < expected_size \<or> queue_capacity < queue_count \<or>
                     region_capacity < region_count
                  then Some (KB2_PROTOCOL_BUFFER_TOO_SMALL, Some (queue_count, region_count), None)
                  else do {
                    feature_bits \<leftarrow> load_u64 b 40;
                    channel_id \<leftarrow> load_u64 b 48;
                    generation \<leftarrow> load_u64 b 56;
                    protocol_id \<leftarrow> load_u32 b 64;
                    flags \<leftarrow> load_u32 b 68;
                    queues \<leftarrow> read_table kb2_decode_queue_row 64 b queue_table_offset queue_count;
                    regions \<leftarrow> read_table kb2_decode_region_row 32 b region_table_offset region_count;
                    case (queues, regions) of
                      (Inr qs, Inr rs) \<Rightarrow>
                        let ch = \<lparr>ch_feature_bits = feature_bits, ch_channel_id = channel_id,
                          ch_generation = generation, ch_protocol_id = protocol_id,
                          ch_flags = flags\<rparr> in
                        if \<not> kb2_validate_channel_model (Some ch) (Arr qs) (Arr rs)
                        then Some (KB2_PROTOCOL_MALFORMED, Some (queue_count, region_count), None)
                        else Some (KB2_PROTOCOL_OK, Some (queue_count, region_count), Some (ch, qs, rs))
                    | (Inl status, _) \<Rightarrow> Some (status, Some (queue_count, region_count), None)
                    | (_, Inl status) \<Rightarrow> Some (status, Some (queue_count, region_count), None) } } } } })"

section \<open>Envelope codec\<close>

definition kb2_protocol_message_envelope_encode ::
    "bytes option \<Rightarrow> kb2_protocol_message_envelope option
     \<Rightarrow> (kb2_protocol_status \<times> bytes option) option" where
  "kb2_protocol_message_envelope_encode buffer envelope =
     (case (buffer, envelope) of
        (Some b, Some e) \<Rightarrow>
          if env_protocol_id e = 0 \<or> env_generation e = 0
          then Some (KB2_PROTOCOL_INVALID_ARGUMENT, buffer)
          else (case kb2_size_add_multiply 40 (unat (env_payload_length e)) 1 of
            None \<Rightarrow> Some (KB2_PROTOCOL_OVERFLOW, buffer)
          | Some total_size \<Rightarrow>
              if length b < total_size then Some (KB2_PROTOCOL_BUFFER_TOO_SMALL, buffer)
              else do {
                b' \<leftarrow> store_all b
                  [(0, zeros 40),
                   (0, le32 (env_protocol_id e)),
                   (4, kb2_protocol_abi_identity),
                   (8, le32 (env_opcode e)),
                   (12, le32 (env_flags e)),
                   (16, le64 (env_generation e)),
                   (24, le64 (env_correlation_id e)),
                   (32, le32 (env_payload_length e))];
                Some (KB2_PROTOCOL_OK, Some b') })
      | _ \<Rightarrow> Some (KB2_PROTOCOL_INVALID_ARGUMENT, buffer))"

definition kb2_protocol_message_envelope_decode ::
    "bytes option \<Rightarrow> bool
     \<Rightarrow> (kb2_protocol_status \<times> kb2_protocol_message_envelope option) option" where
  "kb2_protocol_message_envelope_decode buffer envelope_out =
     (case buffer of
        None \<Rightarrow> Some (KB2_PROTOCOL_INVALID_ARGUMENT, None)
      | Some b \<Rightarrow>
        if \<not> envelope_out then Some (KB2_PROTOCOL_INVALID_ARGUMENT, None)
        else if length b < 40 then Some (KB2_PROTOCOL_BUFFER_TOO_SMALL, None)
        else do {
          abi_identity \<leftarrow> load_bytes b 4 4;
          if abi_identity \<noteq> kb2_protocol_abi_identity
          then Some (KB2_PROTOCOL_SCHEMA_MISMATCH, None)
          else do {
            reserved \<leftarrow> load_u32 b 36;
            if reserved \<noteq> 0 then Some (KB2_PROTOCOL_MALFORMED, None)
            else do {
              protocol_id \<leftarrow> load_u32 b 0;
              opcode \<leftarrow> load_u32 b 8;
              flags \<leftarrow> load_u32 b 12;
              generation \<leftarrow> load_u64 b 16;
              correlation_id \<leftarrow> load_u64 b 24;
              payload_length \<leftarrow> load_u32 b 32;
              let e = \<lparr>env_protocol_id = protocol_id, env_opcode = opcode, env_flags = flags,
                env_generation = generation, env_correlation_id = correlation_id,
                env_payload_length = payload_length\<rparr> in
              if protocol_id = 0 \<or> generation = 0 then Some (KB2_PROTOCOL_MALFORMED, Some e)
              else (case kb2_size_add_multiply 40 (unat payload_length) 1 of
                None \<Rightarrow> Some (KB2_PROTOCOL_OVERFLOW, Some e)
              | Some total_size \<Rightarrow>
                  if length b < total_size then Some (KB2_PROTOCOL_BUFFER_TOO_SMALL, Some e)
                  else Some (KB2_PROTOCOL_OK, Some e)) } } })"

section \<open>The record codecs\<close>

lemma length_identity [simp]:
  "length kb2_protocol_abi_identity = 4" "length kb2_protocol_schema_digest = 32"
  by (simp_all add: kb2_protocol_abi_identity_def kb2_protocol_schema_digest_def)

lemma kb2_encode_queue_layout: "layout off (off + 64) (kb2_encode_queue off v)"
  by (simp add: layout_def kb2_encode_queue_def le32_def le64_def)

lemma kb2_encode_region_layout: "layout off (off + 32) (kb2_encode_region off v)"
  by (simp add: layout_def kb2_encode_region_def le32_def le64_def)

interpretation queue_record:
  wire_record 64 kb2_encode_queue kb2_decode_queue_row "\<lambda>q. q" "\<lambda>_. True"
proof unfold_locales
  fix off :: nat and v
  show "writes_in off (off + 64) (kb2_encode_queue off v)"
    by (rule layout_in [OF kb2_encode_queue_layout])
next
  fix off :: nat and v and b :: bytes
  assume "off + 64 \<le> length b" "slice b off 64 = zeros 64"
  then show "kb2_decode_queue_row (apply_writes b (kb2_encode_queue off v)) off = Some (Inr v)"
    using slice_of_zeros [of b off 64 60 4] load_layout [OF kb2_encode_queue_layout [of off v], of b]
      load_gap [OF kb2_encode_queue_layout [of off v], of b]
    by (simp add: kb2_decode_queue_row_def kb2_decode_queue_def kb2_encode_queue_def load_u32_in)
next
  fix off :: nat and b b' :: bytes
  assume "off + 64 \<le> length b" "off + 64 \<le> length b'" "slice b off 64 = slice b' off 64"
  then show "kb2_decode_queue_row b off = kb2_decode_queue_row b' off"
    by (simp add: kb2_decode_queue_row_def kb2_decode_queue_def wire slice_eq_inside
        slice_eq_inside0 [of b off 64 b'] cong: if_cong)
next
  fix off :: nat and b :: bytes
  assume "off + 64 \<le> length b"
  then show "kb2_decode_queue_row b off \<noteq> None"
    by (simp add: kb2_decode_queue_row_def kb2_decode_queue_def wire)
qed

interpretation region_record:
  wire_record 32 kb2_encode_region kb2_decode_region_row "\<lambda>r. r" "\<lambda>_. True"
proof unfold_locales
  fix off :: nat and v
  show "writes_in off (off + 32) (kb2_encode_region off v)"
    by (rule layout_in [OF kb2_encode_region_layout])
next
  fix off :: nat and v and b :: bytes
  assume "off + 32 \<le> length b" "slice b off 32 = zeros 32"
  then show "kb2_decode_region_row (apply_writes b (kb2_encode_region off v)) off = Some (Inr v)"
    using slice_of_zeros [of b off 32 24 8] load_layout [OF kb2_encode_region_layout [of off v], of b]
      load_gap [OF kb2_encode_region_layout [of off v], of b]
    by (simp add: kb2_decode_region_row_def kb2_decode_region_def kb2_encode_region_def load_u64_in)
next
  fix off :: nat and b b' :: bytes
  assume "off + 32 \<le> length b" "off + 32 \<le> length b'" "slice b off 32 = slice b' off 32"
  then show "kb2_decode_region_row b off = kb2_decode_region_row b' off"
    by (simp add: kb2_decode_region_row_def kb2_decode_region_def wire slice_eq_inside
        slice_eq_inside0 [of b off 32 b'] cong: if_cong)
next
  fix off :: nat and b :: bytes
  assume "off + 32 \<le> length b"
  then show "kb2_decode_region_row b off \<noteq> None"
    by (simp add: kb2_decode_region_row_def kb2_decode_region_def wire)
qed

section \<open>Sizes\<close>

lemma kb2_size_add_multiply_exact:
  "base \<le> SIZE_MAX \<Longrightarrow>
   kb2_size_add_multiply base count width =
     (if base + count * width \<le> SIZE_MAX then Some (base + count * width) else None)"
proof (cases "count = 0")
  case False
  then have "(SIZE_MAX - base) div count < width \<longleftrightarrow> SIZE_MAX - base < width * count"
    by (simp add: div_less_iff_less_mult)
  then show "base \<le> SIZE_MAX \<Longrightarrow> ?thesis"
    using False by (auto simp: kb2_size_add_multiply_def mult.commute)
qed (simp add: kb2_size_add_multiply_def)

lemma kb2_protocol_channel_encoded_size_eq:
  "kb2_protocol_channel_encoded_size qc rc True =
     (if 1 \<le> qc \<and> qc \<le> 1024 \<and> 1 \<le> rc \<and> rc \<le> 1024 then Inr (96 + qc * 64 + rc * 32)
      else Inl KB2_PROTOCOL_INVALID_ARGUMENT)"
  by (auto simp: kb2_protocol_channel_encoded_size_def kb2_size_add_multiply_exact
      SIZE_MAX_def UINT32_MAX_def)

lemma kb2_encode_channel_header_layout:
  "layout 0 96 (kb2_encode_channel_header n ch qc rc)"
  by (simp add: layout_def kb2_encode_channel_header_def le32_def le64_def
      kb2_protocol_abi_identity_def kb2_protocol_schema_digest_def)

text \<open>
  The bytes of an encoding in four steps: cleared, with the header, with the queue table and
  with the region table.
\<close>

definition encoding_size :: "kb2_protocol_queue list \<Rightarrow> kb2_protocol_region list \<Rightarrow> nat" where
  "encoding_size qs rs = 96 + length qs * 64 + length rs * 32"

definition image_0 :: "bytes \<Rightarrow> kb2_protocol_queue list \<Rightarrow> kb2_protocol_region list \<Rightarrow> bytes" where
  "image_0 b qs rs = put b 0 (zeros (encoding_size qs rs))"

definition image_1 :: "bytes \<Rightarrow> kb2_protocol_channel \<Rightarrow> kb2_protocol_queue list \<Rightarrow> kb2_protocol_region list \<Rightarrow> bytes" where
  "image_1 b ch qs rs = apply_writes (image_0 b qs rs)
     (kb2_encode_channel_header (encoding_size qs rs) ch (length qs) (length rs))"

definition image_2 :: "bytes \<Rightarrow> kb2_protocol_channel \<Rightarrow> kb2_protocol_queue list \<Rightarrow> kb2_protocol_region list \<Rightarrow> bytes" where
  "image_2 b ch qs rs = apply_writes (image_1 b ch qs rs) (table_writes kb2_encode_queue 64 96 qs)"

definition image_3 :: "bytes \<Rightarrow> kb2_protocol_channel \<Rightarrow> kb2_protocol_queue list \<Rightarrow> kb2_protocol_region list \<Rightarrow> bytes" where
  "image_3 b ch qs rs = apply_writes (image_2 b ch qs rs)
     (table_writes kb2_encode_region 32 (96 + length qs * 64) rs)"

lemmas queue_table_in = queue_record.table_writes_in [OF list_all_True]
lemmas region_table_in = region_record.table_writes_in [OF list_all_True]

lemma length_image:
  assumes "encoding_size qs rs \<le> length b"
  shows "length (image_0 b qs rs) = length b" "length (image_1 b ch qs rs) = length b"
    "length (image_2 b ch qs rs) = length b" "length (image_3 b ch qs rs) = length b"
proof -
  show 0: "length (image_0 b qs rs) = length b"
    using assms by (simp add: image_0_def)
  show 1: "length (image_1 b ch qs rs) = length b"
    unfolding image_1_def using assms 0
    by (subst length_apply_writes [OF layout_in [OF kb2_encode_channel_header_layout]])
      (auto simp: encoding_size_def)
  show 2: "length (image_2 b ch qs rs) = length b"
    unfolding image_2_def using assms 1
    by (subst length_apply_writes [OF queue_table_in]) (auto simp: encoding_size_def)
  show "length (image_3 b ch qs rs) = length b"
    unfolding image_3_def using assms 2
    by (subst length_apply_writes [OF region_table_in]) (auto simp: encoding_size_def)
qed

lemma channel_writes_in:
  "writes_in 0 (encoding_size qs rs) ((0, zeros (encoding_size qs rs)) #
     kb2_encode_channel_header (encoding_size qs rs) ch (length qs) (length rs) @
     table_writes kb2_encode_queue 64 96 qs @
     table_writes kb2_encode_region 32 (96 + length qs * 64) rs)"
  using writes_in_mono [OF layout_in [OF kb2_encode_channel_header_layout]]
    writes_in_mono [OF queue_table_in] writes_in_mono [OF region_table_in]
  by (simp add: encoding_size_def)

lemma channel_store:
  assumes "encoding_size qs rs \<le> length b"
  shows "store_all b ((0, zeros (encoding_size qs rs)) #
     kb2_encode_channel_header (encoding_size qs rs) ch (length qs) (length rs) @
     table_writes kb2_encode_queue 64 96 qs @
     table_writes kb2_encode_region 32 (96 + length qs * 64) rs) = Some (image_3 b ch qs rs)"
  using store_all_in [OF channel_writes_in assms]
  by (simp add: apply_writes.simps image_0_def image_1_def image_2_def image_3_def)

lemma drop_image:
  assumes "encoding_size qs rs \<le> length b"
  shows "drop (encoding_size qs rs) (image_3 b ch qs rs) = drop (encoding_size qs rs) b"
  using drop_apply_writes [OF channel_writes_in assms, of ch]
  by (simp add: apply_writes.simps image_0_def image_1_def image_2_def image_3_def)

lemma load_image:
  assumes "encoding_size qs rs \<le> length b"
  shows "off + n \<le> 96 \<Longrightarrow> load_bytes (image_3 b ch qs rs) off n = load_bytes (image_1 b ch qs rs) off n"
    "off + 4 \<le> 96 \<Longrightarrow> load_u32 (image_3 b ch qs rs) off = load_u32 (image_1 b ch qs rs) off"
    "off + 8 \<le> 96 \<Longrightarrow> load_u64 (image_3 b ch qs rs) off = load_u64 (image_1 b ch qs rs) off"
proof -
  have *: "load_bytes (image_3 b ch qs rs) off n = load_bytes (image_1 b ch qs rs) off n"
    if "off + n \<le> 96" for off n
  proof -
    have "load_bytes (image_3 b ch qs rs) off n = load_bytes (image_2 b ch qs rs) off n"
      unfolding image_3_def using that assms length_image [OF assms]
      by (intro load_bytes_disjoint [OF region_table_in]) (auto simp: encoding_size_def)
    also have "\<dots> = load_bytes (image_1 b ch qs rs) off n"
      unfolding image_2_def using that assms length_image [OF assms]
      by (intro load_bytes_disjoint [OF queue_table_in]) (auto simp: encoding_size_def)
    finally show ?thesis .
  qed
  from * show "off + n \<le> 96 \<Longrightarrow>
    load_bytes (image_3 b ch qs rs) off n = load_bytes (image_1 b ch qs rs) off n" .
  from * show "off + 4 \<le> 96 \<Longrightarrow> load_u32 (image_3 b ch qs rs) off = load_u32 (image_1 b ch qs rs) off"
    by (simp add: load_u32_def)
  from * show "off + 8 \<le> 96 \<Longrightarrow> load_u64 (image_3 b ch qs rs) off = load_u64 (image_1 b ch qs rs) off"
    by (simp add: load_u64_def)
qed

lemma load_header:
  assumes "encoding_size qs rs \<le> length b"
  shows "load_u32 (image_1 b ch qs rs) 0 = Some (of_nat (encoding_size qs rs))"
    "load_bytes (image_1 b ch qs rs) 4 4 = Some kb2_protocol_abi_identity"
    "load_bytes (image_1 b ch qs rs) 8 32 = Some kb2_protocol_schema_digest"
    "load_u64 (image_1 b ch qs rs) 40 = Some (ch_feature_bits ch)"
    "load_u64 (image_1 b ch qs rs) 48 = Some (ch_channel_id ch)"
    "load_u64 (image_1 b ch qs rs) 56 = Some (ch_generation ch)"
    "load_u32 (image_1 b ch qs rs) 64 = Some (ch_protocol_id ch)"
    "load_u32 (image_1 b ch qs rs) 68 = Some (ch_flags ch)"
    "load_u32 (image_1 b ch qs rs) 72 = Some (of_nat (length qs))"
    "load_u32 (image_1 b ch qs rs) 76 = Some (of_nat (length rs))"
    "load_u32 (image_1 b ch qs rs) 80 = Some (of_nat 96)"
    "load_u32 (image_1 b ch qs rs) 84 = Some (of_nat (96 + length qs * 64))"
    "load_u32 (image_1 b ch qs rs) 88 = Some 0"
    "load_u32 (image_1 b ch qs rs) 92 = Some 0"
proof -
  have len: "96 \<le> length (image_0 b qs rs)"
    using assms length_image [OF assms] by (simp add: encoding_size_def)
  have zero: "load_u32 (image_0 b qs rs) off = Some 0" if "off + 4 \<le> 96" for off
    using that assms len by (simp add: load_u32_in image_0_def slice_put_inside slice_zeros encoding_size_def)
  note h = kb2_encode_channel_header_layout [of "encoding_size qs rs" ch "length qs" "length rs"]
  note h' = h [unfolded kb2_encode_channel_header_def]
  note facts = load_layout [OF h' len] load_gap [OF h' len] zero
  show "load_u32 (image_1 b ch qs rs) 0 = Some (of_nat (encoding_size qs rs))"
    "load_bytes (image_1 b ch qs rs) 4 4 = Some kb2_protocol_abi_identity"
    "load_bytes (image_1 b ch qs rs) 8 32 = Some kb2_protocol_schema_digest"
    "load_u64 (image_1 b ch qs rs) 40 = Some (ch_feature_bits ch)"
    "load_u64 (image_1 b ch qs rs) 48 = Some (ch_channel_id ch)"
    "load_u64 (image_1 b ch qs rs) 56 = Some (ch_generation ch)"
    "load_u32 (image_1 b ch qs rs) 64 = Some (ch_protocol_id ch)"
    "load_u32 (image_1 b ch qs rs) 68 = Some (ch_flags ch)"
    "load_u32 (image_1 b ch qs rs) 72 = Some (of_nat (length qs))"
    "load_u32 (image_1 b ch qs rs) 76 = Some (of_nat (length rs))"
    "load_u32 (image_1 b ch qs rs) 80 = Some (of_nat 96)"
    "load_u32 (image_1 b ch qs rs) 84 = Some (of_nat (96 + length qs * 64))"
    "load_u32 (image_1 b ch qs rs) 88 = Some 0"
    "load_u32 (image_1 b ch qs rs) 92 = Some 0"
    unfolding image_1_def kb2_encode_channel_header_def
    by (simp_all add: facts del: of_nat_add of_nat_mult of_nat_numeral)
qed

lemma slice_image:
  assumes "encoding_size qs rs \<le> length b"
  shows "slice (image_1 b ch qs rs) 96 (length qs * 64) = zeros (length qs * 64)"
    and "slice (image_2 b ch qs rs) (96 + length qs * 64) (length rs * 32) = zeros (length rs * 32)"
proof -
  have zero: "slice (image_0 b qs rs) off n = zeros n" if "off + n \<le> encoding_size qs rs" for off n
    using that assms by (simp add: image_0_def slice_put_inside slice_zeros)
  have one: "slice (image_1 b ch qs rs) off n = zeros n"
    if "96 \<le> off" "off + n \<le> encoding_size qs rs" for off n
    unfolding image_1_def using that assms length_image [OF assms]
    by (subst slice_apply_writes_disjoint [OF layout_in [OF kb2_encode_channel_header_layout]])
      (auto simp: zero)
  show "slice (image_1 b ch qs rs) 96 (length qs * 64) = zeros (length qs * 64)"
    by (rule one) (auto simp: encoding_size_def)
  show "slice (image_2 b ch qs rs) (96 + length qs * 64) (length rs * 32) = zeros (length rs * 32)"
    unfolding image_2_def using assms length_image [OF assms]
    by (subst slice_apply_writes_disjoint [OF queue_table_in]) (auto simp: one encoding_size_def)
qed

lemma read_image:
  assumes "encoding_size qs rs \<le> length b"
  shows "read_table kb2_decode_queue_row 64 (image_3 b ch qs rs) 96 (length qs) = Some (Inr qs)"
    and "read_table kb2_decode_region_row 32 (image_3 b ch qs rs) (96 + length qs * 64) (length rs)
         = Some (Inr rs)"
proof -
  show "read_table kb2_decode_region_row 32 (image_3 b ch qs rs) (96 + length qs * 64) (length rs)
         = Some (Inr rs)"
    unfolding image_3_def using region_record.read_table_writes [of rs] length_image [OF assms] assms
      slice_image [OF assms] by (auto simp: encoding_size_def)
  have "read_table kb2_decode_queue_row 64 (image_3 b ch qs rs) 96 (length qs) = 
    read_table kb2_decode_queue_row 64 (image_2 b ch qs rs) 96 (length qs)"
    unfolding image_3_def using length_image [OF assms] assms
    by (intro queue_record.read_table_disjoint [OF region_table_in]) (auto simp: encoding_size_def)
  also have "\<dots> = Some (Inr qs)"
    unfolding image_2_def using queue_record.read_table_writes [of qs] length_image [OF assms] assms
      slice_image [OF assms] by (auto simp: encoding_size_def)
  finally show "read_table kb2_decode_queue_row 64 (image_3 b ch qs rs) 96 (length qs) = Some (Inr qs)" .
qed

lemma kb2_validate_channel_modelD:
  "kb2_validate_channel_model channel queues regions \<Longrightarrow>
   \<exists>ch qs rs. channel = Some ch \<and> queues = Arr qs \<and> regions = Arr rs \<and>
     1 \<le> length qs \<and> length qs \<le> 1024 \<and> 1 \<le> length rs \<and> length rs \<le> 1024"
  by (cases "(channel, queues, regions)" rule: kb2_validate_channel_model.cases)
    (auto simp: Suc_le_eq)

lemma kb2_protocol_channel_encode_valid:
  assumes "kb2_validate_channel_model (Some ch) (Arr qs) (Arr rs)" "encoding_size qs rs \<le> length b"
  shows "kb2_protocol_channel_encode (Some b) True (Some ch) (Arr qs) (Arr rs)
    = Some (KB2_PROTOCOL_OK, Some (encoding_size qs rs), Some (image_3 b ch qs rs))"
  using assms kb2_validate_channel_modelD [OF assms(1)] channel_store [OF assms(2), of ch]
  by (simp add: kb2_protocol_channel_encode_def kb2_protocol_channel_encoded_size_eq encoding_size_def
      del: kb2_validate_channel_model.simps)

lemma kb2_protocol_channel_decode_image:
  assumes valid: "kb2_validate_channel_model (Some ch) (Arr qs) (Arr rs)"
    and len: "encoding_size qs rs \<le> length b" and "length qs \<le> qcap" "length rs \<le> rcap"
  shows "kb2_protocol_channel_decode (Some (image_3 b ch qs rs)) True qcap rcap
    = Some (KB2_PROTOCOL_OK, Some (length qs, length rs), Some (ch, qs, rs))"
proof -
  have "unat (of_nat (encoding_size qs rs) :: u32) = 96 + length qs * 64 + length rs * 32"
    "unat (of_nat (length qs) :: u32) = length qs" "unat (of_nat (length rs) :: u32) = length rs"
    "unat (of_nat (96 + length qs * 64) :: u32) = 96 + length qs * 64" "unat (of_nat 96 :: u32) = 96"
    using kb2_validate_channel_modelD [OF valid]
    by (auto simp: encoding_size_def simp del: of_nat_add of_nat_mult of_nat_numeral
        intro!: trans [OF unat_of_nat_u32])
  moreover have "kb2_validate_channel_model (Some \<lparr>ch_feature_bits = ch_feature_bits ch,
    ch_channel_id = ch_channel_id ch, ch_generation = ch_generation ch,
    ch_protocol_id = ch_protocol_id ch, ch_flags = ch_flags ch\<rparr>) (Arr qs) (Arr rs)"
    using valid by simp
  ultimately show ?thesis
    using assms kb2_validate_channel_modelD [OF assms(1)]
    by (simp add: kb2_protocol_channel_decode_def kb2_protocol_channel_encoded_size_eq
        load_image [OF len] load_header [OF len] read_image [OF len] length_image [OF len]
        encoding_size_def Let_def
        del: kb2_validate_channel_model.simps of_nat_add of_nat_mult of_nat_numeral)
qed


section \<open>Decoding\<close>

lemma kb2_protocol_channel_decode_in:
  assumes "96 \<le> length b" "96 + qc * 64 + rc * 32 \<le> length b"
  obtains qs rs where "read_table kb2_decode_queue_row 64 b 96 qc = Some qs"
    "read_table kb2_decode_region_row 32 b (96 + qc * 64) rc = Some rs"
  using assms queue_record.read_table_in [of 96 qc b] region_record.read_table_in [of "96 + qc * 64" rc b]
  by auto

lemma kb2_protocol_channel_decode_total:
  "\<exists>status counts model. kb2_protocol_channel_decode buffer outs qcap rcap = Some (status, counts, model)"
proof (cases buffer)
  case (Some b)
  show ?thesis
  proof (cases "length b < 96")
    case False
    then have len: "96 \<le> length b" by simp
    have tables: "(\<exists>qs. read_table kb2_decode_queue_row 64 b 96 qc = Some qs) \<and>
        (\<exists>rs. read_table kb2_decode_region_row 32 b (96 + qc * 64) rc = Some rs)"
      if "96 + qc * 64 + rc * 32 \<le> length b" for qc rc
      using kb2_protocol_channel_decode_in [OF len that] by metis
    show ?thesis
      using tables [of "unat (un32 (slice b 72 4))" "unat (un32 (slice b 76 4))"] Some len
      by (auto simp: kb2_protocol_channel_decode_def load_bytes_in load_u32_in load_u64_in
          kb2_protocol_channel_encoded_size_eq Let_def split: sum.splits
          simp del: kb2_validate_channel_model.simps)
  qed (use Some in \<open>auto simp: kb2_protocol_channel_decode_def\<close>)
qed (simp add: kb2_protocol_channel_decode_def)

lemma kb2_decode_row_error:
  "kb2_decode_queue_row b off = Some (Inl e) \<Longrightarrow> e = KB2_PROTOCOL_MALFORMED"
  "kb2_decode_region_row b off = Some (Inl e) \<Longrightarrow> e = KB2_PROTOCOL_MALFORMED"
  by (auto simp: kb2_decode_queue_row_def kb2_decode_region_row_def
      split: Option.bind_split_asm if_split_asm)

lemma read_rows_error:
  "read_table kb2_decode_queue_row w b off n = Some (Inl e) \<Longrightarrow> e = KB2_PROTOCOL_MALFORMED"
  "read_table kb2_decode_region_row w b off n = Some (Inl e) \<Longrightarrow> e = KB2_PROTOCOL_MALFORMED"
  by (auto dest!: read_table_error kb2_decode_row_error)

lemma kb2_protocol_channel_decode_sound:
  assumes "kb2_protocol_channel_decode (Some b) outs qcap rcap = Some (KB2_PROTOCOL_OK, counts, model)"
  shows "\<exists>ch qs rs. model = Some (ch, qs, rs) \<and> counts = Some (length qs, length rs) \<and>
    kb2_validate_channel_model (Some ch) (Arr qs) (Arr rs) \<and>
    length qs \<le> qcap \<and> length rs \<le> rcap \<and> encoding_size qs rs \<le> length b"
  using assms
  by (auto simp: kb2_protocol_channel_decode_def kb2_protocol_channel_encoded_size_eq Let_def encoding_size_def
      simp del: kb2_validate_channel_model.simps
      split: if_split_asm sum.split_asm Option.bind_split_asm
      dest!: read_table_length read_rows_error)

section \<open>What validation means\<close>

text \<open>
  The declarative contract of a channel: identifiers are non-zero and distinct, no region and
  no ring wraps around the address space, regions are pairwise disjoint, every ring lies in a
  region with both rights and all rings of the channel are pairwise disjoint.
\<close>

definition region_addresses :: "kb2_protocol_region \<Rightarrow> nat set" where
  "region_addresses r = addresses (rg_transport_base r) (rg_length r)"

definition ring_addresses :: "kb2_protocol_queue \<Rightarrow> nat \<Rightarrow> nat set" where
  "ring_addresses q k = addresses (kb2_queue_range_base q k) (kb2_queue_range_length q k)"

definition region_ok :: "kb2_protocol_region \<Rightarrow> bool" where
  "region_ok r \<longleftrightarrow> rg_region_id r \<noteq> 0 \<and> rg_rights r \<in> {1, 2, 3} \<and> rg_length r \<noteq> 0 \<and>
     no_wrap (rg_transport_base r) (rg_length r)"

definition regions_spec :: "kb2_protocol_region list \<Rightarrow> bool" where
  "regions_spec rs \<longleftrightarrow> (\<forall>r \<in> set rs. region_ok r) \<and> distinct (map rg_region_id rs) \<and>
     (\<forall>i < length rs. \<forall>j < length rs. i \<noteq> j \<longrightarrow>
        region_addresses (rs ! i) \<inter> region_addresses (rs ! j) = {})"

lemma kb2_u64_range_valid_iff:
  "kb2_u64_range_valid base len \<longleftrightarrow> len \<noteq> 0 \<and> no_wrap base len"
  by (simp add: kb2_u64_range_valid_def le_max_minus_iff)

lemma kb2_ranges_overlap_iff:
  "kb2_u64_range_valid a n \<Longrightarrow> kb2_u64_range_valid b m \<Longrightarrow>
   kb2_ranges_overlap a n b m \<longleftrightarrow> addresses a n \<inter> addresses b m \<noteq> {}"
  by (simp add: kb2_u64_range_valid_iff kb2_ranges_overlap_def overlap_iff)


lemma and_not_3_iff:
  "(x :: u32) \<noteq> 0 \<and> x AND NOT 3 = 0 \<longleftrightarrow> x \<in> {1, 2, 3}"
proof
  assume x: "x \<noteq> 0 \<and> x AND NOT 3 = 0"
  have m: "(3 :: u32) = mask 2" by (simp add: mask_eq_exp_minus_1)
  have "take_bit 2 x = x"
  proof (rule bit_word_eqI)
    fix n assume "n < LENGTH(32)"
    moreover have "\<not> bit (x AND NOT 3) n" using x by simp
    ultimately show "bit (take_bit 2 x) n \<longleftrightarrow> bit x n"
      by (auto simp: m bit_simps)
  qed
  then have "unat x = take_bit 2 (unat x)"
    using unsigned_take_bit_eq [of 2 x] by simp
  then have "unat x < 4"
    using take_bit_nat_less_exp [of 2 "unat x"] by simp
  then have "unat x \<in> {0, 1, 2, 3}" by auto
  then show "x \<in> {1, 2, 3}" using x
    by (auto simp: word_unat_eq_iff)
qed auto

lemma kb2_validate_regions_iff: "kb2_validate_regions rs \<longleftrightarrow> regions_spec rs"
proof -
  have one: "(rg_region_id r \<noteq> 0 \<and> rg_rights r \<noteq> 0 \<and> (rg_rights r AND NOT (1 OR 2)) = 0 \<and>
      kb2_u64_range_valid (rg_transport_base r) (rg_length r)) \<longleftrightarrow> region_ok r" for r
    using and_not_3_iff [of "rg_rights r"] by (auto simp: region_ok_def kb2_u64_range_valid_iff)
  have conflict: "kb2_region_conflict r r' \<longleftrightarrow> rg_region_id r = rg_region_id r' \<or>
      region_addresses r \<inter> region_addresses r' \<noteq> {}" if "region_ok r" "region_ok r'" for r r'
    using that kb2_ranges_overlap_iff
    by (simp add: kb2_region_conflict_def region_ok_def kb2_u64_range_valid_iff region_addresses_def)
  have "kb2_validate_regions rs \<longleftrightarrow> (\<forall>i < length rs. region_ok (rs ! i) \<and>
      (\<forall>j < i. \<not> kb2_region_conflict (rs ! i) (rs ! j)))"
    unfolding kb2_validate_regions_def Let_def one [symmetric] by (auto simp: list_all_iff)
  also have "\<dots> \<longleftrightarrow> (\<forall>i < length rs. region_ok (rs ! i)) \<and>
      (\<forall>i < length rs. \<forall>j < i. rg_region_id (rs ! i) \<noteq> rg_region_id (rs ! j) \<and>
        region_addresses (rs ! i) \<inter> region_addresses (rs ! j) = {})"
  proof (cases "\<forall>i < length rs. region_ok (rs ! i)")
    case True
    then have "kb2_region_conflict (rs ! i) (rs ! j) \<longleftrightarrow> rg_region_id (rs ! i) = rg_region_id (rs ! j) \<or>
      region_addresses (rs ! i) \<inter> region_addresses (rs ! j) \<noteq> {}" if "i < length rs" "j < i" for i j
      using that by (simp add: conflict)
    then show ?thesis using True by auto
  qed auto
  also have "(\<forall>i < length rs. \<forall>j < i. rg_region_id (rs ! i) \<noteq> rg_region_id (rs ! j) \<and>
        region_addresses (rs ! i) \<inter> region_addresses (rs ! j) = {}) \<longleftrightarrow>
      (\<forall>i < length rs. \<forall>j < length rs. i \<noteq> j \<longrightarrow> rg_region_id (rs ! i) \<noteq> rg_region_id (rs ! j) \<and>
        region_addresses (rs ! i) \<inter> region_addresses (rs ! j) = {})"
    by (rule all_pairs_sym) auto
  also have "(\<forall>i < length rs. region_ok (rs ! i)) \<and> \<dots> \<longleftrightarrow> regions_spec rs"
    unfolding regions_spec_def distinct_conv_nth all_set_conv_all_nth length_map
    by (simp add: imp_conjR all_conj_distrib)
  finally show ?thesis .
qed
definition notification_ids :: "kb2_protocol_queue \<Rightarrow> u32 set" where
  "notification_ids q = {q_available_notification_id q, q_used_notification_id q}"

definition queue_ok :: "kb2_protocol_region list \<Rightarrow> kb2_protocol_queue \<Rightarrow> bool" where
  "queue_ok rs q \<longleftrightarrow> q_queue_id q \<noteq> 0 \<and> q_flags q = 0 \<and> q_role q \<in> {1, 2} \<and>
     (\<exists>k \<le> 15. unat (q_queue_size q) = 2 ^ k) \<and>
     0 \<notin> notification_ids q \<and> q_available_notification_id q \<noteq> q_used_notification_id q \<and>
     0 < q_max_chain_length q \<and> q_max_chain_length q \<le> q_queue_size q \<and>
     0 < q_max_indirect_length q \<and> q_max_indirect_length q \<le> 32768 \<and>
     0 < q_max_outstanding q \<and> q_max_outstanding q \<le> q_queue_size q \<and>
     16 dvd unat (q_descriptor_address q) \<and> 2 dvd unat (q_available_address q) \<and>
     4 dvd unat (q_used_address q) \<and>
     (\<forall>k < 3. \<exists>r \<in> set rs. rg_rights r = 3 \<and> ring_addresses q k \<subseteq> region_addresses r)"

definition queues_spec :: "kb2_protocol_queue list \<Rightarrow> kb2_protocol_region list \<Rightarrow> bool" where
  "queues_spec qs rs \<longleftrightarrow> (\<forall>q \<in> set qs. queue_ok rs q) \<and>
     (\<forall>i < length qs. \<forall>j < length qs. i \<noteq> j \<longrightarrow> q_queue_id (qs ! i) \<noteq> q_queue_id (qs ! j) \<and>
        notification_ids (qs ! i) \<inter> notification_ids (qs ! j) = {}) \<and>
     (\<forall>i < length qs. \<forall>j < length qs. \<forall>k < 3. \<forall>l < 3. (i, k) \<noteq> (j, l) \<longrightarrow>
        ring_addresses (qs ! i) k \<inter> ring_addresses (qs ! j) l = {}) \<and>
     length (filter (\<lambda>q. q_role q = 1) qs) \<le> 1 \<and> 1 \<le> length (filter (\<lambda>q. q_role q = 2) qs)"

lemma kb2_range_has_rights_iff:
  assumes rs: "\<forall>r \<in> set rs. region_ok r" and len: "len \<noteq> 0"
  shows "kb2_range_has_rights base len 3 rs \<longleftrightarrow>
    (\<exists>r \<in> set rs. rg_rights r = 3 \<and> addresses base len \<subseteq> region_addresses r)"
proof -
  have rights: "rg_rights r AND 3 = 3 \<longleftrightarrow> rg_rights r = 3" if "r \<in> set rs" for r
    using rs that by (auto simp: region_ok_def)
  have wrap: "no_wrap base len" if "r \<in> set rs" "addresses base len \<subseteq> region_addresses r" for r
  proof -
    have "0 < unat len" using len by (simp add: unat_gt_0)
    then have "unat base + unat len \<le> unat (rg_transport_base r) + unat (rg_length r)"
      using that by (auto simp: addresses_def region_addresses_def)
    then show ?thesis using rs that by (auto simp: region_ok_def no_wrap_def)
  qed
  have inside: "rg_transport_base r \<le> base \<and> base + len \<le> rg_transport_base r + rg_length r \<longleftrightarrow>
      addresses base len \<subseteq> region_addresses r" if "r \<in> set rs" "no_wrap base len" for r
    using that rs len inside_iff by (auto simp: region_ok_def region_addresses_def)
  show ?thesis
  proof
    assume "kb2_range_has_rights base len 3 rs"
    then obtain r where "no_wrap base len" "r \<in> set rs" "rg_rights r AND 3 = 3"
      "rg_transport_base r \<le> base \<and> base + len \<le> rg_transport_base r + rg_length r"
      by (auto simp: kb2_range_has_rights_def list_ex_iff kb2_u64_range_valid_iff)
    then show "\<exists>r \<in> set rs. rg_rights r = 3 \<and> addresses base len \<subseteq> region_addresses r"
      using rights inside by blast
  next
    assume "\<exists>r \<in> set rs. rg_rights r = 3 \<and> addresses base len \<subseteq> region_addresses r"
    then obtain r where r: "r \<in> set rs" "rg_rights r = 3" "addresses base len \<subseteq> region_addresses r"
      by blast
    then show "kb2_range_has_rights base len 3 rs"
      using wrap [OF r(1,3)] inside [OF r(1)] len
      by (auto simp: kb2_range_has_rights_def list_ex_iff kb2_u64_range_valid_iff intro!: bexI [of _ r])
  qed
qed

lemma ring_length_pos:
  assumes "1 \<le> q_queue_size q" "q_queue_size q \<le> 32768" "k < 3"
  shows "kb2_queue_range_length q k \<noteq> 0"
proof -
  have n: "0 < unat (q_queue_size q)" "unat (q_queue_size q) \<le> 32768"
    using assms by (simp_all add: word_le_nat_alt)
  have "unat (kb2_queue_range_length q k) > 0"
    using assms(3) n
    by (auto simp: kb2_queue_range_length_def unat_word_ariths unsigned_ucast_eq take_bit_nat_eq_self)
  then show ?thesis by auto
qed

lemma and_low_bits_iff:
  "(x :: u64) AND 15 = 0 \<longleftrightarrow> 16 dvd unat x" "x AND 1 = 0 \<longleftrightarrow> 2 dvd unat x" "x AND 3 = 0 \<longleftrightarrow> 4 dvd unat x"
proof -
  have *: "x AND mask n = 0 \<longleftrightarrow> 2 ^ n dvd unat x" for n
  proof -
    have "x AND mask n = 0 \<longleftrightarrow> unat (take_bit n x) = 0"
      by (simp only: unat_eq_0 take_bit_eq_mask)
    also have "\<dots> \<longleftrightarrow> take_bit n (unat x) = 0"
      by (simp only: unsigned_take_bit_eq)
    finally show ?thesis by (simp only: take_bit_eq_0_iff)
  qed
  show "x AND 15 = 0 \<longleftrightarrow> 16 dvd unat x" "x AND 1 = 0 \<longleftrightarrow> 2 dvd unat x" "x AND 3 = 0 \<longleftrightarrow> 4 dvd unat x"
    using * [of 4] * [of 1] * [of 2] by (simp_all add: mask_eq_exp_minus_1)
qed
lemma queue_size_iff:
  "1 \<le> (x :: u32) \<and> x \<le> 32768 \<and> x AND (x - 1) = 0 \<longleftrightarrow> (\<exists>k \<le> 15. unat x = 2 ^ k)"
proof
  assume x: "1 \<le> x \<and> x \<le> 32768 \<and> x AND (x - 1) = 0"
  then have "x \<noteq> 0" by auto
  with x obtain k where k: "unat x = 2 ^ k" using power_of_two_u32 by blast
  have "(2 :: nat) ^ k \<le> 2 ^ 15" using x k by (simp add: word_le_nat_alt)
  then have "k \<le> 15" by (rule power_le_imp_le_exp [rotated]) simp
  with k show "\<exists>k \<le> 15. unat x = 2 ^ k" by blast
next
  assume "\<exists>k \<le> 15. unat x = 2 ^ k"
  then obtain k where k: "k \<le> 15" "unat x = 2 ^ k" by blast
  then have "1 \<le> unat x" "unat x \<le> 2 ^ 15"
    using power_increasing [of k 15 "2 :: nat"] by auto
  moreover have "x \<noteq> 0" using k by (metis power_not_zero unat_0 zero_neq_numeral)
  ultimately show "1 \<le> x \<and> x \<le> 32768 \<and> x AND (x - 1) = 0"
    using k power_of_two_u32 [of x] by (auto simp: word_le_nat_alt)
qed

lemma all_less_3: "(\<forall>k < (3 :: nat). P k) \<longleftrightarrow> P 0 \<and> P 1 \<and> P 2"
  by (auto simp: less_Suc_eq numeral_3_eq_3 numeral_2_eq_2)

lemma kb2_queue_valid_at_iff:
  assumes rs: "\<forall>r \<in> set rs. region_ok r"
  shows "kb2_queue_valid_at qs rs i \<longleftrightarrow> queue_ok rs (qs ! i) \<and>
    (\<forall>j < i. q_queue_id (qs ! i) \<noteq> q_queue_id (qs ! j) \<and>
        notification_ids (qs ! i) \<inter> notification_ids (qs ! j) = {}) \<and>
    kb2_queue_ranges_unique qs i"
proof -
  let ?q = "qs ! i"
  let ?sz = "1 \<le> q_queue_size ?q \<and> q_queue_size ?q \<le> 32768 \<and>
    q_queue_size ?q AND (q_queue_size ?q - 1) = 0"
  have rights: "kb2_range_has_rights (q_descriptor_address ?q) (kb2_queue_range_length ?q 0) 3 rs \<and>
      kb2_range_has_rights (q_available_address ?q) (kb2_queue_range_length ?q 1) 3 rs \<and>
      kb2_range_has_rights (q_used_address ?q) (kb2_queue_range_length ?q 2) 3 rs \<longleftrightarrow>
      (\<forall>k < 3. \<exists>r \<in> set rs. rg_rights r = 3 \<and> ring_addresses ?q k \<subseteq> region_addresses r)" if ?sz
    using that ring_length_pos [of ?q] kb2_range_has_rights_iff [OF rs]
    by (simp add: all_less_3 ring_addresses_def kb2_queue_range_base_def)
  have identity: "kb2_queue_identity_unique qs i \<longleftrightarrow>
      (\<forall>j < i. q_queue_id ?q \<noteq> q_queue_id (qs ! j) \<and>
        notification_ids ?q \<inter> notification_ids (qs ! j) = {}) \<and>
      q_available_notification_id ?q \<noteq> q_used_notification_id ?q"
  proof -
    have "\<not> (q_queue_id ?q = q_queue_id p \<or>
        q_available_notification_id ?q = q_available_notification_id p \<or>
        q_available_notification_id ?q = q_used_notification_id p \<or>
        q_used_notification_id ?q = q_available_notification_id p \<or>
        q_used_notification_id ?q = q_used_notification_id p) \<longleftrightarrow>
      q_queue_id ?q \<noteq> q_queue_id p \<and> notification_ids ?q \<inter> notification_ids p = {}" for p
      by (auto simp: notification_ids_def)
    then show ?thesis by (simp only: kb2_queue_identity_unique_def list_all_upt)
  qed
  show ?thesis
  proof (cases ?sz)
    case True
    then show ?thesis
      using rights [OF True] queue_size_iff [of "q_queue_size ?q"] True
      unfolding kb2_queue_valid_at_def Let_def identity queue_ok_def and_low_bits_iff notification_ids_def
      by (simp add: word_gt_0 notification_ids_def) blast
  next
    case False
    then show ?thesis
      using queue_size_iff [of "q_queue_size ?q"]
      by (auto simp: kb2_queue_valid_at_def Let_def queue_ok_def)
  qed
qed

lemma all_ring_pairs_sym:
  fixes D :: "nat \<Rightarrow> nat \<Rightarrow> nat \<Rightarrow> nat \<Rightarrow> bool"
  assumes sym: "\<And>i k j l. D i k j l \<longleftrightarrow> D j l i k"
  shows "(\<forall>i < n. \<forall>k < 3. \<forall>j < i + 1. \<forall>l < (if j = i then k else 3). D i k j l) \<longleftrightarrow>
    (\<forall>i < n. \<forall>j < n. \<forall>k < 3. \<forall>l < 3. (i, k) \<noteq> (j, l) \<longrightarrow> D i k j l)" (is "?A \<longleftrightarrow> ?B")
proof
  assume A: ?A
  have below: "D i k j l" if "i < n" "k < 3" "l < 3" "j < i \<or> j = i \<and> l < k" for i k j l
    using A that by auto
  show ?B
  proof (intro allI impI)
    fix i j k l :: nat assume "i < n" "j < n" "k < 3" "l < 3" "(i, k) \<noteq> (j, l)"
    then show "D i k j l"
      using below [of i k l j] below [of j l k i] sym [of i k j l] by (metis nat_neq_iff)
  qed
next
  assume B: ?B
  show ?A
  proof (intro allI impI)
    fix i k j l :: nat assume "i < n" "k < 3" "j < i + 1" "l < (if j = i then k else 3)"
    moreover from this have "j < n" "l < 3" "(i, k) \<noteq> (j, l)" by (auto split: if_splits)
    ultimately show "D i k j l" using B by blast
  qed
qed

lemma kb2_validate_queues_iff:
  assumes rs: "\<forall>r \<in> set rs. region_ok r"
  shows "kb2_validate_queues qs rs \<longleftrightarrow> queues_spec qs rs"
proof -
  let ?n = "length qs"
  let ?I = "\<lambda>i j. q_queue_id (qs ! i) \<noteq> q_queue_id (qs ! j) \<and>
        notification_ids (qs ! i) \<inter> notification_ids (qs ! j) = {}"
  let ?D = "\<lambda>i k j l. ring_addresses (qs ! i) k \<inter> ring_addresses (qs ! j) l = {}"
  have range: "kb2_u64_range_valid (kb2_queue_range_base q k) (kb2_queue_range_length q k)"
    if q: "queue_ok rs q" and k: "k < 3" for q and k :: nat
  proof -
    obtain r where r: "r \<in> set rs" "ring_addresses q k \<subseteq> region_addresses r"
      using q k unfolding queue_ok_def by blast
    have "kb2_queue_range_length q k \<noteq> 0"
      using q k queue_size_iff [of "q_queue_size q"] ring_length_pos [of q k]
      by (auto simp: queue_ok_def)
    moreover from this have "0 < unat (kb2_queue_range_length q k)"
      by (simp add: unat_gt_0)
    moreover have "no_wrap (rg_transport_base r) (rg_length r)"
      using r rs by (auto simp: region_ok_def)
    ultimately show ?thesis
      using r(2) by (auto simp: kb2_u64_range_valid_iff no_wrap_def ring_addresses_def
          region_addresses_def addresses_def)
  qed
  have rings: "kb2_queue_ranges_unique qs i \<longleftrightarrow>
      (\<forall>k < 3. \<forall>j < i + 1. \<forall>l < (if j = i then k else 3). ?D i k j l)"
    if "\<forall>i < ?n. queue_ok rs (qs ! i)" "i < ?n" for i
  proof -
    have *: "\<not> kb2_ranges_overlap (kb2_queue_range_base (qs ! i) k) (kb2_queue_range_length (qs ! i) k)
        (kb2_queue_range_base (qs ! j) l) (kb2_queue_range_length (qs ! j) l) \<longleftrightarrow> ?D i k j l"
      if "k < 3" "j < i + 1" "l < (if j = i then k else 3)" for k j l
      using that \<open>i < ?n\<close> \<open>\<forall>i < ?n. queue_ok rs (qs ! i)\<close> range
      by (subst kb2_ranges_overlap_iff) (auto simp: ring_addresses_def split: if_splits)
    show ?thesis
      unfolding kb2_queue_ranges_unique_def list_all_upt
      by (intro iffI allI impI) (use * in blast)+
  qed
  have roles: "filter (\<lambda>q. q_role q \<noteq> 1) qs = filter (\<lambda>q. q_role q = 2) qs"
    if "\<forall>i < ?n. queue_ok rs (qs ! i)"
    using that by (intro filter_cong) (auto simp: queue_ok_def in_set_conv_nth)
  have "list_all (kb2_queue_valid_at qs rs) [0..<?n] \<longleftrightarrow>
      (\<forall>i < ?n. queue_ok rs (qs ! i)) \<and> (\<forall>i < ?n. \<forall>j < i. ?I i j) \<and>
      (\<forall>i < ?n. \<forall>k < 3. \<forall>j < i + 1. \<forall>l < (if j = i then k else 3). ?D i k j l)"
  proof (cases "\<forall>i < ?n. queue_ok rs (qs ! i)")
    case True
    have "(\<forall>i < ?n. kb2_queue_ranges_unique qs i) \<longleftrightarrow>
      (\<forall>i < ?n. \<forall>k < 3. \<forall>j < i + 1. \<forall>l < (if j = i then k else 3). ?D i k j l)"
      by (rule all_cong) (rule rings [OF True])
    then show ?thesis
      unfolding list_all_upt kb2_queue_valid_at_iff [OF rs]
      by (simp only: True all_conj_distrib imp_conjR simp_thms)
  next
    case False
    then show ?thesis unfolding list_all_upt kb2_queue_valid_at_iff [OF rs] by blast
  qed
  also have "(\<forall>i < ?n. \<forall>j < i. ?I i j) \<longleftrightarrow> (\<forall>i < ?n. \<forall>j < ?n. i \<noteq> j \<longrightarrow> ?I i j)"
    by (rule all_pairs_sym) auto
  also have "(\<forall>i < ?n. \<forall>k < 3. \<forall>j < i + 1. \<forall>l < (if j = i then k else 3). ?D i k j l) \<longleftrightarrow>
      (\<forall>i < ?n. \<forall>j < ?n. \<forall>k < 3. \<forall>l < 3. (i, k) \<noteq> (j, l) \<longrightarrow> ?D i k j l)"
    by (rule all_ring_pairs_sym) auto
  finally have main: "list_all (kb2_queue_valid_at qs rs) [0..<?n] \<longleftrightarrow>
      (\<forall>i < ?n. queue_ok rs (qs ! i)) \<and> (\<forall>i < ?n. \<forall>j < ?n. i \<noteq> j \<longrightarrow> ?I i j) \<and>
      (\<forall>i < ?n. \<forall>j < ?n. \<forall>k < 3. \<forall>l < 3. (i, k) \<noteq> (j, l) \<longrightarrow> ?D i k j l)" .
  show ?thesis
    unfolding kb2_validate_queues_def queues_spec_def all_set_conv_all_nth main
    by (cases "\<forall>i < ?n. queue_ok rs (qs ! i)") (simp_all only: roles simp_thms conj_assoc)
qed

definition channel_spec ::
    "kb2_protocol_channel \<Rightarrow> kb2_protocol_queue list \<Rightarrow> kb2_protocol_region list \<Rightarrow> bool" where
  "channel_spec ch qs rs \<longleftrightarrow> length qs \<in> {1..1024} \<and> length rs \<in> {1..1024} \<and>
     ch_feature_bits ch = 805306368 \<and> ch_channel_id ch \<noteq> 0 \<and> ch_generation ch \<noteq> 0 \<and>
     ch_protocol_id ch \<noteq> 0 \<and> ch_flags ch \<in> {1, 2} \<and> regions_spec rs \<and> queues_spec qs rs"

lemma kb2_validate_channel_model_iff:
  "kb2_validate_channel_model (Some ch) (Arr qs) (Arr rs) \<longleftrightarrow> channel_spec ch qs rs"
proof -
  have "\<forall>r \<in> set rs. region_ok r" if "regions_spec rs" using that by (simp add: regions_spec_def)
  then have "kb2_validate_regions rs \<and> kb2_validate_queues qs rs \<longleftrightarrow> regions_spec rs \<and> queues_spec qs rs"
    using kb2_validate_regions_iff kb2_validate_queues_iff by blast
  then show ?thesis by (auto simp: channel_spec_def Suc_le_eq)
qed
section \<open>Envelopes\<close>

lemma envelope_size:
  "kb2_size_add_multiply 40 (unat (n :: u32)) (Suc 0) = Some (40 + unat n)"
  using unat_u32_lt [of n] by (simp add: kb2_size_add_multiply_exact SIZE_MAX_def)

lemma kb2_protocol_message_envelope_encode_valid:
  assumes "env_protocol_id e \<noteq> 0" "env_generation e \<noteq> 0" "40 + unat (env_payload_length e) \<le> length b"
  shows "\<exists>b'. kb2_protocol_message_envelope_encode (Some b) (Some e) = Some (KB2_PROTOCOL_OK, Some b') \<and>
    length b' = length b \<and> drop 40 b' = drop 40 b \<and>
    kb2_protocol_message_envelope_decode (Some b') True = Some (KB2_PROTOCOL_OK, Some e)"
proof -
  let ?ws = "[(0, le32 (env_protocol_id e)), (4, kb2_protocol_abi_identity),
     (8, le32 (env_opcode e)), (12, le32 (env_flags e)), (16, le64 (env_generation e)),
     (24, le64 (env_correlation_id e)), (32, le32 (env_payload_length e))] :: writes"
  let ?b0 = "put b 0 (zeros 40)"
  have lay: "layout 0 40 ?ws"
    by (simp add: layout_def le32_def le64_def kb2_protocol_abi_identity_def)
  have all: "writes_in 0 40 ((0, zeros 40) # ?ws)" by simp
  have len: "40 \<le> length b" "40 \<le> length ?b0" using assms by simp_all
  have b': "apply_writes b ((0, zeros 40) # ?ws) = apply_writes ?b0 ?ws"
    by (simp add: apply_writes.simps)
  note facts = load_layout [OF lay len(2)] load_gap [OF lay len(2)]
  have zero: "load_u32 ?b0 36 = Some 0"
    using len by (simp add: load_u32_in slice_put_inside slice_zeros)
  have "kb2_protocol_message_envelope_decode (Some (apply_writes ?b0 ?ws)) True
      = Some (KB2_PROTOCOL_OK, Some e)"
    using assms length_apply_writes [OF layout_in [OF lay] len(2)]
    by (simp add: kb2_protocol_message_envelope_decode_def facts zero envelope_size Let_def)
  then show ?thesis
    using assms store_all_in [OF all len(1)] length_apply_writes [OF all len(1)]
      drop_apply_writes [OF all len(1)]
    by (auto simp: kb2_protocol_message_envelope_encode_def envelope_size b')
qed

lemma kb2_protocol_message_envelope_decode_total:
  "\<exists>status e. kb2_protocol_message_envelope_decode buffer outs = Some (status, e)"
  by (cases buffer) (auto simp: kb2_protocol_message_envelope_decode_def wire Let_def envelope_size)

lemma kb2_protocol_message_envelope_encode_OK:
  assumes "kb2_protocol_message_envelope_encode buffer envelope = Some (KB2_PROTOCOL_OK, b')"
  shows "\<exists>b e. buffer = Some b \<and> envelope = Some e \<and> env_protocol_id e \<noteq> 0 \<and> env_generation e \<noteq> 0 \<and>
    40 + unat (env_payload_length e) \<le> length b"
  using assms
  by (auto simp: kb2_protocol_message_envelope_encode_def envelope_size split: option.split_asm if_split_asm)

lemma kb2_protocol_channel_encode_OK:
  assumes "kb2_protocol_channel_encode buffer outs channel queues regions = Some (KB2_PROTOCOL_OK, n, b')"
  shows "\<exists>b ch qs rs. buffer = Some b \<and> outs \<and> channel = Some ch \<and> queues = Arr qs \<and> regions = Arr rs \<and>
    kb2_validate_channel_model channel queues regions \<and> encoding_size qs rs \<le> length b"
proof -
  from assms have valid: "kb2_validate_channel_model channel queues regions"
    by (auto simp: kb2_protocol_channel_encode_def kb2_protocol_channel_encoded_size_eq
        split: option.split_asm if_split_asm sum.split_asm)
  from kb2_validate_channel_modelD [OF valid] assms show ?thesis
    by (auto simp: kb2_protocol_channel_encode_def kb2_protocol_channel_encoded_size_eq encoding_size_def
        simp del: kb2_validate_channel_model.simps split: option.split_asm if_split_asm)
qed

lemma kb2_protocol_channel_encode_total:
  "\<exists>status n b'. kb2_protocol_channel_encode buffer outs channel queues regions = Some (status, n, b')"
proof (cases "buffer = None \<or> \<not> outs \<or> \<not> kb2_validate_channel_model channel queues regions")
  case True
  then show ?thesis
    by (auto simp: kb2_protocol_channel_encode_def split: option.split sum.split)
next
  case False
  then obtain b ch qs rs where "buffer = Some b" "outs" and eq: "channel = Some ch" "queues = Arr qs" "regions = Arr rs"
    and valid: "kb2_validate_channel_model (Some ch) (Arr qs) (Arr rs)"
    using kb2_validate_channel_modelD [of channel queues regions] by auto
  show ?thesis
  proof (cases "encoding_size qs rs \<le> length b")
    case True
    then show ?thesis
      using kb2_protocol_channel_encode_valid [OF valid] eq \<open>buffer = Some b\<close> \<open>outs\<close> by auto
  next
    case False
    then show ?thesis
      using kb2_validate_channel_modelD [OF valid] eq \<open>buffer = Some b\<close> \<open>outs\<close>
      by (auto simp: kb2_protocol_channel_encode_def kb2_protocol_channel_encoded_size_eq encoding_size_def)
  qed
qed
section \<open>Properties\<close>

text \<open>A small channel: one request queue of four entries in one shared region.\<close>

definition sample_channel :: kb2_protocol_channel where
  "sample_channel = \<lparr>ch_feature_bits = 805306368, ch_channel_id = 7, ch_generation = 1,
     ch_protocol_id = 3, ch_flags = 2\<rparr>"

definition sample_queue :: kb2_protocol_queue where
  "sample_queue = \<lparr>q_queue_id = 1, q_role = 2, q_queue_size = 4, q_flags = 0,
     q_descriptor_address = 0x1000, q_available_address = 0x1100, q_used_address = 0x1200,
     q_available_notification_id = 1, q_used_notification_id = 2, q_max_chain_length = 4,
     q_max_indirect_length = 4, q_max_outstanding = 2\<rparr>"

definition sample_region :: kb2_protocol_region where
  "sample_region = \<lparr>rg_region_id = 1, rg_rights = 3, rg_transport_base = 0x1000, rg_length = 0x1000\<rparr>"

lemma sample_channel_valid:
  "kb2_validate_channel_model (Some sample_channel) (Arr [sample_queue]) (Arr [sample_region])"
  by code_simp

lemma sample_channel_encode:
  "kb2_protocol_channel_encode (Some (zeros 200)) True (Some sample_channel) (Arr [sample_queue])
     (Arr [sample_region])
   = Some (KB2_PROTOCOL_OK, Some 192, Some (image_3 (zeros 200) sample_channel [sample_queue] [sample_region]))"
  using kb2_protocol_channel_encode_valid [OF sample_channel_valid, of "zeros 200"]
  by (simp add: encoding_size_def)

text \<open>C8. Channel round trip: when \<open>kb2_protocol_channel_encode\<close> returns OK, decoding the buffer
  it wrote returns OK with exactly the channel, queues and regions that were encoded; the
  reported size is the size of header and tables, and no byte behind it has changed.\<close>

theorem kb2_protocol_channel_roundtrip:
  assumes "kb2_protocol_channel_encode (Some b) outs (Some ch) (Arr qs) (Arr rs)
      = Some (KB2_PROTOCOL_OK, n, Some b')"
    and "length qs \<le> queue_capacity" "length rs \<le> region_capacity"
  shows "kb2_protocol_channel_decode (Some b') True queue_capacity region_capacity
      = Some (KB2_PROTOCOL_OK, Some (length qs, length rs), Some (ch, qs, rs)) \<and>
    n = Some (96 + length qs * 64 + length rs * 32) \<and>
    length b' = length b \<and>
    drop (96 + length qs * 64 + length rs * 32) b' = drop (96 + length qs * 64 + length rs * 32) b"
proof -
  from kb2_protocol_channel_encode_OK [OF assms(1)]
  have valid: "kb2_validate_channel_model (Some ch) (Arr qs) (Arr rs)" and len: "encoding_size qs rs \<le> length b"
    and outs by auto
  from kb2_protocol_channel_encode_valid [OF valid len] assms(1) \<open>outs\<close>
  have b': "b' = image_3 b ch qs rs" and n: "n = Some (encoding_size qs rs)" by auto
  show ?thesis
    using kb2_protocol_channel_decode_image [OF valid len assms(2,3)] length_image [OF len] drop_image [OF len]
    by (simp add: b' n encoding_size_def)
qed

theorem kb2_protocol_channel_roundtrip_witness:
  "kb2_protocol_channel_decode
     (Some (image_3 (zeros 200) sample_channel [sample_queue] [sample_region])) True 1 1
   = Some (KB2_PROTOCOL_OK, Some (1, 1), Some (sample_channel, [sample_queue], [sample_region]))"
  using kb2_protocol_channel_roundtrip [OF sample_channel_encode, of 1 1] by simp

text \<open>C10. Memory safety of the channel codec: on every buffer, every count and every model,
  NULL pointers included, encoder and decoder return a status and never access a byte outside
  the buffer.\<close>

theorem kb2_protocol_channel_memory_safe:
  "kb2_protocol_channel_decode buffer outs queue_capacity region_capacity \<noteq> None \<and>
   kb2_protocol_channel_encode buffer' outs' channel queues regions \<noteq> None"
  using kb2_protocol_channel_decode_total [of buffer outs queue_capacity region_capacity]
    kb2_protocol_channel_encode_total [of buffer' outs' channel queues regions]
  by auto

text \<open>C11. The decoder accepts only complete, valid models that fit: OK means that a model was
  produced, that it satisfies the declarative channel contract, that it fits the caller's
  arrays and that the whole encoding lies inside the buffer.\<close>

theorem kb2_protocol_channel_decode_accepts_valid:
  assumes "kb2_protocol_channel_decode (Some b) outs queue_capacity region_capacity
    = Some (KB2_PROTOCOL_OK, counts, model)"
  shows "\<exists>ch qs rs. model = Some (ch, qs, rs) \<and> counts = Some (length qs, length rs) \<and>
    channel_spec ch qs rs \<and> length qs \<le> queue_capacity \<and> length rs \<le> region_capacity \<and>
    96 + length qs * 64 + length rs * 32 \<le> length b"
  using kb2_protocol_channel_decode_sound [OF assms]
  by (auto simp: kb2_validate_channel_model_iff encoding_size_def simp del: kb2_validate_channel_model.simps)

lemma sample_channel_decode:
  "kb2_protocol_channel_decode
     (Some (image_3 (zeros 200) sample_channel [sample_queue] [sample_region])) True 4 4
   = Some (KB2_PROTOCOL_OK, Some (1, 1), Some (sample_channel, [sample_queue], [sample_region]))"
  using kb2_protocol_channel_decode_image [OF sample_channel_valid, of "zeros 200" 4 4]
  by (simp add: encoding_size_def)

theorem kb2_protocol_channel_decode_accepts_valid_witness:
  "channel_spec sample_channel [sample_queue] [sample_region]"
  using kb2_protocol_channel_decode_accepts_valid [OF sample_channel_decode] by simp


text \<open>C12. Envelope round trip: an envelope that was encoded with status OK decodes to itself,
  and the payload bytes behind the 40 byte header are untouched.\<close>

theorem kb2_protocol_message_envelope_roundtrip:
  assumes "kb2_protocol_message_envelope_encode (Some b) (Some e) = Some (KB2_PROTOCOL_OK, Some b')"
  shows "kb2_protocol_message_envelope_decode (Some b') True = Some (KB2_PROTOCOL_OK, Some e) \<and>
    drop 40 b' = drop 40 b \<and> length b' = length b"
  using kb2_protocol_message_envelope_encode_OK [OF assms]
    kb2_protocol_message_envelope_encode_valid [of e b] assms by auto

definition sample_envelope :: kb2_protocol_message_envelope where
  "sample_envelope = \<lparr>env_protocol_id = 3, env_opcode = 9, env_flags = 0, env_generation = 5,
     env_correlation_id = 77, env_payload_length = 2\<rparr>"

theorem kb2_protocol_message_envelope_roundtrip_witness:
  "\<exists>b'. kb2_protocol_message_envelope_encode (Some (replicate 42 0xaa)) (Some sample_envelope)
      = Some (KB2_PROTOCOL_OK, Some b') \<and>
    kb2_protocol_message_envelope_decode (Some b') True = Some (KB2_PROTOCOL_OK, Some sample_envelope)"
proof -
  have "40 + unat (env_payload_length sample_envelope) \<le> length (replicate 42 (0xaa :: u8))"
    "env_protocol_id sample_envelope \<noteq> 0" "env_generation sample_envelope \<noteq> 0"
    by (simp_all add: sample_envelope_def)
  then obtain b' where "kb2_protocol_message_envelope_encode (Some (replicate 42 0xaa)) (Some sample_envelope)
      = Some (KB2_PROTOCOL_OK, Some b')"
    using kb2_protocol_message_envelope_encode_valid by blast
  then show ?thesis using kb2_protocol_message_envelope_roundtrip by blast
qed

end
