(* ===== verification/Virtqueue.thy ===== *)
theory Virtqueue
  imports Protocol
begin

unbundle bit_operations_syntax

text \<open>
  The split virtqueue engine, \<open>protocol/src/virtqueue.c\<close>. A world holds what one endpoint sees:
  its private channel and queue objects, the chains its client owns, and the state of the
  memory backend.

  Shared memory is reached only through the backend's callbacks, which are an argument of
  every operation. They thread a state of any type, so that a read may return anything a
  hostile peer has put there in the meantime; theorems about all backends are theorems about
  all peers. A chain is named by its address, because the queue keeps pointers to the
  client's chains and compares them.
\<close>

section \<open>Data\<close>

datatype kb2_vq_status = KB2_VQ_OK | KB2_VQ_EMPTY | KB2_VQ_FULL | KB2_VQ_INVALID | KB2_VQ_STALE
  | KB2_VQ_FAULTED | KB2_VQ_IO

abbreviation (input) KB2_VQ_DRIVER :: int where "KB2_VQ_DRIVER \<equiv> 0"
abbreviation (input) KB2_VQ_DEVICE :: int where "KB2_VQ_DEVICE \<equiv> 1"
abbreviation (input) DESC_SIZE :: nat where "DESC_SIZE \<equiv> 16"
abbreviation (input) DESC_NEXT :: u16 where "DESC_NEXT \<equiv> 1"
abbreviation (input) DESC_WRITE :: u16 where "DESC_WRITE \<equiv> 2"
abbreviation (input) DESC_INDIRECT :: u16 where "DESC_INDIRECT \<equiv> 4"

datatype chain_state = FREE | SUBMITTED | ACCEPTED | RETURNED

text \<open>The callbacks: \<open>None\<close> and \<open>False\<close> stand for a nonzero result.\<close>

record 'm kb2_vq_memory =
  vm_read :: "'m \<Rightarrow> u64 \<Rightarrow> nat \<Rightarrow> bytes option \<times> 'm"
  vm_write :: "'m \<Rightarrow> u64 \<Rightarrow> bytes \<Rightarrow> bool \<times> 'm"
  vm_load_acquire :: "'m \<Rightarrow> u64 \<Rightarrow> u16 option \<times> 'm"
  vm_store_release :: "'m \<Rightarrow> u64 \<Rightarrow> u16 \<Rightarrow> bool \<times> 'm"
  vm_fence :: "'m \<Rightarrow> 'm"
  vm_payload_allowed :: "u32 \<Rightarrow> u64 \<Rightarrow> u64 \<Rightarrow> u32 \<Rightarrow> bool"

record kb2_vq_channel =
  vc_identity :: kb2_protocol_channel
  vc_queues :: "kb2_protocol_queue list"
  vc_regions :: "kb2_protocol_region list"
  vc_faulted :: bool

record kb2_vq_segment =
  sg_address :: u64
  sg_length :: u32
  sg_descriptor :: u16
  sg_writable :: u16

text \<open>The segment array of a chain has \<open>capacity\<close> entries, of which \<open>count\<close> are in use.\<close>

record kb2_vq_chain =
  cn_segments :: "kb2_vq_segment list option"
  cn_count :: nat
  cn_head :: u16
  cn_indirect :: u64
  cn_indirect_length :: u32
  cn_indirect_descriptor :: u16
  cn_indirect_first :: nat
  cn_readable :: u64
  cn_writable :: u64
  cn_written :: u64
  cn_used_length :: u32
  cn_state :: chain_state

record kb2_vq =
  vq_queue :: kb2_protocol_queue
  vq_side :: int
  vq_slots :: "nat option list"
  vq_last_taken :: "nat option"
  vq_descriptor_owner :: "u16 list"
  vq_produced :: u16
  vq_consumed :: u16
  vq_owned :: u32

record 'm vq_world =
  vw_channel :: kb2_vq_channel
  vw_vq :: kb2_vq
  vw_chains :: "nat \<Rightarrow> kb2_vq_chain"
  vw_memory :: 'm

definition cn_capacity :: "kb2_vq_chain \<Rightarrow> nat" where
  "cn_capacity c = (case cn_segments c of None \<Rightarrow> 0 | Some segments \<Rightarrow> length segments)"

text \<open>The segments in use.\<close>

definition chain_segments :: "kb2_vq_chain \<Rightarrow> kb2_vq_segment list" where
  "chain_segments c = (case cn_segments c of None \<Rightarrow> [] | Some segments \<Rightarrow> take (cn_count c) segments)"

definition seg_length :: "kb2_vq_segment \<Rightarrow> u64" where
  "seg_length s = ucast (sg_length s)"

section \<open>Ranges\<close>

definition range_valid :: "u64 \<Rightarrow> u64 \<Rightarrow> bool" where
  "range_valid address len \<longleftrightarrow> len \<noteq> 0 \<and> address \<le> (-1) - len"

definition overlaps :: "u64 \<Rightarrow> u64 \<Rightarrow> u64 \<Rightarrow> u64 \<Rightarrow> bool" where
  "overlaps a n b m \<longleftrightarrow> n \<noteq> 0 \<and> m \<noteq> 0 \<and> a < b + m \<and> b < a + n"

definition ring_base :: "kb2_protocol_queue \<Rightarrow> nat \<Rightarrow> u64" where
  "ring_base q ring =
     (if ring = 0 then q_descriptor_address q else if ring = 1 then q_available_address q else q_used_address q)"

definition ring_size :: "kb2_protocol_queue \<Rightarrow> nat \<Rightarrow> u64" where
  "ring_size q ring =
     (if ring = 0 then ucast (q_queue_size q) * 16
      else 6 + ucast (q_queue_size q) * (if ring = 1 then 2 else 8))"

definition payload_range ::
    "'m kb2_vq_memory \<Rightarrow> kb2_vq_channel \<Rightarrow> kb2_vq \<Rightarrow> u64 \<Rightarrow> u64 \<Rightarrow> u32 \<Rightarrow> bool" where
  "payload_range mem channel vq address len rights \<longleftrightarrow>
     (if len = 0 then True
      else if \<not> range_valid address len then False
      else if \<not> list_ex (\<lambda>r. rg_transport_base r \<le> address \<and>
            address + len \<le> rg_transport_base r + rg_length r \<and> (rg_rights r AND rights) = rights)
          (vc_regions channel) then False
      else if list_ex (\<lambda>q. list_ex (\<lambda>ring. overlaps address len (ring_base q ring) (ring_size q ring)) [0..<3])
          (vc_queues channel) then False
      else vm_payload_allowed mem (q_queue_id (vq_queue vq)) address len rights)"

section \<open>Faults\<close>

definition kb2_vq_channel_fault :: "kb2_vq_channel \<Rightarrow> kb2_vq_channel" where
  "kb2_vq_channel_fault channel = channel\<lparr>vc_faulted := True\<rparr>"

definition vq_fault :: "'m vq_world \<Rightarrow> bool \<Rightarrow> kb2_vq_status \<times> 'a option \<times> 'm vq_world" where
  "vq_fault w io = (if io then KB2_VQ_IO else KB2_VQ_FAULTED, None,
     w\<lparr>vw_channel := kb2_vq_channel_fault (vw_channel w)\<rparr>)"

definition vq_check :: "'m vq_world option \<Rightarrow> u64 \<Rightarrow> kb2_vq_status" where
  "vq_check vq generation =
     (case vq of
        None \<Rightarrow> KB2_VQ_INVALID
      | Some w \<Rightarrow>
        if generation = 0 then KB2_VQ_INVALID
        else if ch_generation (vc_identity (vw_channel w)) \<noteq> generation then KB2_VQ_STALE
        else if vc_faulted (vw_channel w) then KB2_VQ_FAULTED else KB2_VQ_OK)"

text \<open>
  Every operation starts with \<open>check\<close>. A NULL queue, or one without a channel, is \<open>None\<close>.
\<close>

definition checked ::
    "'m vq_world option \<Rightarrow> u64 \<Rightarrow> ('m vq_world \<Rightarrow> kb2_vq_status \<times> 'a option \<times> 'm vq_world)
     \<Rightarrow> kb2_vq_status \<times> 'a option \<times> 'm vq_world option" where
  "checked vq generation operation =
     (if vq_check vq generation \<noteq> KB2_VQ_OK then (vq_check vq generation, None, vq)
      else case operation (the vq) of (status, result, w) \<Rightarrow> (status, result, Some w))"

definition kb2_vq_channel_init ::
    "bool \<Rightarrow> kb2_protocol_channel option \<Rightarrow> kb2_protocol_queue carray \<Rightarrow> kb2_protocol_region carray
     \<Rightarrow> kb2_vq_status \<times> kb2_vq_channel option" where
  "kb2_vq_channel_init out identity queues regions =
     (if \<not> out \<or> kb2_protocol_channel_validate identity queues regions \<noteq> KB2_PROTOCOL_OK
      then (KB2_VQ_INVALID, None)
      else case (identity, queues, regions) of
        (Some ident, Arr qs, Arr rs) \<Rightarrow> (KB2_VQ_OK, Some \<lparr>vc_identity = ident, vc_queues = qs,
           vc_regions = rs, vc_faulted = False\<rparr>)
      | _ \<Rightarrow> (KB2_VQ_INVALID, None))"

text \<open>Binding returns the queue, the channel, which a failure faults, and the backend state.\<close>

definition kb2_vq_bind ::
    "'m kb2_vq_memory \<Rightarrow> 'm \<Rightarrow> bool \<Rightarrow> kb2_vq_channel \<Rightarrow> u32 \<Rightarrow> int \<Rightarrow> nat
     \<Rightarrow> kb2_vq_status \<times> kb2_vq option \<times> kb2_vq_channel \<times> 'm" where
  "kb2_vq_bind mem m pointers channel queue_id side capacity =
     (if \<not> pointers \<or> side \<noteq> KB2_VQ_DRIVER \<and> side \<noteq> KB2_VQ_DEVICE then (KB2_VQ_INVALID, None, channel, m)
      else if vc_faulted channel then (KB2_VQ_FAULTED, None, channel, m)
      else case find (\<lambda>q. q_queue_id q = queue_id) (rev (vc_queues channel)) of
        None \<Rightarrow> (KB2_VQ_INVALID, None, channel, m)
      | Some q \<Rightarrow>
        if capacity < unat (q_queue_size q) then (KB2_VQ_INVALID, None, channel, m)
        else let owned_ring = (if side = KB2_VQ_DRIVER then q_available_address q else q_used_address q) in
          (case vm_load_acquire mem m (owned_ring + 2) of
             (None, m) \<Rightarrow> (KB2_VQ_IO, None, kb2_vq_channel_fault channel, m)
           | (Some index, m) \<Rightarrow>
             if index \<noteq> 0 then (KB2_VQ_FAULTED, None, kb2_vq_channel_fault channel, m)
             else (KB2_VQ_OK, Some \<lparr>vq_queue = q, vq_side = side,
               vq_slots = replicate (unat (q_queue_size q)) None, vq_last_taken = None,
               vq_descriptor_owner = replicate (unat (q_queue_size q)) 0,
               vq_produced = 0, vq_consumed = 0, vq_owned = 0\<rparr>, channel, m)))"

section \<open>Chains\<close>

definition vq_owns :: "'m vq_world \<Rightarrow> nat option \<Rightarrow> chain_state \<Rightarrow> bool" where
  "vq_owns w chain state \<longleftrightarrow>
     (case chain of
        None \<Rightarrow> False
      | Some p \<Rightarrow> unat (cn_head (vw_chains w p)) < unat (q_queue_size (vq_queue (vw_vq w))) \<and>
          cn_state (vw_chains w p) = state \<and>
          vq_slots (vw_vq w) ! unat (cn_head (vw_chains w p)) = Some p)"

definition indirect_size :: "kb2_vq_chain \<Rightarrow> u64" where
  "indirect_size c = ucast (cn_indirect_length c)"

definition direct_count :: "kb2_vq_chain \<Rightarrow> nat" where
  "direct_count c = (if cn_indirect_length c \<noteq> 0 then cn_indirect_first c else cn_count c)"

definition segments_conflict :: "kb2_vq_segment \<Rightarrow> kb2_vq_segment \<Rightarrow> bool" where
  "segments_conflict l r \<longleftrightarrow> (sg_writable l \<noteq> 0 \<or> sg_writable r \<noteq> 0) \<and>
     overlaps (sg_address l) (seg_length l) (sg_address r) (seg_length r)"

definition chains_overlap :: "kb2_vq_chain \<Rightarrow> kb2_vq_chain \<Rightarrow> bool" where
  "chains_overlap a b \<longleftrightarrow>
     overlaps (cn_indirect a) (indirect_size a) (cn_indirect b) (indirect_size b) \<or>
     list_ex (\<lambda>l. overlaps (sg_address l) (seg_length l) (cn_indirect b) (indirect_size b) \<or>
        list_ex (segments_conflict l) (chain_segments b)) (chain_segments a) \<or>
     list_ex (\<lambda>s. overlaps (cn_indirect a) (indirect_size a) (sg_address s) (seg_length s)) (chain_segments b)"

text \<open>The body of the loop over the segments in \<open>validate_chain\<close>.\<close>

definition segment_valid :: "'m kb2_vq_memory \<Rightarrow> 'm vq_world \<Rightarrow> kb2_vq_chain \<Rightarrow> nat \<Rightarrow> bool" where
  "segment_valid mem w c i \<longleftrightarrow>
     (let segments = chain_segments c; s = segments ! i; in_table = (direct_count c \<le> i) in
      \<not> sg_writable s > 1 \<and>
      \<not> (sg_writable s = 0 \<and> list_ex (\<lambda>j. sg_writable (segments ! j) \<noteq> 0) [0..<i]) \<and>
      payload_range mem (vw_channel w) (vw_vq w) (sg_address s) (seg_length s)
        (if sg_writable s \<noteq> 0 then KB2_PROTOCOL_REGION_RIGHT_WRITE else KB2_PROTOCOL_REGION_RIGHT_READ) \<and>
      \<not> overlaps (sg_address s) (seg_length s) (cn_indirect c) (indirect_size c) \<and>
      (if in_table then unat (sg_descriptor s) < unat (cn_indirect_length c) div DESC_SIZE
       else unat (sg_descriptor s) < unat (q_queue_size (vq_queue (vw_vq w))) \<and>
         vq_descriptor_owner (vw_vq w) ! unat (sg_descriptor s) = 0 \<and>
         \<not> (cn_indirect_length c \<noteq> 0 \<and> sg_descriptor s = cn_indirect_descriptor c)) \<and>
      list_all (\<lambda>j. \<not> ((direct_count c \<le> j) = in_table \<and> sg_descriptor s = sg_descriptor (segments ! j) \<or>
        segments_conflict s (segments ! j))) [0..<i])"

definition sum_lengths :: "kb2_vq_segment list \<Rightarrow> u64" where
  "sum_lengths segments = sum_list (map seg_length segments)"

text \<open>The checks before the loop: the shape of the chain and of its indirect table.\<close>

definition chain_shape_valid :: "'m kb2_vq_memory \<Rightarrow> 'm vq_world \<Rightarrow> kb2_vq_chain \<Rightarrow> bool" where
  "chain_shape_valid mem w c \<longleftrightarrow>
     (let q = vq_queue (vw_vq w); owner = vq_descriptor_owner (vw_vq w) in
      cn_segments c \<noteq> None \<and> cn_count c \<noteq> 0 \<and> \<not> cn_capacity c < cn_count c \<and>
      \<not> unat (q_max_chain_length q) < cn_count c \<and> unat (cn_head c) < unat (q_queue_size q) \<and>
      vq_slots (vw_vq w) ! unat (cn_head c) = None \<and> owner ! unat (cn_head c) = 0 \<and>
      (if cn_indirect_length c \<noteq> 0 then
         cn_indirect c AND 15 = 0 \<and> unat (cn_indirect_length c) mod DESC_SIZE = 0 \<and>
         \<not> unat (q_max_indirect_length q) < unat (cn_indirect_length c) div DESC_SIZE \<and>
         direct_count c < cn_count c \<and> unat (cn_indirect_descriptor c) < unat (q_queue_size q) \<and>
         owner ! unat (cn_indirect_descriptor c) = 0 \<and>
         sg_descriptor (chain_segments c ! direct_count c) = 0 \<and>
         payload_range mem (vw_channel w) (vw_vq w) (cn_indirect c) (indirect_size c) KB2_PROTOCOL_REGION_RIGHT_READ
       else cn_indirect c = 0 \<and> cn_indirect_first c = 0 \<and> cn_indirect_descriptor c = 0) \<and>
      (if direct_count c \<noteq> 0 then sg_descriptor (chain_segments c ! 0) else cn_indirect_descriptor c) = cn_head c)"

definition validate_chain :: "'m kb2_vq_memory \<Rightarrow> 'm vq_world \<Rightarrow> kb2_vq_chain \<Rightarrow> kb2_vq_chain option" where
  "validate_chain mem w c =
     (let segments = chain_segments c;
          readable = sum_lengths (filter (\<lambda>s. sg_writable s = 0) segments);
          writable = sum_lengths (filter (\<lambda>s. sg_writable s \<noteq> 0) segments) in
      if \<not> chain_shape_valid mem w c then None
      else if \<not> list_all (segment_valid mem w c) [0..<cn_count c] then None
      else if writable = 0 \<or>
         (if q_role (vq_queue (vw_vq w)) = KB2_PROTOCOL_QUEUE_ROLE_REQUEST then readable = 0 else readable \<noteq> 0)
      then None
      else if list_ex (\<lambda>slot. case slot of None \<Rightarrow> False | Some p \<Rightarrow> chains_overlap c (vw_chains w p)) (vq_slots (vw_vq w))
      then None
      else Some (c\<lparr>cn_readable := readable, cn_writable := writable, cn_written := 0, cn_used_length := 0\<rparr>))"

text \<open>The descriptors of the main table that a chain occupies.\<close>

definition chain_descriptors :: "kb2_vq_chain \<Rightarrow> u16 list" where
  "chain_descriptors c = (if cn_indirect_length c \<noteq> 0 then [cn_indirect_descriptor c] else []) @
     map sg_descriptor (take (direct_count c) (chain_segments c))"

definition set_owner :: "u16 \<Rightarrow> u16 list \<Rightarrow> u16 list \<Rightarrow> u16 list" where
  "set_owner v descriptors owner = fold (\<lambda>d owner. owner[unat d := v]) descriptors owner"

definition claim :: "'m vq_world \<Rightarrow> nat \<Rightarrow> chain_state \<Rightarrow> 'm vq_world" where
  "claim w p state =
     (let c = vw_chains w p; vq = vw_vq w in
      w\<lparr>vw_vq := vq\<lparr>vq_slots := (vq_slots vq)[unat (cn_head c) := Some p], vq_owned := vq_owned vq + 1,
           vq_descriptor_owner := set_owner (cn_head c + 1) (chain_descriptors c) (vq_descriptor_owner vq)\<rparr>,
         vw_chains := (vw_chains w)(p := c\<lparr>cn_state := state\<rparr>)\<rparr>)"

definition vq_drop :: "'m vq_world \<Rightarrow> nat \<Rightarrow> 'm vq_world" where
  "vq_drop w p =
     (let c = vw_chains w p; vq = vw_vq w in
      w\<lparr>vw_vq := vq\<lparr>vq_descriptor_owner := set_owner 0 (chain_descriptors c) (vq_descriptor_owner vq),
           vq_slots := (vq_slots vq)[unat (cn_head c) := None],
           vq_last_taken := (if vq_last_taken vq = Some p then None else vq_last_taken vq),
           vq_owned := vq_owned vq - 1\<rparr>,
         vw_chains := (vw_chains w)(p := c\<lparr>cn_state := FREE\<rparr>)\<rparr>)"

section \<open>Publication\<close>

text \<open>Writes in order, up to the first one that fails.\<close>

fun write_all :: "'m kb2_vq_memory \<Rightarrow> (u64 \<times> bytes) list \<Rightarrow> 'm \<Rightarrow> bool \<times> 'm" where
  "write_all mem [] m = (True, m)"
| "write_all mem ((address, bytes) # rest) m =
     (case vm_write mem m address bytes of
        (ok, m) \<Rightarrow> if ok then write_all mem rest m else (False, m))"

definition descriptor_bytes :: "u64 \<Rightarrow> u32 \<Rightarrow> u16 \<Rightarrow> u16 \<Rightarrow> bytes" where
  "descriptor_bytes address len flags next = le64 address @ le32 len @ le16 flags @ le16 next"

definition descriptor_address :: "u64 \<Rightarrow> u16 \<Rightarrow> u64" where
  "descriptor_address table index = table + ucast index * 16"

text \<open>The descriptor for segment \<open>i\<close>, in the main table or in the indirect one.\<close>

definition segment_write :: "kb2_protocol_queue \<Rightarrow> kb2_vq_chain \<Rightarrow> nat \<Rightarrow> u64 \<times> bytes" where
  "segment_write q c i =
     (let s = chain_segments c ! i;
          flags = (if sg_writable s \<noteq> 0 then DESC_WRITE else 0);
          table = (if direct_count c \<le> i then cn_indirect c else q_descriptor_address q);
          last = \<not> i + 1 < cn_count c in
      (descriptor_address table (sg_descriptor s),
       descriptor_bytes (sg_address s) (sg_length s) (if last then flags else flags OR DESC_NEXT)
         (if last then 0 else if i + 1 = direct_count c then cn_indirect_descriptor c
          else sg_descriptor (chain_segments c ! (i + 1)))))"

definition ring_slot :: "u16 \<Rightarrow> kb2_protocol_queue \<Rightarrow> u64" where
  "ring_slot index q = ucast ((ucast index :: u32) AND (q_queue_size q - 1))"

text \<open>What \<open>kb2_vq_publish\<close> writes before the index.\<close>

definition publish_writes :: "kb2_vq \<Rightarrow> kb2_vq_chain \<Rightarrow> (u64 \<times> bytes) list" where
  "publish_writes vq c =
     (let q = vq_queue vq in
      map (segment_write q c) [0..<cn_count c] @
      (if cn_indirect_length c \<noteq> 0
       then [(descriptor_address (q_descriptor_address q) (cn_indirect_descriptor c),
              descriptor_bytes (cn_indirect c) (cn_indirect_length c) DESC_INDIRECT 0)]
       else []) @
      [(q_available_address q + 4 + 2 * ring_slot (vq_produced vq) q, le16 (cn_head c))])"

definition publish_index ::
    "'m kb2_vq_memory \<Rightarrow> 'm vq_world \<Rightarrow> u64 \<Rightarrow> u64 \<Rightarrow> kb2_vq_status \<times> bool option \<times> 'm vq_world" where
  "publish_index mem w ring event =
     (let old = vq_produced (vw_vq w); next = old + 1 in
      case vm_store_release mem (vw_memory w) (ring + 2) next of
        (False, m) \<Rightarrow> vq_fault (w\<lparr>vw_memory := m\<rparr>) True
      | (True, m) \<Rightarrow>
        (case vm_load_acquire mem (vm_fence mem m) event of
           (None, m) \<Rightarrow> vq_fault (w\<lparr>vw_vq := (vw_vq w)\<lparr>vq_produced := next\<rparr>, vw_memory := m\<rparr>) True
         | (Some threshold, m) \<Rightarrow>
             (KB2_VQ_OK, Some (next - threshold - 1 < next - old),
              w\<lparr>vw_vq := (vw_vq w)\<lparr>vq_produced := next\<rparr>, vw_memory := m\<rparr>)))"

definition used_event :: "kb2_protocol_queue \<Rightarrow> u64" where
  "used_event q = q_used_address q + 4 + ucast (q_queue_size q) * 8"

definition available_event :: "kb2_protocol_queue \<Rightarrow> u64" where
  "available_event q = q_available_address q + 4 + ucast (q_queue_size q) * 2"

definition vq_publish ::
    "'m kb2_vq_memory \<Rightarrow> nat option \<Rightarrow> bool \<Rightarrow> 'm vq_world \<Rightarrow> kb2_vq_status \<times> bool option \<times> 'm vq_world" where
  "vq_publish mem chain notify w =
     (let vq = vw_vq w in
      case chain of
        None \<Rightarrow> (KB2_VQ_INVALID, None, w)
      | Some p \<Rightarrow>
        if vq_side vq \<noteq> KB2_VQ_DRIVER \<or> cn_state (vw_chains w p) \<noteq> FREE \<or> \<not> notify then (KB2_VQ_INVALID, None, w)
        else if vq_owned vq = q_max_outstanding (vq_queue vq) then (KB2_VQ_FULL, None, w)
        else (case validate_chain mem w (vw_chains w p) of
            None \<Rightarrow> (KB2_VQ_INVALID, None, w)
          | Some c \<Rightarrow>
            let w = claim (w\<lparr>vw_chains := (vw_chains w)(p := c)\<rparr>) p SUBMITTED in
            (case write_all mem (publish_writes (vw_vq w) c) (vw_memory w) of
               (ok, m) \<Rightarrow>
                 if \<not> ok then vq_fault (w\<lparr>vw_memory := m\<rparr>) True
                 else publish_index mem (w\<lparr>vw_memory := m\<rparr>) (q_available_address (vq_queue vq))
                   (used_event (vq_queue vq)))))"

definition kb2_vq_publish ::
    "'m kb2_vq_memory \<Rightarrow> 'm vq_world option \<Rightarrow> u64 \<Rightarrow> nat option \<Rightarrow> bool
     \<Rightarrow> kb2_vq_status \<times> bool option \<times> 'm vq_world option" where
  "kb2_vq_publish mem vq generation chain notify = checked vq generation (vq_publish mem chain notify)"

section \<open>Taking available chains\<close>

text \<open>
  The loop of \<open>read_chain\<close>. Its result is \<open>Inl io\<close> for a fault, with the chain as far as it was
  filled in.
\<close>

definition chain_reset :: "kb2_vq_chain \<Rightarrow> kb2_vq_chain" where
  "chain_reset c = c\<lparr>cn_count := 0, cn_indirect := 0, cn_indirect_length := 0, cn_indirect_first := 0,
     cn_indirect_descriptor := 0\<rparr>"

definition chain_append :: "kb2_vq_chain \<Rightarrow> kb2_vq_segment \<Rightarrow> kb2_vq_chain" where
  "chain_append c s = c\<lparr>cn_segments := map_option (\<lambda>segments. segments[cn_count c := s]) (cn_segments c),
     cn_count := cn_count c + 1\<rparr>"

function read_chain_loop ::
    "'m kb2_vq_memory \<Rightarrow> 'm vq_world \<Rightarrow> u64 \<Rightarrow> nat \<Rightarrow> u16 \<Rightarrow> bool \<Rightarrow> kb2_vq_chain \<Rightarrow> 'm
     \<Rightarrow> (bool + unit) \<times> kb2_vq_chain \<times> 'm" where
  "read_chain_loop mem w table limit index indirect c m =
     (let q = vq_queue (vw_vq w) in
      if limit \<le> unat index \<or> unat (q_max_chain_length q) \<le> cn_count c \<or> cn_capacity c \<le> cn_count c
      then (Inl False, c, m)
      else case vm_read mem m (descriptor_address table index) DESC_SIZE of
        (None, m) \<Rightarrow> (Inl True, c, m)
      | (Some bytes, m) \<Rightarrow>
        let address = un64 bytes; len = un32 (drop 8 bytes);
            flags = un16 (drop 12 bytes); next = un16 (drop 14 bytes) in
        if flags AND NOT (DESC_NEXT OR DESC_WRITE OR DESC_INDIRECT) \<noteq> 0 then (Inl False, c, m)
        else if list_ex (\<lambda>i. sg_descriptor (the (cn_segments c) ! i) = index)
            [(if indirect then cn_indirect_first c else 0)..<cn_count c] then (Inl False, c, m)
        else if flags AND DESC_INDIRECT \<noteq> 0 then
          (if indirect \<or> flags AND DESC_NEXT \<noteq> 0 \<or> address AND 15 \<noteq> 0 \<or> len = 0 \<or>
              unat len mod DESC_SIZE \<noteq> 0 \<or> unat (q_max_indirect_length q) < unat len div DESC_SIZE \<or>
              \<not> payload_range mem (vw_channel w) (vw_vq w) address (ucast len) KB2_PROTOCOL_REGION_RIGHT_READ
           then (Inl False, c, m)
           else read_chain_loop mem w address (unat len div DESC_SIZE) 0 True
             (c\<lparr>cn_indirect := address, cn_indirect_length := len, cn_indirect_first := cn_count c,
                cn_indirect_descriptor := index\<rparr>) m)
        else
          let c = chain_append c \<lparr>sg_address = address, sg_length = len, sg_descriptor = index,
                sg_writable = (if flags AND DESC_WRITE \<noteq> 0 then 1 else 0)\<rparr> in
          if flags AND DESC_NEXT = 0 then (Inr (), c, m)
          else read_chain_loop mem w table limit next indirect c m)"
  by pat_completeness auto
termination
  by (relation "measure (\<lambda>(mem, w, table, limit, index, indirect, c, m).
        2 * (unat (q_max_chain_length (vq_queue (vw_vq w))) - cn_count c) + (if indirect then 0 else 1))")
    (auto simp: chain_append_def)

declare read_chain_loop.simps [simp del]

text \<open>\<open>read_chain\<close> works on the chain at \<open>p\<close>, which is not yet owned.\<close>

definition read_chain :: "'m kb2_vq_memory \<Rightarrow> 'm vq_world \<Rightarrow> nat \<Rightarrow> kb2_vq_status \<times> unit option \<times> 'm vq_world" where
  "read_chain mem w p =
     (let q = vq_queue (vw_vq w); c = chain_reset (vw_chains w p) in
      case read_chain_loop mem w (q_descriptor_address q) (unat (q_queue_size q)) (cn_head c) False c (vw_memory w) of
        (Inl io, c, m) \<Rightarrow> vq_fault (w\<lparr>vw_chains := (vw_chains w)(p := c), vw_memory := m\<rparr>) io
      | (Inr _, c, m) \<Rightarrow>
        let w = w\<lparr>vw_chains := (vw_chains w)(p := c), vw_memory := m\<rparr> in
        (case validate_chain mem w c of
           None \<Rightarrow> vq_fault w False
         | Some c \<Rightarrow> (KB2_VQ_OK, Some (), w\<lparr>vw_chains := (vw_chains w)(p := c)\<rparr>)))"

text \<open>How far the peer is ahead: the distance is defined unless the status is a fault.\<close>

definition pending_index :: "'m kb2_vq_memory \<Rightarrow> 'm vq_world \<Rightarrow> kb2_vq_status \<times> u16 option \<times> 'm vq_world" where
  "pending_index mem w =
     (let vq = vw_vq w; q = vq_queue vq;
          peer_ring = (if vq_side vq = KB2_VQ_DRIVER then q_used_address q else q_available_address q) in
      case vm_load_acquire mem (vw_memory w) (peer_ring + 2) of
        (None, m) \<Rightarrow> vq_fault (w\<lparr>vw_memory := m\<rparr>) True
      | (Some index, m) \<Rightarrow>
        let distance = index - vq_consumed vq; w = w\<lparr>vw_memory := m\<rparr> in
        if unat (q_max_outstanding q) < unat distance \<or>
           vq_side vq = KB2_VQ_DRIVER \<and> vq_produced vq - vq_consumed vq < distance
        then vq_fault w False
        else (if distance \<noteq> 0 then KB2_VQ_OK else KB2_VQ_EMPTY, Some distance, w))"

definition vq_peek_available ::
    "'m kb2_vq_memory \<Rightarrow> bool \<Rightarrow> 'm vq_world \<Rightarrow> kb2_vq_status \<times> bool option \<times> 'm vq_world" where
  "vq_peek_available mem pending w =
     (if vq_side (vw_vq w) \<noteq> KB2_VQ_DEVICE \<or> \<not> pending then (KB2_VQ_INVALID, None, w)
      else case pending_index mem w of (status, distance, w) \<Rightarrow>
        if status \<noteq> KB2_VQ_OK \<and> status \<noteq> KB2_VQ_EMPTY then (status, None, w)
        else (KB2_VQ_OK, Some (status = KB2_VQ_OK), w))"

definition kb2_vq_peek_available ::
    "'m kb2_vq_memory \<Rightarrow> 'm vq_world option \<Rightarrow> u64 \<Rightarrow> bool \<Rightarrow> kb2_vq_status \<times> bool option \<times> 'm vq_world option" where
  "kb2_vq_peek_available mem vq generation pending = checked vq generation (vq_peek_available mem pending)"

definition vq_take_available ::
    "'m kb2_vq_memory \<Rightarrow> nat option \<Rightarrow> 'm vq_world \<Rightarrow> kb2_vq_status \<times> unit option \<times> 'm vq_world" where
  "vq_take_available mem chain w =
     (case chain of
        None \<Rightarrow> (KB2_VQ_INVALID, None, w)
      | Some p \<Rightarrow>
        let q = vq_queue (vw_vq w) in
        if vq_side (vw_vq w) \<noteq> KB2_VQ_DEVICE \<or> cn_state (vw_chains w p) \<noteq> FREE \<or>
           cn_segments (vw_chains w p) = None \<or> cn_capacity (vw_chains w p) < unat (q_max_chain_length q)
        then (KB2_VQ_INVALID, None, w)
        else (case pending_index mem w of (status, distance, w) \<Rightarrow>
          if status \<noteq> KB2_VQ_OK then (status, None, w)
          else if q_max_outstanding q < vq_owned (vw_vq w) + ucast (the distance) then vq_fault w False
          else (case vm_read mem (vw_memory w) (q_available_address q + 4 + 2 * ring_slot (vq_consumed (vw_vq w)) q) 2 of
              (None, m) \<Rightarrow> vq_fault (w\<lparr>vw_memory := m\<rparr>) True
            | (Some bytes, m) \<Rightarrow>
              let head = un16 bytes;
                  w = w\<lparr>vw_chains := (vw_chains w)(p := (vw_chains w p)\<lparr>cn_head := head\<rparr>), vw_memory := m\<rparr> in
              if unat (q_queue_size q) \<le> unat head \<or> vq_slots (vw_vq w) ! unat head \<noteq> None \<or>
                 vq_descriptor_owner (vw_vq w) ! unat head \<noteq> 0
              then vq_fault w False
              else (case read_chain mem w p of (status, result, w) \<Rightarrow>
                if status \<noteq> KB2_VQ_OK then (status, None, w)
                else let w = claim w p ACCEPTED in
                  (KB2_VQ_OK, Some (), w\<lparr>vw_vq := (vw_vq w)\<lparr>vq_consumed := vq_consumed (vw_vq w) + 1,
                     vq_last_taken := Some p\<rparr>\<rparr>)))))"

definition kb2_vq_take_available ::
    "'m kb2_vq_memory \<Rightarrow> 'm vq_world option \<Rightarrow> u64 \<Rightarrow> nat option \<Rightarrow> kb2_vq_status \<times> unit option \<times> 'm vq_world option" where
  "kb2_vq_take_available mem vq generation chain = checked vq generation (vq_take_available mem chain)"

definition vq_move_accepted ::
    "nat option \<Rightarrow> nat option \<Rightarrow> 'm vq_world \<Rightarrow> kb2_vq_status \<times> unit option \<times> 'm vq_world" where
  "vq_move_accepted source destination w =
     (case (source, destination) of
        (Some s, Some d) \<Rightarrow>
          let sc = vw_chains w s; dc = vw_chains w d; vq = vw_vq w in
          if vq_side vq \<noteq> KB2_VQ_DEVICE \<or> \<not> vq_owns w source ACCEPTED \<or> d = s \<or> cn_state dc \<noteq> FREE \<or>
             cn_segments dc = None \<or> cn_capacity dc < cn_count sc
          then (KB2_VQ_INVALID, None, w)
          else (KB2_VQ_OK, Some (), w\<lparr>
            vw_vq := vq\<lparr>vq_slots := (vq_slots vq)[unat (cn_head sc) := Some d],
              vq_last_taken := (if vq_last_taken vq = Some s then Some d else vq_last_taken vq)\<rparr>,
            vw_chains := (vw_chains w)
              (d := sc\<lparr>cn_segments := Some (chain_segments sc @ drop (cn_count sc) (the (cn_segments dc)))\<rparr>,
               s := sc\<lparr>cn_state := FREE\<rparr>)\<rparr>)
      | _ \<Rightarrow> (KB2_VQ_INVALID, None, w))"

definition kb2_vq_move_accepted ::
    "'m vq_world option \<Rightarrow> u64 \<Rightarrow> nat option \<Rightarrow> nat option \<Rightarrow> kb2_vq_status \<times> unit option \<times> 'm vq_world option" where
  "kb2_vq_move_accepted vq generation source destination =
     checked vq generation (vq_move_accepted source destination)"

definition vq_return_available ::
    "nat option \<Rightarrow> 'm vq_world \<Rightarrow> kb2_vq_status \<times> unit option \<times> 'm vq_world" where
  "vq_return_available chain w =
     (if vq_side (vw_vq w) \<noteq> KB2_VQ_DEVICE \<or> \<not> vq_owns w chain ACCEPTED \<or> vq_last_taken (vw_vq w) \<noteq> chain \<or>
         cn_written (vw_chains w (the chain)) \<noteq> 0
      then (KB2_VQ_INVALID, None, w)
      else let w = vq_drop w (the chain) in
        (KB2_VQ_OK, Some (), w\<lparr>vw_vq := (vw_vq w)\<lparr>vq_consumed := vq_consumed (vw_vq w) - 1\<rparr>\<rparr>))"

definition kb2_vq_return_available ::
    "'m vq_world option \<Rightarrow> u64 \<Rightarrow> nat option \<Rightarrow> kb2_vq_status \<times> unit option \<times> 'm vq_world option" where
  "kb2_vq_return_available vq generation chain = checked vq generation (vq_return_available chain)"

section \<open>Payload\<close>

text \<open>
  The loop of \<open>copy_data\<close>: whether the backend succeeded, the bytes read, the number of bytes
  left over. \<open>input\<close> is what remains to be written.
\<close>

fun copy_segments ::
    "'m kb2_vq_memory \<Rightarrow> bool \<Rightarrow> u16 \<Rightarrow> kb2_vq_segment list \<Rightarrow> u64 \<Rightarrow> bytes \<Rightarrow> nat \<Rightarrow> 'm
     \<Rightarrow> bool \<times> bytes \<times> nat \<times> 'm" where
  "copy_segments mem write writable [] offset input remaining m = (True, [], remaining, m)"
| "copy_segments mem write writable (s # segments) offset input remaining m =
     (if remaining = 0 then (True, [], remaining, m)
      else if sg_writable s \<noteq> writable then copy_segments mem write writable segments offset input remaining m
      else if seg_length s \<le> offset
      then copy_segments mem write writable segments (offset - seg_length s) input remaining m
      else let part = min (unat (seg_length s) - unat offset) remaining in
        if write then
          (case vm_write mem m (sg_address s + offset) (take part input) of (ok, m) \<Rightarrow>
             if \<not> ok then (False, [], remaining, m)
             else copy_segments mem write writable segments 0 (drop part input) (remaining - part) m)
        else
          (case vm_read mem m (sg_address s + offset) part of
             (None, m) \<Rightarrow> (False, [], remaining, m)
           | (Some bytes, m) \<Rightarrow>
             (case copy_segments mem write writable segments 0 input (remaining - part) m of
                (ok, out, rest, m) \<Rightarrow> (ok, bytes @ out, rest, m))))"

definition copy_data ::
    "'m kb2_vq_memory \<Rightarrow> 'm vq_world \<Rightarrow> nat \<Rightarrow> u16 \<Rightarrow> u64 \<Rightarrow> bytes \<Rightarrow> nat \<Rightarrow> bool
     \<Rightarrow> kb2_vq_status \<times> bytes option \<times> 'm vq_world" where
  "copy_data mem w p writable offset input len write =
     (case copy_segments mem write writable (chain_segments (vw_chains w p)) offset input len (vw_memory w) of
        (ok, out, rest, m) \<Rightarrow>
          if \<not> ok then vq_fault (w\<lparr>vw_memory := m\<rparr>) True
          else if rest \<noteq> 0 then vq_fault (w\<lparr>vw_memory := m\<rparr>) False
          else (KB2_VQ_OK, Some out, w\<lparr>vw_memory := m\<rparr>))"

definition vq_copy_request ::
    "'m kb2_vq_memory \<Rightarrow> nat option \<Rightarrow> u64 \<Rightarrow> bool \<Rightarrow> nat \<Rightarrow> 'm vq_world \<Rightarrow> kb2_vq_status \<times> bytes option \<times> 'm vq_world" where
  "vq_copy_request mem chain offset out len w =
     (let c = vw_chains w (the chain) in
      if vq_side (vw_vq w) \<noteq> KB2_VQ_DEVICE \<or> \<not> vq_owns w chain ACCEPTED \<or> (\<not> out \<and> len \<noteq> 0) \<or>
         cn_readable c < offset \<or> unat (cn_readable c - offset) < len
      then (KB2_VQ_INVALID, None, w)
      else copy_data mem w (the chain) 0 offset [] len False)"

definition kb2_vq_copy_request ::
    "'m kb2_vq_memory \<Rightarrow> 'm vq_world option \<Rightarrow> u64 \<Rightarrow> nat option \<Rightarrow> u64 \<Rightarrow> bool \<Rightarrow> nat
     \<Rightarrow> kb2_vq_status \<times> bytes option \<times> 'm vq_world option" where
  "kb2_vq_copy_request mem vq generation chain offset out len =
     checked vq generation (vq_copy_request mem chain offset out len)"

definition vq_write_response ::
    "'m kb2_vq_memory \<Rightarrow> nat option \<Rightarrow> u8 carray \<Rightarrow> 'm vq_world \<Rightarrow> kb2_vq_status \<times> unit option \<times> 'm vq_world" where
  "vq_write_response mem chain bytes w =
     (let c = vw_chains w (the chain); len = carray_count bytes;
          input = (case bytes of Null n \<Rightarrow> [] | Arr xs \<Rightarrow> xs) in
      if vq_side (vw_vq w) \<noteq> KB2_VQ_DEVICE \<or> \<not> vq_owns w chain ACCEPTED \<or>
         (case bytes of Null n \<Rightarrow> n \<noteq> 0 | Arr xs \<Rightarrow> False) \<or>
         unat (cn_writable c - cn_written c) < len \<or> unat (0xFFFFFFFF - cn_written c) < len
      then (KB2_VQ_INVALID, None, w)
      else (case copy_data mem w (the chain) 1 (cn_written c) input len True of (status, out, w) \<Rightarrow>
        if status \<noteq> KB2_VQ_OK then (status, None, w)
        else (KB2_VQ_OK, Some (), w\<lparr>vw_chains := (vw_chains w)(the chain :=
          (vw_chains w (the chain))\<lparr>cn_written := cn_written c + of_nat len\<rparr>)\<rparr>)))"

definition kb2_vq_write_response ::
    "'m kb2_vq_memory \<Rightarrow> 'm vq_world option \<Rightarrow> u64 \<Rightarrow> nat option \<Rightarrow> u8 carray
     \<Rightarrow> kb2_vq_status \<times> unit option \<times> 'm vq_world option" where
  "kb2_vq_write_response mem vq generation chain bytes = checked vq generation (vq_write_response mem chain bytes)"

section \<open>Completion\<close>

definition vq_complete ::
    "'m kb2_vq_memory \<Rightarrow> nat option \<Rightarrow> bool \<Rightarrow> 'm vq_world \<Rightarrow> kb2_vq_status \<times> bool option \<times> 'm vq_world" where
  "vq_complete mem chain notify w =
     (let q = vq_queue (vw_vq w); c = vw_chains w (the chain) in
      if vq_side (vw_vq w) \<noteq> KB2_VQ_DEVICE \<or> \<not> vq_owns w chain ACCEPTED \<or> \<not> notify then (KB2_VQ_INVALID, None, w)
      else case vm_write mem (vw_memory w) (q_used_address q + 4 + 8 * ring_slot (vq_produced (vw_vq w)) q)
             (le32 (ucast (cn_head c)) @ le32 (ucast (cn_written c))) of
        (False, m) \<Rightarrow> vq_fault (w\<lparr>vw_memory := m\<rparr>) True
      | (True, m) \<Rightarrow>
        (case publish_index mem (w\<lparr>vw_memory := m\<rparr>) (q_used_address q) (available_event q) of
           (status, result, w) \<Rightarrow>
             if status \<noteq> KB2_VQ_OK then (status, None, w) else (KB2_VQ_OK, result, vq_drop w (the chain))))"

definition kb2_vq_complete ::
    "'m kb2_vq_memory \<Rightarrow> 'm vq_world option \<Rightarrow> u64 \<Rightarrow> nat option \<Rightarrow> bool \<Rightarrow> kb2_vq_status \<times> bool option \<times> 'm vq_world option" where
  "kb2_vq_complete mem vq generation chain notify = checked vq generation (vq_complete mem chain notify)"

definition vq_take_used ::
    "'m kb2_vq_memory \<Rightarrow> bool \<Rightarrow> 'm vq_world \<Rightarrow> kb2_vq_status \<times> nat option \<times> 'm vq_world" where
  "vq_take_used mem chain_out w =
     (let q = vq_queue (vw_vq w) in
      if vq_side (vw_vq w) \<noteq> KB2_VQ_DRIVER \<or> \<not> chain_out then (KB2_VQ_INVALID, None, w)
      else case pending_index mem w of (status, distance, w) \<Rightarrow>
        if status \<noteq> KB2_VQ_OK then (status, None, w)
        else (case vm_read mem (vw_memory w) (q_used_address q + 4 + 8 * ring_slot (vq_consumed (vw_vq w)) q) 8 of
            (None, m) \<Rightarrow> vq_fault (w\<lparr>vw_memory := m\<rparr>) True
          | (Some bytes, m) \<Rightarrow>
            let w = w\<lparr>vw_memory := m\<rparr>; head = un32 bytes; len = un32 (drop 4 bytes);
                slot = vq_slots (vw_vq w) ! unat head in
            if unat (q_queue_size q) \<le> unat head \<or> \<not> vq_owns w slot SUBMITTED \<or>
               cn_writable (vw_chains w (the slot)) < ucast len
            then vq_fault w False
            else (KB2_VQ_OK, slot, w\<lparr>vw_chains := (vw_chains w)(the slot :=
                    (vw_chains w (the slot))\<lparr>cn_used_length := len, cn_state := RETURNED\<rparr>),
                  vw_vq := (vw_vq w)\<lparr>vq_consumed := vq_consumed (vw_vq w) + 1\<rparr>\<rparr>)))"

definition kb2_vq_take_used ::
    "'m kb2_vq_memory \<Rightarrow> 'm vq_world option \<Rightarrow> u64 \<Rightarrow> bool \<Rightarrow> kb2_vq_status \<times> nat option \<times> 'm vq_world option" where
  "kb2_vq_take_used mem vq generation chain_out = checked vq generation (vq_take_used mem chain_out)"

definition vq_copy_response ::
    "'m kb2_vq_memory \<Rightarrow> nat option \<Rightarrow> u64 \<Rightarrow> bool \<Rightarrow> nat \<Rightarrow> 'm vq_world \<Rightarrow> kb2_vq_status \<times> bytes option \<times> 'm vq_world" where
  "vq_copy_response mem chain offset out len w =
     (let c = vw_chains w (the chain) in
      if vq_side (vw_vq w) \<noteq> KB2_VQ_DRIVER \<or> \<not> vq_owns w chain RETURNED \<or> (\<not> out \<and> len \<noteq> 0) \<or>
         ucast (cn_used_length c) < offset \<or> unat (ucast (cn_used_length c) - offset) < len
      then (KB2_VQ_INVALID, None, w)
      else copy_data mem w (the chain) 1 offset [] len False)"

definition kb2_vq_copy_response ::
    "'m kb2_vq_memory \<Rightarrow> 'm vq_world option \<Rightarrow> u64 \<Rightarrow> nat option \<Rightarrow> u64 \<Rightarrow> bool \<Rightarrow> nat
     \<Rightarrow> kb2_vq_status \<times> bytes option \<times> 'm vq_world option" where
  "kb2_vq_copy_response mem vq generation chain offset out len =
     checked vq generation (vq_copy_response mem chain offset out len)"

definition vq_release :: "nat option \<Rightarrow> 'm vq_world \<Rightarrow> kb2_vq_status \<times> unit option \<times> 'm vq_world" where
  "vq_release chain w =
     (if vq_side (vw_vq w) \<noteq> KB2_VQ_DRIVER \<or> \<not> vq_owns w chain RETURNED then (KB2_VQ_INVALID, None, w)
      else (KB2_VQ_OK, Some (), vq_drop w (the chain)))"

definition kb2_vq_release ::
    "'m vq_world option \<Rightarrow> u64 \<Rightarrow> nat option \<Rightarrow> kb2_vq_status \<times> unit option \<times> 'm vq_world option" where
  "kb2_vq_release vq generation chain = checked vq generation (vq_release chain)"

definition vq_arm ::
    "'m kb2_vq_memory \<Rightarrow> bool \<Rightarrow> 'm vq_world \<Rightarrow> kb2_vq_status \<times> bool option \<times> 'm vq_world" where
  "vq_arm mem ready w =
     (let q = vq_queue (vw_vq w);
          event = (if vq_side (vw_vq w) = KB2_VQ_DRIVER then available_event q else used_event q) in
      if \<not> ready then (KB2_VQ_INVALID, None, w)
      else case vm_store_release mem (vw_memory w) event (vq_consumed (vw_vq w)) of
        (False, m) \<Rightarrow> vq_fault (w\<lparr>vw_memory := m\<rparr>) True
      | (True, m) \<Rightarrow>
        (case pending_index mem (w\<lparr>vw_memory := vm_fence mem m\<rparr>) of (status, distance, w) \<Rightarrow>
          if status \<noteq> KB2_VQ_OK \<and> status \<noteq> KB2_VQ_EMPTY then (status, None, w)
          else (KB2_VQ_OK, Some (status = KB2_VQ_OK), w)))"

definition kb2_vq_arm ::
    "'m kb2_vq_memory \<Rightarrow> 'm vq_world option \<Rightarrow> u64 \<Rightarrow> bool \<Rightarrow> kb2_vq_status \<times> bool option \<times> 'm vq_world option" where
  "kb2_vq_arm mem vq generation ready = checked vq generation (vq_arm mem ready)"

end
