(* ===== verification/Virtqueue_Memory.thy ===== *)
theory Virtqueue_Memory
  imports Virtqueue
begin

text \<open>
  The mapped memory backend, \<open>protocol/src/virtqueue_memory.c\<close>, with the atomics of
  \<open>protocol/arch/x86_64/virtqueue_atomic.c\<close>. Native memory is one byte per 64-bit address. The
  contract that the queue engine needs of a backend is the locale \<open>shared_memory\<close>.
\<close>

unbundle bit_operations_syntax

section \<open>Data\<close>

type_synonym native = "u64 \<Rightarrow> u8"

record kb2_vq_mapping =
  mp_transport_base :: u64
  mp_length :: u64
  mp_address :: u64
  mp_local_rights :: u32

record kb2_vq_arena =
  ar_queue_id :: u32
  ar_rights :: u32
  ar_transport_base :: u64
  ar_length :: u64

record kb2_vq_atomic_ops =
  at_load_acquire :: "native \<Rightarrow> u64 \<Rightarrow> u16"
  at_store_release :: "native \<Rightarrow> u64 \<Rightarrow> u16 \<Rightarrow> native"
  at_fence :: "native \<Rightarrow> native"

record kb2_vq_mapped_memory =
  mm_mappings :: "kb2_vq_mapping list"
  mm_arenas :: "kb2_vq_arena list"
  mm_atomics :: kb2_vq_atomic_ops

text \<open>The bytes at an address, and storing bytes there.\<close>

definition peek :: "native \<Rightarrow> u64 \<Rightarrow> nat \<Rightarrow> bytes" where
  "peek m a n = map (\<lambda>i. m (a + of_nat i)) [0..<n]"

fun poke :: "native \<Rightarrow> u64 \<Rightarrow> bytes \<Rightarrow> native" where
  "poke m a [] = m"
| "poke m a (b # bs) = poke (m(a := b)) (a + 1) bs"

text \<open>Aligned 16-bit accesses of the processor, little-endian.\<close>

definition kb2_vq_x86_64_atomics :: kb2_vq_atomic_ops where
  "kb2_vq_x86_64_atomics = \<lparr>at_load_acquire = (\<lambda>m a. un16 (peek m a 2)),
     at_store_release = (\<lambda>m a v. poke m a (le16 v)), at_fence = (\<lambda>m. m)\<rparr>"

section \<open>Operations\<close>

definition valid_rights :: "u32 \<Rightarrow> bool" where
  "valid_rights rights \<longleftrightarrow> rights \<noteq> 0 \<and>
     rights AND NOT (KB2_PROTOCOL_REGION_RIGHT_READ OR KB2_PROTOCOL_REGION_RIGHT_WRITE) = 0"

definition mapping_overlaps :: "u64 \<Rightarrow> u64 \<Rightarrow> u64 \<Rightarrow> u64 \<Rightarrow> bool" where
  "mapping_overlaps a size_a b size_b \<longleftrightarrow> a < b + size_b \<and> b < a + size_a"

definition mapping_serves :: "u64 \<Rightarrow> nat \<Rightarrow> u32 \<Rightarrow> kb2_vq_mapping \<Rightarrow> bool" where
  "mapping_serves address len rights mp \<longleftrightarrow>
     \<not> (address < mp_transport_base mp \<or> mp_local_rights mp AND rights \<noteq> rights) \<and>
     address - mp_transport_base mp \<le> mp_length mp \<and> len \<le> unat (mp_length mp - (address - mp_transport_base mp))"

definition resolve :: "kb2_vq_mapped_memory \<Rightarrow> u64 \<Rightarrow> nat \<Rightarrow> u32 \<Rightarrow> u64 option" where
  "resolve memory address len rights =
     map_option (\<lambda>mp. mp_address mp + (address - mp_transport_base mp))
       (find (mapping_serves address len rights) (mm_mappings memory))"

definition mapping_valid :: "kb2_vq_mapping list \<Rightarrow> nat \<Rightarrow> bool" where
  "mapping_valid mappings i \<longleftrightarrow>
     (let mp = mappings ! i in
      \<not> (mp_address mp = 0 \<or> mp_length mp = 0 \<or> (-1) - mp_length mp < mp_transport_base mp \<or>
         (-1) - mp_length mp < mp_address mp \<or> \<not> valid_rights (mp_local_rights mp)) \<and>
      \<not> list_ex (\<lambda>j. mapping_overlaps (mp_transport_base mp) (mp_length mp)
             (mp_transport_base (mappings ! j)) (mp_length (mappings ! j)) \<or>
           mapping_overlaps (mp_address mp) (mp_length mp) (mp_address (mappings ! j)) (mp_length (mappings ! j))) [0..<i])"

definition arena_valid :: "kb2_vq_mapping list \<Rightarrow> kb2_vq_arena list \<Rightarrow> nat \<Rightarrow> bool" where
  "arena_valid mappings arenas i \<longleftrightarrow>
     (let arena = arenas ! i in
      \<not> (ar_queue_id arena = 0 \<or> ar_length arena = 0 \<or> (-1) - ar_length arena < ar_transport_base arena \<or>
         \<not> valid_rights (ar_rights arena)) \<and>
      list_ex (\<lambda>mp. mp_transport_base mp \<le> ar_transport_base arena \<and>
         ar_transport_base arena + ar_length arena \<le> mp_transport_base mp + mp_length mp) mappings \<and>
      \<not> list_ex (\<lambda>j. mapping_overlaps (ar_transport_base arena) (ar_length arena)
           (ar_transport_base (arenas ! j)) (ar_length (arenas ! j))) [0..<i])"

text \<open>\<open>pointers\<close> says that \<open>out\<close>, \<open>atomics\<close> and its members are not NULL.\<close>

definition kb2_vq_mapped_memory_init ::
    "bool \<Rightarrow> kb2_vq_mapping carray \<Rightarrow> kb2_vq_arena carray \<Rightarrow> kb2_vq_atomic_ops \<Rightarrow> kb2_vq_status \<times> kb2_vq_mapped_memory option" where
  "kb2_vq_mapped_memory_init pointers mappings arenas atomics =
     (case (mappings, arenas) of
        (Arr ms, Arr as) \<Rightarrow>
          if \<not> pointers \<or> ms = [] \<or> as = [] then (KB2_VQ_INVALID, None)
          else if \<not> list_all (mapping_valid ms) [0..<length ms] then (KB2_VQ_INVALID, None)
          else if \<not> list_all (arena_valid ms as) [0..<length as] then (KB2_VQ_INVALID, None)
          else (KB2_VQ_OK, Some \<lparr>mm_mappings = ms, mm_arenas = as, mm_atomics = atomics\<rparr>)
      | _ \<Rightarrow> (KB2_VQ_INVALID, None))"

definition read_bytes :: "kb2_vq_mapped_memory \<Rightarrow> native \<Rightarrow> u64 \<Rightarrow> nat \<Rightarrow> bytes option \<times> native" where
  "read_bytes memory m address len =
     (case resolve memory address len KB2_PROTOCOL_REGION_RIGHT_READ of
        None \<Rightarrow> (None, m)
      | Some source \<Rightarrow> (Some (peek m source len), m))"

definition write_bytes :: "kb2_vq_mapped_memory \<Rightarrow> native \<Rightarrow> u64 \<Rightarrow> bytes \<Rightarrow> bool \<times> native" where
  "write_bytes memory m address bytes =
     (case resolve memory address (length bytes) KB2_PROTOCOL_REGION_RIGHT_WRITE of
        None \<Rightarrow> (False, m)
      | Some destination \<Rightarrow> (True, poke m destination bytes))"

definition load_index :: "kb2_vq_mapped_memory \<Rightarrow> native \<Rightarrow> u64 \<Rightarrow> u16 option \<times> native" where
  "load_index memory m address =
     (case resolve memory address 2 KB2_PROTOCOL_REGION_RIGHT_READ of
        None \<Rightarrow> (None, m)
      | Some source \<Rightarrow> if address AND 1 \<noteq> 0 \<or> source AND 1 \<noteq> 0 then (None, m)
          else (Some (at_load_acquire (mm_atomics memory) m source), m))"

definition store_index :: "kb2_vq_mapped_memory \<Rightarrow> native \<Rightarrow> u64 \<Rightarrow> u16 \<Rightarrow> bool \<times> native" where
  "store_index memory m address v =
     (case resolve memory address 2 KB2_PROTOCOL_REGION_RIGHT_WRITE of
        None \<Rightarrow> (False, m)
      | Some destination \<Rightarrow> if address AND 1 \<noteq> 0 \<or> destination AND 1 \<noteq> 0 then (False, m)
          else (True, at_store_release (mm_atomics memory) m destination v))"

definition full_fence :: "kb2_vq_mapped_memory \<Rightarrow> native \<Rightarrow> native" where
  "full_fence memory m = at_fence (mm_atomics memory) m"

definition payload_allowed :: "kb2_vq_mapped_memory \<Rightarrow> u32 \<Rightarrow> u64 \<Rightarrow> u64 \<Rightarrow> u32 \<Rightarrow> bool" where
  "payload_allowed memory queue_id address len rights \<longleftrightarrow>
     \<not> (len = 0 \<or> (-1) - len < address) \<and>
     list_ex (\<lambda>arena. ar_queue_id arena = queue_id \<and> ar_rights arena AND rights = rights \<and>
        ar_transport_base arena \<le> address \<and> address + len \<le> ar_transport_base arena + ar_length arena) (mm_arenas memory)"

definition kb2_vq_mapped_memory_ops :: "kb2_vq_mapped_memory \<Rightarrow> native kb2_vq_memory" where
  "kb2_vq_mapped_memory_ops memory = \<lparr>vm_read = read_bytes memory, vm_write = write_bytes memory,
     vm_load_acquire = load_index memory, vm_store_release = store_index memory,
     vm_fence = full_fence memory, vm_payload_allowed = payload_allowed memory\<rparr>"


section \<open>The contract of a backend\<close>

text \<open>
  What the queue engine relies on: transport memory is a byte per address, reads return it,
  writes replace it, where the mapping allows the access.
\<close>

locale shared_memory =
  fixes mem :: "'m kb2_vq_memory" and view :: "'m \<Rightarrow> native" and readable writable :: "u64 \<Rightarrow> nat \<Rightarrow> bool"
  assumes read_law: "readable a n \<Longrightarrow> vm_read mem m a n = (Some (peek (view m) a n), m)"
    and write_law: "writable a (length bs) \<Longrightarrow> \<exists>m'. vm_write mem m a bs = (True, m') \<and> view m' = poke (view m) a bs"
    and load_law: "readable a 2 \<Longrightarrow> a AND 1 = 0 \<Longrightarrow> vm_load_acquire mem m a = (Some (un16 (peek (view m) a 2)), m)"
    and store_law: "writable a 2 \<Longrightarrow> a AND 1 = 0 \<Longrightarrow>
      \<exists>m'. vm_store_release mem m a v = (True, m') \<and> view m' = poke (view m) a (le16 v)"
    and fence_law: "view (vm_fence mem m) = view m"

section \<open>The mapped backend keeps the contract\<close>

definition mapped_ok :: "kb2_vq_mapped_memory \<Rightarrow> bool" where
  "mapped_ok memory \<longleftrightarrow> list_all (mapping_valid (mm_mappings memory)) [0..<length (mm_mappings memory)] \<and>
     list_all (arena_valid (mm_mappings memory) (mm_arenas memory)) [0..<length (mm_arenas memory)]"

lemma init_mapped_ok:
  "kb2_vq_mapped_memory_init pointers mappings arenas atomics = (KB2_VQ_OK, Some memory) \<Longrightarrow>
   mapped_ok memory \<and> mm_atomics memory = atomics"
  by (auto simp: kb2_vq_mapped_memory_init_def mapped_ok_def split: carray.split_asm if_split_asm)

lemma mapping_validD:
  assumes "mapped_ok memory" "i < length (mm_mappings memory)"
  defines "mp \<equiv> mm_mappings memory ! i"
  shows "no_wrap (mp_transport_base mp) (mp_length mp)" "no_wrap (mp_address mp) (mp_length mp)" "mp_length mp \<noteq> 0"
  using assms by (auto simp: mapped_ok_def list_all_iff mapping_valid_def Let_def not_less le_max_minus_iff)

definition transport_span :: "kb2_vq_mapping \<Rightarrow> nat set" where
  "transport_span mp = addresses (mp_transport_base mp) (mp_length mp)"

definition native_span :: "kb2_vq_mapping \<Rightarrow> nat set" where
  "native_span mp = addresses (mp_address mp) (mp_length mp)"

lemma mappings_apart_less:
  assumes ok: "mapped_ok memory" and i: "i < length (mm_mappings memory)" "j < i"
  shows "transport_span (mm_mappings memory ! i) \<inter> transport_span (mm_mappings memory ! j) = {}"
    "native_span (mm_mappings memory ! i) \<inter> native_span (mm_mappings memory ! j) = {}"
proof -
  let ?mp = "mm_mappings memory ! i" and ?mq = "mm_mappings memory ! j"
  have j: "j < length (mm_mappings memory)" using i by simp
  note vi = mapping_validD [OF ok i(1)] and vj = mapping_validD [OF ok j]
  have "mapping_valid (mm_mappings memory) i" using ok i(1) by (simp add: mapped_ok_def list_all_iff)
  then have "\<not> mapping_overlaps (mp_transport_base ?mp) (mp_length ?mp) (mp_transport_base ?mq) (mp_length ?mq)"
    "\<not> mapping_overlaps (mp_address ?mp) (mp_length ?mp) (mp_address ?mq) (mp_length ?mq)"
    using i(2) by (auto simp: mapping_valid_def Let_def list_ex_iff)
  then show "transport_span ?mp \<inter> transport_span ?mq = {}" "native_span ?mp \<inter> native_span ?mq = {}"
    unfolding mapping_overlaps_def transport_span_def native_span_def
      overlap_iff [OF vi(1) vj(1) vi(3) vj(3)] overlap_iff [OF vi(2) vj(2) vi(3) vj(3)] by blast+
qed

lemma mappings_apart:
  assumes "mapped_ok memory" "i < length (mm_mappings memory)" "j < length (mm_mappings memory)" "i \<noteq> j"
  shows "transport_span (mm_mappings memory ! i) \<inter> transport_span (mm_mappings memory ! j) = {}"
    "native_span (mm_mappings memory ! i) \<inter> native_span (mm_mappings memory ! j) = {}"
  using mappings_apart_less [OF assms(1,2), of j] mappings_apart_less [OF assms(1,3), of i] assms(4)
  by (cases "j < i"; auto)+

text \<open>Where a transport address lies in native memory.\<close>

definition native_of :: "kb2_vq_mapping \<Rightarrow> u64 \<Rightarrow> u64" where
  "native_of mp x = mp_address mp + (x - mp_transport_base mp)"

definition mapping_holds :: "u64 \<Rightarrow> kb2_vq_mapping \<Rightarrow> bool" where
  "mapping_holds x mp \<longleftrightarrow> unat x \<in> transport_span mp"

definition mapped_view :: "kb2_vq_mapped_memory \<Rightarrow> native \<Rightarrow> native" where
  "mapped_view memory m x = (case find (mapping_holds x) (mm_mappings memory) of
     None \<Rightarrow> 0 | Some mp \<Rightarrow> m (native_of mp x))"

text \<open>An access that resolves lies in one mapping, on both sides.\<close>

lemma offset_unat:
  assumes "unat (b :: u64) + n < 2 ^ 64" "i < n"
  shows "unat (b + of_nat i) = unat b + i"
proof -
  have "unat (of_nat i :: u64) = i" using assms by (simp add: unat_of_nat take_bit_nat_eq_self)
  then show ?thesis using assms by (simp add: unat_word_ariths)
qed

lemma resolveD:
  assumes ok: "mapped_ok memory" and r: "resolve memory a n rights = Some d"
  obtains i where "i < length (mm_mappings memory)" "d = native_of (mm_mappings memory ! i) a"
    "mp_local_rights (mm_mappings memory ! i) AND rights = rights"
    "unat (mp_transport_base (mm_mappings memory ! i)) \<le> unat a"
    "unat a + n \<le> unat (mp_transport_base (mm_mappings memory ! i)) + unat (mp_length (mm_mappings memory ! i))"
    "unat d = unat (mp_address (mm_mappings memory ! i)) + (unat a - unat (mp_transport_base (mm_mappings memory ! i)))"
proof -
  obtain i where i: "i < length (mm_mappings memory)" and s: "mapping_serves a n rights (mm_mappings memory ! i)"
    and d: "d = native_of (mm_mappings memory ! i) a"
    using r by (auto simp: resolve_def native_of_def find_Some_iff)
  let ?mp = "mm_mappings memory ! i"
  have le: "mp_transport_base ?mp \<le> a" and off: "a - mp_transport_base ?mp \<le> mp_length ?mp"
    and n: "n \<le> unat (mp_length ?mp - (a - mp_transport_base ?mp))" and rt: "mp_local_rights ?mp AND rights = rights"
    using s by (auto simp: mapping_serves_def not_less)
  have diff: "unat (a - mp_transport_base ?mp) = unat a - unat (mp_transport_base ?mp)" by (rule unat_sub [OF le])
  have "unat (mp_length ?mp - (a - mp_transport_base ?mp)) = unat (mp_length ?mp) - unat (a - mp_transport_base ?mp)"
    by (rule unat_sub [OF off])
  then have lim: "unat a + n \<le> unat (mp_transport_base ?mp) + unat (mp_length ?mp)"
    using n le off diff by (simp add: word_le_nat_alt)
  have "unat d = unat (mp_address ?mp) + (unat a - unat (mp_transport_base ?mp))"
    using mapping_validD(2) [OF ok i] off diff by (simp add: d native_of_def no_wrap_def unat_word_ariths word_le_nat_alt)
  then show thesis using that i d rt lim le by (simp add: word_le_nat_alt)
qed


lemma length_peek [simp]: "length (peek m a n) = n"
  by (simp add: peek_def)

lemma poke_nth:
  "length bs \<le> 2 ^ 64 \<Longrightarrow> poke m a bs x = (if unat (x - a) < length bs then bs ! unat (x - a) else m x)"
proof (induction bs arbitrary: m a)
  case (Cons b bs)
  show ?case
  proof (cases "x = a")
    case True
    have "x - (a + 1) = - 1" using True by simp
    then have "unat (x - (a + 1)) = 2 ^ 64 - 1" by (simp add: unsigned_minus_1_eq_mask mask_eq_exp_minus_1)
    then show ?thesis using Cons True by simp
  next
    case False
    then have "unat (x - a) \<noteq> 0" by (simp add: unat_eq_zero)
    moreover have "unat (x - (a + 1)) = unat (x - a) - 1"
      using False by (subst diff_diff_eq [symmetric]) (intro unat_minus_one, simp)
    ultimately show ?thesis using Cons False by (cases "unat (x - a)") simp_all
  qed
qed simp

lemma mapping_unique:
  assumes "mapped_ok memory" "i < length (mm_mappings memory)" "unat x \<in> transport_span (mm_mappings memory ! i)"
  shows "find (mapping_holds x) (mm_mappings memory) = Some (mm_mappings memory ! i)"
proof -
  obtain mq where mq: "find (mapping_holds x) (mm_mappings memory) = Some mq"
    using assms(2,3) by (cases "find (mapping_holds x) (mm_mappings memory)") (auto simp: find_None_iff mapping_holds_def)
  then obtain j where "j < length (mm_mappings memory)" "mq = mm_mappings memory ! j" "unat x \<in> transport_span mq"
    by (auto simp: find_Some_iff mapping_holds_def)
  then show ?thesis using mappings_apart(1) [OF assms(1,2), of j] assms(3) mq by (cases "j = i") auto
qed

lemma native_of_span:
  assumes "mapped_ok memory" "i < length (mm_mappings memory)" "unat x \<in> transport_span (mm_mappings memory ! i)"
  shows "unat (native_of (mm_mappings memory ! i) x) \<in> native_span (mm_mappings memory ! i)"
proof -
  let ?mp = "mm_mappings memory ! i"
  have "mp_transport_base ?mp \<le> x" using assms(3) by (simp add: transport_span_def addresses_def word_le_nat_alt)
  then have "unat (x - mp_transport_base ?mp) = unat x - unat (mp_transport_base ?mp)" by (rule unat_sub)
  moreover from this have "unat (native_of ?mp x) = unat (mp_address ?mp) + (unat x - unat (mp_transport_base ?mp))"
    using assms(3) mapping_validD(2) [OF assms(1,2)]
    by (subst native_of_def, subst no_wrap_unat) (auto simp: no_wrap_def transport_span_def addresses_def)
  ultimately show ?thesis using assms(3) by (auto simp: native_span_def transport_span_def addresses_def)
qed

text \<open>A native address inside a written range belongs to the mapping that the write resolved to.\<close>

lemma offset_inside:
  assumes "unat (y - d) < n" "unat (d :: u64) + n < 2 ^ 64"
  shows "unat y = unat d + unat (y - d)"
proof -
  have "no_wrap d (y - d)" using assms by (simp add: no_wrap_def)
  from no_wrap_unat [OF this] show ?thesis by simp
qed

lemma view_peek:
  assumes ok: "mapped_ok memory" and r: "resolve memory a n rights = Some d"
  shows "peek m d n = peek (mapped_view memory m) a n"
proof -
  obtain i where i: "i < length (mm_mappings memory)" and d: "d = native_of (mm_mappings memory ! i) a"
    and lo: "unat (mp_transport_base (mm_mappings memory ! i)) \<le> unat a"
    and hi: "unat a + n \<le> unat (mp_transport_base (mm_mappings memory ! i)) + unat (mp_length (mm_mappings memory ! i))"
    using resolveD [OF ok r] by metis
  have "mapped_view memory m (a + of_nat k) = m (d + of_nat k)" if "k < n" for k
  proof -
    have "unat (a + of_nat k) = unat a + k"
      using mapping_validD(1) [OF ok i] hi that by (intro offset_unat [where n = n]) (auto simp: no_wrap_def)
    then have "unat (a + of_nat k) \<in> transport_span (mm_mappings memory ! i)"
      using lo hi that by (simp add: transport_span_def addresses_def)
    from mapping_unique [OF ok i this] show ?thesis by (simp add: mapped_view_def d native_of_def algebra_simps)
  qed
  then show ?thesis by (simp add: peek_def)
qed

lemma view_poke:
  assumes ok: "mapped_ok memory" and r: "resolve memory a (length bs) rights = Some d"
  shows "mapped_view memory (poke m d bs) = poke (mapped_view memory m) a bs"
proof
  fix x
  obtain i where i: "i < length (mm_mappings memory)" and d: "d = native_of (mm_mappings memory ! i) a"
    and lo: "unat (mp_transport_base (mm_mappings memory ! i)) \<le> unat a"
    and hi: "unat a + length bs \<le> unat (mp_transport_base (mm_mappings memory ! i)) + unat (mp_length (mm_mappings memory ! i))"
    and dd: "unat d = unat (mp_address (mm_mappings memory ! i)) + (unat a - unat (mp_transport_base (mm_mappings memory ! i)))"
    using resolveD [OF ok r] by metis
  let ?mp = "mm_mappings memory ! i"
  note v = mapping_validD [OF ok i, unfolded no_wrap_def]
  have len: "length bs \<le> 2 ^ 64" using lo hi v(1) by linarith
  have hia: "unat a + length bs < 2 ^ 64" "unat d + length bs < 2 ^ 64" using lo hi v(1,2) dd by linarith+
  have out: "\<not> unat (x - a) < length bs" if "unat x \<notin> transport_span ?mp"
    using offset_inside [OF _ hia(1), of x] that lo hi by (auto simp: transport_span_def addresses_def)
  show "mapped_view memory (poke m d bs) x = poke (mapped_view memory m) a bs x"
  proof (cases "find (mapping_holds x) (mm_mappings memory)")
    case None
    then have "unat x \<notin> transport_span ?mp" using i by (auto simp: find_None_iff mapping_holds_def)
    then show ?thesis using None out by (simp add: mapped_view_def poke_nth [OF len])
  next
    case (Some mq)
    then obtain j where j: "j < length (mm_mappings memory)" "mq = mm_mappings memory ! j" "unat x \<in> transport_span mq"
      by (auto simp: find_Some_iff mapping_holds_def)
    show ?thesis
    proof (cases "j = i")
      case True
      have "native_of mq x - d = x - a" using True j by (simp add: d native_of_def algebra_simps)
      then show ?thesis using Some by (simp add: mapped_view_def poke_nth [OF len])
    next
      case False
      have "unat (native_of mq x) \<notin> native_span ?mp" "unat x \<notin> transport_span ?mp"
        using native_of_span [OF ok j(1)] j mappings_apart [OF ok i j(1)] False by auto
      moreover then have "\<not> unat (native_of mq x - d) < length bs"
        using offset_inside [OF _ hia(2), of "native_of mq x"] lo hi dd by (auto simp: native_span_def addresses_def)
      ultimately show ?thesis using Some out by (simp add: mapped_view_def poke_nth [OF len])
    qed
  qed
qed


text \<open>
  Accesses that the backend grants. Index accesses also need a native address of the same
  parity as the transport address, which page-aligned mappings have.
\<close>

definition same_parity :: "kb2_vq_mapped_memory \<Rightarrow> bool" where
  "same_parity memory \<longleftrightarrow> list_all (\<lambda>mp. even (mp_address mp) = even (mp_transport_base mp)) (mm_mappings memory)"

definition mapped_access :: "kb2_vq_mapped_memory \<Rightarrow> u32 \<Rightarrow> u64 \<Rightarrow> nat \<Rightarrow> bool" where
  "mapped_access memory rights a n \<longleftrightarrow> mapped_ok memory \<and>
     same_parity memory \<and> resolve memory a n rights \<noteq> None"

lemma mapped_access_parity:
  assumes "mapped_access memory rights a n" "resolve memory a n rights = Some d" "a AND 1 = 0"
  shows "d AND 1 = 0"
proof -
  obtain i where i: "i < length (mm_mappings memory)" and d: "d = native_of (mm_mappings memory ! i) a"
    using resolveD [OF _ assms(2)] assms(1) unfolding mapped_access_def by metis
  have "even (mp_address (mm_mappings memory ! i)) = even (mp_transport_base (mm_mappings memory ! i))"
    using assms(1) i by (simp add: mapped_access_def same_parity_def list_all_length)
  moreover have "even a" using assms(3) by (simp add: and_one_eq even_iff_mod_2_eq_zero)
  ultimately have "even d" unfolding d native_of_def by simp
  then show ?thesis by (simp add: and_one_eq even_iff_mod_2_eq_zero)
qed

lemmas mapped_ops_simps = kb2_vq_mapped_memory_ops_def read_bytes_def write_bytes_def load_index_def store_index_def
  full_fence_def kb2_vq_x86_64_atomics_def

definition x86_64_memory :: "kb2_vq_mapping list \<Rightarrow> kb2_vq_arena list \<Rightarrow> kb2_vq_mapped_memory" where
  "x86_64_memory ms as = \<lparr>mm_mappings = ms, mm_arenas = as, mm_atomics = kb2_vq_x86_64_atomics\<rparr>"

interpretation mapped: shared_memory "kb2_vq_mapped_memory_ops (x86_64_memory ms as)" "mapped_view (x86_64_memory ms as)"
  "mapped_access (x86_64_memory ms as) 1" "mapped_access (x86_64_memory ms as) 2" for ms as
proof
  fix a n m assume a: "mapped_access (x86_64_memory ms as) 1 a n"
  then obtain d where d: "resolve (x86_64_memory ms as) a n 1 = Some d" by (auto simp: mapped_access_def)
  then have "peek m d n = peek (mapped_view (x86_64_memory ms as) m) a n" using a by (intro view_peek) (auto simp: mapped_access_def)
  then show "vm_read (kb2_vq_mapped_memory_ops (x86_64_memory ms as)) m a n = (Some (peek (mapped_view (x86_64_memory ms as) m) a n), m)"
    using d by (simp add: mapped_ops_simps x86_64_memory_def)
next
  fix a and bs :: bytes and m assume a: "mapped_access (x86_64_memory ms as) 2 a (length bs)"
  then obtain d where d: "resolve (x86_64_memory ms as) a (length bs) 2 = Some d" by (auto simp: mapped_access_def)
  then have "mapped_view (x86_64_memory ms as) (poke m d bs) = poke (mapped_view (x86_64_memory ms as) m) a bs"
    using a by (intro view_poke) (auto simp: mapped_access_def)
  then show "\<exists>m'. vm_write (kb2_vq_mapped_memory_ops (x86_64_memory ms as)) m a bs = (True, m') \<and>
      mapped_view (x86_64_memory ms as) m' = poke (mapped_view (x86_64_memory ms as) m) a bs"
    using d by (simp add: mapped_ops_simps x86_64_memory_def)
next
  fix a m assume a: "mapped_access (x86_64_memory ms as) 1 a 2" "a AND 1 = 0"
  then obtain d where d: "resolve (x86_64_memory ms as) a 2 1 = Some d" by (auto simp: mapped_access_def)
  then have "peek m d 2 = peek (mapped_view (x86_64_memory ms as) m) a 2" using a by (intro view_peek) (auto simp: mapped_access_def)
  then show "vm_load_acquire (kb2_vq_mapped_memory_ops (x86_64_memory ms as)) m a = (Some (un16 (peek (mapped_view (x86_64_memory ms as) m) a 2)), m)"
    using a d mapped_access_parity [OF a(1) d a(2)] by (simp add: mapped_access_def mapped_ops_simps x86_64_memory_def)
next
  fix a m v assume a: "mapped_access (x86_64_memory ms as) 2 a 2" "a AND 1 = 0"
  then obtain d where d: "resolve (x86_64_memory ms as) a 2 2 = Some d" by (auto simp: mapped_access_def)
  then have "mapped_view (x86_64_memory ms as) (poke m d (le16 v)) = poke (mapped_view (x86_64_memory ms as) m) a (le16 v)"
    using a by (intro view_poke [where rights = 2]) (auto simp: mapped_access_def)
  then show "\<exists>m'. vm_store_release (kb2_vq_mapped_memory_ops (x86_64_memory ms as)) m a v = (True, m') \<and>
      mapped_view (x86_64_memory ms as) m' = poke (mapped_view (x86_64_memory ms as) m) a (le16 v)"
    using a d mapped_access_parity [OF a(1) d a(2)] by (simp add: mapped_access_def mapped_ops_simps x86_64_memory_def)
next
  fix m
  show "mapped_view (x86_64_memory ms as) (vm_fence (kb2_vq_mapped_memory_ops (x86_64_memory ms as)) m) = mapped_view (x86_64_memory ms as) m"
    by (simp add: mapped_ops_simps x86_64_memory_def)
qed


section \<open>What the host maps is what the queue can touch\<close>

lemma poke_confined:
  assumes ok: "mapped_ok memory" and r: "resolve memory a (length bs) rights = Some d" and x: "poke m d bs x \<noteq> m x"
  shows "\<exists>mp \<in> set (mm_mappings memory). mp_local_rights mp AND rights = rights \<and> unat x \<in> native_span mp"
proof -
  obtain i where i: "i < length (mm_mappings memory)" and rt: "mp_local_rights (mm_mappings memory ! i) AND rights = rights"
    and lo: "unat (mp_transport_base (mm_mappings memory ! i)) \<le> unat a"
    and hi: "unat a + length bs \<le> unat (mp_transport_base (mm_mappings memory ! i)) + unat (mp_length (mm_mappings memory ! i))"
    and dd: "unat d = unat (mp_address (mm_mappings memory ! i)) + (unat a - unat (mp_transport_base (mm_mappings memory ! i)))"
    using resolveD [OF ok r] by metis
  note v = mapping_validD [OF ok i, unfolded no_wrap_def]
  have len: "length bs \<le> 2 ^ 64" and hid: "unat d + length bs < 2 ^ 64" using lo hi v dd by linarith+
  have "unat (x - d) < length bs" using x poke_nth [OF len] by (metis (full_types))
  from offset_inside [OF this hid] have "unat x \<in> native_span (mm_mappings memory ! i)"
    using \<open>unat (x - d) < length bs\<close> lo hi dd by (auto simp: native_span_def addresses_def)
  then show ?thesis using i rt by (intro bexI [of _ "mm_mappings memory ! i"]) auto
qed

lemma peek_poke:
  assumes "length bs \<le> 2 ^ 64"
  shows "peek (poke m a bs) a (length bs) = bs"
proof (rule nth_equalityI)
  fix i assume "i < length (peek (poke m a bs) a (length bs))"
  then have i: "i < length bs" by simp
  then have "unat (of_nat i :: u64) = i" using assms by (simp add: unat_of_nat take_bit_nat_eq_self)
  then show "peek (poke m a bs) a (length bs) ! i = bs ! i" using i by (simp add: peek_def poke_nth [OF assms])
qed simp

lemma resolve_small:
  assumes "mapped_ok memory" "resolve memory a n rights = Some d"
  shows "n \<le> 2 ^ 64"
proof -
  obtain i where "i < length (mm_mappings memory)"
    "unat (mp_transport_base (mm_mappings memory ! i)) \<le> unat a"
    "unat a + n \<le> unat (mp_transport_base (mm_mappings memory ! i)) + unat (mp_length (mm_mappings memory ! i))"
    using resolveD [OF assms] by metis
  then show ?thesis using mapping_validD(1) [OF assms(1), of i] by (simp add: no_wrap_def)
qed

text \<open>C7. Transport writes stay inside the mappings. Once \<open>kb2_vq_mapped_memory_init\<close> has accepted
  the host's tables, a write of the backend either fails and changes nothing, or it changes
  native memory only inside mappings that the host made writable, replaces exactly the bytes
  addressed in transport memory, and a read of the same range, where reading is allowed, returns
  the bytes written.\<close>

theorem kb2_vq_mapped_memory_bounds:
  assumes "kb2_vq_mapped_memory_init True (Arr ms) (Arr as) kb2_vq_x86_64_atomics = (KB2_VQ_OK, Some memory)"
    and "write_bytes memory m a bs = (ok, m')"
  shows "(if ok then mapped_view memory m' = poke (mapped_view memory m) a bs else m' = m) \<and>
    (\<forall>x. m' x \<noteq> m x \<longrightarrow> (\<exists>mp \<in> set ms. mp_local_rights mp AND 2 = 2 \<and> unat x \<in> native_span mp)) \<and>
    (ok \<and> resolve memory a (length bs) 1 \<noteq> None \<longrightarrow> read_bytes memory m' a (length bs) = (Some bs, m'))"
proof -
  have ok: "mapped_ok memory" and ms: "mm_mappings memory = ms"
    using init_mapped_ok [OF assms(1)] assms(1)
    by (auto simp: kb2_vq_mapped_memory_init_def split: if_split_asm)
  show ?thesis
  proof (cases "resolve memory a (length bs) 2")
    case None
    then show ?thesis using assms(2) by (simp add: write_bytes_def)
  next
    case (Some d)
    then have m': "m' = poke m d bs" "ok" using assms(2) by (simp_all add: write_bytes_def)
    have "read_bytes memory m' a (length bs) = (Some bs, m')" if "resolve memory a (length bs) 1 \<noteq> None"
      using that view_peek [OF ok, of a "length bs" 1 _ m'] peek_poke [OF resolve_small [OF ok Some]]
      by (auto simp: read_bytes_def view_poke [OF ok Some] m')
    then show ?thesis using m' view_poke [OF ok Some] poke_confined [OF ok Some] ms by auto
  qed
qed

definition sample_mappings :: "kb2_vq_mapping list" where
  "sample_mappings = [\<lparr>mp_transport_base = 0x1000, mp_length = 0x1000, mp_address = 0x7000, mp_local_rights = 3\<rparr>]"

definition sample_arenas :: "kb2_vq_arena list" where
  "sample_arenas = [\<lparr>ar_queue_id = 1, ar_rights = 3, ar_transport_base = 0x1800, ar_length = 0x400\<rparr>,
     \<lparr>ar_queue_id = 2, ar_rights = 3, ar_transport_base = 0x1c00, ar_length = 0x400\<rparr>]"

lemma sample_memory_init:
  "kb2_vq_mapped_memory_init True (Arr sample_mappings) (Arr sample_arenas) kb2_vq_x86_64_atomics =
     (KB2_VQ_OK, Some (x86_64_memory sample_mappings sample_arenas))"
  by (simp add: kb2_vq_mapped_memory_init_def sample_mappings_def sample_arenas_def x86_64_memory_def
      mapping_valid_def arena_valid_def valid_rights_def mapping_overlaps_def upt_rec)

theorem kb2_vq_mapped_memory_bounds_witness:
  "read_bytes (x86_64_memory sample_mappings sample_arenas)
     (snd (write_bytes (x86_64_memory sample_mappings sample_arenas) (\<lambda>_. 0) 0x1802 [1, 2])) 0x1802 2 =
   (Some [1, 2], snd (write_bytes (x86_64_memory sample_mappings sample_arenas) (\<lambda>_. 0) 0x1802 [1, 2]))"
proof -
  have r: "resolve (x86_64_memory sample_mappings sample_arenas) 0x1802 2 1 \<noteq> None"
    "resolve (x86_64_memory sample_mappings sample_arenas) 0x1802 2 2 \<noteq> None"
    by (simp_all add: resolve_def x86_64_memory_def sample_mappings_def mapping_serves_def)
  then have w: "write_bytes (x86_64_memory sample_mappings sample_arenas) (\<lambda>_. 0) 0x1802 [1, 2] =
      (True, snd (write_bytes (x86_64_memory sample_mappings sample_arenas) (\<lambda>_. 0) 0x1802 [1, 2]))"
    by (auto simp: write_bytes_def numeral_2_eq_2)
  show ?thesis using kb2_vq_mapped_memory_bounds [OF sample_memory_init w] r by (simp add: numeral_2_eq_2)
qed


lemma arena_validD:
  assumes "mapped_ok memory" "i < length (mm_arenas memory)"
  defines "ar \<equiv> mm_arenas memory ! i"
  shows "no_wrap (ar_transport_base ar) (ar_length ar)" "ar_length ar \<noteq> 0"
  using assms by (auto simp: mapped_ok_def list_all_iff arena_valid_def Let_def not_less le_max_minus_iff)

lemma arenas_apart:
  assumes ok: "mapped_ok memory" and i: "i < length (mm_arenas memory)" "j < i"
  shows "addresses (ar_transport_base (mm_arenas memory ! i)) (ar_length (mm_arenas memory ! i)) \<inter>
    addresses (ar_transport_base (mm_arenas memory ! j)) (ar_length (mm_arenas memory ! j)) = {}"
proof -
  have j: "j < length (mm_arenas memory)" using i by simp
  note vi = arena_validD [OF ok i(1)] and vj = arena_validD [OF ok j]
  have "arena_valid (mm_mappings memory) (mm_arenas memory) i" using ok i(1) by (simp add: mapped_ok_def list_all_iff)
  then have "\<not> mapping_overlaps (ar_transport_base (mm_arenas memory ! i)) (ar_length (mm_arenas memory ! i))
      (ar_transport_base (mm_arenas memory ! j)) (ar_length (mm_arenas memory ! j))"
    using i(2) by (auto simp: arena_valid_def Let_def list_ex_iff)
  then show ?thesis unfolding mapping_overlaps_def overlap_iff [OF vi(1) vj(1) vi(2) vj(2)] by blast
qed

lemma payload_allowedD:
  assumes ok: "mapped_ok memory" and p: "payload_allowed memory queue_id a n rights"
  obtains i where "i < length (mm_arenas memory)" "ar_queue_id (mm_arenas memory ! i) = queue_id"
    "ar_rights (mm_arenas memory ! i) AND rights = rights"
    "addresses a n \<subseteq> addresses (ar_transport_base (mm_arenas memory ! i)) (ar_length (mm_arenas memory ! i))"
proof -
  have n: "n \<noteq> 0" "no_wrap a n" using p by (auto simp: payload_allowed_def not_less le_max_minus_iff)
  obtain i where i: "i < length (mm_arenas memory)" "ar_queue_id (mm_arenas memory ! i) = queue_id"
    "ar_rights (mm_arenas memory ! i) AND rights = rights"
    "ar_transport_base (mm_arenas memory ! i) \<le> a \<and>
     a + n \<le> ar_transport_base (mm_arenas memory ! i) + ar_length (mm_arenas memory ! i)"
    using p by (auto simp: payload_allowed_def list_ex_length)
  show thesis
    using that i unfolding inside_iff [OF n(2) arena_validD(1) [OF ok i(1)] n(1)] by blast
qed

text \<open>The lanes of a channel are isolated by the arenas: a range that one queue may use for payload
  never meets a range that another queue may use.\<close>

lemma payload_lanes_disjoint:
  assumes ok: "mapped_ok memory" and "payload_allowed memory p a n r" "payload_allowed memory q b k s" "p \<noteq> q"
  shows "addresses a n \<inter> addresses b k = {}"
proof -
  obtain i j where i: "i < length (mm_arenas memory)" "ar_queue_id (mm_arenas memory ! i) = p"
    "addresses a n \<subseteq> addresses (ar_transport_base (mm_arenas memory ! i)) (ar_length (mm_arenas memory ! i))"
    and j: "j < length (mm_arenas memory)" "ar_queue_id (mm_arenas memory ! j) = q"
    "addresses b k \<subseteq> addresses (ar_transport_base (mm_arenas memory ! j)) (ar_length (mm_arenas memory ! j))"
    using payload_allowedD [OF ok assms(2)] payload_allowedD [OF ok assms(3)] by metis
  have "i \<noteq> j" using i j assms(4) by auto
  then show ?thesis using arenas_apart [OF ok i(1), of j] arenas_apart [OF ok j(1), of i] i(3) j(3)
    by (cases "j < i") auto
qed

end
