(* ===== verification/Virtqueue_Safety.thy ===== *)
theory Virtqueue_Safety
  imports Virtqueue_Memory
begin

text \<open>
  Safety of the virtqueue engine against any peer: the invariant of a queue's private
  bookkeeping, its preservation by every operation and by every sequence of them, and where the
  engine may write.
\<close>

section \<open>Overlap\<close>

lemma overlaps_sym: "overlaps a n b m \<longleftrightarrow> overlaps b m a n"
  by (auto simp: overlaps_def)

lemma segments_conflict_sym: "segments_conflict l r \<longleftrightarrow> segments_conflict r l"
  by (auto simp: segments_conflict_def overlaps_sym [of "sg_address l"])

lemma chains_overlap_sym: "chains_overlap a b \<longleftrightarrow> chains_overlap b a"
  unfolding chains_overlap_def list_ex_iff
  using overlaps_sym segments_conflict_sym by blast

text \<open>Fields that do not matter to the views of a chain.\<close>

lemma chain_segments_frame [simp]:
  "chain_segments (c\<lparr>cn_head := new_head\<rparr>) = chain_segments c"
  "chain_segments (c\<lparr>cn_indirect := new_indirect\<rparr>) = chain_segments c"
  "chain_segments (c\<lparr>cn_indirect_length := new_indirect_length\<rparr>) = chain_segments c"
  "chain_segments (c\<lparr>cn_indirect_descriptor := new_indirect_descriptor\<rparr>) = chain_segments c"
  "chain_segments (c\<lparr>cn_indirect_first := new_indirect_first\<rparr>) = chain_segments c"
  "chain_segments (c\<lparr>cn_readable := new_readable\<rparr>) = chain_segments c"
  "chain_segments (c\<lparr>cn_writable := new_writable\<rparr>) = chain_segments c"
  "chain_segments (c\<lparr>cn_written := new_written\<rparr>) = chain_segments c"
  "chain_segments (c\<lparr>cn_used_length := new_used_length\<rparr>) = chain_segments c"
  "chain_segments (c\<lparr>cn_state := new_state\<rparr>) = chain_segments c"
  by (simp_all add: chain_segments_def split: option.split)

lemma cn_capacity_frame [simp]:
  "cn_capacity (c\<lparr>cn_count := new_count\<rparr>) = cn_capacity c"
  "cn_capacity (c\<lparr>cn_head := new_head\<rparr>) = cn_capacity c"
  "cn_capacity (c\<lparr>cn_indirect := new_indirect\<rparr>) = cn_capacity c"
  "cn_capacity (c\<lparr>cn_indirect_length := new_indirect_length\<rparr>) = cn_capacity c"
  "cn_capacity (c\<lparr>cn_indirect_descriptor := new_indirect_descriptor\<rparr>) = cn_capacity c"
  "cn_capacity (c\<lparr>cn_indirect_first := new_indirect_first\<rparr>) = cn_capacity c"
  "cn_capacity (c\<lparr>cn_readable := new_readable\<rparr>) = cn_capacity c"
  "cn_capacity (c\<lparr>cn_writable := new_writable\<rparr>) = cn_capacity c"
  "cn_capacity (c\<lparr>cn_written := new_written\<rparr>) = cn_capacity c"
  "cn_capacity (c\<lparr>cn_used_length := new_used_length\<rparr>) = cn_capacity c"
  "cn_capacity (c\<lparr>cn_state := new_state\<rparr>) = cn_capacity c"
  by (simp_all add: cn_capacity_def split: option.split)

lemma indirect_size_frame [simp]:
  "indirect_size (c\<lparr>cn_segments := new_segments\<rparr>) = indirect_size c"
  "indirect_size (c\<lparr>cn_count := new_count\<rparr>) = indirect_size c"
  "indirect_size (c\<lparr>cn_head := new_head\<rparr>) = indirect_size c"
  "indirect_size (c\<lparr>cn_indirect := new_indirect\<rparr>) = indirect_size c"
  "indirect_size (c\<lparr>cn_indirect_descriptor := new_indirect_descriptor\<rparr>) = indirect_size c"
  "indirect_size (c\<lparr>cn_indirect_first := new_indirect_first\<rparr>) = indirect_size c"
  "indirect_size (c\<lparr>cn_readable := new_readable\<rparr>) = indirect_size c"
  "indirect_size (c\<lparr>cn_writable := new_writable\<rparr>) = indirect_size c"
  "indirect_size (c\<lparr>cn_written := new_written\<rparr>) = indirect_size c"
  "indirect_size (c\<lparr>cn_used_length := new_used_length\<rparr>) = indirect_size c"
  "indirect_size (c\<lparr>cn_state := new_state\<rparr>) = indirect_size c"
  by (simp_all add: indirect_size_def)

lemma direct_count_frame [simp]:
  "direct_count (c\<lparr>cn_segments := new_segments\<rparr>) = direct_count c"
  "direct_count (c\<lparr>cn_head := new_head\<rparr>) = direct_count c"
  "direct_count (c\<lparr>cn_indirect := new_indirect\<rparr>) = direct_count c"
  "direct_count (c\<lparr>cn_indirect_descriptor := new_indirect_descriptor\<rparr>) = direct_count c"
  "direct_count (c\<lparr>cn_readable := new_readable\<rparr>) = direct_count c"
  "direct_count (c\<lparr>cn_writable := new_writable\<rparr>) = direct_count c"
  "direct_count (c\<lparr>cn_written := new_written\<rparr>) = direct_count c"
  "direct_count (c\<lparr>cn_used_length := new_used_length\<rparr>) = direct_count c"
  "direct_count (c\<lparr>cn_state := new_state\<rparr>) = direct_count c"
  by (simp_all add: direct_count_def)

lemma chain_descriptors_frame [simp]:
  "chain_descriptors (c\<lparr>cn_head := new_head\<rparr>) = chain_descriptors c"
  "chain_descriptors (c\<lparr>cn_indirect := new_indirect\<rparr>) = chain_descriptors c"
  "chain_descriptors (c\<lparr>cn_readable := new_readable\<rparr>) = chain_descriptors c"
  "chain_descriptors (c\<lparr>cn_writable := new_writable\<rparr>) = chain_descriptors c"
  "chain_descriptors (c\<lparr>cn_written := new_written\<rparr>) = chain_descriptors c"
  "chain_descriptors (c\<lparr>cn_used_length := new_used_length\<rparr>) = chain_descriptors c"
  "chain_descriptors (c\<lparr>cn_state := new_state\<rparr>) = chain_descriptors c"
  by (simp_all add: chain_descriptors_def direct_count_def)

section \<open>What the engine keeps of a chain\<close>

text \<open>The part of a chain that describes its memory; the rest is bookkeeping.\<close>

definition same_lease :: "kb2_vq_chain \<Rightarrow> kb2_vq_chain \<Rightarrow> bool" where
  "same_lease c c' \<longleftrightarrow> chain_segments c = chain_segments c' \<and> cn_count c = cn_count c' \<and> cn_head c = cn_head c' \<and>
     cn_indirect c = cn_indirect c' \<and> cn_indirect_length c = cn_indirect_length c' \<and>
     cn_indirect_descriptor c = cn_indirect_descriptor c' \<and> cn_indirect_first c = cn_indirect_first c' \<and>
     cn_readable c = cn_readable c' \<and> cn_writable c = cn_writable c'"

lemma same_lease_refl [simp]: "same_lease c c"
  by (simp add: same_lease_def)

lemma same_lease_head: "same_lease c c' \<Longrightarrow> cn_head c' = cn_head c"
  by (simp add: same_lease_def)

lemma same_lease_descriptors: "same_lease c c' \<Longrightarrow> chain_descriptors c' = chain_descriptors c"
  by (simp add: same_lease_def chain_descriptors_def direct_count_def)

lemma same_lease_overlap: "same_lease c c' \<Longrightarrow> chains_overlap c' d = chains_overlap c d"
  by (simp add: same_lease_def chains_overlap_def indirect_size_def)

lemma same_lease_overlap2: "same_lease c c' \<Longrightarrow> chains_overlap d c' = chains_overlap d c"
  using chains_overlap_sym same_lease_overlap by metis

text \<open>A validated chain, on its own.\<close>

definition segment_ok :: "'m kb2_vq_memory \<Rightarrow> kb2_vq_channel \<Rightarrow> kb2_vq \<Rightarrow> kb2_vq_chain \<Rightarrow> kb2_vq_segment \<Rightarrow> bool" where
  "segment_ok mem ch vq c s \<longleftrightarrow> sg_writable s \<in> {0, 1} \<and>
     payload_range mem ch vq (sg_address s) (seg_length s) (if sg_writable s \<noteq> 0 then 2 else 1) \<and>
     \<not> overlaps (sg_address s) (seg_length s) (cn_indirect c) (indirect_size c)"

definition descriptors_ok :: "kb2_vq \<Rightarrow> kb2_vq_chain \<Rightarrow> bool" where
  "descriptors_ok vq c \<longleftrightarrow> distinct (chain_descriptors c) \<and> cn_head c \<in> set (chain_descriptors c) \<and>
     (\<forall>d \<in> set (chain_descriptors c). unat d < unat (q_queue_size (vq_queue vq)))"

definition table_ok :: "'m kb2_vq_memory \<Rightarrow> kb2_vq_channel \<Rightarrow> kb2_vq \<Rightarrow> kb2_vq_chain \<Rightarrow> bool" where
  "table_ok mem ch vq c \<longleftrightarrow>
     (cn_indirect_length c \<noteq> 0 \<longrightarrow> payload_range mem ch vq (cn_indirect c) (indirect_size c) 1) \<and>
     (\<forall>s \<in> set (drop (direct_count c) (chain_segments c)).
        unat (sg_descriptor s) < unat (cn_indirect_length c) div 16) \<and>
     distinct (map sg_descriptor (drop (direct_count c) (chain_segments c)))"

definition segments_ok :: "'m kb2_vq_memory \<Rightarrow> kb2_vq_channel \<Rightarrow> kb2_vq \<Rightarrow> kb2_vq_chain \<Rightarrow> bool" where
  "segments_ok mem ch vq c \<longleftrightarrow> (\<forall>s \<in> set (chain_segments c). segment_ok mem ch vq c s) \<and>
     (\<forall>i < cn_count c. \<forall>j < i. \<not> segments_conflict (chain_segments c ! i) (chain_segments c ! j) \<and>
        (sg_writable (chain_segments c ! i) = 0 \<longrightarrow> sg_writable (chain_segments c ! j) = 0))"

definition sums_ok :: "kb2_vq_chain \<Rightarrow> bool" where
  "sums_ok c \<longleftrightarrow> cn_readable c = sum_lengths (filter (\<lambda>s. sg_writable s = 0) (chain_segments c)) \<and>
     cn_writable c = sum_lengths (filter (\<lambda>s. sg_writable s \<noteq> 0) (chain_segments c)) \<and> cn_writable c \<noteq> 0"

definition chain_ok :: "'m kb2_vq_memory \<Rightarrow> kb2_vq_channel \<Rightarrow> kb2_vq \<Rightarrow> kb2_vq_chain \<Rightarrow> bool" where
  "chain_ok mem ch vq c \<longleftrightarrow>
     length (chain_segments c) = cn_count c \<and> direct_count c \<le> cn_count c \<and>
     cn_count c \<le> unat (q_max_chain_length (vq_queue vq)) \<and>
     descriptors_ok vq c \<and> table_ok mem ch vq c \<and> segments_ok mem ch vq c \<and> sums_ok c"

lemmas chain_ok_defs = chain_ok_def descriptors_ok_def table_ok_def segments_ok_def sums_ok_def segment_ok_def

lemma same_lease_ok: "same_lease c c' \<Longrightarrow> chain_ok mem ch vq c' = chain_ok mem ch vq c"
  using same_lease_descriptors [of c c'] by (simp add: chain_ok_defs same_lease_def direct_count_def indirect_size_def)

text \<open>The checks see of the channel only its model, and of the queue only its description.\<close>

lemma payload_range_frame:
  "vc_regions ch = vc_regions ch' \<Longrightarrow> vc_queues ch = vc_queues ch' \<Longrightarrow> vq_queue vq = vq_queue vq' \<Longrightarrow>
   payload_range mem ch vq = payload_range mem ch' vq'"
  by (simp add: payload_range_def fun_eq_iff)

lemma chain_ok_frame:
  assumes "vc_regions ch = vc_regions ch'" "vc_queues ch = vc_queues ch'" "vq_queue vq = vq_queue vq'"
  shows "chain_ok mem ch vq c = chain_ok mem ch' vq' c"
  by (simp add: chain_ok_defs payload_range_frame [OF assms] assms(3))

lemma length_chain_segments:
  "cn_segments c \<noteq> None \<Longrightarrow> cn_count c \<le> cn_capacity c \<Longrightarrow> length (chain_segments c) = cn_count c"
  by (auto simp: chain_segments_def cn_capacity_def)

section \<open>Validation\<close>

lemma segment_validD:
  assumes "segment_valid mem w c i"
  shows "segment_ok mem (vw_channel w) (vw_vq w) c (chain_segments c ! i)"
    "\<And>j. j < i \<Longrightarrow> \<not> segments_conflict (chain_segments c ! i) (chain_segments c ! j)"
    "\<And>j. j < i \<Longrightarrow> sg_writable (chain_segments c ! i) = 0 \<Longrightarrow> sg_writable (chain_segments c ! j) = 0"
    "\<And>j. j < i \<Longrightarrow> (direct_count c \<le> j) = (direct_count c \<le> i) \<Longrightarrow>
       sg_descriptor (chain_segments c ! i) \<noteq> sg_descriptor (chain_segments c ! j)"
    "direct_count c \<le> i \<Longrightarrow> unat (sg_descriptor (chain_segments c ! i)) < unat (cn_indirect_length c) div 16"
    "i < direct_count c \<Longrightarrow> unat (sg_descriptor (chain_segments c ! i)) < unat (q_queue_size (vq_queue (vw_vq w))) \<and>
       vq_descriptor_owner (vw_vq w) ! unat (sg_descriptor (chain_segments c ! i)) = 0 \<and>
       (cn_indirect_length c \<noteq> 0 \<longrightarrow> sg_descriptor (chain_segments c ! i) \<noteq> cn_indirect_descriptor c)"
proof -
  have "x = 0 \<or> x = 1" if "\<not> 1 < x" for x :: u16
  proof -
    have "unat x = 0 \<or> unat x = 1" using that by (auto simp: word_less_nat_alt)
    then show ?thesis by (simp add: word_unat_eq_iff)
  qed
  then show "segment_ok mem (vw_channel w) (vw_vq w) c (chain_segments c ! i)"
    using assms by (auto simp: segment_valid_def Let_def segment_ok_def)
qed (use assms in \<open>auto simp: segment_valid_def Let_def list_ex_iff split: if_split_asm\<close>)

lemma chain_shape_validD:
  assumes "chain_shape_valid mem w c"
  shows "length (chain_segments c) = cn_count c" "cn_count c \<noteq> 0"
    "cn_count c \<le> unat (q_max_chain_length (vq_queue (vw_vq w)))"
    "direct_count c \<le> cn_count c"
    "vq_slots (vw_vq w) ! unat (cn_head c) = None"
    "cn_indirect_length c \<noteq> 0 \<Longrightarrow> payload_range mem (vw_channel w) (vw_vq w) (cn_indirect c) (indirect_size c) 1"
    "cn_indirect_length c \<noteq> 0 \<Longrightarrow> unat (cn_indirect_descriptor c) < unat (q_queue_size (vq_queue (vw_vq w))) \<and>
       vq_descriptor_owner (vw_vq w) ! unat (cn_indirect_descriptor c) = 0"
    "direct_count c \<noteq> 0 \<Longrightarrow> sg_descriptor (chain_segments c ! 0) = cn_head c"
    "direct_count c = 0 \<Longrightarrow> cn_indirect_length c \<noteq> 0 \<and> cn_indirect_descriptor c = cn_head c"
  using assms length_chain_segments [of c]
  by (auto simp: chain_shape_valid_def Let_def direct_count_def split: if_split_asm)

lemma distinct_map_nth:
  "(\<And>i j. j < i \<Longrightarrow> i < length xs \<Longrightarrow> f (xs ! i) \<noteq> f (xs ! j)) \<Longrightarrow> distinct (map f xs)"
  by (auto simp: distinct_conv_nth) (metis nat_neq_iff)

lemma valid_descriptors:
  assumes shape: "chain_shape_valid mem w c" and valid: "\<And>i. i < cn_count c \<Longrightarrow> segment_valid mem w c i"
  shows "descriptors_ok (vw_vq w) c" "\<forall>d \<in> set (chain_descriptors c). vq_descriptor_owner (vw_vq w) ! unat d = 0"
proof -
  note sh = chain_shape_validD [OF shape]
  let ?direct = "take (direct_count c) (chain_segments c)"
  have seg: "i < direct_count c \<Longrightarrow> segment_valid mem w c i" for i using valid sh(4) by simp
  have nth: "?direct ! i = chain_segments c ! i" if "i < direct_count c" for i using that by simp
  have len: "length ?direct = direct_count c" using sh(1,4) by simp
  have all: "unat (sg_descriptor s) < unat (q_queue_size (vq_queue (vw_vq w))) \<and>
      vq_descriptor_owner (vw_vq w) ! unat (sg_descriptor s) = 0 \<and>
      (cn_indirect_length c \<noteq> 0 \<longrightarrow> sg_descriptor s \<noteq> cn_indirect_descriptor c)" if "s \<in> set ?direct" for s
    using that segment_validD(6) [OF seg] len nth by (metis in_set_conv_nth)
  have "distinct (map sg_descriptor ?direct)"
    using segment_validD(4) [OF seg] len nth by (intro distinct_map_nth) auto
  moreover have "cn_head c \<in> set (chain_descriptors c)"
  proof (cases "direct_count c = 0")
    case True
    then show ?thesis using sh(9) by (simp add: chain_descriptors_def)
  next
    case False
    then have "chain_segments c ! 0 \<in> set ?direct" using len by (metis nth nth_mem bot_nat_0.not_eq_extremum)
    then show ?thesis using sh(8) [OF False] by (auto simp: chain_descriptors_def intro!: image_eqI)
  qed
  moreover have "cn_indirect_length c \<noteq> 0 \<Longrightarrow> cn_indirect_descriptor c \<notin> set (map sg_descriptor ?direct)"
    using all by fastforce
  moreover have "\<forall>d \<in> set (chain_descriptors c). unat d < unat (q_queue_size (vq_queue (vw_vq w)))"
    using all sh(7) by (auto simp: chain_descriptors_def)
  ultimately show "descriptors_ok (vw_vq w) c" by (simp add: descriptors_ok_def chain_descriptors_def)
  show "\<forall>d \<in> set (chain_descriptors c). vq_descriptor_owner (vw_vq w) ! unat d = 0"
    using all sh(7) by (auto simp: chain_descriptors_def)
qed

lemma valid_table:
  assumes shape: "chain_shape_valid mem w c" and valid: "\<And>i. i < cn_count c \<Longrightarrow> segment_valid mem w c i"
  shows "table_ok mem (vw_channel w) (vw_vq w) c"
proof -
  note sh = chain_shape_validD [OF shape]
  have "unat (sg_descriptor s) < unat (cn_indirect_length c) div 16" if "s \<in> set (drop (direct_count c) (chain_segments c))" for s
    using that segment_validD(5) [OF valid] sh(1) by (auto simp: in_set_conv_nth)
  moreover have "distinct (map sg_descriptor (drop (direct_count c) (chain_segments c)))"
    using segment_validD(4) [OF valid] sh(1) by (intro distinct_map_nth) auto
  ultimately show ?thesis using sh(6) by (simp add: table_ok_def)
qed

lemma validate_chainD:
  assumes "validate_chain mem w c = Some c'"
  shows "chain_ok mem (vw_channel w) (vw_vq w) c'"
    "\<forall>d \<in> set (chain_descriptors c'). vq_descriptor_owner (vw_vq w) ! unat d = 0"
    "vq_slots (vw_vq w) ! unat (cn_head c') = None"
    "\<And>p. Some p \<in> set (vq_slots (vw_vq w)) \<Longrightarrow> \<not> chains_overlap c' (vw_chains w p)"
    "c' = c\<lparr>cn_readable := cn_readable c', cn_writable := cn_writable c', cn_written := 0, cn_used_length := 0\<rparr>"
proof -
  let ?r = "sum_lengths (filter (\<lambda>s. sg_writable s = 0) (chain_segments c))"
  let ?w = "sum_lengths (filter (\<lambda>s. sg_writable s \<noteq> 0) (chain_segments c))"
  have shape: "chain_shape_valid mem w c" and valid: "\<And>i. i < cn_count c \<Longrightarrow> segment_valid mem w c i"
    and c': "c' = c\<lparr>cn_readable := ?r, cn_writable := ?w, cn_written := 0, cn_used_length := 0\<rparr>" "?w \<noteq> 0"
    and apart: "\<not> list_ex (\<lambda>slot. case slot of None \<Rightarrow> False | Some p \<Rightarrow> chains_overlap c (vw_chains w p)) (vq_slots (vw_vq w))"
    using assms by (auto simp: validate_chain_def Let_def split: if_split_asm)
  note sh = chain_shape_validD [OF shape]
  have same: "chain_segments c' = chain_segments c" "chain_descriptors c' = chain_descriptors c"
    "direct_count c' = direct_count c" "indirect_size c' = indirect_size c"
    by (simp_all add: c')
  have "segments_ok mem (vw_channel w) (vw_vq w) c"
    using segment_validD(1,2,3) [OF valid] sh(1) by (auto simp: segments_ok_def in_set_conv_nth)
  then show "chain_ok mem (vw_channel w) (vw_vq w) c'"
    using sh(1,3,4) valid_descriptors(1) [OF shape valid] valid_table [OF shape valid] c'
    by (simp add: chain_ok_def descriptors_ok_def table_ok_def segments_ok_def segment_ok_def sums_ok_def same)
  show "\<forall>d \<in> set (chain_descriptors c'). vq_descriptor_owner (vw_vq w) ! unat d = 0"
    using valid_descriptors(2) [OF shape valid] same by simp
  show "vq_slots (vw_vq w) ! unat (cn_head c') = None" using sh(5) c' by simp
  show "\<not> chains_overlap c' (vw_chains w p)" if "Some p \<in> set (vq_slots (vw_vq w))" for p
  proof -
    have "\<not> chains_overlap c (vw_chains w p)" using apart that by (auto simp: list_ex_iff)
    then show ?thesis by (simp add: chains_overlap_def same) (simp add: c')
  qed
  show "c' = c\<lparr>cn_readable := cn_readable c', cn_writable := cn_writable c', cn_written := 0, cn_used_length := 0\<rparr>"
    using c' by simp
qed

section \<open>The invariant of a queue\<close>

text \<open>Slot \<open>h\<close> holds the chain at \<open>p\<close>.\<close>

definition lease_at :: "'m vq_world \<Rightarrow> nat \<Rightarrow> nat \<Rightarrow> bool" where
  "lease_at w h p \<longleftrightarrow> h < length (vq_slots (vw_vq w)) \<and> vq_slots (vw_vq w) ! h = Some p"

definition occupied :: "'m vq_world \<Rightarrow> nat set" where
  "occupied w = {h. \<exists>p. lease_at w h p}"

text \<open>The client's data is bound to a validated channel and to one of its queues.\<close>

definition binding_ok :: "'m vq_world \<Rightarrow> bool" where
  "binding_ok w \<longleftrightarrow>
     channel_spec (vc_identity (vw_channel w)) (vc_queues (vw_channel w)) (vc_regions (vw_channel w)) \<and>
     vq_queue (vw_vq w) \<in> set (vc_queues (vw_channel w)) \<and> vq_side (vw_vq w) \<in> {0, 1} \<and>
     length (vq_slots (vw_vq w)) = unat (q_queue_size (vq_queue (vw_vq w))) \<and>
     length (vq_descriptor_owner (vw_vq w)) = unat (q_queue_size (vq_queue (vw_vq w)))"

text \<open>
  Slots, descriptor owners and chains agree: every leased chain is a validated one, the owner
  array says which chain has which descriptor, and leased chains do not share memory.
\<close>

definition leases_ok :: "'m kb2_vq_memory \<Rightarrow> 'm vq_world \<Rightarrow> bool" where
  "leases_ok mem w \<longleftrightarrow>
     (\<forall>h p. lease_at w h p \<longrightarrow> unat (cn_head (vw_chains w p)) = h \<and>
        chain_ok mem (vw_channel w) (vw_vq w) (vw_chains w p) \<and>
        (\<forall>d \<in> set (chain_descriptors (vw_chains w p)).
           vq_descriptor_owner (vw_vq w) ! unat d = cn_head (vw_chains w p) + 1)) \<and>
     (\<forall>d < length (vq_descriptor_owner (vw_vq w)). vq_descriptor_owner (vw_vq w) ! d \<noteq> 0 \<longrightarrow>
        (\<exists>h p. lease_at w h p \<and> d \<in> unat ` set (chain_descriptors (vw_chains w p)))) \<and>
     (\<forall>h p h' p'. lease_at w h p \<longrightarrow> lease_at w h' p' \<longrightarrow> h \<noteq> h' \<longrightarrow>
        \<not> chains_overlap (vw_chains w p) (vw_chains w p'))"

definition counts_ok :: "'m vq_world \<Rightarrow> bool" where
  "counts_ok w \<longleftrightarrow> unat (vq_owned (vw_vq w)) = card (occupied w) \<and>
     vq_owned (vw_vq w) \<le> q_max_outstanding (vq_queue (vw_vq w)) \<and>
     (\<forall>p. vq_last_taken (vw_vq w) = Some p \<longrightarrow> (\<exists>h. lease_at w h p))"

definition queue_wf :: "'m kb2_vq_memory \<Rightarrow> 'm vq_world \<Rightarrow> bool" where
  "queue_wf mem w \<longleftrightarrow> binding_ok w \<and> leases_ok mem w \<and> counts_ok w"

lemma occupied_finite [simp]: "finite (occupied w)"
  by (rule finite_subset [of _ "{..<length (vq_slots (vw_vq w))}"]) (auto simp: occupied_def lease_at_def)

lemma lease_at_fun: "lease_at w h p \<Longrightarrow> lease_at w h p' \<Longrightarrow> p = p'"
  by (simp add: lease_at_def)

lemma lease_head: "queue_wf mem w \<Longrightarrow> lease_at w h p \<Longrightarrow> unat (cn_head (vw_chains w p)) = h"
  by (simp add: queue_wf_def leases_ok_def)

lemma lease_slot_unique: "queue_wf mem w \<Longrightarrow> lease_at w h p \<Longrightarrow> lease_at w h' p \<Longrightarrow> h = h'"
  using lease_head by metis

lemma lease_ok: "queue_wf mem w \<Longrightarrow> lease_at w h p \<Longrightarrow> chain_ok mem (vw_channel w) (vw_vq w) (vw_chains w p)"
  by (simp add: queue_wf_def leases_ok_def)

lemma binding_queue_ok: "binding_ok w \<Longrightarrow> queue_ok (vc_regions (vw_channel w)) (vq_queue (vw_vq w))"
  by (auto simp: binding_ok_def channel_spec_def queues_spec_def)

lemma queue_size_le: "queue_ok rs q \<Longrightarrow> unat (q_queue_size q) \<le> 32768"
proof -
  assume "queue_ok rs q"
  then obtain k where k: "k \<le> 15" "unat (q_queue_size q) = 2 ^ k" by (auto simp: queue_ok_def)
  have "(2::nat) ^ k \<le> 2 ^ 15" using k(1) by (intro power_increasing) auto
  then show ?thesis using k(2) by simp
qed

lemma length_set_owner [simp]: "length (set_owner v ds owner) = length owner"
  by (induction ds arbitrary: owner) (simp_all add: set_owner_def)

lemma set_owner_nth:
  "i < length owner \<Longrightarrow> set_owner v ds owner ! i = (if i \<in> unat ` set ds then v else owner ! i)"
proof (induction ds arbitrary: owner)
  case (Cons d ds)
  have "set_owner v (d # ds) owner = set_owner v ds (owner[unat d := v])" by (simp add: set_owner_def)
  then show ?case using Cons by (auto simp: nth_list_update)
qed (simp add: set_owner_def)

text \<open>Claiming a validated chain.\<close>

lemma head_plus_one: "unat (h :: u16) < 32768 \<Longrightarrow> h + 1 \<noteq> 0"
  by (auto dest: arg_cong [where f = unat] simp: unat_word_ariths)

lemma claim_simps:
  "vw_channel (claim w p st) = vw_channel w" "vw_memory (claim w p st) = vw_memory w"
  "vq_queue (vw_vq (claim w p st)) = vq_queue (vw_vq w)" "vq_side (vw_vq (claim w p st)) = vq_side (vw_vq w)"
  "vq_slots (vw_vq (claim w p st)) = (vq_slots (vw_vq w))[unat (cn_head (vw_chains w p)) := Some p]"
  "vq_descriptor_owner (vw_vq (claim w p st)) =
     set_owner (cn_head (vw_chains w p) + 1) (chain_descriptors (vw_chains w p)) (vq_descriptor_owner (vw_vq w))"
  "vq_owned (vw_vq (claim w p st)) = vq_owned (vw_vq w) + 1"
  "vq_last_taken (vw_vq (claim w p st)) = vq_last_taken (vw_vq w)"
  "vq_produced (vw_vq (claim w p st)) = vq_produced (vw_vq w)"
  "vq_consumed (vw_vq (claim w p st)) = vq_consumed (vw_vq w)"
  "vw_chains (claim w p st) = (vw_chains w)(p := (vw_chains w p)\<lparr>cn_state := st\<rparr>)"
  by (simp_all add: claim_def Let_def)

lemma claim_lease_at:
  assumes "unat (cn_head (vw_chains w p)) < length (vq_slots (vw_vq w))"
  shows "lease_at (claim w p st) h q \<longleftrightarrow> (if h = unat (cn_head (vw_chains w p)) then q = p else lease_at w h q)"
  using assms by (auto simp: lease_at_def claim_simps nth_list_update)

lemma claim_occupied:
  assumes "unat (cn_head (vw_chains w p)) < length (vq_slots (vw_vq w))"
  shows "occupied (claim w p st) = insert (unat (cn_head (vw_chains w p))) (occupied w)"
  unfolding occupied_def claim_lease_at [OF assms] by auto

text \<open>The chain at \<open>p\<close> may be claimed: it is valid and uses nothing that is in use.\<close>

definition claimable :: "'m kb2_vq_memory \<Rightarrow> 'm vq_world \<Rightarrow> nat \<Rightarrow> bool" where
  "claimable mem w p \<longleftrightarrow>
     chain_ok mem (vw_channel w) (vw_vq w) (vw_chains w p) \<and>
     vq_slots (vw_vq w) ! unat (cn_head (vw_chains w p)) = None \<and>
     (\<forall>d \<in> set (chain_descriptors (vw_chains w p)). vq_descriptor_owner (vw_vq w) ! unat d = 0) \<and>
     (\<forall>h q. lease_at w h q \<longrightarrow> q \<noteq> p \<and> \<not> chains_overlap (vw_chains w p) (vw_chains w q))"

lemma lease_head_small:
  assumes "queue_wf mem w" "lease_at w h p"
  shows "cn_head (vw_chains w p) + 1 \<noteq> 0"
proof -
  have b: "binding_ok w" using assms(1) by (simp add: queue_wf_def)
  have "h < 32768" using assms(2) b queue_size_le [OF binding_queue_ok [OF b]] by (auto simp: lease_at_def binding_ok_def)
  then show ?thesis using head_plus_one lease_head [OF assms] by simp
qed

lemma lease_owner:
  assumes "queue_wf mem w" "lease_at w h p" "d \<in> set (chain_descriptors (vw_chains w p))"
  shows "vq_descriptor_owner (vw_vq w) ! unat d = cn_head (vw_chains w p) + 1"
    "unat d < length (vq_descriptor_owner (vw_vq w))"
  using assms lease_ok [OF assms(1,2)]
  by (auto simp: queue_wf_def leases_ok_def binding_ok_def chain_ok_def descriptors_ok_def)

lemma claimableD:
  assumes wf: "queue_wf mem w" and c: "claimable mem w p"
  shows "unat (cn_head (vw_chains w p)) < length (vq_slots (vw_vq w))"
    "\<And>h q. lease_at w h q \<Longrightarrow> h \<noteq> unat (cn_head (vw_chains w p)) \<and> q \<noteq> p \<and>
       \<not> chains_overlap (vw_chains w p) (vw_chains w q) \<and> \<not> chains_overlap (vw_chains w q) (vw_chains w p)"
    "\<And>d. d \<in> set (chain_descriptors (vw_chains w p)) \<Longrightarrow> unat d < length (vq_descriptor_owner (vw_vq w))"
    "\<And>h q d. lease_at w h q \<Longrightarrow> d \<in> set (chain_descriptors (vw_chains w q)) \<Longrightarrow>
       unat d \<notin> unat ` set (chain_descriptors (vw_chains w p))"
proof -
  let ?c = "vw_chains w p"
  have b: "binding_ok w" using wf by (simp add: queue_wf_def)
  show d: "\<And>d. d \<in> set (chain_descriptors ?c) \<Longrightarrow> unat d < length (vq_descriptor_owner (vw_vq w))"
    using c b by (auto simp: claimable_def chain_ok_def descriptors_ok_def binding_ok_def)
  have "cn_head ?c \<in> set (chain_descriptors ?c)" using c by (simp add: claimable_def chain_ok_def descriptors_ok_def)
  from d [OF this] show "unat (cn_head ?c) < length (vq_slots (vw_vq w))" using b by (simp add: binding_ok_def)
  show "h \<noteq> unat (cn_head ?c) \<and> q \<noteq> p \<and> \<not> chains_overlap ?c (vw_chains w q) \<and> \<not> chains_overlap (vw_chains w q) ?c"
    if "lease_at w h q" for h q
    using c that chains_overlap_sym [of ?c "vw_chains w q"] by (auto simp: claimable_def lease_at_def)
  show "unat d \<notin> unat ` set (chain_descriptors ?c)"
    if q: "lease_at w h q" and d: "d \<in> set (chain_descriptors (vw_chains w q))" for h q d
  proof
    assume "unat d \<in> unat ` set (chain_descriptors ?c)"
    then have "d \<in> set (chain_descriptors ?c)" by (auto simp flip: word_unat_eq_iff)
    then have "vq_descriptor_owner (vw_vq w) ! unat d = 0" using c by (simp add: claimable_def)
    then show False using lease_owner(1) [OF wf q d] lease_head_small [OF wf q] by simp
  qed
qed

lemma claim_counts:
  assumes wf: "queue_wf mem w" and c: "claimable mem w p" and room: "vq_owned (vw_vq w) \<noteq> q_max_outstanding (vq_queue (vw_vq w))"
  shows "counts_ok (claim w p st)"
proof -
  let ?h = "unat (cn_head (vw_chains w p))" and ?max = "q_max_outstanding (vq_queue (vw_vq w))"
  have n: "counts_ok w" using wf by (simp add: queue_wf_def)
  note h = claimableD(1) [OF wf c]
  have "?h \<notin> occupied w" using claimableD(2) [OF wf c] by (auto simp: occupied_def)
  then have card: "card (occupied (claim w p st)) = card (occupied w) + 1" by (simp add: claim_occupied [OF h])
  have less: "vq_owned (vw_vq w) < ?max" using n room by (simp add: counts_ok_def order_less_le)
  then have plus: "unat (vq_owned (vw_vq w) + 1) = unat (vq_owned (vw_vq w)) + 1"
    using unat_u32_lt [of ?max] by (simp add: unat_word_ariths word_less_nat_alt)
  then have "vq_owned (vw_vq w) + 1 \<le> ?max"
    using less by (simp add: word_le_nat_alt word_less_nat_alt)
  moreover have "\<exists>h. lease_at (claim w p st) h q" if lt: "vq_last_taken (vw_vq w) = Some q" for q
  proof -
    obtain h' where "lease_at w h' q" using n lt by (auto simp: counts_ok_def)
    then show ?thesis using claimableD(2) [OF wf c] claim_lease_at [OF h] by metis
  qed
  ultimately show ?thesis using n card plus by (simp add: counts_ok_def claim_simps)
qed

lemma claim_state_frame:
  "chain_ok mem ch vq (c\<lparr>cn_state := st\<rparr>) = chain_ok mem ch vq c"
  "chains_overlap (c\<lparr>cn_state := st\<rparr>) d = chains_overlap c d" "chains_overlap d (c\<lparr>cn_state := st\<rparr>) = chains_overlap d c"
  using same_lease_ok [of c "c\<lparr>cn_state := st\<rparr>"] same_lease_overlap [of c "c\<lparr>cn_state := st\<rparr>"]
    same_lease_overlap2 [of c "c\<lparr>cn_state := st\<rparr>"] by (simp_all add: same_lease_def)

lemma claim_leases:
  assumes wf: "queue_wf mem w" and c: "claimable mem w p"
  shows "leases_ok mem (claim w p st)"
proof -
  let ?c = "vw_chains w p" and ?h = "unat (cn_head (vw_chains w p))" and ?w = "claim w p st"
  have l: "leases_ok mem w" using wf by (simp add: queue_wf_def)
  note cD = claimableD [OF wf c] and la = claim_lease_at [OF claimableD(1) [OF wf c]]
  have frame: "chain_ok mem (vw_channel ?w) (vw_vq ?w) = chain_ok mem (vw_channel w) (vw_vq w)"
    by (rule ext, rule chain_ok_frame) (simp_all add: claim_simps)
  have old: "vw_chains ?w q = vw_chains w q" if "lease_at w h' q" for h' q
    using cD(2) [OF that] by (simp add: claim_simps)
  show ?thesis
    unfolding leases_ok_def
  proof (intro conjI allI impI)
    fix h' q assume a: "lease_at ?w h' q"
    show "unat (cn_head (vw_chains ?w q)) = h'"
      using a la l by (auto simp: claim_simps leases_ok_def split: if_split_asm)
    show "chain_ok mem (vw_channel ?w) (vw_vq ?w) (vw_chains ?w q)"
      unfolding frame using a la l c by (auto simp: claim_simps leases_ok_def claimable_def claim_state_frame split: if_split_asm)
    show "\<forall>d \<in> set (chain_descriptors (vw_chains ?w q)). vq_descriptor_owner (vw_vq ?w) ! unat d = cn_head (vw_chains ?w q) + 1"
    proof (cases "h' = ?h")
      case True
      then show ?thesis using a la cD(3) by (auto simp: claim_simps set_owner_nth)
    next
      case False
      then have q: "lease_at w h' q" using a la by simp
      show ?thesis unfolding old [OF q]
        using cD(4) [OF q] lease_owner [OF wf q] by (simp add: claim_simps set_owner_nth)
    qed
  next
    fix d assume d: "d < length (vq_descriptor_owner (vw_vq ?w))" "vq_descriptor_owner (vw_vq ?w) ! d \<noteq> 0"
    show "\<exists>h q. lease_at ?w h q \<and> d \<in> unat ` set (chain_descriptors (vw_chains ?w q))"
    proof (cases "d \<in> unat ` set (chain_descriptors ?c)")
      case True
      then show ?thesis using la by (intro exI [of _ ?h] exI [of _ p]) (simp add: claim_simps)
    next
      case False
      then have "vq_descriptor_owner (vw_vq w) ! d \<noteq> 0" "d < length (vq_descriptor_owner (vw_vq w))"
        using d by (simp_all add: claim_simps set_owner_nth)
      then obtain h' q where q: "lease_at w h' q" "d \<in> unat ` set (chain_descriptors (vw_chains w q))"
        using l by (auto simp: leases_ok_def)
      then show ?thesis using la old [OF q(1)] cD(2) [OF q(1)] by (intro exI [of _ h'] exI [of _ q]) simp
    qed
  next
    fix h1 p1 h2 p2 assume a: "lease_at ?w h1 p1" "lease_at ?w h2 p2" "h1 \<noteq> h2"
    show "\<not> chains_overlap (vw_chains ?w p1) (vw_chains ?w p2)"
      using a la cD(2) l by (auto simp: claim_simps claim_state_frame leases_ok_def split: if_split_asm)
  qed
qed

lemma claim_wf:
  assumes "queue_wf mem w" "claimable mem w p" "vq_owned (vw_vq w) \<noteq> q_max_outstanding (vq_queue (vw_vq w))"
  shows "queue_wf mem (claim w p st)"
  using claim_leases [OF assms(1,2)] claim_counts [OF assms] assms(1)
  by (simp add: queue_wf_def binding_ok_def claim_simps)

section \<open>Dropping a chain\<close>

lemma drop_simps:
  "vw_channel (vq_drop w p) = vw_channel w" "vw_memory (vq_drop w p) = vw_memory w"
  "vq_queue (vw_vq (vq_drop w p)) = vq_queue (vw_vq w)" "vq_side (vw_vq (vq_drop w p)) = vq_side (vw_vq w)"
  "vq_slots (vw_vq (vq_drop w p)) = (vq_slots (vw_vq w))[unat (cn_head (vw_chains w p)) := None]"
  "vq_descriptor_owner (vw_vq (vq_drop w p)) =
     set_owner 0 (chain_descriptors (vw_chains w p)) (vq_descriptor_owner (vw_vq w))"
  "vq_owned (vw_vq (vq_drop w p)) = vq_owned (vw_vq w) - 1"
  "vq_last_taken (vw_vq (vq_drop w p)) = (if vq_last_taken (vw_vq w) = Some p then None else vq_last_taken (vw_vq w))"
  "vq_produced (vw_vq (vq_drop w p)) = vq_produced (vw_vq w)"
  "vq_consumed (vw_vq (vq_drop w p)) = vq_consumed (vw_vq w)"
  "vw_chains (vq_drop w p) = (vw_chains w)(p := (vw_chains w p)\<lparr>cn_state := FREE\<rparr>)"
  by (simp_all add: vq_drop_def Let_def)

lemma drop_lease_at:
  assumes "queue_wf mem w" "lease_at w h p"
  shows "lease_at (vq_drop w p) h' q \<longleftrightarrow> h' \<noteq> h \<and> lease_at w h' q"
  using assms(2) lease_head [OF assms] by (auto simp: lease_at_def drop_simps nth_list_update)

lemma drop_counts:
  assumes wf: "queue_wf mem w" and p: "lease_at w h p"
  shows "counts_ok (vq_drop w p)"
proof -
  have n: "counts_ok w" using wf by (simp add: queue_wf_def)
  note la = drop_lease_at [OF wf p]
  have occ: "occupied (vq_drop w p) = occupied w - {h}" "h \<in> occupied w" using la p by (auto simp: occupied_def)
  then have pos: "0 < card (occupied w)" by (auto simp: card_gt_0_iff)
  then have "unat (vq_owned (vw_vq w) - 1) = unat (vq_owned (vw_vq w)) - 1"
    using n by (intro unat_minus_one) (auto simp: counts_ok_def)
  moreover have "vq_owned (vw_vq w) - 1 \<le> q_max_outstanding (vq_queue (vw_vq w))"
    using n pos calculation by (auto simp: counts_ok_def word_le_nat_alt)
  moreover have "\<exists>h'. lease_at (vq_drop w p) h' q" if lt: "vq_last_taken (vw_vq w) = Some q" and ne: "q \<noteq> p" for q
  proof -
    obtain h' where "lease_at w h' q" using n lt by (auto simp: counts_ok_def)
    moreover have "h' \<noteq> h" using calculation ne lease_at_fun [OF p] by blast
    ultimately show ?thesis using la by blast
  qed
  ultimately show ?thesis using n occ by (auto simp: counts_ok_def drop_simps)
qed

lemma drop_wf:
  assumes wf: "queue_wf mem w" and p: "lease_at w h p"
  shows "queue_wf mem (vq_drop w p)"
proof -
  let ?w = "vq_drop w p"
  have b: "binding_ok w" and l: "leases_ok mem w" and n: "counts_ok w" using wf by (simp_all add: queue_wf_def)
  note la = drop_lease_at [OF wf p]
  have frame: "chain_ok mem (vw_channel ?w) (vw_vq ?w) = chain_ok mem (vw_channel w) (vw_vq w)"
    by (rule ext, rule chain_ok_frame) (simp_all add: drop_simps)
  have other: "q \<noteq> p" if "h' \<noteq> h" "lease_at w h' q" for h' q using lease_slot_unique [OF wf] p that by blast
  have fresh: "unat d \<notin> unat ` set (chain_descriptors (vw_chains w p))"
    if "h' \<noteq> h" "lease_at w h' q" "d \<in> set (chain_descriptors (vw_chains w q))" for h' q d
  proof
    assume "unat d \<in> unat ` set (chain_descriptors (vw_chains w p))"
    then have "d \<in> set (chain_descriptors (vw_chains w p))" by (auto simp flip: word_unat_eq_iff)
    then have "cn_head (vw_chains w p) = cn_head (vw_chains w q)"
      using lease_owner(1) [OF wf p] lease_owner(1) [OF wf that(2,3)] by simp
    then show False using lease_head [OF wf] p that by metis
  qed
  have "leases_ok mem ?w"
    unfolding leases_ok_def
  proof (intro conjI allI impI)
    fix h' q assume "lease_at ?w h' q"
    then have a: "h' \<noteq> h" "lease_at w h' q" using la by auto
    have old: "vw_chains ?w q = vw_chains w q" using other [OF a] by (simp add: drop_simps)
    show "unat (cn_head (vw_chains ?w q)) = h'" unfolding old by (rule lease_head [OF wf a(2)])
    show "chain_ok mem (vw_channel ?w) (vw_vq ?w) (vw_chains ?w q)" unfolding frame old by (rule lease_ok [OF wf a(2)])
    show "\<forall>d \<in> set (chain_descriptors (vw_chains ?w q)). vq_descriptor_owner (vw_vq ?w) ! unat d = cn_head (vw_chains ?w q) + 1"
      unfolding old using fresh [OF a] lease_owner [OF wf a(2)] by (simp add: drop_simps set_owner_nth)
  next
    fix d assume d: "d < length (vq_descriptor_owner (vw_vq ?w))" "vq_descriptor_owner (vw_vq ?w) ! d \<noteq> 0"
    then have nd: "d \<notin> unat ` set (chain_descriptors (vw_chains w p))" "vq_descriptor_owner (vw_vq w) ! d \<noteq> 0"
      "d < length (vq_descriptor_owner (vw_vq w))"
      by (auto simp: drop_simps set_owner_nth split: if_split_asm)
    then obtain h' q where q: "lease_at w h' q" "d \<in> unat ` set (chain_descriptors (vw_chains w q))"
      using l by (auto simp: leases_ok_def)
    have "h' \<noteq> h" using q nd(1) lease_at_fun [OF p] by blast
    then show "\<exists>h q. lease_at ?w h q \<and> d \<in> unat ` set (chain_descriptors (vw_chains ?w q))"
      using q la other [OF _ q(1)] by (intro exI [of _ h'] exI [of _ q]) (simp add: drop_simps)
  next
    fix h1 p1 h2 p2 assume "lease_at ?w h1 p1" "lease_at ?w h2 p2" "h1 \<noteq> h2"
    then show "\<not> chains_overlap (vw_chains ?w p1) (vw_chains ?w p2)"
      using la l other by (auto simp: drop_simps leases_ok_def)
  qed
  moreover have "binding_ok ?w" using b by (simp add: binding_ok_def drop_simps)
  moreover note drop_counts [OF wf p]
  ultimately show ?thesis by (simp add: queue_wf_def)
qed

section \<open>Steps that move no ownership\<close>

text \<open>
  The two worlds have the same bookkeeping and the same leases; indices, memory, the fault flag
  and chains that are not leased may differ.
\<close>

definition same_model :: "'m vq_world \<Rightarrow> 'm vq_world \<Rightarrow> bool" where
  "same_model w w' \<longleftrightarrow> vc_identity (vw_channel w') = vc_identity (vw_channel w) \<and>
     vc_queues (vw_channel w') = vc_queues (vw_channel w) \<and> vc_regions (vw_channel w') = vc_regions (vw_channel w) \<and>
     vq_queue (vw_vq w') = vq_queue (vw_vq w) \<and> vq_side (vw_vq w') = vq_side (vw_vq w)"

definition same_books :: "'m vq_world \<Rightarrow> 'm vq_world \<Rightarrow> bool" where
  "same_books w w' \<longleftrightarrow> same_model w w' \<and> vq_slots (vw_vq w') = vq_slots (vw_vq w) \<and>
     vq_descriptor_owner (vw_vq w') = vq_descriptor_owner (vw_vq w) \<and> vq_owned (vw_vq w') = vq_owned (vw_vq w) \<and>
     vq_last_taken (vw_vq w') = vq_last_taken (vw_vq w)"

definition quiet :: "'m vq_world \<Rightarrow> 'm vq_world \<Rightarrow> bool" where
  "quiet w w' \<longleftrightarrow> same_books w w' \<and> (\<forall>h p. lease_at w h p \<longrightarrow> same_lease (vw_chains w p) (vw_chains w' p))"

lemma quiet_refl [simp]: "quiet w w"
  by (simp add: quiet_def same_books_def same_model_def)

lemma quiet_lease_at: "same_books w w' \<Longrightarrow> lease_at w' h p = lease_at w h p"
  by (simp add: same_books_def lease_at_def)

lemma same_lease_trans: "same_lease a b \<Longrightarrow> same_lease b c \<Longrightarrow> same_lease a c"
  by (simp add: same_lease_def)

lemma same_books_trans: "same_books w w' \<Longrightarrow> same_books w' w'' \<Longrightarrow> same_books w w''"
  by (simp add: same_books_def same_model_def)

lemma quiet_trans: "quiet w w' \<Longrightarrow> quiet w' w'' \<Longrightarrow> quiet w w''"
  using quiet_lease_at [of w w'] same_books_trans [of w w' w''] same_lease_trans unfolding quiet_def by blast

text \<open>More generally, a slot may get another chain with the same lease.\<close>

definition renamed :: "'m vq_world \<Rightarrow> 'm vq_world \<Rightarrow> bool" where
  "renamed w w' \<longleftrightarrow> same_model w w' \<and> vq_descriptor_owner (vw_vq w') = vq_descriptor_owner (vw_vq w) \<and>
     vq_owned (vw_vq w') = vq_owned (vw_vq w) \<and> length (vq_slots (vw_vq w')) = length (vq_slots (vw_vq w)) \<and>
     (\<forall>h p'. lease_at w' h p' \<longrightarrow> (\<exists>p. lease_at w h p \<and> same_lease (vw_chains w p) (vw_chains w' p'))) \<and>
     (\<forall>h p. lease_at w h p \<longrightarrow> (\<exists>p'. lease_at w' h p' \<and> same_lease (vw_chains w p) (vw_chains w' p'))) \<and>
     (\<forall>p. vq_last_taken (vw_vq w') = Some p \<longrightarrow> (\<exists>h. lease_at w' h p))"

lemma renamed_wf:
  assumes wf: "queue_wf mem w" and r: "renamed w w'"
  shows "queue_wf mem w'"
proof -
  have m: "same_model w w'" and own: "vq_descriptor_owner (vw_vq w') = vq_descriptor_owner (vw_vq w)"
    using r by (simp_all add: renamed_def)
  have backw: "\<exists>p. lease_at w h p \<and> same_lease (vw_chains w p) (vw_chains w' p')" if "lease_at w' h p'" for h p'
    using r that by (simp add: renamed_def)
  have forth: "\<exists>p'. lease_at w' h p' \<and> same_lease (vw_chains w p) (vw_chains w' p')" if "lease_at w h p" for h p
    using r that by (simp add: renamed_def)
  have ok: "chain_ok mem (vw_channel w') (vw_vq w') c = chain_ok mem (vw_channel w) (vw_vq w) c" for c
    using m by (intro chain_ok_frame) (simp_all add: same_model_def)
  have "leases_ok mem w'"
    unfolding leases_ok_def
  proof (intro conjI allI impI)
    fix h p' assume "lease_at w' h p'"
    then obtain p where p: "lease_at w h p" and sp: "same_lease (vw_chains w p) (vw_chains w' p')" using backw by blast
    show "unat (cn_head (vw_chains w' p')) = h" using lease_head [OF wf p] same_lease_head [OF sp] by simp
    show "chain_ok mem (vw_channel w') (vw_vq w') (vw_chains w' p')"
      unfolding ok same_lease_ok [OF sp] by (rule lease_ok [OF wf p])
    show "\<forall>d \<in> set (chain_descriptors (vw_chains w' p')). vq_descriptor_owner (vw_vq w') ! unat d = cn_head (vw_chains w' p') + 1"
      using lease_owner(1) [OF wf p] own by (simp add: same_lease_descriptors [OF sp] same_lease_head [OF sp])
  next
    fix d assume d: "d < length (vq_descriptor_owner (vw_vq w'))" "vq_descriptor_owner (vw_vq w') ! d \<noteq> 0"
    then obtain h p where p: "lease_at w h p" "d \<in> unat ` set (chain_descriptors (vw_chains w p))"
      using wf own by (auto simp: queue_wf_def leases_ok_def)
    then obtain p' where "lease_at w' h p'" "same_lease (vw_chains w p) (vw_chains w' p')" using forth by blast
    then show "\<exists>h p. lease_at w' h p \<and> d \<in> unat ` set (chain_descriptors (vw_chains w' p))"
      using same_lease_descriptors p(2) by metis
  next
    fix h p h' p' assume a: "lease_at w' h p" "lease_at w' h' p'" "h \<noteq> h'"
    obtain q q' where q: "lease_at w h q" "same_lease (vw_chains w q) (vw_chains w' p)"
      "lease_at w h' q'" "same_lease (vw_chains w q') (vw_chains w' p')" using backw a(1,2) by metis
    then show "\<not> chains_overlap (vw_chains w' p) (vw_chains w' p')"
      unfolding same_lease_overlap [OF q(2)] same_lease_overlap2 [OF q(4)]
      using wf a(3) by (auto simp: queue_wf_def leases_ok_def)
  qed
  moreover have "binding_ok w'" using wf r by (simp add: queue_wf_def binding_ok_def renamed_def same_model_def)
  moreover have "occupied w' = occupied w" unfolding occupied_def using backw forth by blast
  then have "counts_ok w'" using wf r by (simp add: queue_wf_def counts_ok_def renamed_def same_model_def)
  ultimately show ?thesis by (simp add: queue_wf_def)
qed

lemma quiet_wf:
  assumes wf: "queue_wf mem w" and q: "quiet w w'"
  shows "queue_wf mem w'"
proof (rule renamed_wf [OF wf])
  have "same_books w w'" using q by (simp add: quiet_def)
  then show "renamed w w'"
    using q wf quiet_lease_at [of w w'] by (auto simp: renamed_def quiet_def same_books_def queue_wf_def counts_ok_def)
qed

section \<open>Chain states and indices\<close>

definition chain_phase_ok :: "int \<Rightarrow> kb2_vq_chain \<Rightarrow> bool" where
  "chain_phase_ok side c \<longleftrightarrow>
     (if side = 0 then cn_state c \<in> {SUBMITTED, RETURNED} \<and> (cn_state c = RETURNED \<longrightarrow> ucast (cn_used_length c) \<le> cn_writable c)
      else cn_state c = ACCEPTED \<and> cn_written c \<le> cn_writable c \<and> cn_written c \<le> 0xFFFFFFFF)"

definition phases_ok :: "'m vq_world \<Rightarrow> bool" where
  "phases_ok w \<longleftrightarrow> (\<forall>h p. lease_at w h p \<longrightarrow> chain_phase_ok (vq_side (vw_vq w)) (vw_chains w p))"

text \<open>The chains that were published and have not come back.\<close>

definition submitted :: "'m vq_world \<Rightarrow> nat set" where
  "submitted w = {h. \<exists>p. lease_at w h p \<and> cn_state (vw_chains w p) = SUBMITTED}"

definition indices_ok :: "'m vq_world \<Rightarrow> bool" where
  "indices_ok w \<longleftrightarrow> vc_faulted (vw_channel w) \<or>
     (if vq_side (vw_vq w) = 0
      then vq_produced (vw_vq w) - vq_consumed (vw_vq w) = of_nat (card (submitted w))
      else vq_consumed (vw_vq w) - vq_produced (vw_vq w) = of_nat (card (occupied w)))"

definition vq_wf :: "'m kb2_vq_memory \<Rightarrow> 'm vq_world \<Rightarrow> bool" where
  "vq_wf mem w \<longleftrightarrow> queue_wf mem w \<and> phases_ok w \<and> indices_ok w"

lemma lease_not_free: "phases_ok w \<Longrightarrow> lease_at w h p \<Longrightarrow> cn_state (vw_chains w p) \<noteq> FREE"
proof -
  assume "phases_ok w" "lease_at w h p"
  then have "chain_phase_ok (vq_side (vw_vq w)) (vw_chains w p)" by (auto simp: phases_ok_def)
  then show ?thesis by (auto simp: chain_phase_ok_def split: if_split_asm)
qed

text \<open>A step that changes neither the states nor the indices.\<close>

definition still :: "'m vq_world \<Rightarrow> 'm vq_world \<Rightarrow> bool" where
  "still w w' \<longleftrightarrow> same_books w w' \<and> (\<forall>h p. lease_at w h p \<longrightarrow> vw_chains w' p = vw_chains w p) \<and>
     (vc_faulted (vw_channel w) \<longrightarrow> vc_faulted (vw_channel w')) \<and>
     (vc_faulted (vw_channel w') \<or> vq_produced (vw_vq w') = vq_produced (vw_vq w) \<and> vq_consumed (vw_vq w') = vq_consumed (vw_vq w))"

lemma still_quiet: "still w w' \<Longrightarrow> quiet w w'"
  by (simp add: still_def quiet_def)

lemma still_refl [simp]: "still w w"
  by (simp add: still_def same_books_def same_model_def)

lemma still_trans: "still w w' \<Longrightarrow> still w' w'' \<Longrightarrow> still w w''"
  using quiet_lease_at [of w w'] same_books_trans [of w w' w''] unfolding still_def by auto

lemma still_wf:
  assumes wf: "vq_wf mem w" and s: "still w w'"
  shows "vq_wf mem w'"
proof -
  have b: "same_books w w'" using s by (simp add: still_def)
  note la = quiet_lease_at [OF b]
  have eq: "vw_chains w' p = vw_chains w p" if "lease_at w h p" for h p using s that by (auto simp: still_def)
  have "phases_ok w'" using wf b eq by (auto simp: vq_wf_def phases_ok_def la same_books_def same_model_def)
  moreover have sets: "submitted w' = submitted w" "occupied w' = occupied w"
    using eq by (auto simp: submitted_def occupied_def la)
  have "indices_ok w'" using wf s b unfolding vq_wf_def indices_ok_def still_def same_books_def same_model_def sets by auto
  ultimately show ?thesis using wf quiet_wf [OF _ still_quiet [OF s]] by (simp add: vq_wf_def)
qed

section \<open>Operations that move no ownership\<close>

lemma still_intros:
  "still w (w\<lparr>vw_memory := m\<rparr>)"
  "still w (w\<lparr>vw_channel := kb2_vq_channel_fault (vw_channel w)\<rparr>)"
  "(\<And>h. \<not> lease_at w h p) \<Longrightarrow> still w (w\<lparr>vw_chains := (vw_chains w)(p := c)\<rparr>)"
  by (auto simp: still_def same_books_def same_model_def kb2_vq_channel_fault_def)

lemma fault_still: "vq_fault w io = (s, r, w') \<Longrightarrow> still w w'"
  by (auto simp: vq_fault_def intro: still_intros)

lemma fault_status: "vq_fault w io = (s, r, w') \<Longrightarrow> s \<noteq> KB2_VQ_OK \<and> s \<noteq> KB2_VQ_EMPTY \<and> vc_faulted (vw_channel w')"
  by (auto simp: vq_fault_def kb2_vq_channel_fault_def split: if_split_asm)

lemma memory_fault_still: "vq_fault (w\<lparr>vw_memory := m\<rparr>) io = (s, r, w') \<Longrightarrow> still w w'"
  using fault_still still_intros(1) still_trans by metis

lemma pending_index_still: "pending_index mem w = (s, d, w') \<Longrightarrow> still w w'"
  by (auto simp: pending_index_def Let_def intro: memory_fault_still still_intros
      split: prod.split_asm option.split_asm if_split_asm)

lemma pending_index_OK:
  assumes "pending_index mem w = (KB2_VQ_OK, d, w')"
  shows "w' = w\<lparr>vw_memory := vw_memory w'\<rparr>"
    "\<exists>distance. d = Some distance \<and> distance \<noteq> 0 \<and>
       (vq_side (vw_vq w) = 0 \<longrightarrow> distance \<le> vq_produced (vw_vq w) - vq_consumed (vw_vq w))"
  using assms by (auto simp: pending_index_def Let_def vq_fault_def
      split: prod.split_asm option.split_asm if_split_asm)

lemma copy_data_still: "copy_data mem w p f off input n wr = (s, r, w') \<Longrightarrow> still w w'"
  by (auto simp: copy_data_def intro: memory_fault_still still_intros split: prod.split_asm if_split_asm)

lemma copy_data_OK: "copy_data mem w p f off input n wr = (KB2_VQ_OK, r, w') \<Longrightarrow> w' = w\<lparr>vw_memory := vw_memory w'\<rparr>"
  by (auto simp: copy_data_def vq_fault_def split: prod.split_asm if_split_asm)

lemma peek_wf: "vq_peek_available mem b w = (s, r, w') \<Longrightarrow> still w w'"
  by (auto simp: vq_peek_available_def dest: pending_index_still split: prod.split_asm if_split_asm)

lemma arm_wf:
  assumes "vq_arm mem b w = (s, r, w')"
  shows "still w w'"
proof -
  have "still w w1" if "pending_index mem (w\<lparr>vw_memory := m\<rparr>) = (s1, d, w1)" for m s1 d w1
    using still_trans [OF still_intros(1) pending_index_still [OF that]] .
  then show ?thesis using assms
    by (auto simp: vq_arm_def Let_def intro: memory_fault_still split: prod.split_asm if_split_asm bool.split_asm)
qed

lemma copy_request_wf: "vq_copy_request mem c off b n w = (s, r, w') \<Longrightarrow> still w w'"
  by (auto simp: vq_copy_request_def Let_def dest: copy_data_still split: if_split_asm)

lemma copy_response_wf: "vq_copy_response mem c off b n w = (s, r, w') \<Longrightarrow> still w w'"
  by (auto simp: vq_copy_response_def Let_def dest: copy_data_still split: if_split_asm)

section \<open>Operations that change a leased chain\<close>

lemma owns_lease:
  assumes "queue_wf mem w" "vq_owns w (Some p) st"
  shows "lease_at w (unat (cn_head (vw_chains w p))) p" "cn_state (vw_chains w p) = st"
  using assms by (auto simp: vq_owns_def lease_at_def queue_wf_def binding_ok_def)

text \<open>Replacing a leased chain by one with the same lease, which may also move the indices.\<close>

lemma update_lease_quiet:
  assumes p: "lease_at w h p" and s: "same_lease (vw_chains w p) c"
  shows "quiet w (w\<lparr>vw_chains := (vw_chains w)(p := c), vw_vq := (vw_vq w)\<lparr>vq_consumed := k\<rparr>\<rparr>)"
  using assms by (auto simp: quiet_def same_books_def same_model_def)

lemma update_lease_phases:
  assumes "phases_ok w" "chain_phase_ok (vq_side (vw_vq w)) c"
  shows "phases_ok (w\<lparr>vw_chains := (vw_chains w)(p := c), vw_vq := (vw_vq w)\<lparr>vq_consumed := k\<rparr>\<rparr>)"
  using assms by (auto simp: phases_ok_def lease_at_def)

lemma phases_lease: "phases_ok w \<Longrightarrow> lease_at w h p \<Longrightarrow> chain_phase_ok (vq_side (vw_vq w)) (vw_chains w p)"
  by (auto simp: phases_ok_def)

lemma consumed_unchanged: "w\<lparr>vw_chains := f\<rparr> = w\<lparr>vw_chains := f, vw_vq := (vw_vq w)\<lparr>vq_consumed := vq_consumed (vw_vq w)\<rparr>\<rparr>"
  by simp

lemma written_bound:
  fixes a b c :: u64
  assumes "a \<le> b" "n \<le> unat (b - a)" "a \<le> 0xFFFFFFFF" "n \<le> unat (0xFFFFFFFF - a)"
  shows "a + of_nat n \<le> b" "a + of_nat n \<le> 0xFFFFFFFF"
proof -
  have u: "unat (b - a) = unat b - unat a" "unat (0xFFFFFFFF - a) = unat (0xFFFFFFFF :: u64) - unat a"
    using assms by (simp_all add: unat_sub)
  have le: "unat a \<le> unat b" "unat a \<le> unat (0xFFFFFFFF :: u64)" using assms by (simp_all add: word_le_nat_alt)
  have n: "n \<le> unat b - unat a" using assms(2) u by simp
  then have "n < 2 ^ 64" using unat_u64_lt [of b] by linarith
  then have "unat (of_nat n :: u64) = n" by (simp add: unsigned_of_nat take_bit_nat_eq_self)
  moreover have "unat a + n < 2 ^ 64" using n le unat_u64_lt [of b] by linarith
  ultimately have s: "unat (a + of_nat n) = unat a + n" by (simp add: unat_word_ariths)
  show "a + of_nat n \<le> b" using s n le by (simp add: word_le_nat_alt)
  show "a + of_nat n \<le> 0xFFFFFFFF" using s assms(4) u(2) le(2) by (simp add: word_le_nat_alt)
qed

lemma write_response_wf:
  assumes run: "vq_write_response mem chain bytes w = (s, r, w')" and wf: "vq_wf mem w"
  shows "vq_wf mem w'"
proof -
  let ?c = "vw_chains w (the chain)" and ?n = "carray_count bytes"
  consider "w' = w" | (copy) s1 out w1 where "vq_owns w chain ACCEPTED" "vq_side (vw_vq w) = 1"
      "?n \<le> unat (cn_writable ?c - cn_written ?c)" "?n \<le> unat (0xFFFFFFFF - cn_written ?c)"
      "copy_data mem w (the chain) 1 (cn_written ?c) (case bytes of Null n \<Rightarrow> [] | Arr xs \<Rightarrow> xs) ?n True = (s1, out, w1)"
      "w' = (if s1 \<noteq> KB2_VQ_OK then w1 else w1\<lparr>vw_chains := (vw_chains w1)(the chain :=
          (vw_chains w1 (the chain))\<lparr>cn_written := cn_written ?c + of_nat ?n\<rparr>)\<rparr>)"
    using run by (auto simp: vq_write_response_def Let_def not_less split: if_split_asm prod.split_asm carray.split_asm)
  then show ?thesis
  proof cases
    case 1
    then show ?thesis using wf by simp
  next
    case copy
    obtain p where p: "chain = Some p" using copy(1) by (cases chain) (auto simp: vq_owns_def)
    have wf1: "vq_wf mem w1" by (rule still_wf [OF wf copy_data_still [OF copy(5)]])
    show ?thesis
    proof (cases "s1 = KB2_VQ_OK")
      case False
      then show ?thesis using copy(6) wf1 by simp
    next
      case True
      obtain m where w1: "w1 = w\<lparr>vw_memory := m\<rparr>" using copy_data_OK copy(5) True by blast
      have q1: "queue_wf mem w1" "phases_ok w1" "indices_ok w1" using wf1 by (auto simp: vq_wf_def)
      have la: "lease_at w1 (unat (cn_head (vw_chains w1 p))) p" and st: "cn_state (vw_chains w1 p) = ACCEPTED"
        using owns_lease [OF q1(1), of p ACCEPTED] copy(1) p w1 by (auto simp: vq_owns_def)
      let ?d = "(vw_chains w1 p)\<lparr>cn_written := cn_written ?c + of_nat ?n\<rparr>"
      have ph: "chain_phase_ok 1 ?d"
        using phases_lease [OF q1(2) la] copy(2,3,4) w1 p written_bound [of "cn_written ?c" "cn_writable ?c" ?n] st
        by (auto simp: chain_phase_ok_def)
      have w': "w' = w1\<lparr>vw_chains := (vw_chains w1)(p := ?d), vw_vq := (vw_vq w1)\<lparr>vq_consumed := vq_consumed (vw_vq w1)\<rparr>\<rparr>"
        using copy(6) True p by simp
      have "queue_wf mem w'" unfolding w'
        by (rule quiet_wf [OF q1(1) update_lease_quiet [OF la]]) (simp add: same_lease_def)
      moreover have "phases_ok w'" unfolding w' by (rule update_lease_phases [OF q1(2)]) (use ph copy(2) w1 in simp)
      moreover have "indices_ok w'" using q1(3) copy(2) w1 unfolding w' indices_ok_def occupied_def lease_at_def by simp
      ultimately show ?thesis by (simp add: vq_wf_def)
    qed
  qed
qed

lemma word_diff_pred: "(a :: u16) - b = of_nat (Suc n) \<Longrightarrow> a - (b + 1) = of_nat n"
  by (simp add: algebra_simps)

lemma fault_after:
  "still w w1 \<Longrightarrow> vq_fault (w1\<lparr>vw_memory := m\<rparr>) io = (s, r, w') \<Longrightarrow> still w w'"
  using memory_fault_still still_trans by metis

lemma take_used_steps:
  assumes run: "vq_take_used mem out w = (s, r, w')"
  shows "still w w' \<or> vq_side (vw_vq w) = 0 \<and> (\<exists>p m len. vq_owns w (Some p) SUBMITTED \<and>
      ucast len \<le> cn_writable (vw_chains w p) \<and>
      w' = w\<lparr>vw_memory := m, vw_chains := (vw_chains w)(p := (vw_chains w p)\<lparr>cn_used_length := len, cn_state := RETURNED\<rparr>),
        vw_vq := (vw_vq w)\<lparr>vq_consumed := vq_consumed (vw_vq w) + 1\<rparr>\<rparr>)"
proof (cases "pending_index mem w")
  case (fields s1 d w1)
  note st = pending_index_still [OF fields]
  show ?thesis
  proof (cases "vq_side (vw_vq w) \<noteq> 0 \<or> \<not> out \<or> s1 \<noteq> KB2_VQ_OK")
    case True
    then show ?thesis using run fields st by (auto simp: vq_take_used_def Let_def split: if_split_asm)
  next
    case False
    then obtain m where w1: "w1 = w\<lparr>vw_memory := m\<rparr>" using pending_index_OK(1) fields by blast
    obtain rd m2 where rd: "vm_read mem (vw_memory w1) (q_used_address (vq_queue (vw_vq w)) + 4 +
        8 * ring_slot (vq_consumed (vw_vq w1)) (vq_queue (vw_vq w))) 8 = (rd, m2)" by (metis prod.exhaust)
    show ?thesis
    proof (cases rd)
      case None
      then show ?thesis using run False fields rd by (auto simp: vq_take_used_def Let_def intro: fault_after [OF st])
    next
      case (Some b)
      let ?slot = "vq_slots (vw_vq w) ! unat (un32 b)" and ?len = "un32 (drop 4 b)"
      show ?thesis
      proof (cases "unat (q_queue_size (vq_queue (vw_vq w))) \<le> unat (un32 b) \<or>
          \<not> vq_owns (w1\<lparr>vw_memory := m2\<rparr>) ?slot SUBMITTED \<or> cn_writable (vw_chains w1 (the ?slot)) < ucast ?len")
        case True
        then show ?thesis using run False fields rd Some w1 fault_after [OF st]
          by (auto simp: vq_take_used_def Let_def)
      next
        case ok: False
        then obtain p where p: "?slot = Some p" by (cases ?slot) (auto simp: vq_owns_def)
        have "vq_owns w (Some p) SUBMITTED" "ucast ?len \<le> cn_writable (vw_chains w p)"
          using ok p w1 by (auto simp: vq_owns_def)
        then show ?thesis using run False ok fields rd Some w1 p
          by (auto simp: vq_take_used_def Let_def intro!: exI [of _ p] exI [of _ m2] exI [of _ ?len])
      qed
    qed
  qed
qed

lemma return_lease_wf:
  assumes wf: "vq_wf mem w" and side: "vq_side (vw_vq w) = 0" and own: "vq_owns w (Some p) SUBMITTED"
    and len: "ucast len \<le> cn_writable (vw_chains w p)"
  shows "vq_wf mem (w\<lparr>vw_chains := (vw_chains w)(p := (vw_chains w p)\<lparr>cn_used_length := len, cn_state := RETURNED\<rparr>),
        vw_vq := (vw_vq w)\<lparr>vq_consumed := vq_consumed (vw_vq w) + 1\<rparr>\<rparr>)"
proof -
  have q: "queue_wf mem w" "phases_ok w" "indices_ok w" using wf by (auto simp: vq_wf_def)
  let ?c = "(vw_chains w p)\<lparr>cn_used_length := len, cn_state := RETURNED\<rparr>"
  let ?v = "w\<lparr>vw_chains := (vw_chains w)(p := ?c), vw_vq := (vw_vq w)\<lparr>vq_consumed := vq_consumed (vw_vq w) + 1\<rparr>\<rparr>"
  let ?h = "unat (cn_head (vw_chains w p))"
  note la = owns_lease [OF q(1) own]
  have "queue_wf mem ?v" by (rule quiet_wf [OF q(1) update_lease_quiet [OF la(1)]]) (simp add: same_lease_def)
  moreover have "phases_ok ?v" by (rule update_lease_phases [OF q(2)]) (use side len in \<open>simp add: chain_phase_ok_def\<close>)
  moreover have "indices_ok ?v"
  proof -
    have h: "?h \<in> submitted w" using la by (auto simp: submitted_def)
    have lv: "lease_at ?v h q = lease_at w h q" for h q by (simp add: lease_at_def)
    have "h' \<in> submitted ?v \<longleftrightarrow> h' \<in> submitted w \<and> h' \<noteq> ?h" for h'
    proof (cases "h' = ?h")
      case True
      then show ?thesis using lease_at_fun [OF la(1)] by (auto simp: submitted_def lv)
    next
      case False
      then have "q \<noteq> p" if "lease_at w h' q" for q using lease_slot_unique [OF q(1) that] la(1) by blast
      then have "lease_at w h' q \<and> cn_state (vw_chains ?v q) = SUBMITTED \<longleftrightarrow>
          lease_at w h' q \<and> cn_state (vw_chains w q) = SUBMITTED" for q by auto
      then show ?thesis using False by (simp add: submitted_def lv)
    qed
    then have sub: "submitted ?v = submitted w - {?h}" by blast
    have "finite (submitted w)" by (rule finite_subset [OF _ occupied_finite [of w]]) (auto simp: submitted_def occupied_def)
    then have "card (submitted w) = Suc (card (submitted ?v))" using card_Suc_Diff1 [OF _ h] sub by simp
    then have "vc_faulted (vw_channel w) \<or>
        vq_produced (vw_vq w) - vq_consumed (vw_vq w) = of_nat (Suc (card (submitted ?v)))"
      using q(3) side by (simp add: indices_ok_def del: of_nat_Suc)
    then show ?thesis using side word_diff_pred by (auto simp: indices_ok_def simp del: of_nat_Suc)
  qed
  ultimately show ?thesis by (simp add: vq_wf_def)
qed

lemma take_used_wf:
  assumes run: "vq_take_used mem out w = (s, r, w')" and wf: "vq_wf mem w"
  shows "vq_wf mem w'"
proof (cases "still w w'")
  case True
  then show ?thesis by (rule still_wf [OF wf])
next
  case False
  then obtain p m len where side: "vq_side (vw_vq w) = 0" and own: "vq_owns w (Some p) SUBMITTED"
    and len: "ucast len \<le> cn_writable (vw_chains w p)"
    and w': "w' = (w\<lparr>vw_memory := m\<rparr>)\<lparr>vw_chains := (vw_chains w)(p := (vw_chains w p)\<lparr>cn_used_length := len, cn_state := RETURNED\<rparr>),
      vw_vq := (vw_vq w)\<lparr>vq_consumed := vq_consumed (vw_vq w) + 1\<rparr>\<rparr>" using take_used_steps [OF run] by auto
  have "vq_wf mem (w\<lparr>vw_memory := m\<rparr>)" by (rule still_wf [OF wf still_intros(1)])
  from return_lease_wf [OF this, of p len] side own len show ?thesis unfolding w' by (simp add: vq_owns_def)
qed

section \<open>Operations that move ownership\<close>

lemma drop_phases:
  assumes wf: "queue_wf mem w" and p: "lease_at w h p" and ph: "phases_ok w"
  shows "phases_ok (vq_drop w p)"
proof -
  have "q \<noteq> p" if "h' \<noteq> h" "lease_at w h' q" for h' q using lease_slot_unique [OF wf] p that by blast
  then show ?thesis using ph drop_lease_at [OF wf p] by (auto simp: phases_ok_def drop_simps)
qed

lemma drop_sets:
  assumes wf: "queue_wf mem w" and p: "lease_at w h p"
  shows "occupied (vq_drop w p) = occupied w - {h}" "submitted (vq_drop w p) = submitted w - {h}"
proof -
  have "q \<noteq> p" if "h' \<noteq> h" "lease_at w h' q" for h' q using lease_slot_unique [OF wf] p that by blast
  then show "occupied (vq_drop w p) = occupied w - {h}" "submitted (vq_drop w p) = submitted w - {h}"
    using drop_lease_at [OF wf p] by (auto simp: occupied_def submitted_def drop_simps)
qed

lemma release_wf:
  assumes run: "vq_release chain w = (s, r, w')" and wf: "vq_wf mem w"
  shows "vq_wf mem w'"
proof (cases "vq_side (vw_vq w) = 0 \<and> vq_owns w chain RETURNED")
  case False
  then show ?thesis using run wf by (auto simp: vq_release_def)
next
  case True
  obtain p where p: "chain = Some p" using True by (cases chain) (auto simp: vq_owns_def)
  have q: "queue_wf mem w" "phases_ok w" "indices_ok w" using wf by (auto simp: vq_wf_def)
  have w': "w' = vq_drop w p" using run True p by (auto simp: vq_release_def)
  have la: "lease_at w (unat (cn_head (vw_chains w p))) p" "cn_state (vw_chains w p) = RETURNED"
    using owns_lease [OF q(1)] True p by auto
  have "unat (cn_head (vw_chains w p)) \<notin> submitted w" using la(2) by (auto simp: submitted_def dest!: lease_at_fun [OF la(1)])
  then have "indices_ok w'" using q(3) True drop_sets(2) [OF q(1) la(1)]
    by (simp add: w' indices_ok_def drop_simps)
  then show ?thesis using drop_wf [OF q(1) la(1)] drop_phases [OF q(1) la(1) q(2)] by (simp add: vq_wf_def w')
qed

lemma return_available_wf:
  assumes run: "vq_return_available chain w = (s, r, w')" and wf: "vq_wf mem w"
  shows "vq_wf mem w'"
proof (cases "vq_side (vw_vq w) = 1 \<and> vq_owns w chain ACCEPTED \<and> vq_last_taken (vw_vq w) = chain \<and> cn_written (vw_chains w (the chain)) = 0")
  case False
  then show ?thesis using run wf by (auto simp: vq_return_available_def)
next
  case True
  obtain p where p: "chain = Some p" using True by (cases chain) (auto simp: vq_owns_def)
  have q: "queue_wf mem w" "phases_ok w" "indices_ok w" using wf by (auto simp: vq_wf_def)
  let ?v = "vq_drop w p"
  have w': "w' = ?v\<lparr>vw_vq := (vw_vq ?v)\<lparr>vq_consumed := vq_consumed (vw_vq ?v) - 1\<rparr>\<rparr>"
    using run True p by (auto simp: vq_return_available_def Let_def)
  have la: "lease_at w (unat (cn_head (vw_chains w p))) p" using owns_lease [OF q(1)] True p by auto
  have quiet: "quiet ?v w'" by (simp add: w' quiet_def same_books_def same_model_def)
  have "queue_wf mem w'" by (rule quiet_wf [OF drop_wf [OF q(1) la] quiet])
  moreover have "phases_ok w'" using drop_phases [OF q(1) la q(2)] by (simp add: w' phases_ok_def lease_at_def)
  moreover have "indices_ok w'"
  proof -
    have h: "unat (cn_head (vw_chains w p)) \<in> occupied w" using la by (auto simp: occupied_def)
    have "occupied w' = occupied w - {unat (cn_head (vw_chains w p))}"
      unfolding drop_sets(1) [OF q(1) la, symmetric] by (simp add: w' occupied_def lease_at_def)
    then have "card (occupied w) = Suc (card (occupied w'))" using card_Suc_Diff1 [OF _ h] by simp
    then show ?thesis using q(3) True by (simp add: w' indices_ok_def drop_simps algebra_simps)
  qed
  ultimately show ?thesis by (simp add: vq_wf_def)
qed

lemma move_accepted_wf:
  assumes run: "vq_move_accepted source destination w = (s, r, w')" and wf: "vq_wf mem w"
  shows "vq_wf mem w'"
proof (cases "s = KB2_VQ_OK")
  case False
  then show ?thesis using run wf
    by (auto simp: vq_move_accepted_def Let_def split: option.split_asm if_split_asm)
next
  case True
  then obtain a d where ad: "source = Some a" "destination = Some d" using run
    by (auto simp: vq_move_accepted_def split: option.split_asm)
  let ?sc = "vw_chains w a" and ?dc = "vw_chains w d" and ?vq = "vw_vq w"
  let ?copy = "?sc\<lparr>cn_segments := Some (chain_segments ?sc @ drop (cn_count ?sc) (the (cn_segments ?dc)))\<rparr>"
  let ?h = "unat (cn_head ?sc)"
  have side: "vq_side ?vq = 1" and own: "vq_owns w (Some a) ACCEPTED" and ne: "d \<noteq> a" and free: "cn_state ?dc = FREE"
    and segs: "cn_segments ?dc \<noteq> None" and w': "w' = w\<lparr>
            vw_vq := ?vq\<lparr>vq_slots := (vq_slots ?vq)[?h := Some d],
              vq_last_taken := (if vq_last_taken ?vq = Some a then Some d else vq_last_taken ?vq)\<rparr>,
            vw_chains := (vw_chains w) (d := ?copy, a := ?sc\<lparr>cn_state := FREE\<rparr>)\<rparr>"
    using run True ad by (auto simp: vq_move_accepted_def Let_def split: if_split_asm)
  have q: "queue_wf mem w" "phases_ok w" "indices_ok w" using wf by (auto simp: vq_wf_def)
  note la = owns_lease [OF q(1) own]
  have nd: "\<not> lease_at w h d" for h using lease_not_free [OF q(2)] free by blast
  have h: "?h < length (vq_slots ?vq)" using la(1) by (simp add: lease_at_def)
  have lv: "lease_at w' h p \<longleftrightarrow> (if h = ?h then p = d else lease_at w h p)" for h p
    using h by (auto simp: lease_at_def w' nth_list_update)
  have count: "length (chain_segments ?sc) = cn_count ?sc" using lease_ok [OF q(1) la(1)] by (simp add: chain_ok_def)
  have same: "same_lease ?sc (vw_chains w' d)"
    using count ne by (simp add: w' same_lease_def chain_segments_def [of "?copy"])
  have other: "p \<noteq> a \<and> p \<noteq> d" if "h \<noteq> ?h" "lease_at w h p" for h p
    using nd that lease_slot_unique [OF q(1) _ la(1)] by blast
  have old: "vw_chains w' p = vw_chains w p" if "h \<noteq> ?h" "lease_at w h p" for h p
    using other [OF that] by (simp add: w')
  have backw: "\<exists>q. lease_at w h q \<and> same_lease (vw_chains w q) (vw_chains w' p)" if "lease_at w' h p" for h p
    using that lv la(1) same old by (cases "h = ?h") auto
  have forth: "\<exists>q. lease_at w' h q \<and> same_lease (vw_chains w p) (vw_chains w' q)" if "lease_at w h p" for h p
  proof (cases "h = ?h")
    case True
    then have "a = p" using that by (intro lease_at_fun [OF la(1)]) simp
    then show ?thesis using True lv same by auto
  next
    case False
    then show ?thesis using that lv old by auto
  qed
  have last: "\<exists>h. lease_at w' h p" if "vq_last_taken (vw_vq w') = Some p" for p
  proof (cases "vq_last_taken ?vq = Some a")
    case True
    then show ?thesis using that lv by (auto simp: w')
  next
    case False
    then have "vq_last_taken ?vq = Some p" using that by (simp add: w')
    then obtain h where h: "lease_at w h p" using q(1) by (auto simp: queue_wf_def counts_ok_def)
    then have "h \<noteq> ?h" using lease_at_fun [OF la(1)] \<open>vq_last_taken ?vq = Some p\<close> False by blast
    then show ?thesis using lv h by auto
  qed
  have "renamed w w'"
    using backw forth last by (simp add: renamed_def same_model_def w')
  then have "queue_wf mem w'" by (rule renamed_wf [OF q(1)])
  moreover have "phases_ok w'"
    unfolding phases_ok_def
  proof (intro allI impI)
    fix h p assume a: "lease_at w' h p"
    show "chain_phase_ok (vq_side (vw_vq w')) (vw_chains w' p)"
    proof (cases "h = ?h")
      case True
      then show ?thesis using a lv phases_lease [OF q(2) la(1)] ne side by (simp add: w' chain_phase_ok_def)
    next
      case False
      then show ?thesis using a lv old phases_lease [OF q(2)] by (simp add: w')
    qed
  qed
  moreover have "occupied w' = occupied w" unfolding occupied_def using backw forth by blast
  then have "indices_ok w'" using q(3) side by (simp add: indices_ok_def) (simp add: w')
  ultimately show ?thesis by (simp add: vq_wf_def)
qed


lemma publish_index_fault:
  "publish_index mem w ring event = (s, r, w') \<Longrightarrow> s \<noteq> KB2_VQ_OK \<Longrightarrow> still w w' \<and> vc_faulted (vw_channel w')"
  by (auto simp: publish_index_def Let_def vq_fault_def still_def same_books_def same_model_def kb2_vq_channel_fault_def
      split: prod.split_asm bool.split_asm option.split_asm if_split_asm)

lemma publish_index_memory_fault:
  "publish_index mem (w\<lparr>vw_memory := m\<rparr>) ring event = (s, r, w') \<Longrightarrow> s \<noteq> KB2_VQ_OK \<Longrightarrow> still w w'"
  by (drule (1) publish_index_fault) (blast intro: still_trans [OF still_intros(1)])

lemma publish_index_OK:
  "publish_index mem w ring event = (KB2_VQ_OK, r, w') \<Longrightarrow>
   \<exists>m. w' = w\<lparr>vw_vq := (vw_vq w)\<lparr>vq_produced := vq_produced (vw_vq w) + 1\<rparr>, vw_memory := m\<rparr>"
  by (auto simp: publish_index_def Let_def vq_fault_def
      split: prod.split_asm bool.split_asm option.split_asm if_split_asm)

lemma produced_frame:
  fixes w m n
  defines "v \<equiv> w\<lparr>vw_vq := (vw_vq w)\<lparr>vq_produced := n\<rparr>, vw_memory := m\<rparr>"
  shows "quiet w v" "phases_ok v = phases_ok w" "occupied v = occupied w" "submitted v = submitted w" "lease_at v = lease_at w"
    "vq_side (vw_vq v) = vq_side (vw_vq w)" "vq_produced (vw_vq v) = n" "vq_consumed (vw_vq v) = vq_consumed (vw_vq w)"
    "vw_chains v = vw_chains w" "vw_channel v = vw_channel w"
  by (simp_all add: v_def quiet_def same_books_def same_model_def phases_ok_def occupied_def submitted_def lease_at_def fun_eq_iff)

lemma complete_wf:
  assumes run: "vq_complete mem chain notify w = (s, r, w')" and wf: "vq_wf mem w"
  shows "vq_wf mem w'"
proof (cases "s = KB2_VQ_OK")
  case False
  then have "still w w'" using run
    by (auto simp: vq_complete_def Let_def dest: publish_index_memory_fault memory_fault_still
        split: prod.split_asm bool.split_asm if_split_asm)
  then show ?thesis by (rule still_wf [OF wf])
next
  case True
  obtain p where side: "vq_side (vw_vq w) = 1" and own: "vq_owns w (Some p) ACCEPTED" and p: "chain = Some p"
    using run True by (cases chain) (auto simp: vq_complete_def vq_owns_def Let_def split: if_split_asm)
  obtain m0 ring event w1 where pub: "publish_index mem (w\<lparr>vw_memory := m0\<rparr>) ring event = (KB2_VQ_OK, r, w1)"
    and w': "w' = vq_drop w1 p" using run True p side own
    by (auto simp: vq_complete_def Let_def vq_fault_def split: prod.split_asm bool.split_asm if_split_asm)
  obtain m where w1: "w1 = w\<lparr>vw_vq := (vw_vq w)\<lparr>vq_produced := vq_produced (vw_vq w) + 1\<rparr>, vw_memory := m\<rparr>"
    using publish_index_OK [OF pub] by auto
  note fr = produced_frame [where w = w and m = m and n = "vq_produced (vw_vq w) + 1", folded w1]
  have q: "queue_wf mem w" "phases_ok w" "indices_ok w" using wf by (auto simp: vq_wf_def)
  have q1: "queue_wf mem w1" by (rule quiet_wf [OF q(1) fr(1)])
  have la: "lease_at w1 (unat (cn_head (vw_chains w p))) p" using owns_lease [OF q(1) own] fr by simp
  have "unat (cn_head (vw_chains w p)) \<in> occupied w" using la fr by (auto simp: occupied_def)
  then have "card (occupied w) = Suc (card (occupied w'))"
    unfolding w' drop_sets(1) [OF q1 la] fr(3) by (rule card_Suc_Diff1 [OF occupied_finite, symmetric])
  then have "indices_ok w'" using q(3) side by (simp add: w' indices_ok_def drop_simps fr algebra_simps)
  then show ?thesis using drop_wf [OF q1 la] drop_phases [OF q1 la] q(2) by (simp add: vq_wf_def w' fr)
qed

lemma still_fault_wf:
  assumes "queue_wf mem w" "phases_ok w" "still w w'" "vc_faulted (vw_channel w')"
  shows "vq_wf mem w'"
proof -
  have b: "same_books w w'" using assms(3) by (simp add: still_def)
  have eq: "vw_chains w' p = vw_chains w p" if "lease_at w h p" for h p using assms(3) that by (auto simp: still_def)
  have "phases_ok w'" using assms(2) b eq by (auto simp: phases_ok_def quiet_lease_at [OF b] same_books_def same_model_def)
  then show ?thesis using quiet_wf [OF assms(1) still_quiet [OF assms(3)]] assms(4) by (simp add: vq_wf_def indices_ok_def)
qed

text \<open>Claiming a chain that validation accepted.\<close>

lemma validate_claimable:
  assumes free: "\<And>h. \<not> lease_at w h p" and v: "validate_chain mem w c = Some c'"
    and u: "u = w\<lparr>vw_chains := (vw_chains w)(p := c')\<rparr>"
  shows "claimable mem u p"
  using validate_chainD [OF v] free by (auto simp: claimable_def u lease_at_def in_set_conv_nth)

lemma claim_phases:
  assumes wf: "queue_wf mem w" and c: "claimable mem w p" and ph: "phases_ok w"
    and new: "chain_phase_ok (vq_side (vw_vq w)) ((vw_chains w p)\<lparr>cn_state := st\<rparr>)"
  shows "phases_ok (claim w p st)"
  using claim_lease_at [OF claimableD(1) [OF wf c]] claimableD(2) [OF wf c] ph new
  by (auto simp: phases_ok_def claim_simps)

lemma claim_sets:
  assumes wf: "queue_wf mem w" and c: "claimable mem w p"
  shows "card (occupied (claim w p st)) = Suc (card (occupied w))"
    "card (submitted (claim w p SUBMITTED)) = Suc (card (submitted w))"
proof -
  note la = claim_lease_at [OF claimableD(1) [OF wf c]]
  let ?h = "unat (cn_head (vw_chains w p))"
  have n: "?h \<notin> occupied w" "?h \<notin> submitted w"
    using claimableD(2) [OF wf c] by (auto simp: occupied_def submitted_def)
  then show "card (occupied (claim w p st)) = Suc (card (occupied w))"
    by (simp add: claim_occupied [OF claimableD(1) [OF wf c]])
  have "h \<in> submitted (claim w p SUBMITTED) \<longleftrightarrow> h \<in> insert ?h (submitted w)" for h
    using claimableD(2) [OF wf c] la [of SUBMITTED h] by (cases "h = ?h") (auto simp: submitted_def claim_simps)
  then have "submitted (claim w p SUBMITTED) = insert ?h (submitted w)" by blast
  moreover have "finite (submitted w)" by (rule finite_subset [OF _ occupied_finite [of w]]) (auto simp: submitted_def occupied_def)
  ultimately show "card (submitted (claim w p SUBMITTED)) = Suc (card (submitted w))" using n by simp
qed

lemma publish_OK_wf:
  assumes wf: "vq_wf mem w" and free: "cn_state (vw_chains w p) = FREE" and side: "vq_side (vw_vq w) = 0"
    and room: "vq_owned (vw_vq w) \<noteq> q_max_outstanding (vq_queue (vw_vq w))"
    and v: "validate_chain mem w (vw_chains w p) = Some c"
    and w1: "w1 = claim (w\<lparr>vw_chains := (vw_chains w)(p := c)\<rparr>) p SUBMITTED"
  shows "queue_wf mem w1" "phases_ok w1"
    "vc_faulted (vw_channel w1) \<or> vq_produced (vw_vq w1) + 1 - vq_consumed (vw_vq w1) = of_nat (card (submitted w1))"
    "vq_side (vw_vq w1) = 0" "vw_channel w1 = vw_channel w"
proof -
  let ?w = "w\<lparr>vw_chains := (vw_chains w)(p := c)\<rparr>"
  have q: "queue_wf mem w" "phases_ok w" "indices_ok w" using wf by (auto simp: vq_wf_def)
  have nd: "\<not> lease_at w h p" for h using lease_not_free [OF q(2)] free by blast
  have "vq_wf mem ?w" using still_wf [OF wf still_intros(3) [OF nd]] .
  then have q0: "queue_wf mem ?w" "phases_ok ?w" "indices_ok ?w" by (auto simp: vq_wf_def)
  note cl = validate_claimable [OF nd v refl]
  show "queue_wf mem w1" unfolding w1 by (rule claim_wf [OF q0(1) cl]) (simp add: room)
  show "phases_ok w1" unfolding w1 by (rule claim_phases [OF q0(1) cl q0(2)]) (simp add: chain_phase_ok_def side)
  show "vc_faulted (vw_channel w1) \<or> vq_produced (vw_vq w1) + 1 - vq_consumed (vw_vq w1) = of_nat (card (submitted w1))"
    unfolding w1 claim_sets(2) [OF q0(1) cl] using q0(3) side by (simp add: claim_simps indices_ok_def algebra_simps)
  show "vq_side (vw_vq w1) = 0" "vw_channel w1 = vw_channel w" by (simp_all add: w1 claim_simps side)
qed

lemma publish_wf:
  assumes run: "vq_publish mem chain notify w = (s, r, w')" and wf: "vq_wf mem w"
  shows "vq_wf mem w'"
proof (cases "w' = w")
  case False
  then obtain p where p: "chain = Some p" and free: "cn_state (vw_chains w p) = FREE" and side: "vq_side (vw_vq w) = 0"
    and room: "vq_owned (vw_vq w) \<noteq> q_max_outstanding (vq_queue (vw_vq w))"
    using run by (auto simp: vq_publish_def Let_def split: option.split_asm if_split_asm)
  then obtain c where v: "validate_chain mem w (vw_chains w p) = Some c" using run False
    by (auto simp: vq_publish_def Let_def split: option.split_asm if_split_asm)
  define w1 where w1: "w1 = claim (w\<lparr>vw_chains := (vw_chains w)(p := c)\<rparr>) p SUBMITTED"
  note ok = publish_OK_wf [OF wf free side room v w1]
  obtain b m where all: "write_all mem (publish_writes (vw_vq w1) c) (vw_memory w1) = (b, m)" by fastforce
  have go: "(if \<not> b then vq_fault (w1\<lparr>vw_memory := m\<rparr>) True
     else publish_index mem (w1\<lparr>vw_memory := m\<rparr>) (q_available_address (vq_queue (vw_vq w)))
       (used_event (vq_queue (vw_vq w)))) = (s, r, w')"
    using run False p free side room v all by (simp add: vq_publish_def Let_def w1 [symmetric] split: if_split_asm)
  show ?thesis
  proof (cases "s = KB2_VQ_OK")
    case False
    have "still w1 w'" "vc_faulted (vw_channel w')"
      using go False publish_index_fault
      by (auto dest: memory_fault_still fault_status publish_index_memory_fault publish_index_fault split: if_split_asm)
    then show ?thesis using still_fault_wf ok(1,2) by blast
  next
    case True
    then have b using go by (cases b) (auto dest: fault_status)
    then obtain m' where w': "w' = w1\<lparr>vw_vq := (vw_vq w1)\<lparr>vq_produced := vq_produced (vw_vq w1) + 1\<rparr>, vw_memory := m'\<rparr>"
      using go True publish_index_OK by fastforce
    note fr = produced_frame [where w = w1 and m = m' and n = "vq_produced (vw_vq w1) + 1", folded w']
    show ?thesis using quiet_wf [OF ok(1) fr(1)] ok(2,3,4) by (simp add: vq_wf_def indices_ok_def fr)
  qed
qed (use wf in simp)


lemma read_chain_cases:
  assumes "read_chain mem w p = (s, r, w')"
  obtains (fault) c m io where "vq_fault (w\<lparr>vw_chains := (vw_chains w)(p := c), vw_memory := m\<rparr>) io = (s, r, w')"
  | (OK) c c' m where "s = KB2_VQ_OK"
      "validate_chain mem (w\<lparr>vw_chains := (vw_chains w)(p := c), vw_memory := m\<rparr>) c = Some c'"
      "w' = w\<lparr>vw_chains := (vw_chains w)(p := c'), vw_memory := m\<rparr>"
proof -
  let ?q = "vq_queue (vw_vq w)" and ?c = "chain_reset (vw_chains w p)"
  obtain x c m where loop: "read_chain_loop mem w (q_descriptor_address ?q) (unat (q_queue_size ?q)) (cn_head ?c) False ?c (vw_memory w) = (x, c, m)"
    using prod_cases3 by blast
  let ?w = "w\<lparr>vw_chains := (vw_chains w)(p := c), vw_memory := m\<rparr>"
  show thesis
  proof (cases x)
    case (Inl io)
    then show ?thesis using fault assms loop by (simp add: read_chain_def)
  next
    case (Inr u)
    then have "(case validate_chain mem ?w c of None \<Rightarrow> vq_fault ?w False
         | Some c \<Rightarrow> (KB2_VQ_OK, Some (), ?w\<lparr>vw_chains := (vw_chains ?w)(p := c)\<rparr>)) = (s, r, w')"
      using assms loop by (simp add: read_chain_def Let_def)
    then show ?thesis using fault [where c = c and m = m and io = False] OK [where c = c and m = m] by (cases "validate_chain mem ?w c") auto
  qed
qed

lemma read_chain_fault:
  assumes run: "read_chain mem w p = (s, r, w')" and s: "s \<noteq> KB2_VQ_OK" and free: "\<And>h. \<not> lease_at w h p"
  shows "still w w'"
  using run
proof (cases rule: read_chain_cases)
  case (fault c m io)
  then show ?thesis by (rule still_trans [OF still_trans [OF still_intros(3) [OF free] still_intros(1)] fault_still])
qed (use s in simp)

lemma room_left:
  assumes b: "binding_ok w" and d: "d \<noteq> (0::u16)" and n: "\<not> q_max_outstanding (vq_queue (vw_vq w)) < vq_owned (vw_vq w) + ucast d"
  shows "vq_owned (vw_vq w) \<noteq> q_max_outstanding (vq_queue (vw_vq w))"
proof
  let ?max = "q_max_outstanding (vq_queue (vw_vq w))"
  assume eq: "vq_owned (vw_vq w) = ?max"
  have "unat ?max \<le> 32768"
    using queue_size_le [OF binding_queue_ok [OF b]] binding_queue_ok [OF b] by (auto simp: queue_ok_def word_le_nat_alt)
  moreover have "unat d < 65536" using unsigned_less [of d] by simp
  ultimately have "unat (?max + ucast d) = unat ?max + unat d" by (simp add: unat_word_ariths unsigned_ucast_eq take_bit_nat_eq_self)
  moreover have "unat d \<noteq> 0" using d by (simp add: unat_eq_zero)
  ultimately show False using n eq by (simp add: word_less_nat_alt)
qed


text \<open>Accepting the chain at \<open>p\<close> in a world \<open>w\<close> where it is not leased.\<close>

lemma accept_wf:
  assumes wf: "vq_wf mem w" and nd: "\<And>h. \<not> lease_at w h p" and side: "vq_side (vw_vq w) = 1"
    and room: "vq_owned (vw_vq w) \<noteq> q_max_outstanding (vq_queue (vw_vq w))"
    and v: "validate_chain mem w c = Some c'"
    and w1: "w1 = claim (w\<lparr>vw_chains := (vw_chains w)(p := c')\<rparr>) p ACCEPTED"
    and w': "w' = w1\<lparr>vw_vq := (vw_vq w1)\<lparr>vq_consumed := vq_consumed (vw_vq w1) + 1, vq_last_taken := Some p\<rparr>\<rparr>"
  shows "vq_wf mem w'"
proof -
  let ?w = "w\<lparr>vw_chains := (vw_chains w)(p := c')\<rparr>"
  have "vq_wf mem ?w" using still_wf [OF wf still_intros(3) [OF nd]] .
  then have q0: "queue_wf mem ?w" "phases_ok ?w" "indices_ok ?w" by (auto simp: vq_wf_def)
  note cl = validate_claimable [OF nd v refl]
  have zero: "cn_written c' = 0" using arg_cong [OF validate_chainD(5) [OF v], of cn_written] by simp
  have q1: "queue_wf mem w1" unfolding w1 by (rule claim_wf [OF q0(1) cl]) (simp add: room)
  have p1: "phases_ok w1" unfolding w1 by (rule claim_phases [OF q0(1) cl q0(2)]) (simp add: chain_phase_ok_def side zero)
  have la: "lease_at w' = lease_at w1" by (simp add: w' lease_at_def fun_eq_iff)
  have "lease_at w1 (unat (cn_head c')) p"
    unfolding w1 using claim_lease_at [OF claimableD(1) [OF q0(1) cl]] by simp
  then have "renamed w1 w'" unfolding renamed_def la by (auto simp: w' same_model_def)
  then have "queue_wf mem w'" by (rule renamed_wf [OF q1])
  moreover have "phases_ok w'" using p1 by (simp add: phases_ok_def la) (simp add: w')
  moreover have "indices_ok w'"
    using q0(3) side claim_sets(1) [OF q0(1) cl, of ACCEPTED] unfolding w1 [symmetric]
    by (simp add: indices_ok_def occupied_def la) (simp add: w' w1 claim_simps algebra_simps)
  ultimately show ?thesis by (simp add: vq_wf_def)
qed


lemma take_head_wf:
  assumes wf: "vq_wf mem w" and nd: "\<And>h. \<not> lease_at w h p" and side: "vq_side (vw_vq w) = 1"
    and room: "vq_owned (vw_vq w) \<noteq> q_max_outstanding (vq_queue (vw_vq w))"
    and run: "(case read_chain mem w p of (status, result, w) \<Rightarrow>
                if status \<noteq> KB2_VQ_OK then (status, None, w)
                else let w = claim w p ACCEPTED in
                  (KB2_VQ_OK, Some (), w\<lparr>vw_vq := (vw_vq w)\<lparr>vq_consumed := vq_consumed (vw_vq w) + 1,
                     vq_last_taken := Some p\<rparr>\<rparr>)) = (s, r, w')"
  shows "vq_wf mem w'"
proof -
  obtain s1 r1 w1 where read: "read_chain mem w p = (s1, r1, w1)" using prod_cases3 by blast
  show ?thesis
  proof (cases "s1 = KB2_VQ_OK")
    case False
    then have "w' = w1" using run read by simp
    then show ?thesis using still_wf [OF wf read_chain_fault [OF read False nd]] by simp
  next
    case True
    from read show ?thesis
    proof (cases rule: read_chain_cases)
      case (fault c m io)
      then show ?thesis using fault_status [OF fault] True by simp
    next
      case (OK c c' m)
      let ?v = "w\<lparr>vw_chains := (vw_chains w)(p := c), vw_memory := m\<rparr>"
      have v: "vq_wf mem ?v" by (rule still_wf [OF wf still_trans [OF still_intros(3) [OF nd] still_intros(1)]])
      have ndv: "\<not> lease_at ?v h p" for h using nd by (simp add: lease_at_def)
      have w1: "?v\<lparr>vw_chains := (vw_chains ?v)(p := c')\<rparr> = w1" using OK(3) by simp
      let ?u = "claim w1 p ACCEPTED"
      have w': "w' = ?u\<lparr>vw_vq := (vw_vq ?u)\<lparr>vq_consumed := vq_consumed (vw_vq ?u) + 1, vq_last_taken := Some p\<rparr>\<rparr>"
        using run read True by (simp add: Let_def)
      show ?thesis
        by (rule accept_wf [OF v ndv _ _ OK(2) _ w']) (simp_all only: w1, simp_all add: side room)
    qed
  qed
qed

lemma take_available_wf:
  assumes run: "vq_take_available mem chain w = (s, r, w')" and wf: "vq_wf mem w"
  shows "vq_wf mem w'"
proof (cases "w' = w")
  case False
  let ?q = "vq_queue (vw_vq w)"
  obtain p where p: "chain = Some p" and side: "vq_side (vw_vq w) = 1" and free: "cn_state (vw_chains w p) = FREE"
    and segs: "cn_segments (vw_chains w p) \<noteq> None" "\<not> cn_capacity (vw_chains w p) < unat (q_max_chain_length ?q)"
    using run False by (auto simp: vq_take_available_def Let_def split: option.split_asm if_split_asm)
  have q: "queue_wf mem w" "phases_ok w" using wf by (auto simp: vq_wf_def)
  have nd: "\<not> lease_at w h p" for h using lease_not_free [OF q(2)] free by blast
  obtain s1 d w1 where pend: "pending_index mem w = (s1, d, w1)" using prod_cases3 by blast
  have st1: "still w w1" by (rule pending_index_still [OF pend])
  consider (pending) "s1 \<noteq> KB2_VQ_OK" | (full) "s1 = KB2_VQ_OK" "q_max_outstanding ?q < vq_owned (vw_vq w1) + ucast (the d)"
    | (go) "s1 = KB2_VQ_OK" "\<not> q_max_outstanding ?q < vq_owned (vw_vq w1) + ucast (the d)" by blast
  then show ?thesis
  proof cases
    case pending
    then have "w' = w1" using run p side free segs pend by (simp add: vq_take_available_def Let_def)
    then show ?thesis using still_wf [OF wf st1] by simp
  next
    case full
    then have "vq_fault w1 False = (s, r, w')" using run p side free segs pend by (simp add: vq_take_available_def Let_def)
    then show ?thesis by (rule still_wf [OF wf still_trans [OF st1 fault_still]])
  next
    case go
    obtain x where w1: "w1 = w\<lparr>vw_memory := vw_memory w1\<rparr>" and x: "d = Some x" "x \<noteq> 0"
      using pending_index_OK [OF pend [unfolded go(1)]] by auto
    have same: "vw_vq w1 = vw_vq w" "vw_chains w1 = vw_chains w" 
      using arg_cong [OF w1, of vw_vq] arg_cong [OF w1, of vw_chains] by simp_all
    obtain bs m where read: "vm_read mem (vw_memory w1) (q_available_address ?q + 4 + 2 * ring_slot (vq_consumed (vw_vq w1)) ?q) 2 = (bs, m)"
      by fastforce
    let ?w2 = "w1\<lparr>vw_chains := (vw_chains w1)(p := (vw_chains w1 p)\<lparr>cn_head := un16 (the bs)\<rparr>), vw_memory := m\<rparr>"
    have ndl: "\<not> lease_at w1 h p" for h using nd same by (simp add: lease_at_def)
    have st2: "still w ?w2" by (rule still_trans [OF st1 still_trans [OF still_intros(3) [OF ndl] still_intros(1)]])
    have room: "vq_owned (vw_vq ?w2) \<noteq> q_max_outstanding (vq_queue (vw_vq ?w2))"
      using room_left [of w x] q(1) x go(2) by (simp add: queue_wf_def same)
    show ?thesis
    proof (cases bs)
      case None
      then have "vq_fault (w1\<lparr>vw_memory := m\<rparr>) True = (s, r, w')"
        using run p side free segs pend go read by (simp add: vq_take_available_def Let_def)
      then show ?thesis by (rule still_wf [OF wf still_trans [OF st1 memory_fault_still]])
    next
      case (Some bytes)
      let ?accept = "(case read_chain mem ?w2 p of (status, result, w) \<Rightarrow>
                if status \<noteq> KB2_VQ_OK then (status, None, w)
                else let w = claim w p ACCEPTED in
                  (KB2_VQ_OK, Some (), w\<lparr>vw_vq := (vw_vq w)\<lparr>vq_consumed := vq_consumed (vw_vq w) + 1,
                     vq_last_taken := Some p\<rparr>\<rparr>))"
      have nd2: "\<not> lease_at ?w2 h p" and side2: "vq_side (vw_vq ?w2) = 1" for h
        using nd side same by (simp_all add: lease_at_def)
      have "vq_fault ?w2 False = (s, r, w') \<or> ?accept = (s, r, w')"
        using run p side free segs pend go read Some
        by (simp add: vq_take_available_def split: if_split_asm) (simp add: Let_def split: if_split_asm)
      then show ?thesis
        using still_wf [OF wf still_trans [OF st2 fault_still]]
          take_head_wf [OF still_wf [OF wf st2] nd2 side2 room] by blast
    qed
  qed
qed (use wf in simp)

section \<open>Every sequence of calls\<close>

datatype vq_call = Publish "nat option" bool | Peek_Available bool | Take_Available "nat option"
  | Move_Accepted "nat option" "nat option" | Return_Available "nat option"
  | Copy_Request "nat option" u64 bool nat | Write_Response "nat option" "u8 carray" | Complete "nat option" bool
  | Take_Used bool | Copy_Response "nat option" u64 bool nat | Release "nat option" | Arm bool

text \<open>The call on a queue that passed \<open>check\<close>, and the public function.\<close>

fun vq_step :: "'m kb2_vq_memory \<Rightarrow> vq_call \<Rightarrow> 'm vq_world \<Rightarrow> kb2_vq_status \<times> 'm vq_world" where
  "vq_step mem (Publish chain notify) w = (case vq_publish mem chain notify w of (s, _, w) \<Rightarrow> (s, w))"
| "vq_step mem (Peek_Available out) w = (case vq_peek_available mem out w of (s, _, w) \<Rightarrow> (s, w))"
| "vq_step mem (Take_Available chain) w = (case vq_take_available mem chain w of (s, _, w) \<Rightarrow> (s, w))"
| "vq_step mem (Move_Accepted from to) w = (case vq_move_accepted from to w of (s, _, w) \<Rightarrow> (s, w))"
| "vq_step mem (Return_Available chain) w = (case vq_return_available chain w of (s, _, w) \<Rightarrow> (s, w))"
| "vq_step mem (Copy_Request chain offset out len) w = (case vq_copy_request mem chain offset out len w of (s, _, w) \<Rightarrow> (s, w))"
| "vq_step mem (Write_Response chain bytes) w = (case vq_write_response mem chain bytes w of (s, _, w) \<Rightarrow> (s, w))"
| "vq_step mem (Complete chain notify) w = (case vq_complete mem chain notify w of (s, _, w) \<Rightarrow> (s, w))"
| "vq_step mem (Take_Used out) w = (case vq_take_used mem out w of (s, _, w) \<Rightarrow> (s, w))"
| "vq_step mem (Copy_Response chain offset out len) w = (case vq_copy_response mem chain offset out len w of (s, _, w) \<Rightarrow> (s, w))"
| "vq_step mem (Release chain) w = (case vq_release chain w of (s, _, w) \<Rightarrow> (s, w))"
| "vq_step mem (Arm out) w = (case vq_arm mem out w of (s, _, w) \<Rightarrow> (s, w))"

fun vq_public :: "'m kb2_vq_memory \<Rightarrow> u64 \<Rightarrow> vq_call \<Rightarrow> 'm vq_world option \<Rightarrow> kb2_vq_status \<times> 'm vq_world option" where
  "vq_public mem g (Publish chain notify) w = (case kb2_vq_publish mem w g chain notify of (s, _, w) \<Rightarrow> (s, w))"
| "vq_public mem g (Peek_Available out) w = (case kb2_vq_peek_available mem w g out of (s, _, w) \<Rightarrow> (s, w))"
| "vq_public mem g (Take_Available chain) w = (case kb2_vq_take_available mem w g chain of (s, _, w) \<Rightarrow> (s, w))"
| "vq_public mem g (Move_Accepted from to) w = (case kb2_vq_move_accepted w g from to of (s, _, w) \<Rightarrow> (s, w))"
| "vq_public mem g (Return_Available chain) w = (case kb2_vq_return_available w g chain of (s, _, w) \<Rightarrow> (s, w))"
| "vq_public mem g (Copy_Request chain offset out len) w = (case kb2_vq_copy_request mem w g chain offset out len of (s, _, w) \<Rightarrow> (s, w))"
| "vq_public mem g (Write_Response chain bytes) w = (case kb2_vq_write_response mem w g chain bytes of (s, _, w) \<Rightarrow> (s, w))"
| "vq_public mem g (Complete chain notify) w = (case kb2_vq_complete mem w g chain notify of (s, _, w) \<Rightarrow> (s, w))"
| "vq_public mem g (Take_Used out) w = (case kb2_vq_take_used mem w g out of (s, _, w) \<Rightarrow> (s, w))"
| "vq_public mem g (Copy_Response chain offset out len) w = (case kb2_vq_copy_response mem w g chain offset out len of (s, _, w) \<Rightarrow> (s, w))"
| "vq_public mem g (Release chain) w = (case kb2_vq_release w g chain of (s, _, w) \<Rightarrow> (s, w))"
| "vq_public mem g (Arm out) w = (case kb2_vq_arm mem w g out of (s, _, w) \<Rightarrow> (s, w))"

lemmas kb2_vq_defs = kb2_vq_publish_def kb2_vq_peek_available_def kb2_vq_take_available_def kb2_vq_move_accepted_def
  kb2_vq_return_available_def kb2_vq_copy_request_def kb2_vq_write_response_def kb2_vq_complete_def kb2_vq_take_used_def
  kb2_vq_copy_response_def kb2_vq_release_def kb2_vq_arm_def

lemma vq_public_eq:
  "vq_public mem g call w =
     (if vq_check w g \<noteq> KB2_VQ_OK then (vq_check w g, w) else case vq_step mem call (the w) of (s, w) \<Rightarrow> (s, Some w))"
  by (cases call) (auto simp: kb2_vq_defs checked_def split: prod.split)

lemma step_wf:
  assumes "vq_step mem call w = (s, w')" "vq_wf mem w"
  shows "vq_wf mem w'"
  using assms
  by (cases call) (auto split: prod.split_asm intro: still_wf [OF _ peek_wf] still_wf [OF _ arm_wf] still_wf [OF _ copy_request_wf]
      still_wf [OF _ copy_response_wf] publish_wf take_available_wf move_accepted_wf return_available_wf write_response_wf
      complete_wf take_used_wf release_wf)

lemma init_bind_wf:
  assumes init: "kb2_vq_channel_init out identity queues regions = (KB2_VQ_OK, Some ch)"
    and bind: "kb2_vq_bind mem m0 pointers ch queue_id side capacity = (KB2_VQ_OK, Some vq, ch', m)"
  shows "vq_wf mem \<lparr>vw_channel = ch', vw_vq = vq, vw_chains = cs, vw_memory = m\<rparr>"
proof -
  obtain ident qs rs where ch: "ch = \<lparr>vc_identity = ident, vc_queues = qs, vc_regions = rs, vc_faulted = False\<rparr>"
    and ok: "kb2_protocol_channel_validate (Some ident) (Arr qs) (Arr rs) = KB2_PROTOCOL_OK"
    using init by (auto simp: kb2_vq_channel_init_def split: if_split_asm option.split_asm carray.split_asm)
  have spec: "channel_spec ident qs rs" 
    using ok unfolding kb2_protocol_channel_validate_def kb2_validate_channel_model_iff by (auto split: if_split_asm)
  obtain q where q: "find (\<lambda>q. q_queue_id q = queue_id) (rev qs) = Some q" and side: "side = 0 \<or> side = 1"
    and vq: "ch' = ch" "vq = \<lparr>vq_queue = q, vq_side = side, vq_slots = replicate (unat (q_queue_size q)) None,
       vq_last_taken = None, vq_descriptor_owner = replicate (unat (q_queue_size q)) 0, vq_produced = 0, vq_consumed = 0, vq_owned = 0\<rparr>"
    using bind by (auto simp: kb2_vq_bind_def ch Let_def split: if_split_asm option.split_asm prod.split_asm)
  let ?w = "\<lparr>vw_channel = ch', vw_vq = vq, vw_chains = cs, vw_memory = m\<rparr>"
  have "q \<in> set qs" using q by (auto simp: find_Some_iff rev_nth intro!: nth_mem)
  then have b: "binding_ok ?w" using spec side by (auto simp: binding_ok_def vq ch)
  have none: "\<not> lease_at ?w h p" for h p by (simp add: lease_at_def vq)
  then have "occupied ?w = {}" "submitted ?w = {}" by (simp_all add: occupied_def submitted_def)
  then show ?thesis using b none by (simp add: vq_wf_def queue_wf_def leases_ok_def counts_ok_def phases_ok_def indices_ok_def)
     (simp add: vq)
qed


text \<open>
  The worlds of a bound queue: the client calls the queue with any arguments, it changes
  chains that are not leased, the peer changes memory, another lane faults the channel.
\<close>

inductive vq_reachable :: "'m kb2_vq_memory \<Rightarrow> 'm vq_world \<Rightarrow> bool" for mem where
  bound: "kb2_vq_channel_init True identity queues regions = (KB2_VQ_OK, Some ch) \<Longrightarrow>
    kb2_vq_bind mem m0 True ch queue_id side capacity = (KB2_VQ_OK, Some vq, ch', m) \<Longrightarrow>
    vq_reachable mem \<lparr>vw_channel = ch', vw_vq = vq, vw_chains = cs, vw_memory = m\<rparr>"
| call: "vq_reachable mem w \<Longrightarrow> vq_public mem g call (Some w) = (s, Some w') \<Longrightarrow> vq_reachable mem w'"
| client: "vq_reachable mem w \<Longrightarrow> Some p \<notin> set (vq_slots (vw_vq w)) \<Longrightarrow>
    vq_reachable mem (w\<lparr>vw_chains := (vw_chains w)(p := c)\<rparr>)"
| peer: "vq_reachable mem w \<Longrightarrow> vq_reachable mem (w\<lparr>vw_memory := m\<rparr>)"
| lane: "vq_reachable mem w \<Longrightarrow> vq_reachable mem (w\<lparr>vw_channel := kb2_vq_channel_fault (vw_channel w)\<rparr>)"

lemma public_step:
  assumes "vq_public mem g call (Some w) = (s, Some w')"
  obtains (refused) "w' = w" "s = vq_check (Some w) g" "s \<noteq> KB2_VQ_OK"
  | (ran) "vq_check (Some w) g = KB2_VQ_OK" "vq_step mem call w = (s, w')"
  using assms by (auto simp: vq_public_eq split: if_split_asm prod.split_asm)

lemma reachable_wf: "vq_reachable mem w \<Longrightarrow> vq_wf mem w"
proof (induction rule: vq_reachable.induct)
  case (bound identity queues regions ch m0 queue_id side capacity vq ch' m cs)
  then show ?case by (rule init_bind_wf)
next
  case (call w g call s w')
  from call.hyps(2) show ?case by (cases rule: public_step) (use call.IH step_wf in auto)
next
  case (client w p c)
  then have "\<not> lease_at w h p" for h by (auto simp: lease_at_def in_set_conv_nth)
  then show ?case by (rule still_wf [OF client.IH still_intros(3)])
next
  case (peer w m)
  show ?case by (rule still_wf [OF peer.IH still_intros(1)])
next
  case (lane w)
  show ?case by (rule still_wf [OF lane.IH still_intros(2)])
qed

text \<open>C4. The queue invariant holds against every peer. Whatever the other side writes into shared
  memory at any time, whatever the memory callbacks return, and whatever calls the client makes,
  in any order and with any arguments, after a successful \<open>kb2_vq_channel_init\<close> and
  \<open>kb2_vq_bind\<close> the bookkeeping of the queue stays sound: every leased chain is a validated one
  whose payload lies in a region with the right access and outside all rings, leased chains share
  no descriptor and no writable memory, \<open>descriptor_owner\<close> and \<open>owned\<close> agree with the slots and
  never exceed \<open>max_outstanding\<close>, chain states fit the side, a response never exceeds the writable
  length, and unless the channel is faulted the free-running 16-bit indices differ by exactly the
  number of chains in flight.\<close>

theorem kb2_vq_invariant:
  "vq_reachable mem w \<Longrightarrow> vq_wf mem w"
  by (rule reachable_wf)

text \<open>A driver on mapped memory that publishes a request of two segments.\<close>

abbreviation sample_memory :: "native kb2_vq_memory" where
  "sample_memory \<equiv> kb2_vq_mapped_memory_ops (x86_64_memory sample_mappings sample_arenas)"

definition sample_chain :: kb2_vq_chain where
  "sample_chain = \<lparr>cn_segments = Some [\<lparr>sg_address = 0x1800, sg_length = 8, sg_descriptor = 2, sg_writable = 0\<rparr>,
       \<lparr>sg_address = 0x1900, sg_length = 4, sg_descriptor = 1, sg_writable = 1\<rparr>],
     cn_count = 2, cn_head = 2, cn_indirect = 0, cn_indirect_length = 0, cn_indirect_descriptor = 0,
     cn_indirect_first = 0, cn_readable = 0, cn_writable = 0, cn_written = 0, cn_used_length = 0, cn_state = FREE\<rparr>"

definition sample_world :: "int \<Rightarrow> native \<Rightarrow> native vq_world" where
  "sample_world side m =
     \<lparr>vw_channel = \<lparr>vc_identity = sample_channel, vc_queues = [sample_queue], vc_regions = [sample_region], vc_faulted = False\<rparr>,
      vw_vq = \<lparr>vq_queue = sample_queue, vq_side = side, vq_slots = replicate 4 None, vq_last_taken = None,
        vq_descriptor_owner = replicate 4 0, vq_produced = 0, vq_consumed = 0, vq_owned = 0\<rparr>,
      vw_chains = (\<lambda>_. sample_chain), vw_memory = m\<rparr>"

lemma sample_load:
  "vm_load_acquire sample_memory (\<lambda>_. 0) 0x1102 = (Some 0, \<lambda>_. 0)"
  "vm_load_acquire sample_memory (\<lambda>_. 0) 0x1202 = (Some 0, \<lambda>_. 0)"
proof -
  have "resolve (x86_64_memory sample_mappings sample_arenas) 0x1102 2 1 = Some 0x7102"
    "resolve (x86_64_memory sample_mappings sample_arenas) 0x1202 2 1 = Some 0x7202" by code_simp+
  moreover have "un16 (peek (\<lambda>_. 0) a 2) = 0" for a by (simp add: peek_def un16_def numeral_2_eq_2)
  ultimately show "vm_load_acquire sample_memory (\<lambda>_. 0) 0x1102 = (Some 0, \<lambda>_. 0)"
    "vm_load_acquire sample_memory (\<lambda>_. 0) 0x1202 = (Some 0, \<lambda>_. 0)"
    by (simp_all add: kb2_vq_mapped_memory_ops_def load_index_def x86_64_memory_def kb2_vq_x86_64_atomics_def)
qed

lemma sample_world_bound:
  assumes "side = 0 \<or> side = 1"
  shows "vq_reachable sample_memory (sample_world side (\<lambda>_. 0))"
proof -
  let ?ch = "vw_channel (sample_world side (\<lambda>_. 0))"
  have "kb2_vq_channel_init True (Some sample_channel) (Arr [sample_queue]) (Arr [sample_region]) = (KB2_VQ_OK, Some ?ch)"
    using sample_channel_valid by (simp add: kb2_vq_channel_init_def kb2_protocol_channel_validate_def sample_world_def)
  moreover have "kb2_vq_bind sample_memory (\<lambda>_. 0) True ?ch 1 side 4 =
      (KB2_VQ_OK, Some (vw_vq (sample_world side (\<lambda>_. 0))), ?ch, \<lambda>_. 0)"
    using assms sample_load by (auto simp: kb2_vq_bind_def sample_world_def sample_queue_def)
  ultimately have "vq_reachable sample_memory \<lparr>vw_channel = ?ch, vw_vq = vw_vq (sample_world side (\<lambda>_. 0)),
      vw_chains = vw_chains (sample_world side (\<lambda>_. 0)), vw_memory = (\<lambda>_. 0)\<rparr>"
    by (rule vq_reachable.bound)
  then show ?thesis by (simp add: sample_world_def)
qed

definition sample_published :: "native vq_world" where
  "sample_published = snd (vq_step sample_memory (Publish (Some 0) True) (sample_world 0 (\<lambda>_. 0)))"

lemma sample_publish:
  "vq_public sample_memory 1 (Publish (Some 0) True) (Some (sample_world 0 (\<lambda>_. 0))) = (KB2_VQ_OK, Some sample_published)"
proof -
  have "fst (vq_step sample_memory (Publish (Some 0) True) (sample_world 0 (\<lambda>_. 0))) = KB2_VQ_OK" by code_simp
  moreover have "vq_check (Some (sample_world 0 (\<lambda>_. 0))) 1 = KB2_VQ_OK" by code_simp
  ultimately show ?thesis by (simp add: vq_public_eq sample_published_def split_beta del: vq_step.simps)
qed


lemma sample_published_reachable: "vq_reachable sample_memory sample_published"
  by (rule vq_reachable.call [OF sample_world_bound sample_publish]) simp

theorem kb2_vq_invariant_witness:
  "vq_owned (vw_vq sample_published) = 1 \<and> vq_wf sample_memory sample_published"
proof -
  have "vq_owned (vw_vq sample_published) = 1" by code_simp
  then show ?thesis using kb2_vq_invariant [OF sample_published_reachable] by simp
qed

end
