(* ===== verification/Virtqueue_Layout.thy ===== *)
theory Virtqueue_Layout
  imports Virtqueue_Safety
begin

text \<open>
  Where the fields of a split virtqueue lie: the address arithmetic of the engine, done in
  wrapping 64-bit words, on a queue of a validated channel.
\<close>

unbundle bit_operations_syntax

definition within :: "u64 \<Rightarrow> nat \<Rightarrow> u64 \<Rightarrow> u64 \<Rightarrow> bool" where
  "within a n base len \<longleftrightarrow> unat base \<le> unat a \<and> unat a + n \<le> unat base + unat len"

lemma ring_base_eq: "k < 3 \<Longrightarrow> ring_base q k = kb2_queue_range_base q k"
  by (auto simp: ring_base_def kb2_queue_range_base_def)

lemma ring_size_eq: "k < 3 \<Longrightarrow> ring_size q k = kb2_queue_range_length q k"
  by (auto simp: ring_size_def kb2_queue_range_length_def)

lemma ring_size_unat:
  assumes "unat (q_queue_size q) \<le> 32768"
  shows "unat (ring_size q 0) = 16 * unat (q_queue_size q)" "unat (ring_size q 1) = 6 + 2 * unat (q_queue_size q)"
    "unat (ring_size q 2) = 6 + 8 * unat (q_queue_size q)"
  using assms by (simp_all add: ring_size_def unat_word_ariths unsigned_ucast_eq take_bit_nat_eq_self)

lemma queue_size_pos: "queue_ok rs q \<Longrightarrow> 0 < unat (q_queue_size q)"
  by (auto simp: queue_ok_def)

lemma ring_size_pos: "queue_ok rs q \<Longrightarrow> k < 3 \<Longrightarrow> 0 < unat (ring_size q k)"
  using ring_size_unat [OF queue_size_le, of rs q] queue_size_pos [of rs q]
  by (cases "k = 0"; cases "k = 1"; cases "k = 2") simp_all

lemma ring_no_wrap:
  assumes rs: "regions_spec rs" and q: "queue_ok rs q" and k: "k < 3"
  shows "unat (ring_base q k) + unat (ring_size q k) < 2 ^ 64"
proof -
  obtain r where r: "r \<in> set rs" "ring_addresses q k \<subseteq> region_addresses r" using q k by (auto simp: queue_ok_def)
  have "no_wrap (rg_transport_base r) (rg_length r)" using rs r(1) by (auto simp: regions_spec_def region_ok_def)
  moreover have "0 < unat (ring_size q k)" by (rule ring_size_pos [OF q k])
  then have "unat (ring_base q k) + unat (ring_size q k) - 1 \<in> ring_addresses q k"
    unfolding ring_addresses_def ring_base_eq [OF k, symmetric] ring_size_eq [OF k, symmetric] by (auto simp: addresses_def)
  then have "unat (ring_base q k) + unat (ring_size q k) - 1 < unat (rg_transport_base r) + unat (rg_length r)"
    using r(2) by (auto simp: region_addresses_def addresses_def)
  ultimately show ?thesis by (simp add: no_wrap_def)
qed

lemma unat_u16_lt: "unat (x :: u16) < 2 ^ 16"
  using unsigned_less [of x] by simp

lemma ring_slot_unat:
  assumes "queue_ok rs q"
  shows "unat (ring_slot i q) = unat i mod unat (q_queue_size q)"
proof -
  obtain k where k: "k \<le> 15" "unat (q_queue_size q) = 2 ^ k" using assms by (auto simp: queue_ok_def)
  have i: "unat i < 65536" using unat_u16_lt [of i] by simp
  have "unat ((ucast i :: u32) AND (q_queue_size q - 1)) = unat i AND mask k"
    using k(2) i unat_minus_one [of "q_queue_size q"]
    by (simp add: unsigned_and_eq unsigned_ucast_eq take_bit_nat_eq_self mask_eq_exp_minus_1 flip: unat_gt_0)
  also have "\<dots> = unat i mod 2 ^ k" by (simp flip: take_bit_eq_mask) (simp add: take_bit_eq_mod)
  finally have eq: "unat ((ucast i :: u32) AND (q_queue_size q - 1)) = unat i mod 2 ^ k" .
  moreover have "unat i mod 2 ^ k < 2 ^ 64" 
    by (rule order_le_less_trans [OF mod_less_eq_dividend]) (use i in simp)
  ultimately show ?thesis unfolding ring_slot_def k(2) by (simp add: unsigned_ucast_eq take_bit_nat_eq_self)
qed

lemma word_scale_unat:
  assumes "unat (a :: u64) + c * n < 2 ^ 64" "unat (x :: u64) = n" "unat (s :: u64) = c"
  shows "unat (a + s * x) = unat a + c * n" "unat (a + x * s) = unat a + c * n"
proof -
  have "unat (s * x) = c * n" using assms by (simp add: unat_word_ariths)
  then show "unat (a + s * x) = unat a + c * n" using assms by (simp add: unat_word_ariths)
  then show "unat (a + x * s) = unat a + c * n" by (simp add: mult.commute)
qed

text \<open>The fields of a queue of a validated channel.\<close>

definition laid_out :: "kb2_protocol_queue \<Rightarrow> bool" where
  "laid_out q \<longleftrightarrow> (\<exists>rs. regions_spec rs \<and> queue_ok rs q)"

abbreviation queue_length :: "kb2_protocol_queue \<Rightarrow> nat" where
  "queue_length q \<equiv> unat (q_queue_size q)"

lemma laid_outD:
  assumes "laid_out q"
  shows "unat (q_descriptor_address q) + 16 * queue_length q < 2 ^ 64"
    "unat (q_available_address q) + 6 + 2 * queue_length q < 2 ^ 64"
    "unat (q_used_address q) + 6 + 8 * queue_length q < 2 ^ 64"
    "queue_length q \<le> 32768" "0 < queue_length q"
    "unat (ring_slot i q) = unat i mod queue_length q"
proof -
  obtain rs where rs: "regions_spec rs" "queue_ok rs q" using assms by (auto simp: laid_out_def)
  note w = ring_no_wrap [OF rs] and s = ring_size_unat [OF queue_size_le [OF rs(2)]]
  show "unat (q_descriptor_address q) + 16 * queue_length q < 2 ^ 64"
    "unat (q_available_address q) + 6 + 2 * queue_length q < 2 ^ 64"
    "unat (q_used_address q) + 6 + 8 * queue_length q < 2 ^ 64"
    using w [of 0] w [of 1] w [of 2] s by (simp_all add: ring_base_def)
  show "queue_length q \<le> 32768" "0 < queue_length q"
    using queue_size_le [OF rs(2)] queue_size_pos [OF rs(2)] by simp_all
  show "unat (ring_slot i q) = unat i mod queue_length q" by (rule ring_slot_unat [OF rs(2)])
qed

lemma field_addresses:
  assumes q: "laid_out q"
  shows "unat d < queue_length q \<Longrightarrow> unat (descriptor_address (q_descriptor_address q) d) = unat (q_descriptor_address q) + 16 * unat d"
    "unat (q_available_address q + 2) = unat (q_available_address q) + 2"
    "unat (q_available_address q + 4 + 2 * ring_slot i q) = unat (q_available_address q) + 4 + 2 * (unat i mod queue_length q)"
    "unat (available_event q) = unat (q_available_address q) + 4 + 2 * queue_length q"
    "unat (q_used_address q + 2) = unat (q_used_address q) + 2"
    "unat (q_used_address q + 4 + 8 * ring_slot i q) = unat (q_used_address q) + 4 + 8 * (unat i mod queue_length q)"
    "unat (used_event q) = unat (q_used_address q) + 4 + 8 * queue_length q"
proof -
  note b = laid_outD [OF q]
  have slot: "unat i mod queue_length q < queue_length q" using b(5) by simp
  have size: "unat (ucast (q_queue_size q) :: u64) = queue_length q"
    using b(4) by (simp add: unsigned_ucast_eq take_bit_nat_eq_self)
  have a4: "unat (q_available_address q + 4) = unat (q_available_address q) + 4"
    "unat (q_used_address q + 4) = unat (q_used_address q) + 4"
    using b(2,3) by (simp_all add: unat_word_ariths)
  show "unat (q_available_address q + 2) = unat (q_available_address q) + 2"
    "unat (q_used_address q + 2) = unat (q_used_address q) + 2"
    using b(2,3) by (simp_all add: unat_word_ariths)
  have ui: "unat (ucast d :: u64) = unat d" using unat_u16_lt [of d]
    by (simp add: unsigned_ucast_eq take_bit_nat_eq_self)
  show "unat (descriptor_address (q_descriptor_address q) d) = unat (q_descriptor_address q) + 16 * unat d" if "unat d < queue_length q"
    unfolding descriptor_address_def using that b(1) by (intro word_scale_unat(2) ui) simp_all
  show "unat (q_available_address q + 4 + 2 * ring_slot i q) = unat (q_available_address q) + 4 + 2 * (unat i mod queue_length q)"
    using word_scale_unat(1) [OF _ b(6) [of i], of "q_available_address q + 4" 2 2] b(2) slot a4 by simp
  show "unat (q_used_address q + 4 + 8 * ring_slot i q) = unat (q_used_address q) + 4 + 8 * (unat i mod queue_length q)"
    using word_scale_unat(1) [OF _ b(6) [of i], of "q_used_address q + 4" 8 8] b(3) slot a4 by simp
  show "unat (available_event q) = unat (q_available_address q) + 4 + 2 * queue_length q"
    unfolding available_event_def using word_scale_unat(2) [OF _ size, of "q_available_address q + 4" 2 2] b(2) a4 by simp
  show "unat (used_event q) = unat (q_used_address q) + 4 + 8 * queue_length q"
    unfolding used_event_def using word_scale_unat(2) [OF _ size, of "q_used_address q + 4" 8 8] b(3) a4 by simp
qed

end
