(* ===== verification/Virtqueue_Isolation.thy ===== *)
theory Virtqueue_Isolation
  imports Virtqueue_Layout
begin

text \<open>
  Where the engine writes: every store to shared memory goes to the rings that its side owns, to
  the indirect table of the chain it publishes, or to the writable payload of the chain it
  answers.
\<close>

section \<open>Which writes a call may make\<close>

text \<open>The driver owns the descriptor table and the available ring, the device the used ring.\<close>

definition own_rings :: "int \<Rightarrow> nat set" where
  "own_rings side = (if side = KB2_VQ_DRIVER then {0, 1} else {2})"

definition own_ring :: "'m vq_world \<Rightarrow> u64 \<Rightarrow> nat \<Rightarrow> bool" where
  "own_ring w a n \<longleftrightarrow> (\<exists>k \<in> own_rings (vq_side (vw_vq w)).
     within a n (ring_base (vq_queue (vw_vq w)) k) (ring_size (vq_queue (vw_vq w)) k))"

definition own_payload :: "'m kb2_vq_memory \<Rightarrow> 'm vq_world \<Rightarrow> vq_call \<Rightarrow> u64 \<Rightarrow> nat \<Rightarrow> bool" where
  "own_payload mem w call a n \<longleftrightarrow>
     (case call of
        Publish (Some p) _ \<Rightarrow> vq_side (vw_vq w) = KB2_VQ_DRIVER \<and>
          payload_range mem (vw_channel w) (vw_vq w) (cn_indirect (vw_chains w p)) (indirect_size (vw_chains w p)) 1 \<and>
          within a n (cn_indirect (vw_chains w p)) (indirect_size (vw_chains w p))
      | Write_Response (Some p) _ \<Rightarrow> vq_side (vw_vq w) = KB2_VQ_DEVICE \<and>
          (\<exists>s \<in> set (chain_segments (vw_chains w p)). sg_writable s = 1 \<and>
             payload_range mem (vw_channel w) (vw_vq w) (sg_address s) (seg_length s) 2 \<and>
             within a n (sg_address s) (seg_length s))
      | _ \<Rightarrow> False)"

section \<open>Where published descriptors go\<close>

lemma within_rings:
  assumes "laid_out q"
  shows "unat d < queue_length q \<Longrightarrow> within (descriptor_address (q_descriptor_address q) d) 16 (ring_base q 0) (ring_size q 0)"
    "within (q_available_address q + 2) 2 (ring_base q 1) (ring_size q 1)"
    "within (q_available_address q + 4 + 2 * ring_slot i q) 2 (ring_base q 1) (ring_size q 1)"
    "within (available_event q) 2 (ring_base q 1) (ring_size q 1)"
    "within (q_used_address q + 2) 2 (ring_base q 2) (ring_size q 2)"
    "within (q_used_address q + 4 + 8 * ring_slot i q) 8 (ring_base q 2) (ring_size q 2)"
    "within (used_event q) 2 (ring_base q 2) (ring_size q 2)"
proof -
  note f = field_addresses [OF assms] and b = laid_outD [OF assms] and s = ring_size_unat [OF laid_outD(4) [OF assms]]
  have slot: "unat i mod queue_length q < queue_length q" using b(5) by simp
  show "within (descriptor_address (q_descriptor_address q) d) 16 (ring_base q 0) (ring_size q 0)" if "unat d < queue_length q"
    using f(1) that s(1) by (simp add: within_def ring_base_def)
  show "within (q_available_address q + 2) 2 (ring_base q 1) (ring_size q 1)"
    "within (available_event q) 2 (ring_base q 1) (ring_size q 1)"
    "within (q_used_address q + 2) 2 (ring_base q 2) (ring_size q 2)"
    "within (used_event q) 2 (ring_base q 2) (ring_size q 2)"
    using f b s by (simp_all add: within_def ring_base_def)
  show "within (q_available_address q + 4 + 2 * ring_slot i q) 2 (ring_base q 1) (ring_size q 1)"
    "within (q_used_address q + 4 + 8 * ring_slot i q) 8 (ring_base q 2) (ring_size q 2)"
    using f(3,6) s slot by (simp_all add: within_def ring_base_def)
qed

lemma payload_no_wrap: "payload_range mem ch vq a n r \<Longrightarrow> n \<noteq> 0 \<Longrightarrow> no_wrap a n"
  by (auto simp: payload_range_def range_valid_def le_max_minus_iff split: if_split_asm)

lemma indirect_size_unat: "unat (indirect_size c) = unat (cn_indirect_length c)"
  using unat_u32_lt [of "cn_indirect_length c"] by (simp add: indirect_size_def unsigned_ucast_eq take_bit_nat_eq_self)

lemma indirect_size_zero: "indirect_size c = 0 \<longleftrightarrow> cn_indirect_length c = 0"
  unfolding unat_eq_0 [symmetric] indirect_size_unat ..

lemma within_table:
  assumes "no_wrap a (indirect_size c)" "unat d < unat (cn_indirect_length c) div 16"
  shows "within (descriptor_address a d) 16 a (indirect_size c)" "unat (descriptor_address a d) = unat a + 16 * unat d"
proof -
  have d: "16 * unat d + 16 \<le> unat (indirect_size c)" using assms(2) by (simp add: indirect_size_unat)
  have ui: "unat (ucast d :: u64) = unat d" using unat_u16_lt [of d]
    by (simp add: unsigned_ucast_eq take_bit_nat_eq_self)
  show *: "unat (descriptor_address a d) = unat a + 16 * unat d"
    unfolding descriptor_address_def using assms(1) d by (intro word_scale_unat(2) ui) (simp_all add: no_wrap_def)
  show "within (descriptor_address a d) 16 a (indirect_size c)" using d by (simp add: within_def *)
qed

lemma length_descriptor_bytes [simp]: "length (descriptor_bytes a l f n) = 16"
  by (simp add: descriptor_bytes_def)

lemma publish_writes_places:
  assumes q: "laid_out (vq_queue vq)" and c: "chain_ok mem ch vq c" and x: "(a, bs) \<in> set (publish_writes vq c)"
  shows "(\<exists>k \<in> {0, 1}. within a (length bs) (ring_base (vq_queue vq) k) (ring_size (vq_queue vq) k)) \<or>
    payload_range mem ch vq (cn_indirect c) (indirect_size c) 1 \<and> within a (length bs) (cn_indirect c) (indirect_size c)"
proof -
  let ?q = "vq_queue vq" and ?segs = "chain_segments c"
  note r = within_rings [OF q]
  have dsc: "unat d < queue_length ?q" if "d \<in> set (chain_descriptors c)" for d
    using c that by (simp add: chain_ok_def descriptors_ok_def)
  have tab: "payload_range mem ch vq (cn_indirect c) (indirect_size c) 1 \<and> no_wrap (cn_indirect c) (indirect_size c)"
    if "cn_indirect_length c \<noteq> 0"
    using c that payload_no_wrap [of mem ch vq "cn_indirect c" "indirect_size c" 1]
    by (simp add: chain_ok_def table_ok_def indirect_size_zero)
  consider (segment) i where "i < cn_count c" "(a, bs) = segment_write ?q c i"
    | (table) "cn_indirect_length c \<noteq> 0" "a = descriptor_address (q_descriptor_address ?q) (cn_indirect_descriptor c)" "length bs = 16"
    | (slot) "a = q_available_address ?q + 4 + 2 * ring_slot (vq_produced vq) ?q" "length bs = 2"
    using x by (auto simp: publish_writes_def Let_def split: if_split_asm)
  then show ?thesis
  proof cases
    case segment
    let ?d = "sg_descriptor (?segs ! i)"
    have len: "length ?segs = cn_count c" using c by (simp add: chain_ok_def)
    have bs: "length bs = 16" using segment(2) by (simp add: segment_write_def Let_def)
    show ?thesis
    proof (cases "direct_count c \<le> i")
      case True
      then have ind: "cn_indirect_length c \<noteq> 0" using segment(1) by (auto simp: direct_count_def)
      have "?segs ! i \<in> set (drop (direct_count c) ?segs)"
        using True segment(1) len by (auto simp: in_set_conv_nth intro!: exI [of _ "i - direct_count c"])
      then have "unat ?d < unat (cn_indirect_length c) div 16" using c by (simp add: chain_ok_def table_ok_def)
      with tab [OF ind] within_table(1) show ?thesis using segment(2) bs True by (simp add: segment_write_def Let_def)
    next
      case False
      then have "?segs ! i \<in> set (take (direct_count c) ?segs)"
        using segment(1) len by (auto simp: in_set_conv_nth intro!: exI [of _ i])
      then have "?d \<in> set (chain_descriptors c)" by (auto simp: chain_descriptors_def)
      then show ?thesis using r(1) [OF dsc] segment(2) bs False by (simp add: segment_write_def Let_def)
    qed
  next
    case table
    then have "cn_indirect_descriptor c \<in> set (chain_descriptors c)" by (simp add: chain_descriptors_def)
    then show ?thesis using r(1) [OF dsc] table by simp
  next
    case slot
    then show ?thesis using r(3) by simp
  qed
qed

section \<open>What the engine keeps\<close>

text \<open>
  The engine keeps any property of the memory state that reads and granted writes keep.
\<close>

locale guarded_memory =
  fixes mem :: "'m kb2_vq_memory" and grant :: "u64 \<Rightarrow> nat \<Rightarrow> bool" and good :: "'m \<Rightarrow> bool"
  assumes read_keeps: "good m \<Longrightarrow> vm_read mem m a n = (r, m') \<Longrightarrow> good m'"
    and load_keeps: "good m \<Longrightarrow> vm_load_acquire mem m a = (i, m') \<Longrightarrow> good m'"
    and fence_keeps: "good m \<Longrightarrow> good (vm_fence mem m)"
    and write_keeps: "good m \<Longrightarrow> grant a (length bs) \<Longrightarrow> vm_write mem m a bs = (ok, m') \<Longrightarrow> good m'"
    and store_keeps: "good m \<Longrightarrow> grant a 2 \<Longrightarrow> vm_store_release mem m a v = (ok, m') \<Longrightarrow> good m'"
begin

lemma write_all_keeps:
  "good m \<Longrightarrow> (\<And>a bs. (a, bs) \<in> set ws \<Longrightarrow> grant a (length bs)) \<Longrightarrow> write_all mem ws m = (ok, m') \<Longrightarrow> good m'"
proof (induction ws arbitrary: m)
  case (Cons w ws)
  obtain a bs where w: "w = (a, bs)" by fastforce
  obtain b m1 where m1: "vm_write mem m a bs = (b, m1)" by fastforce
  have "good m1" using Cons.prems(2) [of a bs] by (intro write_keeps [OF Cons.prems(1) _ m1]) (simp add: w)
  then show ?case using Cons.IH [of m1] Cons.prems m1 by (cases b) (auto simp: w)
qed simp

lemma fault_keeps: "vq_fault w io = (s, r, w') \<Longrightarrow> good (vw_memory w) \<Longrightarrow> good (vw_memory w')"
  by (auto simp: vq_fault_def)

lemma pending_keeps: "pending_index mem w = (s, d, w') \<Longrightarrow> good (vw_memory w) \<Longrightarrow> good (vw_memory w')"
  by (auto simp: pending_index_def Let_def vq_fault_def dest: load_keeps split: prod.split_asm option.split_asm if_split_asm)

lemma publish_index_keeps:
  "publish_index mem w ring event = (s, r, w') \<Longrightarrow> grant (ring + 2) 2 \<Longrightarrow> good (vw_memory w) \<Longrightarrow> good (vw_memory w')"
  by (auto simp: publish_index_def Let_def vq_fault_def intro: load_keeps [OF fence_keeps [OF store_keeps]] dest: store_keeps
      split: prod.split_asm bool.split_asm option.split_asm)

lemma copy_segments_keeps:
  assumes "\<And>s off n. s \<in> set segments \<Longrightarrow> sg_writable s = f \<Longrightarrow> wr \<Longrightarrow> off < seg_length s \<Longrightarrow>
      unat off + n \<le> unat (seg_length s) \<Longrightarrow> grant (sg_address s + off) n"
    and "copy_segments mem wr f segments offset input k m = (ok, out, rest, m')" "good m"
  shows "good m'"
  using assms
proof (induction segments arbitrary: offset input k m out)
  case (Cons s segments)
  have IH: "good m'" if "copy_segments mem wr f segments off inp j m1 = (ok, o1, rest, m')" "good m1" for off inp j m1 o1
    by (rule Cons.IH [OF _ that]) (simp add: Cons.prems(1))
  let ?part = "min (unat (seg_length s) - unat offset) k"
  consider "k = 0" | "k \<noteq> 0" "sg_writable s \<noteq> f \<or> seg_length s \<le> offset"
    | "k \<noteq> 0" "sg_writable s = f" "offset < seg_length s" by force
  then show ?case
  proof cases
    case 1
    then show ?thesis using Cons.prems by simp
  next
    case 2
    then show ?thesis using Cons.prems IH by (auto split: if_split_asm)
  next
    case 3
    have nle: "\<not> seg_length s \<le> offset" using 3 by (simp add: not_le)
    have lt: "unat offset < unat (seg_length s)" using 3 by (simp add: word_less_nat_alt)
    show ?thesis
    proof (cases wr)
      case True
      obtain b m1 where m1: "vm_write mem m (sg_address s + offset) (take ?part input) = (b, m1)" by fastforce
      have "grant (sg_address s + offset) (length (take ?part input))"
        using Cons.prems(1) [of s offset] True 3 lt by simp
      from write_keeps [OF Cons.prems(3) this m1] show ?thesis
        using Cons.prems(2) 3(1,2) nle True m1 by (cases b) (auto simp: Let_def intro: IH)
    next
      case False
      obtain b m1 where m1: "vm_read mem m (sg_address s + offset) ?part = (b, m1)" by fastforce
      from read_keeps [OF Cons.prems(3) this] show ?thesis
        using Cons.prems(2) 3(1,2) nle False m1 by (cases b) (auto simp: Let_def split: prod.split_asm intro: IH)
    qed
  qed
qed simp

lemma copy_data_keeps:
  assumes "\<And>s off n. s \<in> set (chain_segments (vw_chains w p)) \<Longrightarrow> sg_writable s = f \<Longrightarrow> wr \<Longrightarrow> off < seg_length s \<Longrightarrow>
      unat off + n \<le> unat (seg_length s) \<Longrightarrow> grant (sg_address s + off) n"
    and "copy_data mem w p f offset input k wr = (s, r, w')" "good (vw_memory w)"
  shows "good (vw_memory w')"
proof -
  obtain ok out rest m where c: "copy_segments mem wr f (chain_segments (vw_chains w p)) offset input k (vw_memory w) = (ok, out, rest, m)"
    using prod_cases4 by blast
  from copy_segments_keeps [OF assms(1) this assms(3)] have "good m" by blast
  then show ?thesis using assms(2) c by (auto simp: copy_data_def vq_fault_def split: if_split_asm)
qed

lemma read_chain_loop_keeps:
  "mem' = mem \<Longrightarrow> read_chain_loop mem' w table limit index indirect c m = (x, c', m') \<Longrightarrow> good m \<Longrightarrow> good m'"
proof (induction mem' w table limit index indirect c m arbitrary: x c' m' rule: read_chain_loop.induct)
  case (1 mem' w table limit index indirect c m)
  obtain bs m1 where r: "vm_read mem' m (descriptor_address table index) 16 = (bs, m1)" by fastforce
  have m1: "good m1" using read_keeps [OF 1(5)] r 1(3) by simp
  show ?case
  proof (cases bs)
    case None
    then show ?thesis using 1(4,5) r m1 by (subst (asm) read_chain_loop.simps) (auto simp: Let_def split: if_split_asm)
  next
    case (Some bytes)
    show ?thesis
      using 1(4) r m1 1(5) 1(1) [OF refl _ r [symmetric] Some] 1(2) [OF refl _ r [symmetric] Some] 1(3) Some
      by (subst (asm) read_chain_loop.simps) (simp add: Let_def split: if_split_asm)
  qed
qed

lemma read_chain_keeps:
  assumes run: "read_chain mem w p = (s, r, w')" and good: "good (vw_memory w)"
  shows "good (vw_memory w')"
proof -
  let ?q = "vq_queue (vw_vq w)" and ?c = "chain_reset (vw_chains w p)"
  obtain x c m where loop: "read_chain_loop mem w (q_descriptor_address ?q) (unat (q_queue_size ?q)) (cn_head ?c) False ?c (vw_memory w) = (x, c, m)"
    using prod_cases3 by blast
  have "good m" by (rule read_chain_loop_keeps [OF refl loop good])
  then show ?thesis using run loop
    by (cases x) (auto simp: read_chain_def Let_def vq_fault_def split: option.split_asm)
qed

lemma take_available_keeps:
  assumes run: "vq_take_available mem chain w = (s, r, w')" and good: "good (vw_memory w)"
  shows "good (vw_memory w')"
proof (cases "w' = w")
  case False
  let ?q = "vq_queue (vw_vq w)"
  obtain p where p: "chain = Some p" and side: "vq_side (vw_vq w) = 1" and free: "cn_state (vw_chains w p) = FREE"
    and segs: "cn_segments (vw_chains w p) \<noteq> None" "\<not> cn_capacity (vw_chains w p) < unat (q_max_chain_length ?q)"
    using run False by (auto simp: vq_take_available_def Let_def split: option.split_asm if_split_asm)
  obtain s1 d w1 where pend: "pending_index mem w = (s1, d, w1)" using prod_cases3 by blast
  note g1 = pending_keeps [OF pend good]
  obtain bs m where read: "vm_read mem (vw_memory w1) (q_available_address ?q + 4 + 2 * ring_slot (vq_consumed (vw_vq w1)) ?q) 2 = (bs, m)"
    by fastforce
  note gm = read_keeps [OF g1 read]
  show ?thesis
    using run p side free segs pend read g1 gm
    by (auto simp: vq_take_available_def Let_def claim_simps vq_fault_def dest!: read_chain_keeps
        split: if_split_asm option.split_asm prod.split_asm)
qed (use good in simp)

lemma publish_keeps:
  assumes run: "vq_publish mem chain notify w = (s, r, w')" and good: "good (vw_memory w)" and b: "laid_out (vq_queue (vw_vq w))"
    and grant: "\<And>a n. own_ring w a n \<or> own_payload mem w (Publish chain notify) a n \<Longrightarrow> grant a n"
  shows "good (vw_memory w')"
proof (cases "w' = w")
  case False
  then obtain p where p: "chain = Some p" and free: "cn_state (vw_chains w p) = FREE" and side: "vq_side (vw_vq w) = 0"
    and room: "vq_owned (vw_vq w) \<noteq> q_max_outstanding (vq_queue (vw_vq w))"
    using run by (auto simp: vq_publish_def Let_def split: option.split_asm if_split_asm)
  then obtain c where v: "validate_chain mem w (vw_chains w p) = Some c" using run False
    by (auto simp: vq_publish_def Let_def split: option.split_asm if_split_asm)
  have c: "cn_indirect c = cn_indirect (vw_chains w p)" "indirect_size c = indirect_size (vw_chains w p)"
    using arg_cong [OF validate_chainD(5) [OF v], of cn_indirect] arg_cong [OF validate_chainD(5) [OF v], of indirect_size] by simp_all
  define w1 where w1: "w1 = claim (w\<lparr>vw_chains := (vw_chains w)(p := c)\<rparr>) p SUBMITTED"
  obtain ok m where all: "write_all mem (publish_writes (vw_vq w1) c) (vw_memory w1) = (ok, m)" by fastforce
  have same: "vq_queue (vw_vq w1) = vq_queue (vw_vq w)" "vw_memory w1 = vw_memory w" "vw_channel w1 = vw_channel w"
    by (simp_all add: w1 claim_simps)
  have "chain_ok mem (vw_channel w) (vw_vq w1) c" using validate_chainD(1) [OF v] chain_ok_frame [OF refl refl same(1), of mem "vw_channel w" c] by simp
  from publish_writes_places [OF _ this] b have places: "own_ring w a (length bs) \<or> own_payload mem w (Publish chain notify) a (length bs)"
    if "(a, bs) \<in> set (publish_writes (vw_vq w1) c)" for a bs
    using that same side p payload_range_frame [OF refl refl same(1), of mem "vw_channel w"]
    by (auto simp: own_ring_def own_rings_def own_payload_def c)
  have gm: "good m" by (rule write_all_keeps [OF _ _ all]) (use good same places grant in auto)
  have ri: "grant (q_available_address (vq_queue (vw_vq w)) + 2) 2"
    using within_rings(2) [OF b] side by (intro grant) (simp add: own_ring_def own_rings_def)
  have go: "(if \<not> ok then vq_fault (w1\<lparr>vw_memory := m\<rparr>) True
     else publish_index mem (w1\<lparr>vw_memory := m\<rparr>) (q_available_address (vq_queue (vw_vq w)))
       (used_event (vq_queue (vw_vq w)))) = (s, r, w')"
    using run False p free side room v all by (simp add: vq_publish_def Let_def w1 [symmetric] split: if_split_asm)
  then show ?thesis using gm publish_index_keeps [OF _ ri, of "w1\<lparr>vw_memory := m\<rparr>"] fault_keeps [of "w1\<lparr>vw_memory := m\<rparr>"]
    by (auto split: if_split_asm)
qed (use good in simp)

lemma write_response_keeps:
  assumes run: "vq_write_response mem chain bytes w = (s, r, w')" and good: "good (vw_memory w)" and wf: "queue_wf mem w"
    and grant: "\<And>a n. own_payload mem w (Write_Response chain bytes) a n \<Longrightarrow> grant a n"
  shows "good (vw_memory w')"
proof (cases "w' = w")
  case False
  then obtain p where p: "chain = Some p" and side: "vq_side (vw_vq w) = 1" and own: "vq_owns w (Some p) ACCEPTED"
    using run by (cases chain) (auto simp: vq_write_response_def Let_def vq_owns_def split: if_split_asm)
  let ?c = "vw_chains w p"
  have ok: "chain_ok mem (vw_channel w) (vw_vq w) ?c" using lease_ok [OF wf] owns_lease [OF wf own] by blast
  have places: "grant (sg_address x + off) n"
    if x: "x \<in> set (chain_segments ?c)" "sg_writable x = 1" "off < seg_length x" "unat off + n \<le> unat (seg_length x)" for x off n
  proof -
    have pr: "payload_range mem (vw_channel w) (vw_vq w) (sg_address x) (seg_length x) 2"
      using ok x(1,2) by (auto simp: chain_ok_defs)
    have "seg_length x \<noteq> 0" using x(3) by auto
    from payload_no_wrap [OF pr this] have "unat (sg_address x + off) = unat (sg_address x) + unat off"
      using x(3) by (intro no_wrap_unat) (auto simp: no_wrap_def word_less_nat_alt)
    then have "own_payload mem w (Write_Response chain bytes) (sg_address x + off) n"
      using pr x side p by (auto simp: own_payload_def within_def)
    then show ?thesis by (rule grant)
  qed
  obtain s1 out w1 where copy: "copy_data mem w p 1 (cn_written ?c) (case bytes of Null n \<Rightarrow> [] | Arr xs \<Rightarrow> xs) (carray_count bytes) True = (s1, out, w1)"
    using prod_cases3 by blast
  have "good (vw_memory w1)" by (rule copy_data_keeps [OF _ copy good]) (use places in blast)
  then show ?thesis using run False p copy by (auto simp: vq_write_response_def Let_def split: if_split_asm)
qed (use good in simp)

lemma complete_keeps:
  assumes run: "vq_complete mem chain notify w = (s, r, w')" and good: "good (vw_memory w)" and b: "laid_out (vq_queue (vw_vq w))"
    and grant: "\<And>a n. own_ring w a n \<Longrightarrow> grant a n"
  shows "good (vw_memory w')"
proof (cases "w' = w")
  case False
  let ?q = "vq_queue (vw_vq w)" and ?c = "vw_chains w (the chain)"
  have side: "vq_side (vw_vq w) = 1" using run False by (auto simp: vq_complete_def Let_def split: if_split_asm)
  have g: "grant (q_used_address ?q + 4 + 8 * ring_slot (vq_produced (vw_vq w)) ?q) 8" "grant (q_used_address ?q + 2) 2"
    using within_rings(5,6) [OF b] side by (auto intro!: grant simp: own_ring_def own_rings_def)
  obtain ok m where wr: "vm_write mem (vw_memory w) (q_used_address ?q + 4 + 8 * ring_slot (vq_produced (vw_vq w)) ?q)
      (le32 (ucast (cn_head ?c)) @ le32 (ucast (cn_written ?c))) = (ok, m)" by fastforce
  have "good m" using write_keeps [OF good _ wr] g(1) by simp
  then show ?thesis using run False wr publish_index_keeps [OF _ g(2), of "w\<lparr>vw_memory := m\<rparr>"]
    by (auto simp: vq_complete_def Let_def vq_fault_def drop_simps split: if_split_asm bool.split_asm prod.split_asm)
qed (use good in simp)

lemma arm_keeps:
  assumes run: "vq_arm mem ready w = (s, r, w')" and good: "good (vw_memory w)" and b: "laid_out (vq_queue (vw_vq w))"
    and grant: "\<And>a n. own_ring w a n \<Longrightarrow> grant a n"
  shows "good (vw_memory w')"
proof (cases "w' = w")
  case False
  let ?q = "vq_queue (vw_vq w)"
  let ?event = "if vq_side (vw_vq w) = 0 then available_event ?q else used_event ?q"
  have g: "grant ?event 2" using within_rings(4,7) [OF b] by (auto intro!: grant simp: own_ring_def own_rings_def)
  obtain ok m where st: "vm_store_release mem (vw_memory w) ?event (vq_consumed (vw_vq w)) = (ok, m)" by fastforce
  have gm: "good m" by (rule store_keeps [OF good g st])
  obtain s1 d w1 where pend: "pending_index mem (w\<lparr>vw_memory := vm_fence mem m\<rparr>) = (s1, d, w1)" using prod_cases3 by blast
  have "good (vw_memory w1)" by (rule pending_keeps [OF pend]) (simp add: fence_keeps gm)
  then show ?thesis using run False st pend gm
    by (cases ok) (auto simp: vq_arm_def Let_def vq_fault_def split: if_split_asm)
qed (use good in simp)

lemma take_used_keeps:
  assumes run: "vq_take_used mem out w = (s, r, w')" and good: "good (vw_memory w)"
  shows "good (vw_memory w')"
proof -
  obtain s1 d w1 where pend: "pending_index mem w = (s1, d, w1)" using prod_cases3 by blast
  note g1 = pending_keeps [OF pend good]
  obtain bs m where read: "vm_read mem (vw_memory w1) (q_used_address (vq_queue (vw_vq w)) + 4 +
      8 * ring_slot (vq_consumed (vw_vq w1)) (vq_queue (vw_vq w))) 8 = (bs, m)" by fastforce
  show ?thesis using run good pend read g1 read_keeps [OF g1 read]
    by (auto simp: vq_take_used_def Let_def vq_fault_def split: if_split_asm option.split_asm)
qed

lemma step_keeps:
  assumes run: "vq_step mem call w = (s, w')" and good: "good (vw_memory w)" and wf: "queue_wf mem w"
    and b: "laid_out (vq_queue (vw_vq w))"
    and grant: "\<And>a n. own_ring w a n \<or> own_payload mem w call a n \<Longrightarrow> grant a n"
  shows "good (vw_memory w')"
proof -
  have copy: "good (vw_memory w1)" if "copy_data mem w p f off input n False = (s1, r1, w1)" for p f off input n s1 r1 w1
    by (rule copy_data_keeps [OF _ that good]) simp
  show ?thesis
  proof (cases call)
    case (Publish chain notify)
    then show ?thesis using run good b grant publish_keeps by (auto split: prod.split_asm)
  next
    case (Peek_Available out)
    then show ?thesis using run good
      by (auto simp: vq_peek_available_def dest: pending_keeps split: prod.split_asm if_split_asm)
  next
    case (Copy_Request chain off out n)
    then show ?thesis using run good copy by (auto simp: vq_copy_request_def Let_def split: prod.split_asm if_split_asm)
  next
    case (Copy_Response chain off out n)
    then show ?thesis using run good copy by (auto simp: vq_copy_response_def Let_def split: prod.split_asm if_split_asm)
  next
    case (Write_Response chain bytes)
    then show ?thesis using run good wf grant write_response_keeps by (auto split: prod.split_asm)
  next
    case (Complete chain notify)
    then show ?thesis using run good b grant complete_keeps by (auto split: prod.split_asm)
  next
    case (Arm ready)
    then show ?thesis using run good b grant arm_keeps by (auto split: prod.split_asm)
  qed (use run good take_available_keeps take_used_keeps in \<open>auto simp: vq_move_accepted_def vq_return_available_def
      vq_release_def drop_simps Let_def split: prod.split_asm if_split_asm option.split_asm\<close>)
qed

end

section \<open>A memory that records its writes\<close>

type_synonym writes_log = "(u64 \<times> nat) list"

definition logged :: "'m kb2_vq_memory \<Rightarrow> ('m \<times> writes_log) kb2_vq_memory" where
  "logged mem =
     \<lparr>vm_read = (\<lambda>(m, l) a n. case vm_read mem m a n of (r, m) \<Rightarrow> (r, (m, l))),
      vm_write = (\<lambda>(m, l) a bs. case vm_write mem m a bs of (ok, m) \<Rightarrow> (ok, (m, (a, length bs) # l))),
      vm_load_acquire = (\<lambda>(m, l) a. case vm_load_acquire mem m a of (i, m) \<Rightarrow> (i, (m, l))),
      vm_store_release = (\<lambda>(m, l) a v. case vm_store_release mem m a v of (ok, m) \<Rightarrow> (ok, (m, (a, 2) # l))),
      vm_fence = (\<lambda>(m, l). (vm_fence mem m, l)),
      vm_payload_allowed = vm_payload_allowed mem\<rparr>"

definition log_within :: "(u64 \<Rightarrow> nat \<Rightarrow> bool) \<Rightarrow> writes_log \<Rightarrow> 'm \<times> writes_log \<Rightarrow> bool" where
  "log_within grant old m \<longleftrightarrow> (\<exists>new. snd m = new @ old \<and> (\<forall>(a, n) \<in> set new. grant a n))"

lemma log_within_snoc: "log_within grant old (m, l) \<Longrightarrow> grant a n \<Longrightarrow> log_within grant old (m', (a, n) # l)"
proof -
  assume "log_within grant old (m, l)" and g: "grant a n"
  then obtain new where new: "l = new @ old" "\<forall>(a, n) \<in> set new. grant a n" by (auto simp: log_within_def)
  show ?thesis unfolding log_within_def using new g by (intro exI [of _ "(a, n) # new"]) auto
qed

interpretation recorder: guarded_memory "logged mem" grant "log_within grant old" for mem grant old
proof
  fix m :: "'a \<times> writes_log" and a n r m'
  assume "log_within grant old m" "vm_read (logged mem) m a n = (r, m')"
  then show "log_within grant old m'" by (cases m) (auto simp: logged_def log_within_def split: prod.split_asm)
next
  fix m :: "'a \<times> writes_log" and a i m'
  assume "log_within grant old m" "vm_load_acquire (logged mem) m a = (i, m')"
  then show "log_within grant old m'" by (cases m) (auto simp: logged_def log_within_def split: prod.split_asm)
next
  fix m :: "'a \<times> writes_log"
  assume "log_within grant old m"
  then show "log_within grant old (vm_fence (logged mem) m)" by (cases m) (auto simp: logged_def log_within_def)
next
  fix m :: "'a \<times> writes_log" and a bs ok m'
  assume "log_within grant old m" "grant a (length bs)" "vm_write (logged mem) m a bs = (ok, m')"
  then show "log_within grant old m'" by (cases m) (auto simp: logged_def log_within_snoc split: prod.split_asm)
next
  fix m :: "'a \<times> writes_log" and a v ok m'
  assume "log_within grant old m" "grant a 2" "vm_store_release (logged mem) m a v = (ok, m')"
  then show "log_within grant old m'" by (cases m) (auto simp: logged_def log_within_snoc split: prod.split_asm)
qed


section \<open>Rings of other queues\<close>

lemma within_addresses: "within a n base len \<Longrightarrow> {unat a..<unat a + n} \<subseteq> addresses base len"
  by (auto simp: within_def addresses_def)

lemma ring_addresses_eq: "k < 3 \<Longrightarrow> ring_addresses q k = addresses (ring_base q k) (ring_size q k)"
  by (simp add: ring_addresses_def ring_base_eq ring_size_eq)

lemma own_ring_apart:
  assumes b: "binding_ok w" and own: "own_ring w a n"
    and q: "q \<in> set (vc_queues (vw_channel w))" and k: "k < 3"
    and foreign: "q \<noteq> vq_queue (vw_vq w) \<or> k \<notin> own_rings (vq_side (vw_vq w))"
  shows "{unat a..<unat a + n} \<inter> ring_addresses q k = {}"
proof -
  let ?q = "vq_queue (vw_vq w)" and ?qs = "vc_queues (vw_channel w)"
  obtain l where l: "l \<in> own_rings (vq_side (vw_vq w))" "within a n (ring_base ?q l) (ring_size ?q l)"
    using own by (auto simp: own_ring_def)
  have l3: "l < 3" using l(1) by (auto simp: own_rings_def split: if_split_asm)
  obtain i j where ij: "i < length ?qs" "?qs ! i = ?q" "j < length ?qs" "?qs ! j = q"
    using b q by (auto simp: binding_ok_def in_set_conv_nth)
  have "(i, l) \<noteq> (j, k)" using foreign ij l(1) by auto
  moreover have "queues_spec ?qs (vc_regions (vw_channel w))" using b by (simp add: binding_ok_def channel_spec_def)
  ultimately have "ring_addresses ?q l \<inter> ring_addresses q k = {}"
    using ij l3 k unfolding queues_spec_def by metis
  then show ?thesis using within_addresses [OF l(2)] ring_addresses_eq [OF l3, of ?q] by blast
qed

lemma payload_apart:
  assumes b: "binding_ok w" and pr: "payload_range mem (vw_channel w) (vw_vq w) base len r" and a: "within a n base len"
    and q: "q \<in> set (vc_queues (vw_channel w))" and k: "k < 3"
  shows "{unat a..<unat a + n} \<inter> ring_addresses q k = {}"
proof (cases "len = 0")
  case True
  then show ?thesis using within_addresses [OF a] by (auto simp: addresses_def)
next
  case False
  have rs: "regions_spec (vc_regions (vw_channel w))" "queue_ok (vc_regions (vw_channel w)) q"
    using b q by (auto simp: binding_ok_def channel_spec_def queues_spec_def)
  have ring: "no_wrap (ring_base q k) (ring_size q k)" "ring_size q k \<noteq> 0"
    using ring_no_wrap [OF rs k] ring_size_pos [OF rs(2) k] by (auto simp: no_wrap_def)
  have "\<not> overlaps base len (ring_base q k) (ring_size q k)"
    using pr False q k by (auto simp: payload_range_def list_ex_iff split: if_split_asm)
  then have "addresses base len \<inter> addresses (ring_base q k) (ring_size q k) = {}"
    using overlap_iff [OF payload_no_wrap [OF pr False] ring(1) False ring(2)] False ring(2) by (simp add: overlaps_def)
  then show ?thesis using within_addresses [OF a] ring_addresses_eq [OF k] by blast
qed

lemma own_payload_range:
  "own_payload mem w call a n \<Longrightarrow>
     \<exists>base len r. payload_range mem (vw_channel w) (vw_vq w) base len r \<and> within a n base len"
  by (auto simp: own_payload_def split: vq_call.split_asm option.split_asm)

lemma binding_laid_out: "binding_ok w \<Longrightarrow> laid_out (vq_queue (vw_vq w))"
  using binding_queue_ok by (auto simp: laid_out_def binding_ok_def channel_spec_def)

text \<open>C5. Lane isolation. Against every peer and in every reachable state, each store that a call
  makes to shared memory goes to a ring that the endpoint's side owns (descriptor table and
  available ring for the driver, used ring for the device), to the indirect table of the chain
  being published, or to a writable payload segment of the chain being answered, both inside a
  range granted by the region rights and by the host's payload policy. No store ever meets a ring
  of another queue or a ring that belongs to the other side.\<close>

theorem kb2_vq_writes_confined:
  assumes "vq_reachable (logged mem) w" "vq_public (logged mem) g call (Some w) = (s, Some w')"
  shows "\<exists>new. snd (vw_memory w') = new @ snd (vw_memory w) \<and>
    (\<forall>(a, n) \<in> set new. (own_ring w a n \<or> own_payload (logged mem) w call a n) \<and>
       (\<forall>q \<in> set (vc_queues (vw_channel w)). \<forall>k < 3.
          q = vq_queue (vw_vq w) \<and> k \<in> own_rings (vq_side (vw_vq w)) \<or>
          {unat a..<unat a + n} \<inter> ring_addresses q k = {}))"
proof -
  let ?ok = "\<lambda>a n. own_ring w a n \<or> own_payload (logged mem) w call a n"
  have wf: "queue_wf (logged mem) w" using reachable_wf [OF assms(1)] by (simp add: vq_wf_def)
  then have b: "binding_ok w" by (simp add: queue_wf_def)
  have start: "log_within ?ok (snd (vw_memory w)) (vw_memory w)" by (auto simp: log_within_def)
  from assms(2) have "log_within ?ok (snd (vw_memory w)) (vw_memory w')"
  proof (cases rule: public_step)
    case ran
    show ?thesis by (rule recorder.step_keeps [OF ran(2) start wf binding_laid_out [OF b]])
  qed (use start in simp)
  then obtain new where new: "snd (vw_memory w') = new @ snd (vw_memory w)" "\<forall>(a, n) \<in> set new. ?ok a n"
    by (auto simp: log_within_def)
  have "q = vq_queue (vw_vq w) \<and> k \<in> own_rings (vq_side (vw_vq w)) \<or> {unat a..<unat a + n} \<inter> ring_addresses q k = {}"
    if "?ok a n" "q \<in> set (vc_queues (vw_channel w))" "k < 3" for a n q k
    using that own_ring_apart [OF b _ that(2,3)] payload_apart [OF b _ _ that(2,3)] own_payload_range by metis
  then have "?ok (fst x) (snd x) \<and> (\<forall>q \<in> set (vc_queues (vw_channel w)). \<forall>k < 3.
      q = vq_queue (vw_vq w) \<and> k \<in> own_rings (vq_side (vw_vq w)) \<or>
      {unat (fst x)..<unat (fst x) + snd x} \<inter> ring_addresses q k = {})" if "x \<in> set new" for x
    using new(2) that by (simp add: split_beta)
  then show ?thesis using new(1) by (intro exI [of _ new]) (simp add: split_beta)
qed

text \<open>The driver of \<open>sample_world\<close> publishes, on a recorded memory.\<close>

definition sample_logged :: "(native \<times> writes_log) vq_world" where
  "sample_logged =
     \<lparr>vw_channel = vw_channel (sample_world 0 (\<lambda>_. 0)), vw_vq = vw_vq (sample_world 0 (\<lambda>_. 0)),
      vw_chains = (\<lambda>_. sample_chain), vw_memory = (\<lambda>_. 0, [])\<rparr>"

lemma sample_logged_bound: "vq_reachable (logged sample_memory) sample_logged"
proof -
  let ?ch = "vw_channel (sample_world 0 (\<lambda>_. 0))"
  have "kb2_vq_channel_init True (Some sample_channel) (Arr [sample_queue]) (Arr [sample_region]) = (KB2_VQ_OK, Some ?ch)"
    using sample_channel_valid by (simp add: kb2_vq_channel_init_def kb2_protocol_channel_validate_def sample_world_def)
  moreover have "kb2_vq_bind (logged sample_memory) (\<lambda>_. 0, []) True ?ch 1 0 4 =
      (KB2_VQ_OK, Some (vw_vq (sample_world 0 (\<lambda>_. 0))), ?ch, (\<lambda>_. 0, []))"
    using sample_load by (auto simp: kb2_vq_bind_def sample_world_def sample_queue_def logged_def)
  ultimately show ?thesis unfolding sample_logged_def by (rule vq_reachable.bound)
qed

theorem kb2_vq_writes_confined_witness:
  "\<exists>new. snd (vw_memory (the (snd (vq_public (logged sample_memory) 1 (Publish (Some 0) True) (Some sample_logged))))) = new \<and>
     length new = 4 \<and> (\<forall>(a, n) \<in> set new. own_ring sample_logged a n \<or>
       own_payload (logged sample_memory) sample_logged (Publish (Some 0) True) a n)"
proof -
  let ?r = "vq_public (logged sample_memory) 1 (Publish (Some 0) True) (Some sample_logged)"
  have "snd ?r \<noteq> None" by (simp add: vq_public_eq split: prod.split)
  then have r: "?r = (fst ?r, Some (the (snd ?r)))" by simp
  have l: "length (snd (vw_memory (the (snd ?r)))) = 4" "snd (vw_memory sample_logged) = []" by code_simp+
  show ?thesis using kb2_vq_writes_confined [OF sample_logged_bound r] l by (auto simp: split_beta)
qed

section \<open>Payload of different lanes\<close>

lemma lease_segment_allowed:
  assumes "vq_wf (kb2_vq_mapped_memory_ops memory) w" "lease_at w h p" "s \<in> set (chain_segments (vw_chains w p))" "sg_length s \<noteq> 0"
  shows "\<exists>r. payload_allowed memory (q_queue_id (vq_queue (vw_vq w))) (sg_address s) (seg_length s) r"
proof -
  have "chain_ok (kb2_vq_mapped_memory_ops memory) (vw_channel w) (vw_vq w) (vw_chains w p)"
    using lease_ok assms(1,2) by (auto simp: vq_wf_def)
  then have "\<exists>r. payload_range (kb2_vq_mapped_memory_ops memory) (vw_channel w) (vw_vq w) (sg_address s) (seg_length s) r"
    using assms(3) by (auto simp: chain_ok_defs)
  moreover have "seg_length s \<noteq> 0" using assms(4) unat_u32_lt [of "sg_length s"]
    by (simp add: seg_length_def unsigned_ucast_eq take_bit_nat_eq_self flip: unat_eq_0)
  ultimately show ?thesis by (auto simp: payload_range_def kb2_vq_mapped_memory_ops_def split: if_split_asm)
qed

text \<open>C6. Lanes share no payload. On a mapped memory whose tables
  \<open>kb2_vq_mapped_memory_init\<close> accepted, take two queues with different ids, in any reachable states
  and against any peers: a segment of a chain that is in flight on one never meets a segment of a
  chain that is in flight on the other.\<close>

theorem kb2_vq_lanes_disjoint:
  assumes "kb2_vq_mapped_memory_init True (Arr ms) (Arr as) atomics = (KB2_VQ_OK, Some memory)"
    and "vq_reachable (kb2_vq_mapped_memory_ops memory) v" "vq_reachable (kb2_vq_mapped_memory_ops memory) w"
    and "q_queue_id (vq_queue (vw_vq v)) \<noteq> q_queue_id (vq_queue (vw_vq w))"
    and "Some p \<in> set (vq_slots (vw_vq v))" "s \<in> set (chain_segments (vw_chains v p))"
    and "Some q \<in> set (vq_slots (vw_vq w))" "t \<in> set (chain_segments (vw_chains w q))"
  shows "addresses (sg_address s) (seg_length s) \<inter> addresses (sg_address t) (seg_length t) = {}"
proof (cases "sg_length s = 0 \<or> sg_length t = 0")
  case True
  then show ?thesis by (auto simp: addresses_def seg_length_def)
next
  case False
  obtain h h' where "lease_at v h p" "lease_at w h' q" using assms(5,7) by (auto simp: lease_at_def in_set_conv_nth)
  then show ?thesis
    using lease_segment_allowed [OF reachable_wf [OF assms(2)] _ assms(6)] lease_segment_allowed [OF reachable_wf [OF assms(3)] _ assms(8)]
      payload_lanes_disjoint [OF conjunct1 [OF init_mapped_ok [OF assms(1)]]] assms(4) False by blast
qed

text \<open>A channel with two lanes, both with a request in flight.\<close>

definition sample_queue2 :: kb2_protocol_queue where
  "sample_queue2 = \<lparr>q_queue_id = 2, q_role = 2, q_queue_size = 4, q_flags = 0,
     q_descriptor_address = 0x1300, q_available_address = 0x1400, q_used_address = 0x1500,
     q_available_notification_id = 3, q_used_notification_id = 4, q_max_chain_length = 4,
     q_max_indirect_length = 4, q_max_outstanding = 2\<rparr>"

definition sample_chain2 :: kb2_vq_chain where
  "sample_chain2 = sample_chain\<lparr>cn_segments := Some [\<lparr>sg_address = 0x1c00, sg_length = 8, sg_descriptor = 2, sg_writable = 0\<rparr>,
       \<lparr>sg_address = 0x1d00, sg_length = 4, sg_descriptor = 1, sg_writable = 1\<rparr>]\<rparr>"

definition sample_lane :: "kb2_protocol_queue \<Rightarrow> kb2_vq_chain \<Rightarrow> native vq_world" where
  "sample_lane q c =
     \<lparr>vw_channel = \<lparr>vc_identity = sample_channel, vc_queues = [sample_queue, sample_queue2], vc_regions = [sample_region], vc_faulted = False\<rparr>,
      vw_vq = \<lparr>vq_queue = q, vq_side = 0, vq_slots = replicate 4 None, vq_last_taken = None,
        vq_descriptor_owner = replicate 4 0, vq_produced = 0, vq_consumed = 0, vq_owned = 0\<rparr>,
      vw_chains = (\<lambda>_. c), vw_memory = (\<lambda>_. 0)\<rparr>"

definition sample_lane_published :: "kb2_protocol_queue \<Rightarrow> kb2_vq_chain \<Rightarrow> native vq_world" where
  "sample_lane_published q c = snd (vq_step sample_memory (Publish (Some 0) True) (sample_lane q c))"

lemma sample_load2: "vm_load_acquire sample_memory (\<lambda>_. 0) 0x1402 = (Some 0, \<lambda>_. 0)"
proof -
  have "resolve (x86_64_memory sample_mappings sample_arenas) 0x1402 2 1 = Some 0x7402" by code_simp
  moreover have "un16 (peek (\<lambda>_. 0) a 2) = 0" for a by (simp add: peek_def un16_def numeral_2_eq_2)
  ultimately show ?thesis
    by (simp add: kb2_vq_mapped_memory_ops_def load_index_def x86_64_memory_def kb2_vq_x86_64_atomics_def)
qed

lemma sample_lanes_valid:
  "kb2_validate_channel_model (Some sample_channel) (Arr [sample_queue, sample_queue2]) (Arr [sample_region])"
  by code_simp

lemma sample_lane_bound:
  assumes "q = sample_queue \<or> q = sample_queue2"
  shows "vq_reachable sample_memory (sample_lane q c)"
proof -
  let ?ch = "vw_channel (sample_lane q c)"
  have "kb2_vq_channel_init True (Some sample_channel) (Arr [sample_queue, sample_queue2]) (Arr [sample_region]) = (KB2_VQ_OK, Some ?ch)"
    using sample_lanes_valid by (simp add: kb2_vq_channel_init_def kb2_protocol_channel_validate_def sample_lane_def)
  moreover have "kb2_vq_bind sample_memory (\<lambda>_. 0) True ?ch (q_queue_id q) 0 4 =
      (KB2_VQ_OK, Some (vw_vq (sample_lane q c)), ?ch, \<lambda>_. 0)"
    using assms sample_load sample_load2 by (auto simp: kb2_vq_bind_def sample_lane_def sample_queue_def sample_queue2_def)
  ultimately have "vq_reachable sample_memory \<lparr>vw_channel = ?ch, vw_vq = vw_vq (sample_lane q c),
      vw_chains = vw_chains (sample_lane q c), vw_memory = (\<lambda>_. 0)\<rparr>"
    by (rule vq_reachable.bound)
  then show ?thesis by (simp add: sample_lane_def)
qed

lemma sample_lane_published_reachable:
  assumes "q = sample_queue \<or> q = sample_queue2"
  shows "vq_reachable sample_memory (sample_lane_published q c)"
proof (rule vq_reachable.call [OF sample_lane_bound [OF assms]])
  have "vq_check (Some (sample_lane q c)) 1 = KB2_VQ_OK" by (simp add: vq_check_def sample_lane_def sample_channel_def)
  then show "vq_public sample_memory 1 (Publish (Some 0) True) (Some (sample_lane q c)) =
      (fst (vq_step sample_memory (Publish (Some 0) True) (sample_lane q c)), Some (sample_lane_published q c))"
    by (simp add: vq_public_eq sample_lane_published_def split_beta del: vq_step.simps)
qed

theorem kb2_vq_lanes_disjoint_witness:
  "addresses 0x1800 8 \<inter> addresses 0x1c00 8 = {}"
proof -
  let ?v = "sample_lane_published sample_queue sample_chain" and ?w = "sample_lane_published sample_queue2 sample_chain2"
  let ?s = "\<lparr>sg_address = 0x1800, sg_length = 8, sg_descriptor = 2, sg_writable = 0\<rparr>"
  let ?t = "\<lparr>sg_address = 0x1c00, sg_length = 8, sg_descriptor = 2, sg_writable = 0\<rparr>"
  have m: "q_queue_id (vq_queue (vw_vq ?v)) \<noteq> q_queue_id (vq_queue (vw_vq ?w))"
    "Some 0 \<in> set (vq_slots (vw_vq ?v))" "Some 0 \<in> set (vq_slots (vw_vq ?w))"
    "?s \<in> set (chain_segments (vw_chains ?v 0))" "?t \<in> set (chain_segments (vw_chains ?w 0))"
    by code_simp+
  have "vq_reachable sample_memory ?v" "vq_reachable sample_memory ?w" by (rule sample_lane_published_reachable; simp)+
  from kb2_vq_lanes_disjoint [OF sample_memory_init this m(1,2,4,3,5)] show ?thesis
    by (simp add: seg_length_def)
qed

end
