(* ===== verification/Closure_Store.thy ===== *)
theory Closure_Store
  imports Prelude "HOL-Library.Multiset"
begin

text \<open>
  The storage of a module closure and its builder: \<open>src/closure_internal.h\<close> and the first half
  of \<open>src/closure.c\<close> (growable arrays over the host's allocator, and the builder's operations).

  The host's allocator is a parameter \<open>al\<close> over an abstract host state \<open>'h\<close>: \<open>al_allocate\<close>
  returns the address of a fresh block or NULL, \<open>al_deallocate\<close> takes an address with the size
  it was allocated with. An array is its block, its capacity and the list of its initialised
  items. A name is the list of its characters, without the terminating NUL that a valid name
  cannot contain. Enumerations that the code range-checks are integers.
\<close>

section \<open>Status codes and the allocator\<close>

datatype kb2_status =
    KB2_STATUS_OK
  | KB2_STATUS_INVALID_ARGUMENT
  | KB2_STATUS_INVALID_STATE
  | KB2_STATUS_INVALID_CONFIGURATION
  | KB2_STATUS_ACTION_PENDING
  | KB2_STATUS_STALE_GENERATION
  | KB2_STATUS_STALE_ACTION
  | KB2_STATUS_NO_MEMORY
  | KB2_STATUS_RESOURCE_DENIED
  | KB2_STATUS_RESOURCE_EXHAUSTED
  | KB2_STATUS_HOST_FAILURE
  | KB2_STATUS_COUNTER_EXHAUSTED

record 'h kb2_allocator =
  al_allocate :: "'h \<Rightarrow> nat \<Rightarrow> nat option \<times> 'h"
  al_deallocate :: "'h \<Rightarrow> nat \<Rightarrow> nat \<Rightarrow> 'h"

section \<open>Data\<close>

abbreviation (input) KB2_DIGEST_SIZE :: nat where "KB2_DIGEST_SIZE \<equiv> 32"
abbreviation (input) KB2_CLOSURE_NAME_MAX :: nat where "KB2_CLOSURE_NAME_MAX \<equiv> 127"
abbreviation (input) KB2_CLOSURE_MAX_ARTIFACTS :: nat where "KB2_CLOSURE_MAX_ARTIFACTS \<equiv> 4096"
abbreviation (input) KB2_CLOSURE_MAX_DEPENDENCIES :: nat where "KB2_CLOSURE_MAX_DEPENDENCIES \<equiv> 65536"
abbreviation (input) KB2_CLOSURE_MAX_SYMBOLS :: nat where "KB2_CLOSURE_MAX_SYMBOLS \<equiv> 65536"
abbreviation (input) KB2_CLOSURE_MAX_RESOURCES :: nat where "KB2_CLOSURE_MAX_RESOURCES \<equiv> 16384"
abbreviation (input) KB2_CLOSURE_MAX_RESOURCE_BINDINGS :: nat where
  "KB2_CLOSURE_MAX_RESOURCE_BINDINGS \<equiv> 65536"

abbreviation (input) KB2_ARTIFACT_SHARED_PROVIDER :: int where "KB2_ARTIFACT_SHARED_PROVIDER \<equiv> 0"
abbreviation (input) KB2_ARTIFACT_RELOCATABLE_MODULE :: int where
  "KB2_ARTIFACT_RELOCATABLE_MODULE \<equiv> 1"
abbreviation (input) KB2_SYMBOL_FUNCTION :: int where "KB2_SYMBOL_FUNCTION \<equiv> 0"
abbreviation (input) KB2_SYMBOL_OBJECT :: int where "KB2_SYMBOL_OBJECT \<equiv> 1"
abbreviation (input) KB2_IMPORT_OPTIONAL :: u32 where "KB2_IMPORT_OPTIONAL \<equiv> 1"
abbreviation (input) KB2_RESOURCE_MEMORY :: int where "KB2_RESOURCE_MEMORY \<equiv> 0"
abbreviation (input) KB2_RESOURCE_DEVICE :: int where "KB2_RESOURCE_DEVICE \<equiv> 1"
abbreviation (input) KB2_RESOURCE_STORAGE :: int where "KB2_RESOURCE_STORAGE \<equiv> 2"
abbreviation (input) KB2_RESOURCE_NOTIFICATION :: int where "KB2_RESOURCE_NOTIFICATION \<equiv> 3"
abbreviation (input) KB2_RESOURCE_CHANNEL :: int where "KB2_RESOURCE_CHANNEL \<equiv> 4"
abbreviation (input) KB2_RESOURCE_REQUIRED :: u32 where "KB2_RESOURCE_REQUIRED \<equiv> 1"
abbreviation (input) KB2_RESOURCE_SHARED :: u32 where "KB2_RESOURCE_SHARED \<equiv> 2"
abbreviation (input) KB2_RESOURCE_RESET_REQUIRED :: u32 where "KB2_RESOURCE_RESET_REQUIRED \<equiv> 4"

record kb2_closure_artifact_record =
  ar_content_digest :: bytes
  ar_namespace_name :: bytes
  ar_init_symbol :: bytes
  ar_quiesce_symbol :: bytes
  ar_cleanup_symbol :: bytes
  ar_node_id :: u32
  ar_kind :: int
  ar_lifecycle_set :: bool
  ar_native_lifecycle :: bool
  ar_is_root :: bool

record kb2_closure_dependency_record =
  dp_consumer_node_id :: u32
  dp_provider_node_id :: u32

record kb2_closure_export_record =
  ex_symbol :: bytes
  ex_node_id :: u32
  ex_kind :: int

record kb2_closure_import_record =
  im_consumer_symbol :: bytes
  im_provider_symbol :: bytes
  im_consumer_node_id :: u32
  im_provider_node_id :: u32
  im_kind :: int
  im_flags :: u32

record kb2_closure_resource_record =
  rs_interface_schema_digest :: bytes
  rs_required_rights :: u64
  rs_maximum_rights :: u64
  rs_slot_id :: u32
  rs_type :: int
  rs_minimum_count :: u32
  rs_maximum_count :: u32
  rs_flags :: u32

record kb2_closure_resource_binding_record =
  bd_slot_id :: u32
  bd_node_id :: u32

text \<open>A pointer with its element count and capacity.\<close>

record 'a kb2_array =
  arr_block :: "nat option"
  arr_items :: "'a list"
  arr_capacity :: nat

definition empty_array :: "'a kb2_array" where
  "empty_array = \<lparr>arr_block = None, arr_items = [], arr_capacity = 0\<rparr>"

record kb2_closure_storage =
  st_artifacts :: "kb2_closure_artifact_record kb2_array"
  st_dependencies :: "kb2_closure_dependency_record kb2_array"
  st_exports :: "kb2_closure_export_record kb2_array"
  st_imports :: "kb2_closure_import_record kb2_array"
  st_resources :: "kb2_closure_resource_record kb2_array"
  st_resource_bindings :: "kb2_closure_resource_binding_record kb2_array"
  st_manifest_digest :: bytes

definition empty_storage :: "bytes \<Rightarrow> kb2_closure_storage" where
  "empty_storage manifest_digest =
    \<lparr>st_artifacts = empty_array, st_dependencies = empty_array, st_exports = empty_array,
     st_imports = empty_array, st_resources = empty_array, st_resource_bindings = empty_array,
     st_manifest_digest = manifest_digest\<rparr>"

text \<open>\<open>sizeof\<close> of the records on the LP64 targets.\<close>

abbreviation (input) sizeof_artifact_record :: nat where "sizeof_artifact_record \<equiv> 564"
abbreviation (input) sizeof_dependency_record :: nat where "sizeof_dependency_record \<equiv> 8"
abbreviation (input) sizeof_export_record :: nat where "sizeof_export_record \<equiv> 136"
abbreviation (input) sizeof_import_record :: nat where "sizeof_import_record \<equiv> 272"
abbreviation (input) sizeof_resource_record :: nat where "sizeof_resource_record \<equiv> 72"
abbreviation (input) sizeof_resource_binding_record :: nat where "sizeof_resource_binding_record \<equiv> 8"
abbreviation (input) sizeof_builder :: nat where "sizeof_builder \<equiv> 200"
abbreviation (input) sizeof_closure :: nat where "sizeof_closure \<equiv> 192"

record kb2_closure_builder =
  bu_block :: nat
  bu_storage :: kb2_closure_storage

section \<open>Helpers\<close>

definition kb2_digest_is_zero :: "bytes \<Rightarrow> bool" where
  "kb2_digest_is_zero digest \<longleftrightarrow> foldl (\<lambda>combined x. combined OR x) 0 digest = 0"

fun kb2_name_valid :: "bytes option \<Rightarrow> bool" where
  "kb2_name_valid None \<longleftrightarrow> False"
| "kb2_name_valid (Some name) \<longleftrightarrow> length name \<noteq> 0 \<and> length name \<le> KB2_CLOSURE_NAME_MAX \<and>
     list_all (\<lambda>value. \<not> (value < 0x21 \<or> value > 0x7e \<or> value = 0x2f \<or> value = 0x5c)) name"

definition kb2_artifact_kind_valid :: "int \<Rightarrow> bool" where
  "kb2_artifact_kind_valid kind \<longleftrightarrow>
     KB2_ARTIFACT_SHARED_PROVIDER \<le> kind \<and> kind \<le> KB2_ARTIFACT_RELOCATABLE_MODULE"

definition kb2_symbol_kind_valid :: "int \<Rightarrow> bool" where
  "kb2_symbol_kind_valid kind \<longleftrightarrow> KB2_SYMBOL_FUNCTION \<le> kind \<and> kind \<le> KB2_SYMBOL_OBJECT"

definition kb2_resource_type_valid :: "int \<Rightarrow> bool" where
  "kb2_resource_type_valid type \<longleftrightarrow> KB2_RESOURCE_MEMORY \<le> type \<and> type \<le> KB2_RESOURCE_CHANNEL"

definition kb2_known_resource_rights :: "int \<Rightarrow> u64" where
  "kb2_known_resource_rights type =
     (if type = KB2_RESOURCE_MEMORY then 1 OR 2 OR 4 OR 8
      else if type = KB2_RESOURCE_DEVICE then 1 OR 2 OR 4
      else if type = KB2_RESOURCE_STORAGE then 1 OR 2 OR 4 OR 8
      else if type = KB2_RESOURCE_NOTIFICATION then 1 OR 2
      else if type = KB2_RESOURCE_CHANNEL then 1 OR 2
      else 0)"

definition kb2_release_array :: "'h kb2_allocator \<Rightarrow> 'h \<Rightarrow> 'a kb2_array \<Rightarrow> nat \<Rightarrow> 'h" where
  "kb2_release_array al h items item_size =
     (case arr_block items of
        None \<Rightarrow> h
      | Some p \<Rightarrow> al_deallocate al h p (arr_capacity items * item_size))"

definition kb2_storage_release :: "'h kb2_allocator \<Rightarrow> 'h \<Rightarrow> kb2_closure_storage \<Rightarrow> 'h" where
  "kb2_storage_release al h storage =
     (let h = kb2_release_array al h (st_artifacts storage) sizeof_artifact_record;
          h = kb2_release_array al h (st_dependencies storage) sizeof_dependency_record;
          h = kb2_release_array al h (st_exports storage) sizeof_export_record;
          h = kb2_release_array al h (st_imports storage) sizeof_import_record;
          h = kb2_release_array al h (st_resources storage) sizeof_resource_record
      in kb2_release_array al h (st_resource_bindings storage) sizeof_resource_binding_record)"

definition kb2_reserve ::
    "'h kb2_allocator \<Rightarrow> 'h \<Rightarrow> 'a kb2_array \<Rightarrow> nat \<Rightarrow> nat \<Rightarrow> kb2_status \<times> 'a kb2_array \<times> 'h" where
  "kb2_reserve al h items item_size maximum_count =
     (let count = length (arr_items items); capacity = arr_capacity items in
      if count < capacity then (KB2_STATUS_OK, items, h)
      else if maximum_count \<le> count then (KB2_STATUS_RESOURCE_EXHAUSTED, items, h)
      else
        let doubled = (if capacity = 0 then 8 else (capacity * 2) mod (SIZE_MAX + 1));
            new_capacity = (if doubled < capacity \<or> maximum_count < doubled
              then maximum_count else doubled)
        in if SIZE_MAX div item_size < new_capacity then (KB2_STATUS_RESOURCE_EXHAUSTED, items, h)
        else case al_allocate al h (new_capacity * item_size) of
          (None, h) \<Rightarrow> (KB2_STATUS_NO_MEMORY, items, h)
        | (Some p, h) \<Rightarrow>
            let h = (case arr_block items of
                None \<Rightarrow> h
              | Some q \<Rightarrow> al_deallocate al h q (capacity * item_size))
            in (KB2_STATUS_OK, items\<lparr>arr_block := Some p, arr_capacity := new_capacity\<rparr>, h))"

text \<open>\<open>record = &items[count++]\<close> with the fields then written.\<close>

definition array_push :: "'a kb2_array \<Rightarrow> 'a \<Rightarrow> 'a kb2_array" where
  "array_push items r = items\<lparr>arr_items := arr_items items @ [r]\<rparr>"

definition kb2_builder_find_artifact :: "kb2_closure_builder \<Rightarrow> u32 \<Rightarrow> nat option" where
  "kb2_builder_find_artifact builder node_id =
     first_index (\<lambda>a. ar_node_id a = node_id) (arr_items (st_artifacts (bu_storage builder)))"

definition kb2_find_export ::
    "kb2_closure_storage \<Rightarrow> u32 \<Rightarrow> bytes \<Rightarrow> int \<Rightarrow> kb2_closure_export_record option" where
  "kb2_find_export storage node_id symbol kind =
     find (\<lambda>r. ex_node_id r = node_id \<and> ex_kind r = kind \<and> ex_symbol r = symbol)
       (arr_items (st_exports storage))"

definition kb2_has_dependency :: "kb2_closure_storage \<Rightarrow> u32 \<Rightarrow> u32 \<Rightarrow> bool" where
  "kb2_has_dependency storage consumer_node_id provider_node_id \<longleftrightarrow>
     list_ex (\<lambda>r. dp_consumer_node_id r = consumer_node_id \<and>
        dp_provider_node_id r = provider_node_id) (arr_items (st_dependencies storage))"

section \<open>Builder operations\<close>

text \<open>
  The builder argument may be NULL, which every operation rejects first. The result is the
  status, the builder as the operation leaves it and the host state.
\<close>

fun on_builder ::
    "kb2_closure_builder option \<Rightarrow> 'h \<Rightarrow> (kb2_closure_builder \<Rightarrow> kb2_status \<times> kb2_closure_builder \<times> 'h)
     \<Rightarrow> kb2_status \<times> kb2_closure_builder option \<times> 'h" where
  "on_builder None h op = (KB2_STATUS_INVALID_ARGUMENT, None, h)"
| "on_builder (Some builder) h op =
     (case op builder of (status, builder', h') \<Rightarrow> (status, Some builder', h'))"

definition kb2_closure_builder_create ::
    "'h kb2_allocator \<Rightarrow> 'h \<Rightarrow> bool \<Rightarrow> bytes option \<Rightarrow> kb2_status \<times> kb2_closure_builder option \<times> 'h" where
  "kb2_closure_builder_create al h pointers manifest_digest =
     (case manifest_digest of
        None \<Rightarrow> (KB2_STATUS_INVALID_ARGUMENT, None, h)
      | Some digest \<Rightarrow>
        if \<not> pointers \<or> length digest \<noteq> KB2_DIGEST_SIZE then (KB2_STATUS_INVALID_ARGUMENT, None, h)
        else if kb2_digest_is_zero digest then (KB2_STATUS_INVALID_CONFIGURATION, None, h)
        else (case al_allocate al h sizeof_builder of
          (None, h) \<Rightarrow> (KB2_STATUS_NO_MEMORY, None, h)
        | (Some p, h) \<Rightarrow>
            (KB2_STATUS_OK, Some \<lparr>bu_block = p, bu_storage = empty_storage digest\<rparr>, h)))"

fun kb2_closure_builder_destroy ::
    "'h kb2_allocator \<Rightarrow> 'h \<Rightarrow> kb2_closure_builder option \<Rightarrow> 'h" where
  "kb2_closure_builder_destroy al h None = h"
| "kb2_closure_builder_destroy al h (Some builder) =
     al_deallocate al (kb2_storage_release al h (bu_storage builder)) (bu_block builder) sizeof_builder"

definition kb2_closure_builder_add_artifact ::
    "'h kb2_allocator \<Rightarrow> 'h \<Rightarrow> kb2_closure_builder option \<Rightarrow> u32 \<Rightarrow> int \<Rightarrow> bytes option \<Rightarrow> bytes option
     \<Rightarrow> kb2_status \<times> kb2_closure_builder option \<times> 'h" where
  "kb2_closure_builder_add_artifact al h builder node_id kind content_digest namespace_name =
     on_builder builder h (\<lambda>b.
       case (content_digest, namespace_name) of
         (Some digest, Some name) \<Rightarrow>
           if node_id = 0 \<or> \<not> kb2_artifact_kind_valid kind \<or> length digest \<noteq> KB2_DIGEST_SIZE \<or>
              \<not> kb2_name_valid (Some name)
           then (KB2_STATUS_INVALID_ARGUMENT, b, h)
           else if kb2_digest_is_zero digest then (KB2_STATUS_INVALID_CONFIGURATION, b, h)
           else if list_ex (\<lambda>r. ar_node_id r = node_id \<or> ar_namespace_name r = name)
                (arr_items (st_artifacts (bu_storage b)))
           then (KB2_STATUS_INVALID_CONFIGURATION, b, h)
           else (case kb2_reserve al h (st_artifacts (bu_storage b)) sizeof_artifact_record
                   KB2_CLOSURE_MAX_ARTIFACTS of (status, items, h) \<Rightarrow>
             if status \<noteq> KB2_STATUS_OK then (status, b, h)
             else (KB2_STATUS_OK, b\<lparr>bu_storage := (bu_storage b)\<lparr>st_artifacts := array_push items
               \<lparr>ar_content_digest = digest, ar_namespace_name = name, ar_init_symbol = [],
                ar_quiesce_symbol = [], ar_cleanup_symbol = [], ar_node_id = node_id,
                ar_kind = kind, ar_lifecycle_set = False, ar_native_lifecycle = False,
                ar_is_root = False\<rparr>\<rparr>\<rparr>, h))
       | _ \<Rightarrow> (KB2_STATUS_INVALID_ARGUMENT, b, h))"

text \<open>The update of one artifact record in place.\<close>

definition update_artifact ::
    "kb2_closure_builder \<Rightarrow> nat \<Rightarrow> (kb2_closure_artifact_record \<Rightarrow> kb2_closure_artifact_record)
     \<Rightarrow> kb2_closure_builder" where
  "update_artifact b i f =
     (let items = st_artifacts (bu_storage b) in
      b\<lparr>bu_storage := (bu_storage b)\<lparr>st_artifacts :=
        items\<lparr>arr_items := (arr_items items)[i := f (arr_items items ! i)]\<rparr>\<rparr>\<rparr>)"

definition kb2_closure_builder_set_lifecycle ::
    "'h \<Rightarrow> kb2_closure_builder option \<Rightarrow> u32 \<Rightarrow> bytes option \<Rightarrow> bytes option \<Rightarrow> bytes option
     \<Rightarrow> kb2_status \<times> kb2_closure_builder option \<times> 'h" where
  "kb2_closure_builder_set_lifecycle h builder node_id init_symbol quiesce_symbol cleanup_symbol =
     on_builder builder h (\<lambda>b.
       case (init_symbol, quiesce_symbol, cleanup_symbol) of
         (Some i, Some q, Some c) \<Rightarrow>
           if node_id = 0 \<or> \<not> kb2_name_valid (Some i) \<or> \<not> kb2_name_valid (Some q) \<or>
              \<not> kb2_name_valid (Some c)
           then (KB2_STATUS_INVALID_ARGUMENT, b, h)
           else (case kb2_builder_find_artifact b node_id of
               None \<Rightarrow> (KB2_STATUS_INVALID_CONFIGURATION, b, h)
             | Some k \<Rightarrow>
                 if ar_lifecycle_set (arr_items (st_artifacts (bu_storage b)) ! k)
                 then (KB2_STATUS_INVALID_CONFIGURATION, b, h)
                 else (KB2_STATUS_OK, update_artifact b k (\<lambda>r. r\<lparr>ar_init_symbol := i,
                   ar_quiesce_symbol := q, ar_cleanup_symbol := c, ar_lifecycle_set := True\<rparr>), h))
       | _ \<Rightarrow> (KB2_STATUS_INVALID_ARGUMENT, b, h))"

definition kb2_closure_builder_set_native_lifecycle ::
    "'h \<Rightarrow> kb2_closure_builder option \<Rightarrow> u32 \<Rightarrow> kb2_status \<times> kb2_closure_builder option \<times> 'h" where
  "kb2_closure_builder_set_native_lifecycle h builder node_id =
     on_builder builder h (\<lambda>b.
       if node_id = 0 then (KB2_STATUS_INVALID_ARGUMENT, b, h)
       else (case kb2_builder_find_artifact b node_id of
           None \<Rightarrow> (KB2_STATUS_INVALID_CONFIGURATION, b, h)
         | Some k \<Rightarrow>
             if ar_lifecycle_set (arr_items (st_artifacts (bu_storage b)) ! k)
             then (KB2_STATUS_INVALID_CONFIGURATION, b, h)
             else (KB2_STATUS_OK, update_artifact b k
               (\<lambda>r. r\<lparr>ar_lifecycle_set := True, ar_native_lifecycle := True\<rparr>), h)))"

definition kb2_closure_builder_mark_root ::
    "'h \<Rightarrow> kb2_closure_builder option \<Rightarrow> u32 \<Rightarrow> kb2_status \<times> kb2_closure_builder option \<times> 'h" where
  "kb2_closure_builder_mark_root h builder node_id =
     on_builder builder h (\<lambda>b.
       if node_id = 0 then (KB2_STATUS_INVALID_ARGUMENT, b, h)
       else (case kb2_builder_find_artifact b node_id of
           None \<Rightarrow> (KB2_STATUS_INVALID_CONFIGURATION, b, h)
         | Some k \<Rightarrow>
             let r = arr_items (st_artifacts (bu_storage b)) ! k in
             if ar_kind r \<noteq> KB2_ARTIFACT_RELOCATABLE_MODULE \<or> ar_is_root r
             then (KB2_STATUS_INVALID_CONFIGURATION, b, h)
             else (KB2_STATUS_OK, update_artifact b k (\<lambda>r. r\<lparr>ar_is_root := True\<rparr>), h)))"

definition kb2_closure_builder_add_dependency ::
    "'h kb2_allocator \<Rightarrow> 'h \<Rightarrow> kb2_closure_builder option \<Rightarrow> u32 \<Rightarrow> u32
     \<Rightarrow> kb2_status \<times> kb2_closure_builder option \<times> 'h" where
  "kb2_closure_builder_add_dependency al h builder consumer_node_id provider_node_id =
     on_builder builder h (\<lambda>b.
       if consumer_node_id = 0 \<or> provider_node_id = 0 then (KB2_STATUS_INVALID_ARGUMENT, b, h)
       else if consumer_node_id = provider_node_id \<or>
          kb2_has_dependency (bu_storage b) consumer_node_id provider_node_id
       then (KB2_STATUS_INVALID_CONFIGURATION, b, h)
       else (case kb2_reserve al h (st_dependencies (bu_storage b)) sizeof_dependency_record
               KB2_CLOSURE_MAX_DEPENDENCIES of (status, items, h) \<Rightarrow>
         if status \<noteq> KB2_STATUS_OK then (status, b, h)
         else (KB2_STATUS_OK, b\<lparr>bu_storage := (bu_storage b)\<lparr>st_dependencies := array_push items
           \<lparr>dp_consumer_node_id = consumer_node_id, dp_provider_node_id = provider_node_id\<rparr>\<rparr>\<rparr>, h)))"

definition kb2_closure_builder_add_export ::
    "'h kb2_allocator \<Rightarrow> 'h \<Rightarrow> kb2_closure_builder option \<Rightarrow> u32 \<Rightarrow> bytes option \<Rightarrow> int
     \<Rightarrow> kb2_status \<times> kb2_closure_builder option \<times> 'h" where
  "kb2_closure_builder_add_export al h builder node_id symbol kind =
     on_builder builder h (\<lambda>b.
       case symbol of
         None \<Rightarrow> (KB2_STATUS_INVALID_ARGUMENT, b, h)
       | Some s \<Rightarrow>
         if node_id = 0 \<or> \<not> kb2_name_valid (Some s) \<or> \<not> kb2_symbol_kind_valid kind
         then (KB2_STATUS_INVALID_ARGUMENT, b, h)
         else if list_ex (\<lambda>r. ex_node_id r = node_id \<and> ex_symbol r = s)
            (arr_items (st_exports (bu_storage b)))
         then (KB2_STATUS_INVALID_CONFIGURATION, b, h)
         else (case kb2_reserve al h (st_exports (bu_storage b)) sizeof_export_record
                 KB2_CLOSURE_MAX_SYMBOLS of (status, items, h) \<Rightarrow>
           if status \<noteq> KB2_STATUS_OK then (status, b, h)
           else (KB2_STATUS_OK, b\<lparr>bu_storage := (bu_storage b)\<lparr>st_exports := array_push items
             \<lparr>ex_symbol = s, ex_node_id = node_id, ex_kind = kind\<rparr>\<rparr>\<rparr>, h)))"

definition kb2_closure_builder_add_import ::
    "'h kb2_allocator \<Rightarrow> 'h \<Rightarrow> kb2_closure_builder option \<Rightarrow> u32 \<Rightarrow> bytes option \<Rightarrow> u32 \<Rightarrow> bytes option
     \<Rightarrow> int \<Rightarrow> u32 \<Rightarrow> kb2_status \<times> kb2_closure_builder option \<times> 'h" where
  "kb2_closure_builder_add_import al h builder consumer_node_id consumer_symbol provider_node_id
     provider_symbol kind flags =
     on_builder builder h (\<lambda>b.
       case (consumer_symbol, provider_symbol) of
         (Some cs, Some ps) \<Rightarrow>
           if consumer_node_id = 0 \<or> \<not> kb2_name_valid (Some cs) \<or> \<not> kb2_name_valid (Some ps) \<or>
              \<not> kb2_symbol_kind_valid kind \<or> (flags AND NOT KB2_IMPORT_OPTIONAL) \<noteq> 0
           then (KB2_STATUS_INVALID_ARGUMENT, b, h)
           else if list_ex (\<lambda>r. im_consumer_node_id r = consumer_node_id \<and> im_consumer_symbol r = cs)
              (arr_items (st_imports (bu_storage b)))
           then (KB2_STATUS_INVALID_CONFIGURATION, b, h)
           else (case kb2_reserve al h (st_imports (bu_storage b)) sizeof_import_record
                   KB2_CLOSURE_MAX_SYMBOLS of (status, items, h) \<Rightarrow>
             if status \<noteq> KB2_STATUS_OK then (status, b, h)
             else (KB2_STATUS_OK, b\<lparr>bu_storage := (bu_storage b)\<lparr>st_imports := array_push items
               \<lparr>im_consumer_symbol = cs, im_provider_symbol = ps,
                im_consumer_node_id = consumer_node_id, im_provider_node_id = provider_node_id,
                im_kind = kind, im_flags = flags\<rparr>\<rparr>\<rparr>, h))
       | _ \<Rightarrow> (KB2_STATUS_INVALID_ARGUMENT, b, h))"

definition kb2_closure_builder_add_resource ::
    "'h kb2_allocator \<Rightarrow> 'h \<Rightarrow> kb2_closure_builder option \<Rightarrow> u32 \<Rightarrow> int \<Rightarrow> bytes option \<Rightarrow> u32 \<Rightarrow> u32
     \<Rightarrow> u64 \<Rightarrow> u64 \<Rightarrow> u32 \<Rightarrow> kb2_status \<times> kb2_closure_builder option \<times> 'h" where
  "kb2_closure_builder_add_resource al h builder slot_id type interface_schema_digest minimum_count
     maximum_count required_rights maximum_rights flags =
     on_builder builder h (\<lambda>b.
       case interface_schema_digest of
         None \<Rightarrow> (KB2_STATUS_INVALID_ARGUMENT, b, h)
       | Some digest \<Rightarrow>
         if slot_id = 0 \<or> \<not> kb2_resource_type_valid type \<or> length digest \<noteq> KB2_DIGEST_SIZE \<or>
            (flags AND NOT (KB2_RESOURCE_REQUIRED OR KB2_RESOURCE_SHARED OR KB2_RESOURCE_RESET_REQUIRED)) \<noteq> 0
         then (KB2_STATUS_INVALID_ARGUMENT, b, h)
         else if kb2_digest_is_zero digest then (KB2_STATUS_INVALID_CONFIGURATION, b, h)
         else if maximum_count = 0 \<or> minimum_count > maximum_count \<or> maximum_rights = 0 \<or>
            (maximum_rights AND NOT (kb2_known_resource_rights type)) \<noteq> 0 \<or>
            (required_rights AND NOT maximum_rights) \<noteq> 0 \<or>
            ((flags AND KB2_RESOURCE_REQUIRED) \<noteq> 0 \<and> minimum_count = 0)
         then (KB2_STATUS_INVALID_CONFIGURATION, b, h)
         else if list_ex (\<lambda>r. rs_slot_id r = slot_id) (arr_items (st_resources (bu_storage b)))
         then (KB2_STATUS_INVALID_CONFIGURATION, b, h)
         else (case kb2_reserve al h (st_resources (bu_storage b)) sizeof_resource_record
                 KB2_CLOSURE_MAX_RESOURCES of (status, items, h) \<Rightarrow>
           if status \<noteq> KB2_STATUS_OK then (status, b, h)
           else (KB2_STATUS_OK, b\<lparr>bu_storage := (bu_storage b)\<lparr>st_resources := array_push items
             \<lparr>rs_interface_schema_digest = digest, rs_required_rights = required_rights,
              rs_maximum_rights = maximum_rights, rs_slot_id = slot_id, rs_type = type,
              rs_minimum_count = minimum_count, rs_maximum_count = maximum_count,
              rs_flags = flags\<rparr>\<rparr>\<rparr>, h)))"

definition kb2_closure_builder_bind_resource ::
    "'h kb2_allocator \<Rightarrow> 'h \<Rightarrow> kb2_closure_builder option \<Rightarrow> u32 \<Rightarrow> u32
     \<Rightarrow> kb2_status \<times> kb2_closure_builder option \<times> 'h" where
  "kb2_closure_builder_bind_resource al h builder slot_id node_id =
     on_builder builder h (\<lambda>b.
       if slot_id = 0 \<or> node_id = 0 then (KB2_STATUS_INVALID_ARGUMENT, b, h)
       else if list_ex (\<lambda>r. bd_slot_id r = slot_id \<and> bd_node_id r = node_id)
          (arr_items (st_resource_bindings (bu_storage b)))
       then (KB2_STATUS_INVALID_CONFIGURATION, b, h)
       else (case kb2_reserve al h (st_resource_bindings (bu_storage b)) sizeof_resource_binding_record
               KB2_CLOSURE_MAX_RESOURCE_BINDINGS of (status, items, h) \<Rightarrow>
         if status \<noteq> KB2_STATUS_OK then (status, b, h)
         else (KB2_STATUS_OK, b\<lparr>bu_storage := (bu_storage b)\<lparr>st_resource_bindings := array_push items
           \<lparr>bd_slot_id = slot_id, bd_node_id = node_id\<rparr>\<rparr>\<rparr>, h)))"

section \<open>Growable arrays\<close>

lemma kb2_reserve_failed: "kb2_reserve al h a w m = (s, a', h') \<Longrightarrow> s \<noteq> KB2_STATUS_OK \<Longrightarrow> a' = a"
  by (auto simp: kb2_reserve_def Let_def split: if_split_asm option.split_asm prod.split_asm)

definition array_ok :: "nat \<Rightarrow> 'a kb2_array \<Rightarrow> bool" where
  "array_ok maximum a \<longleftrightarrow> length (arr_items a) \<le> arr_capacity a \<and> arr_capacity a \<le> maximum \<and>
     (arr_block a = None \<longleftrightarrow> arr_capacity a = 0)"

text \<open>
  What the code relies on of the host's allocator: the ledger \<open>live\<close> of blocks and sizes
  grows by the block that is handed out and shrinks by the block that is given back.
\<close>

definition allocator_laws :: "'h kb2_allocator \<Rightarrow> ('h \<Rightarrow> (nat \<times> nat) multiset) \<Rightarrow> bool" where
  "allocator_laws al live \<longleftrightarrow>
     (\<forall>h n p h'. al_allocate al h n = (Some p, h') \<longrightarrow> live h' = add_mset (p, n) (live h)) \<and>
     (\<forall>h n h'. al_allocate al h n = (None, h') \<longrightarrow> live h' = live h) \<and>
     (\<forall>h p n. (p, n) \<in># live h \<longrightarrow> live (al_deallocate al h p n) = live h - {#(p, n)#})"

lemma allocator_allocate:
  "allocator_laws al live \<Longrightarrow> al_allocate al h n = (Some p, h') \<Longrightarrow> live h' = add_mset (p, n) (live h)"
  "allocator_laws al live \<Longrightarrow> al_allocate al h n = (None, h') \<Longrightarrow> live h' = live h"
  by (auto simp: allocator_laws_def)

lemma allocator_deallocate:
  "allocator_laws al live \<Longrightarrow> live h = add_mset (p, n) R \<Longrightarrow> live (al_deallocate al h p n) = R"
  by (auto simp: allocator_laws_def)

definition array_blocks :: "nat \<Rightarrow> 'a kb2_array \<Rightarrow> (nat \<times> nat) multiset" where
  "array_blocks width a =
     (case arr_block a of None \<Rightarrow> {#} | Some p \<Rightarrow> {#(p, arr_capacity a * width)#})"

text \<open>
  The contract of a builder array with records of \<open>width\<close> bytes and at most \<open>maximum\<close> of them.
\<close>

locale growable_array =
  fixes width maximum :: nat
  assumes width_ge: "2 \<le> width" and maximum_ge: "8 \<le> maximum"
    and fits: "maximum * width \<le> SIZE_MAX"
begin

lemma reserve_result:
  assumes "array_ok maximum a" "kb2_reserve al h a width maximum = (s, a', h')"
  shows "arr_items a' = arr_items a" and "array_ok maximum a'"
    and "s = KB2_STATUS_OK \<Longrightarrow> length (arr_items a) < arr_capacity a'"
    and "s \<noteq> KB2_STATUS_OK \<Longrightarrow> a' = a"
    and "s = KB2_STATUS_RESOURCE_EXHAUSTED \<Longrightarrow> length (arr_items a) = maximum"
proof -
  let ?d = "if arr_capacity a = 0 then 8 else (arr_capacity a * 2) mod (SIZE_MAX + 1)"
  let ?n = "if ?d < arr_capacity a \<or> maximum < ?d then maximum else ?d"
  have "maximum * 2 \<le> maximum * width" using width_ge by simp
  then have max: "maximum * 2 \<le> SIZE_MAX" using fits by (rule le_trans)
  have n: "?n \<le> maximum" using maximum_ge by auto
  have "\<not> SIZE_MAX div width < ?n"
    using n fits width_ge by (simp add: not_less less_eq_div_iff_mult_less_eq) (meson le_trans mult_le_mono1)
  moreover have "arr_capacity a < ?n" if "arr_capacity a < maximum"
    using that max maximum_ge by auto
  ultimately show "arr_items a' = arr_items a" and "array_ok maximum a'"
    and "s = KB2_STATUS_OK \<Longrightarrow> length (arr_items a) < arr_capacity a'"
    and "s \<noteq> KB2_STATUS_OK \<Longrightarrow> a' = a"
    and "s = KB2_STATUS_RESOURCE_EXHAUSTED \<Longrightarrow> length (arr_items a) = maximum"
    using assms n
    by (auto simp: kb2_reserve_def Let_def array_ok_def split: if_split_asm option.split_asm prod.split_asm)
qed

text \<open>Reserving exchanges the old block for the new one, or changes nothing.\<close>

lemma reserve_balance:
  assumes "allocator_laws al live" "kb2_reserve al h a width maximum = (s, a', h')"
    "array_blocks width a \<subseteq># live h"
  shows "live h' + array_blocks width a = live h + array_blocks width a'"
proof -
  have dealloc: "live (al_deallocate al h2 p n) = live h2 - {#(p, n)#}" if "(p, n) \<in># live h2" for h2 p n
    using that assms(1) by (auto simp: allocator_laws_def)
  show ?thesis
    using assms(2,3) allocator_allocate [OF assms(1)]
    by (auto simp: kb2_reserve_def Let_def array_blocks_def dealloc
        split: if_split_asm option.split_asm prod.split_asm)
qed

lemma release_blocks:
  assumes "allocator_laws al live" "live h = R + array_blocks width a"
  shows "live (kb2_release_array al h a width) = R"
  using assms by (auto simp: kb2_release_array_def array_blocks_def allocator_deallocate split: option.splits)

lemma reserve_push:
  assumes "kb2_reserve al h a width maximum = (KB2_STATUS_OK, a', h')" "array_ok maximum a"
  shows "arr_items a' = arr_items a \<and> (\<forall>r. array_ok maximum (array_push a' r))"
  using reserve_result [OF assms(2,1)] by (simp add: array_ok_def array_push_def)

end

interpretation artifact_array: growable_array 564 4096 by unfold_locales (auto simp: SIZE_MAX_def)
text \<open>Dependencies and resource bindings have the same record size and bound.\<close>

interpretation dependency_array: growable_array 8 65536 by unfold_locales (auto simp: SIZE_MAX_def)
interpretation export_array: growable_array 136 65536 by unfold_locales (auto simp: SIZE_MAX_def)
interpretation import_array: growable_array 272 65536 by unfold_locales (auto simp: SIZE_MAX_def)
interpretation resource_array: growable_array 72 16384 by unfold_locales (auto simp: SIZE_MAX_def)


section \<open>The builder's invariant\<close>

definition name_ok :: "bytes \<Rightarrow> bool" where
  "name_ok s \<longleftrightarrow> kb2_name_valid (Some s)"

definition artifact_wf :: "kb2_closure_artifact_record \<Rightarrow> bool" where
  "artifact_wf a \<longleftrightarrow> ar_node_id a \<noteq> 0 \<and> ar_kind a \<in> {0, 1} \<and> length (ar_content_digest a) = 32 \<and>
     \<not> kb2_digest_is_zero (ar_content_digest a) \<and> name_ok (ar_namespace_name a) \<and>
     (ar_lifecycle_set a \<and> \<not> ar_native_lifecycle a \<longrightarrow>
        name_ok (ar_init_symbol a) \<and> name_ok (ar_quiesce_symbol a) \<and> name_ok (ar_cleanup_symbol a)) \<and>
     (ar_native_lifecycle a \<longrightarrow> ar_lifecycle_set a) \<and> (ar_is_root a \<longrightarrow> ar_kind a = 1)"

definition resource_wf :: "kb2_closure_resource_record \<Rightarrow> bool" where
  "resource_wf r \<longleftrightarrow> rs_slot_id r \<noteq> 0 \<and> rs_type r \<in> {0..4} \<and>
     length (rs_interface_schema_digest r) = 32 \<and> \<not> kb2_digest_is_zero (rs_interface_schema_digest r) \<and>
     rs_minimum_count r \<le> rs_maximum_count r \<and> rs_maximum_count r \<noteq> 0 \<and> rs_maximum_rights r \<noteq> 0 \<and>
     rs_maximum_rights r AND NOT (kb2_known_resource_rights (rs_type r)) = 0 \<and>
     rs_required_rights r AND NOT (rs_maximum_rights r) = 0 \<and> rs_flags r AND NOT 7 = 0 \<and>
     (rs_flags r AND 1 \<noteq> 0 \<longrightarrow> rs_minimum_count r \<noteq> 0)"

definition artifacts_wf :: "kb2_closure_artifact_record kb2_array \<Rightarrow> bool" where
  "artifacts_wf a \<longleftrightarrow> array_ok 4096 a \<and> (\<forall>x \<in> set (arr_items a). artifact_wf x) \<and>
     distinct (map ar_node_id (arr_items a)) \<and> distinct (map ar_namespace_name (arr_items a))"

definition dependencies_wf :: "kb2_closure_dependency_record kb2_array \<Rightarrow> bool" where
  "dependencies_wf a \<longleftrightarrow> array_ok 65536 a \<and>
     (\<forall>d \<in> set (arr_items a). dp_consumer_node_id d \<noteq> 0 \<and> dp_provider_node_id d \<noteq> 0 \<and>
        dp_consumer_node_id d \<noteq> dp_provider_node_id d) \<and>
     distinct (map (\<lambda>d. (dp_consumer_node_id d, dp_provider_node_id d)) (arr_items a))"

definition exports_wf :: "kb2_closure_export_record kb2_array \<Rightarrow> bool" where
  "exports_wf a \<longleftrightarrow> array_ok 65536 a \<and>
     (\<forall>e \<in> set (arr_items a). ex_node_id e \<noteq> 0 \<and> name_ok (ex_symbol e) \<and> ex_kind e \<in> {0, 1}) \<and>
     distinct (map (\<lambda>e. (ex_node_id e, ex_symbol e)) (arr_items a))"

definition imports_wf :: "kb2_closure_import_record kb2_array \<Rightarrow> bool" where
  "imports_wf a \<longleftrightarrow> array_ok 65536 a \<and>
     (\<forall>i \<in> set (arr_items a). im_consumer_node_id i \<noteq> 0 \<and> name_ok (im_consumer_symbol i) \<and>
        name_ok (im_provider_symbol i) \<and> im_kind i \<in> {0, 1} \<and> im_flags i AND NOT 1 = 0) \<and>
     distinct (map (\<lambda>i. (im_consumer_node_id i, im_consumer_symbol i)) (arr_items a))"

definition resources_wf :: "kb2_closure_resource_record kb2_array \<Rightarrow> bool" where
  "resources_wf a \<longleftrightarrow> array_ok 16384 a \<and> (\<forall>r \<in> set (arr_items a). resource_wf r) \<and>
     distinct (map rs_slot_id (arr_items a))"

definition bindings_wf :: "kb2_closure_resource_binding_record kb2_array \<Rightarrow> bool" where
  "bindings_wf a \<longleftrightarrow> array_ok 65536 a \<and>
     (\<forall>b \<in> set (arr_items a). bd_slot_id b \<noteq> 0 \<and> bd_node_id b \<noteq> 0) \<and>
     distinct (map (\<lambda>b. (bd_slot_id b, bd_node_id b)) (arr_items a))"

definition storage_wf :: "kb2_closure_storage \<Rightarrow> bool" where
  "storage_wf st \<longleftrightarrow> artifacts_wf (st_artifacts st) \<and> dependencies_wf (st_dependencies st) \<and>
     exports_wf (st_exports st) \<and> imports_wf (st_imports st) \<and> resources_wf (st_resources st) \<and>
     bindings_wf (st_resource_bindings st) \<and>
     length (st_manifest_digest st) = 32 \<and> \<not> kb2_digest_is_zero (st_manifest_digest st)"

definition storage_blocks :: "kb2_closure_storage \<Rightarrow> (nat \<times> nat) multiset" where
  "storage_blocks st = array_blocks 564 (st_artifacts st) + array_blocks 8 (st_dependencies st) +
     array_blocks 136 (st_exports st) + array_blocks 272 (st_imports st) +
     array_blocks 72 (st_resources st) + array_blocks 8 (st_resource_bindings st)"

definition builder_blocks :: "kb2_closure_builder \<Rightarrow> (nat \<times> nat) multiset" where
  "builder_blocks b = add_mset (bu_block b, 200) (storage_blocks (bu_storage b))"

text \<open>One successful or failed call of a builder operation.\<close>

inductive builder_step ::
    "'h kb2_allocator \<Rightarrow> kb2_closure_builder \<times> 'h \<Rightarrow> kb2_status \<Rightarrow> kb2_closure_builder \<times> 'h \<Rightarrow> bool"
  for al where
  step_artifact:
    "kb2_closure_builder_add_artifact al h (Some b) node kind digest name = (s, Some b', h') \<Longrightarrow>
     builder_step al (b, h) s (b', h')"
| step_lifecycle:
    "kb2_closure_builder_set_lifecycle h (Some b) node i q c = (s, Some b', h') \<Longrightarrow>
     builder_step al (b, h) s (b', h')"
| step_native_lifecycle:
    "kb2_closure_builder_set_native_lifecycle h (Some b) node = (s, Some b', h') \<Longrightarrow>
     builder_step al (b, h) s (b', h')"
| step_root:
    "kb2_closure_builder_mark_root h (Some b) node = (s, Some b', h') \<Longrightarrow>
     builder_step al (b, h) s (b', h')"
| step_dependency:
    "kb2_closure_builder_add_dependency al h (Some b) consumer provider = (s, Some b', h') \<Longrightarrow>
     builder_step al (b, h) s (b', h')"
| step_export:
    "kb2_closure_builder_add_export al h (Some b) node symbol kind = (s, Some b', h') \<Longrightarrow>
     builder_step al (b, h) s (b', h')"
| step_import:
    "kb2_closure_builder_add_import al h (Some b) consumer cs provider ps kind flags = (s, Some b', h') \<Longrightarrow>
     builder_step al (b, h) s (b', h')"
| step_resource:
    "kb2_closure_builder_add_resource al h (Some b) slot type digest lo hi req maxr flags = (s, Some b', h') \<Longrightarrow>
     builder_step al (b, h) s (b', h')"
| step_bind:
    "kb2_closure_builder_bind_resource al h (Some b) slot node = (s, Some b', h') \<Longrightarrow>
     builder_step al (b, h) s (b', h')"

inductive builder_reachable :: "'h kb2_allocator \<Rightarrow> 'h \<Rightarrow> kb2_closure_builder \<times> 'h \<Rightarrow> bool"
  for al h0 where
  created: "kb2_closure_builder_create al h0 pointers digest = (KB2_STATUS_OK, Some b, h) \<Longrightarrow>
     builder_reachable al h0 (b, h)"
| stepped: "builder_reachable al h0 bh \<Longrightarrow> builder_step al bh s bh' \<Longrightarrow> builder_reachable al h0 bh'"
lemma arr_items_push [simp]: "arr_items (array_push a r) = arr_items a @ [r]"
  by (simp add: array_push_def)

lemmas reserve_pushes = artifact_array.reserve_push dependency_array.reserve_push
  export_array.reserve_push import_array.reserve_push resource_array.reserve_push

lemma add_artifact_wf:
  assumes "kb2_closure_builder_add_artifact al h (Some b) node kind digest name = (s, Some b', h')"
    "storage_wf (bu_storage b)"
  shows "storage_wf (bu_storage b')"
  using assms
  by (auto simp: kb2_closure_builder_add_artifact_def storage_wf_def artifacts_wf_def artifact_wf_def name_ok_def list_ex_iff
      kb2_artifact_kind_valid_def dest!: artifact_array.reserve_push
      split: option.split_asm if_split_asm prod.split_asm simp del: kb2_name_valid.simps)

lemma add_dependency_wf:
  assumes "kb2_closure_builder_add_dependency al h (Some b) c p = (s, Some b', h')"
    "storage_wf (bu_storage b)"
  shows "storage_wf (bu_storage b')"
  using assms
  by (auto simp: kb2_closure_builder_add_dependency_def storage_wf_def dependencies_wf_def list_ex_iff kb2_has_dependency_def
      dest!: dependency_array.reserve_push split: option.split_asm if_split_asm prod.split_asm)

lemma add_export_wf:
  assumes "kb2_closure_builder_add_export al h (Some b) node symbol kind = (s, Some b', h')"
    "storage_wf (bu_storage b)"
  shows "storage_wf (bu_storage b')"
  using assms
  by (auto simp: kb2_closure_builder_add_export_def storage_wf_def exports_wf_def list_ex_iff kb2_symbol_kind_valid_def name_ok_def
      dest!: export_array.reserve_push split: option.split_asm if_split_asm prod.split_asm
      simp del: kb2_name_valid.simps)

lemma add_import_wf:
  assumes "kb2_closure_builder_add_import al h (Some b) c cs p ps kind flags = (s, Some b', h')"
    "storage_wf (bu_storage b)"
  shows "storage_wf (bu_storage b')"
  using assms
  by (auto simp: kb2_closure_builder_add_import_def storage_wf_def imports_wf_def list_ex_iff kb2_symbol_kind_valid_def name_ok_def
      dest!: import_array.reserve_push split: option.split_asm if_split_asm prod.split_asm
      simp del: kb2_name_valid.simps)

lemma add_resource_wf:
  assumes "kb2_closure_builder_add_resource al h (Some b) slot type digest lo hi req maxr flags = (s, Some b', h')"
    "storage_wf (bu_storage b)"
  shows "storage_wf (bu_storage b')"
  using assms
  by (auto simp: kb2_closure_builder_add_resource_def storage_wf_def resources_wf_def list_ex_iff kb2_resource_type_valid_def
      resource_wf_def not_less
      dest!: resource_array.reserve_push split: option.split_asm if_split_asm prod.split_asm)

lemma bind_resource_wf:
  assumes "kb2_closure_builder_bind_resource al h (Some b) slot node = (s, Some b', h')"
    "storage_wf (bu_storage b)"
  shows "storage_wf (bu_storage b')"
  using assms
  by (auto simp: kb2_closure_builder_bind_resource_def storage_wf_def bindings_wf_def list_ex_iff
      dest!: dependency_array.reserve_push split: option.split_asm if_split_asm prod.split_asm)

lemma distinct_map_update:
  "distinct (map f xs) \<Longrightarrow> i < length xs \<Longrightarrow> f y = f (xs ! i) \<Longrightarrow> distinct (map f (xs[i := y]))"
  using list_update_id [of "map f xs" i] by (simp add: map_update)

lemma update_artifact_wf:
  assumes "storage_wf (bu_storage b)" "kb2_builder_find_artifact b node = Some i"
    "\<And>r. ar_node_id (f r) = ar_node_id r" "\<And>r. ar_namespace_name (f r) = ar_namespace_name r"
    "artifact_wf (f (arr_items (st_artifacts (bu_storage b)) ! i))"
  shows "storage_wf (bu_storage (update_artifact b i f))"
proof -
  have i: "i < length (arr_items (st_artifacts (bu_storage b)))"
    using assms(2) by (auto simp: kb2_builder_find_artifact_def dest: first_index_SomeD)
  have "artifacts_wf (st_artifacts (bu_storage b))"
    using assms(1) by (simp add: storage_wf_def)
  then have "artifacts_wf (st_artifacts (bu_storage (update_artifact b i f)))"
    using i assms(3-5) set_update_subset_insert
    by (auto simp: artifacts_wf_def update_artifact_def Let_def array_ok_def
        intro!: distinct_map_update dest!: subsetD [OF set_update_subset_insert])
  then show ?thesis
    using assms(1) by (simp add: storage_wf_def update_artifact_def Let_def)
qed

lemma find_artifact_wf:
  assumes "storage_wf (bu_storage b)" "kb2_builder_find_artifact b node = Some i"
  shows "artifact_wf (arr_items (st_artifacts (bu_storage b)) ! i)"
  using assms by (auto simp: kb2_builder_find_artifact_def storage_wf_def artifacts_wf_def dest!: first_index_SomeD)

lemma set_lifecycle_wf:
  assumes "kb2_closure_builder_set_lifecycle h (Some b) node i q c = (s, Some b', h')"
    "storage_wf (bu_storage b)"
  shows "storage_wf (bu_storage b')"
  using assms
  by (auto simp: kb2_closure_builder_set_lifecycle_def artifact_wf_def name_ok_def
      split: option.split_asm if_split_asm simp del: kb2_name_valid.simps
      intro!: update_artifact_wf dest: find_artifact_wf)

lemma set_native_lifecycle_wf:
  assumes "kb2_closure_builder_set_native_lifecycle h (Some b) node = (s, Some b', h')"
    "storage_wf (bu_storage b)"
  shows "storage_wf (bu_storage b')"
  using assms
  by (auto simp: kb2_closure_builder_set_native_lifecycle_def split: option.split_asm if_split_asm
      intro!: update_artifact_wf dest: find_artifact_wf simp: artifact_wf_def)

lemma mark_root_wf:
  assumes "kb2_closure_builder_mark_root h (Some b) node = (s, Some b', h')"
    "storage_wf (bu_storage b)"
  shows "storage_wf (bu_storage b')"
  using assms
  by (auto simp: kb2_closure_builder_mark_root_def Let_def split: option.split_asm if_split_asm
      intro!: update_artifact_wf dest: find_artifact_wf simp: artifact_wf_def)

lemma builder_step_wf:
  "builder_step al bh s bh' \<Longrightarrow> storage_wf (bu_storage (fst bh)) \<Longrightarrow> storage_wf (bu_storage (fst bh'))"
  by (induction rule: builder_step.induct)
    (auto intro: add_artifact_wf set_lifecycle_wf set_native_lifecycle_wf mark_root_wf add_dependency_wf
      add_export_wf add_import_wf add_resource_wf bind_resource_wf)

lemma builder_create_wf:
  "kb2_closure_builder_create al h pointers digest = (KB2_STATUS_OK, Some b, h') \<Longrightarrow> storage_wf (bu_storage b)"
  by (auto simp: kb2_closure_builder_create_def storage_wf_def empty_storage_def artifacts_wf_def
      dependencies_wf_def exports_wf_def imports_wf_def resources_wf_def bindings_wf_def array_ok_def
      empty_array_def split: option.split_asm if_split_asm prod.split_asm)

lemma builder_reachable_wf: "builder_reachable al h0 bh \<Longrightarrow> storage_wf (bu_storage (fst bh))"
  by (induction rule: builder_reachable.induct) (auto intro: builder_create_wf builder_step_wf)

section \<open>Ownership of blocks\<close>

lemma update_artifact_blocks [simp]: "builder_blocks (update_artifact b i f) = builder_blocks b"
  by (simp add: update_artifact_def Let_def builder_blocks_def storage_blocks_def array_blocks_def
      split: option.split)

lemma array_blocks_push [simp]: "array_blocks w (array_push a r) = array_blocks w a"
  by (simp add: array_blocks_def array_push_def split: option.split)

lemma ledger_exchange:
  fixes l l' x y R owned owned' :: "(nat \<times> nat) multiset"
  assumes "l' + x = l + y" "l = R + owned" "owned' + x = owned + y"
  shows "l' = R + owned'"
proof -
  have "l' + x = (R + owned') + x" using assms by (simp add: ac_simps)
  then show ?thesis by simp
qed

text \<open>Replacing one array of the storage exchanges the blocks of that array.\<close>

lemma replace_blocks:
  "builder_blocks (b\<lparr>bu_storage := (bu_storage b)\<lparr>st_artifacts := a1\<rparr>\<rparr>) +
     array_blocks 564 (st_artifacts (bu_storage b)) = builder_blocks b + array_blocks 564 a1"
  "builder_blocks (b\<lparr>bu_storage := (bu_storage b)\<lparr>st_dependencies := a2\<rparr>\<rparr>) +
     array_blocks 8 (st_dependencies (bu_storage b)) = builder_blocks b + array_blocks 8 a2"
  "builder_blocks (b\<lparr>bu_storage := (bu_storage b)\<lparr>st_exports := a3\<rparr>\<rparr>) +
     array_blocks 136 (st_exports (bu_storage b)) = builder_blocks b + array_blocks 136 a3"
  "builder_blocks (b\<lparr>bu_storage := (bu_storage b)\<lparr>st_imports := a4\<rparr>\<rparr>) +
     array_blocks 272 (st_imports (bu_storage b)) = builder_blocks b + array_blocks 272 a4"
  "builder_blocks (b\<lparr>bu_storage := (bu_storage b)\<lparr>st_resources := a5\<rparr>\<rparr>) +
     array_blocks 72 (st_resources (bu_storage b)) = builder_blocks b + array_blocks 72 a5"
  "builder_blocks (b\<lparr>bu_storage := (bu_storage b)\<lparr>st_resource_bindings := a6\<rparr>\<rparr>) +
     array_blocks 8 (st_resource_bindings (bu_storage b)) = builder_blocks b + array_blocks 8 a6"
  by (simp_all add: builder_blocks_def storage_blocks_def ac_simps)

lemma owned_blocks:
  assumes "l = R + builder_blocks b"
  shows "array_blocks 564 (st_artifacts (bu_storage b)) \<subseteq># l"
    "array_blocks 8 (st_dependencies (bu_storage b)) \<subseteq># l"
    "array_blocks 136 (st_exports (bu_storage b)) \<subseteq># l"
    "array_blocks 272 (st_imports (bu_storage b)) \<subseteq># l"
    "array_blocks 72 (st_resources (bu_storage b)) \<subseteq># l"
    "array_blocks 8 (st_resource_bindings (bu_storage b)) \<subseteq># l"
  unfolding assms builder_blocks_def storage_blocks_def
  by (simp_all add: subseteq_mset_def)
lemma add_artifact_blocks:
  assumes al: "allocator_laws al live" and l: "live h = R + builder_blocks b"
    and op: "kb2_closure_builder_add_artifact al h (Some b) node kind digest name = (s, Some b', h')"
  shows "live h' = R + builder_blocks b'"
  using op l
  by (auto simp: kb2_closure_builder_add_artifact_def replace_blocks split: option.split_asm if_split_asm prod.split_asm
      intro!: ledger_exchange [OF artifact_array.reserve_balance [OF al _ owned_blocks(1) [OF l]] l]
      dest: kb2_reserve_failed simp del: kb2_name_valid.simps)

lemma add_dependency_blocks:
  assumes al: "allocator_laws al live" and l: "live h = R + builder_blocks b"
    and op: "kb2_closure_builder_add_dependency al h (Some b) consumer provider = (s, Some b', h')"
  shows "live h' = R + builder_blocks b'"
  using op l
  by (auto simp: kb2_closure_builder_add_dependency_def replace_blocks split: option.split_asm if_split_asm prod.split_asm
      intro!: ledger_exchange [OF dependency_array.reserve_balance [OF al _ owned_blocks(2) [OF l]] l]
      dest: kb2_reserve_failed simp del: kb2_name_valid.simps)

lemma add_export_blocks:
  assumes al: "allocator_laws al live" and l: "live h = R + builder_blocks b"
    and op: "kb2_closure_builder_add_export al h (Some b) node symbol kind = (s, Some b', h')"
  shows "live h' = R + builder_blocks b'"
  using op l
  by (auto simp: kb2_closure_builder_add_export_def replace_blocks split: option.split_asm if_split_asm prod.split_asm
      intro!: ledger_exchange [OF export_array.reserve_balance [OF al _ owned_blocks(3) [OF l]] l]
      dest: kb2_reserve_failed simp del: kb2_name_valid.simps)

lemma add_import_blocks:
  assumes al: "allocator_laws al live" and l: "live h = R + builder_blocks b"
    and op: "kb2_closure_builder_add_import al h (Some b) consumer cs provider ps kind flags = (s, Some b', h')"
  shows "live h' = R + builder_blocks b'"
  using op l
  by (auto simp: kb2_closure_builder_add_import_def replace_blocks split: option.split_asm if_split_asm prod.split_asm
      intro!: ledger_exchange [OF import_array.reserve_balance [OF al _ owned_blocks(4) [OF l]] l]
      dest: kb2_reserve_failed simp del: kb2_name_valid.simps)

lemma add_resource_blocks:
  assumes al: "allocator_laws al live" and l: "live h = R + builder_blocks b"
    and op: "kb2_closure_builder_add_resource al h (Some b) slot type digest lo hi req maxr flags = (s, Some b', h')"
  shows "live h' = R + builder_blocks b'"
  using op l
  by (auto simp: kb2_closure_builder_add_resource_def replace_blocks split: option.split_asm if_split_asm prod.split_asm
      intro!: ledger_exchange [OF resource_array.reserve_balance [OF al _ owned_blocks(5) [OF l]] l]
      dest: kb2_reserve_failed simp del: kb2_name_valid.simps)

lemma bind_resource_blocks:
  assumes al: "allocator_laws al live" and l: "live h = R + builder_blocks b"
    and op: "kb2_closure_builder_bind_resource al h (Some b) slot node = (s, Some b', h')"
  shows "live h' = R + builder_blocks b'"
  using op l
  by (auto simp: kb2_closure_builder_bind_resource_def replace_blocks split: option.split_asm if_split_asm prod.split_asm
      intro!: ledger_exchange [OF dependency_array.reserve_balance [OF al _ owned_blocks(6) [OF l]] l]
      dest: kb2_reserve_failed simp del: kb2_name_valid.simps)

lemma builder_step_blocks:
  assumes al: "allocator_laws al live"
  shows "builder_step al bh s bh' \<Longrightarrow> live (snd bh) = R + builder_blocks (fst bh) \<Longrightarrow>
    live (snd bh') = R + builder_blocks (fst bh')"
proof (induction rule: builder_step.induct)
  case (step_lifecycle h b node i q c s b' h')
  then show ?case
    by (auto simp: kb2_closure_builder_set_lifecycle_def split: option.split_asm if_split_asm
        simp del: kb2_name_valid.simps)
next
  case (step_native_lifecycle h b node s b' h')
  then show ?case
    by (auto simp: kb2_closure_builder_set_native_lifecycle_def split: option.split_asm if_split_asm)
next
  case (step_root h b node s b' h')
  then show ?case
    by (auto simp: kb2_closure_builder_mark_root_def Let_def split: option.split_asm if_split_asm)
qed (auto intro: add_artifact_blocks [OF al] add_dependency_blocks [OF al] add_export_blocks [OF al]
    add_import_blocks [OF al] add_resource_blocks [OF al] bind_resource_blocks [OF al])

lemma builder_create_blocks:
  assumes "allocator_laws al live"
    "kb2_closure_builder_create al h pointers digest = (KB2_STATUS_OK, Some b, h')"
  shows "live h' = live h + builder_blocks b"
  using assms(2) allocator_allocate [OF assms(1)]
  by (auto simp: kb2_closure_builder_create_def builder_blocks_def storage_blocks_def empty_storage_def
      empty_array_def array_blocks_def split: option.split_asm if_split_asm prod.split_asm)

lemma builder_reachable_blocks:
  assumes "allocator_laws al live"
  shows "builder_reachable al h0 bh \<Longrightarrow> live (snd bh) = live h0 + builder_blocks (fst bh)"
  by (induction rule: builder_reachable.induct)
    (auto intro: builder_create_blocks [OF assms] builder_step_blocks [OF assms])

lemma kb2_storage_release_blocks:
  assumes al: "allocator_laws al live" and l: "live h = R + storage_blocks st"
  shows "live (kb2_storage_release al h st) = R"
proof -
  let ?a = "array_blocks 564 (st_artifacts st)" and ?d = "array_blocks 8 (st_dependencies st)"
    and ?e = "array_blocks 136 (st_exports st)" and ?i = "array_blocks 272 (st_imports st)"
    and ?r = "array_blocks 72 (st_resources st)" and ?b = "array_blocks 8 (st_resource_bindings st)"
  have 1: "live (kb2_release_array al h (st_artifacts st) 564) = R + ?d + ?e + ?i + ?r + ?b" (is "live ?h1 = _")
    using l by (intro artifact_array.release_blocks [OF al]) (simp add: storage_blocks_def ac_simps)
  have 2: "live (kb2_release_array al ?h1 (st_dependencies st) 8) = R + ?e + ?i + ?r + ?b" (is "live ?h2 = _")
    using 1 by (intro dependency_array.release_blocks [OF al]) (simp add: ac_simps)
  have 3: "live (kb2_release_array al ?h2 (st_exports st) 136) = R + ?i + ?r + ?b" (is "live ?h3 = _")
    using 2 by (intro export_array.release_blocks [OF al]) (simp add: ac_simps)
  have 4: "live (kb2_release_array al ?h3 (st_imports st) 272) = R + ?r + ?b" (is "live ?h4 = _")
    using 3 by (intro import_array.release_blocks [OF al]) (simp add: ac_simps)
  have 5: "live (kb2_release_array al ?h4 (st_resources st) 72) = R + ?b" (is "live ?h5 = _")
    using 4 by (intro resource_array.release_blocks [OF al]) (simp add: ac_simps)
  have "live (kb2_release_array al ?h5 (st_resource_bindings st) 8) = R"
    using 5 by (intro dependency_array.release_blocks [OF al]) simp
  then show ?thesis by (simp add: kb2_storage_release_def Let_def)
qed

lemma kb2_closure_builder_destroy_blocks:
  assumes al: "allocator_laws al live" and l: "live h = R + builder_blocks b"
  shows "live (kb2_closure_builder_destroy al h (Some b)) = R"
proof -
  have "live (kb2_storage_release al h (bu_storage b)) = add_mset (bu_block b, 200) R"
    using l by (intro kb2_storage_release_blocks [OF al]) (simp add: builder_blocks_def)
  from allocator_deallocate [OF al this] show ?thesis by simp
qed

end
