(* ===== verification/Closure_Graph.thy ===== *)
theory Closure_Graph
  imports Closure_Store
begin

text \<open>
  The dependency graph check of \<open>src/closure.c\<close>: the node map with its insertion sort and
  binary search, the adjacency lists over \<open>heads\<close> and \<open>next\<close>, Kahn's topological sort and the
  breadth-first search from the root modules.

  The sentinel \<open>SIZE_MAX\<close> of \<open>heads\<close>, \<open>next\<close> and of the search is \<open>None\<close>. The arrays \<open>next\<close>,
  \<open>targets\<close> and \<open>queue\<close> are the lists of the elements written so far. The loops over linked
  edges and over the queue are partial functions whose value is \<open>None\<close> if they do not end.
\<close>

section \<open>Node map\<close>

record kb2_node_map_entry =
  nm_node_id :: u32
  nm_index :: nat

text \<open>The inner \<open>while\<close> of the insertion sort: shift larger entries up, then store the value.\<close>

fun kb2_shift_entry :: "kb2_node_map_entry list \<Rightarrow> kb2_node_map_entry \<Rightarrow> nat \<Rightarrow> kb2_node_map_entry list" where
  "kb2_shift_entry entries value 0 = entries[0 := value]"
| "kb2_shift_entry entries value (Suc position) =
     (if nm_node_id value < nm_node_id (entries ! position)
      then kb2_shift_entry (entries[Suc position := entries ! position]) value position
      else entries[Suc position := value])"

definition kb2_sort_node_map :: "kb2_node_map_entry list \<Rightarrow> kb2_node_map_entry list" where
  "kb2_sort_node_map entries =
     fold (\<lambda>index entries. kb2_shift_entry entries (entries ! index) index) [1..<length entries] entries"

definition kb2_node_map_find :: "kb2_node_map_entry list \<Rightarrow> u32 \<Rightarrow> nat option" where
  "kb2_node_map_find entries node_id =
     map_option (\<lambda>middle. nm_index (entries ! middle))
       (bsearch (\<lambda>middle. Some (nm_node_id (entries ! middle))) node_id 0 (length entries))"

text \<open>The contents that \<open>kb2_build_node_map\<close> gives its block.\<close>

definition kb2_node_map_entries :: "kb2_closure_storage \<Rightarrow> kb2_node_map_entry list" where
  "kb2_node_map_entries storage =
     kb2_sort_node_map (map (\<lambda>index. \<lparr>nm_node_id = ar_node_id (arr_items (st_artifacts storage) ! index),
         nm_index = index\<rparr>) [0..<length (arr_items (st_artifacts storage))])"

definition kb2_build_node_map ::
    "'h kb2_allocator \<Rightarrow> 'h \<Rightarrow> kb2_closure_storage
     \<Rightarrow> kb2_status \<times> (nat \<times> kb2_node_map_entry list) option \<times> 'h" where
  "kb2_build_node_map al h storage =
     (let artifact_count = length (arr_items (st_artifacts storage)) in
      if artifact_count > SIZE_MAX div 16 then (KB2_STATUS_RESOURCE_EXHAUSTED, None, h)
      else case al_allocate al h (artifact_count * 16) of
        (None, h) \<Rightarrow> (KB2_STATUS_NO_MEMORY, None, h)
      | (Some p, h) \<Rightarrow> (KB2_STATUS_OK, Some (p, kb2_node_map_entries storage), h))"

section \<open>Adjacency lists\<close>

record kb2_graph =
  gr_heads :: "nat option list"
  gr_next :: "nat option list"
  gr_targets :: "nat list"
  gr_incoming :: "u32 list"

definition kb2_graph_empty :: "nat \<Rightarrow> kb2_graph" where
  "kb2_graph_empty artifact_count =
     \<lparr>gr_heads = replicate artifact_count None, gr_next = [], gr_targets = [],
      gr_incoming = replicate artifact_count 0\<rparr>"

fun kb2_graph_edges ::
    "kb2_closure_storage \<Rightarrow> kb2_node_map_entry list \<Rightarrow> kb2_closure_dependency_record list \<Rightarrow> kb2_graph
     \<Rightarrow> kb2_status + kb2_graph" where
  "kb2_graph_edges storage entries [] g = Inr g"
| "kb2_graph_edges storage entries (dependency # rest) g =
     (case (kb2_node_map_find entries (dp_consumer_node_id dependency),
            kb2_node_map_find entries (dp_provider_node_id dependency)) of
        (Some consumer, Some provider) \<Rightarrow>
          if gr_incoming g ! provider = -1 then Inl KB2_STATUS_INVALID_CONFIGURATION
          else if ar_kind (arr_items (st_artifacts storage) ! consumer) = KB2_ARTIFACT_SHARED_PROVIDER \<and>
             ar_kind (arr_items (st_artifacts storage) ! provider) \<noteq> KB2_ARTIFACT_SHARED_PROVIDER
          then Inl KB2_STATUS_INVALID_CONFIGURATION
          else kb2_graph_edges storage entries rest
            \<lparr>gr_heads = (gr_heads g)[consumer := Some (length (gr_next g))],
             gr_next = gr_next g @ [gr_heads g ! consumer],
             gr_targets = gr_targets g @ [provider],
             gr_incoming = (gr_incoming g)[provider := gr_incoming g ! provider + 1]\<rparr>
      | _ \<Rightarrow> Inl KB2_STATUS_INVALID_CONFIGURATION)"

text \<open>\<open>for (edge = heads[node]; edge != SIZE_MAX; edge = next[edge])\<close> with its body.\<close>

partial_function (option) kb2_for_edges ::
    "nat option list \<Rightarrow> (nat \<Rightarrow> 's \<Rightarrow> 's) \<Rightarrow> nat option \<Rightarrow> 's \<Rightarrow> 's option" where
  "kb2_for_edges nxt body edge s =
     (case edge of
        None \<Rightarrow> Some s
      | Some e \<Rightarrow> kb2_for_edges nxt body (nxt ! e) (body e s))"

section \<open>Topological sort\<close>

definition kb2_release_provider :: "nat list \<Rightarrow> nat \<Rightarrow> u32 list \<times> nat list \<Rightarrow> u32 list \<times> nat list" where
  "kb2_release_provider targets edge = (\<lambda>(incoming, queue).
     let provider = targets ! edge;
         incoming = incoming[provider := incoming ! provider - 1]
     in (incoming, if incoming ! provider = 0 then queue @ [provider] else queue))"

partial_function (option) kb2_topological_loop ::
    "kb2_graph \<Rightarrow> u32 list \<Rightarrow> nat list \<Rightarrow> nat \<Rightarrow> nat \<Rightarrow> nat option" where
  "kb2_topological_loop g incoming queue queue_begin processed =
     (if queue_begin < length queue then do {
        next_state \<leftarrow> kb2_for_edges (gr_next g) (kb2_release_provider (gr_targets g))
          (gr_heads g ! (queue ! queue_begin)) (incoming, queue);
        kb2_topological_loop g (fst next_state) (snd next_state) (queue_begin + 1) (processed + 1) }
      else Some processed)"

section \<open>Reachability from the roots\<close>

definition kb2_reach_provider :: "nat list \<Rightarrow> nat \<Rightarrow> bool list \<times> nat list \<Rightarrow> bool list \<times> nat list" where
  "kb2_reach_provider targets edge = (\<lambda>(reachable, queue).
     let provider = targets ! edge in
     if \<not> reachable ! provider then (reachable[provider := True], queue @ [provider])
     else (reachable, queue))"

partial_function (option) kb2_reachable_loop ::
    "kb2_graph \<Rightarrow> bool list \<Rightarrow> nat list \<Rightarrow> nat \<Rightarrow> bool list option" where
  "kb2_reachable_loop g reachable queue queue_begin =
     (if queue_begin < length queue then do {
        next_state \<leftarrow> kb2_for_edges (gr_next g) (kb2_reach_provider (gr_targets g))
          (gr_heads g ! (queue ! queue_begin)) (reachable, queue);
        kb2_reachable_loop g (fst next_state) (snd next_state) (queue_begin + 1) }
      else Some reachable)"

section \<open>The whole check\<close>

text \<open>The code between the allocations and \<open>finish\<close>.\<close>

definition kb2_graph_status :: "kb2_closure_storage \<Rightarrow> kb2_node_map_entry list \<Rightarrow> kb2_status option" where
  "kb2_graph_status storage entries =
     (let artifacts = arr_items (st_artifacts storage); artifact_count = length artifacts in
      case kb2_graph_edges storage entries (arr_items (st_dependencies storage))
             (kb2_graph_empty artifact_count) of
        Inl status \<Rightarrow> Some status
      | Inr g \<Rightarrow> do {
          processed \<leftarrow> kb2_topological_loop g (gr_incoming g)
            (filter (\<lambda>index. gr_incoming g ! index = 0) [0..<artifact_count]) 0 0;
          if processed \<noteq> artifact_count then Some KB2_STATUS_INVALID_CONFIGURATION
          else do {
            reachable \<leftarrow> kb2_reachable_loop g
              (map (\<lambda>index. ar_is_root (artifacts ! index)) [0..<artifact_count])
              (filter (\<lambda>index. ar_is_root (artifacts ! index)) [0..<artifact_count]) 0;
            if list_all (\<lambda>index. reachable ! index) [0..<artifact_count]
            then Some KB2_STATUS_OK else Some KB2_STATUS_INVALID_CONFIGURATION } })"

definition kb2_free_if :: "'h kb2_allocator \<Rightarrow> nat option \<Rightarrow> nat \<Rightarrow> 'h \<Rightarrow> 'h" where
  "kb2_free_if al block size' h = (case block of None \<Rightarrow> h | Some p \<Rightarrow> al_deallocate al h p size')"

definition kb2_validate_graph ::
    "'h kb2_allocator \<Rightarrow> 'h \<Rightarrow> kb2_closure_storage \<Rightarrow> kb2_node_map_entry list
     \<Rightarrow> (kb2_status \<times> 'h) option" where
  "kb2_validate_graph al h storage entries =
     (let n = length (arr_items (st_artifacts storage));
          d = length (arr_items (st_dependencies storage));
          (heads, h) = al_allocate al h (n * 8);
          (queue, h) = al_allocate al h (n * 8);
          (incoming, h) = al_allocate al h (n * 4);
          (reachable, h) = al_allocate al h (n * 1);
          (nxt, h) = (if d \<noteq> 0 then al_allocate al h (d * 8) else (None, h));
          (targets, h) = (if d \<noteq> 0 then al_allocate al h (d * 8) else (None, h))
      in do {
        status \<leftarrow>
          (if heads = None \<or> queue = None \<or> incoming = None \<or> reachable = None \<or>
              (d \<noteq> 0 \<and> (nxt = None \<or> targets = None))
           then Some KB2_STATUS_NO_MEMORY else kb2_graph_status storage entries);
        let h = kb2_free_if al targets (d * 8) h;
            h = kb2_free_if al nxt (d * 8) h;
            h = kb2_free_if al reachable (n * 1) h;
            h = kb2_free_if al incoming (n * 4) h;
            h = kb2_free_if al queue (n * 8) h;
            h = kb2_free_if al heads (n * 8) h
        in Some (status, h) })"

section \<open>The node map is a finite map\<close>

abbreviation sorted_entries :: "kb2_node_map_entry list \<Rightarrow> bool" where
  "sorted_entries es \<equiv> sorted (map nm_node_id es)"

lemma kb2_shift_entry_spec:
  "position < length es \<Longrightarrow> sorted_entries (take position es) \<Longrightarrow>
   length (kb2_shift_entry es v position) = length es \<and>
   mset (take (Suc position) (kb2_shift_entry es v position)) = add_mset v (mset (take position es)) \<and>
   sorted_entries (take (Suc position) (kb2_shift_entry es v position)) \<and>
   drop (Suc position) (kb2_shift_entry es v position) = drop (Suc position) es"
proof (induction position arbitrary: es)
  case 0
  then show ?case by (cases es) auto
next
  case (Suc p)
  show ?case
  proof (cases "nm_node_id v < nm_node_id (es ! p)")
    case True
    let ?es = "es[Suc p := es ! p]" and ?r = "kb2_shift_entry (es[Suc p := es ! p]) v p"
    have low: "sorted_entries (take p es)" "\<forall>x \<in> set (take p es). nm_node_id x \<le> nm_node_id (es ! p)"
      using Suc.prems by (auto simp: take_Suc_conv_app_nth sorted_append)
    then have IH: "length ?r = length es" "mset (take (Suc p) ?r) = add_mset v (mset (take p es))"
      "sorted_entries (take (Suc p) ?r)" "drop (Suc p) ?r = drop (Suc p) ?es"
      using Suc.IH [of ?es] Suc.prems by auto
    have "set (take (Suc p) ?r) = insert v (set (take p es))"
      using IH(2) by (metis set_mset_add_mset_insert set_mset_mset)
    then have high: "\<forall>x \<in> set (take (Suc p) ?r). nm_node_id x \<le> nm_node_id (es ! p)"
      using low True by auto
    have last: "?r ! Suc p = es ! p"
      using IH(4) IH(1) Suc.prems by (metis hd_drop_conv_nth length_list_update nth_list_update_eq)
    then have tk: "take (Suc (Suc p)) ?r = take (Suc p) ?r @ [es ! p]"
      using Suc.prems IH(1) by (simp add: take_Suc_conv_app_nth)
    have "drop (Suc (Suc p)) ?r = drop (Suc (Suc p)) es"
      using IH(4) by (metis drop_drop drop_update_cancel lessI plus_1_eq_Suc)
    moreover have "mset (take (Suc (Suc p)) ?r) = add_mset v (mset (take (Suc p) es))"
      using tk IH(2) Suc.prems by (simp add: take_Suc_conv_app_nth)
    ultimately show ?thesis
      using True IH high tk by (simp add: sorted_append)
  next
    case False
    then have "\<forall>x \<in> set (take (Suc p) es). nm_node_id x \<le> nm_node_id v"
      using Suc.prems by (force simp: take_Suc_conv_app_nth sorted_append)
    moreover have "take (Suc (Suc p)) (es[Suc p := v]) = take (Suc p) es @ [v]"
      using Suc.prems by (simp add: take_Suc_conv_app_nth)
    ultimately show ?thesis
      using False Suc.prems by (simp add: sorted_append)
  qed
qed

lemma kb2_sort_node_map_prefix:
  "m \<le> length es \<Longrightarrow> 1 \<le> m \<Longrightarrow>
   (let r = fold (\<lambda>index es. kb2_shift_entry es (es ! index) index) [1..<m] es in
    length r = length es \<and> mset (take m r) = mset (take m es) \<and> sorted_entries (take m r) \<and>
    drop m r = drop m es)"
proof (induction m)
  case (Suc m)
  show ?case
  proof (cases "m = 0")
    case True
    then show ?thesis using Suc.prems by (cases es) auto
  next
    case False
    let ?r = "fold (\<lambda>index es. kb2_shift_entry es (es ! index) index) [1..<m] es"
    have IH: "length ?r = length es" "mset (take m ?r) = mset (take m es)" "sorted_entries (take m ?r)"
      "drop m ?r = drop m es"
      using Suc False by (auto simp: Let_def)
    then have nth: "?r ! m = es ! m"
      using Suc.prems hd_drop_conv_nth [of m ?r] hd_drop_conv_nth [of m es] by simp
    have rest: "drop (Suc m) ?r = drop (Suc m) es"
      using arg_cong [OF IH(4), of "drop 1"] by simp
    have step: "fold (\<lambda>index es. kb2_shift_entry es (es ! index) index) [1..<Suc m] es
        = kb2_shift_entry ?r (es ! m) m"
      using False nth by simp
    show ?thesis
      unfolding Let_def step
      using kb2_shift_entry_spec [of m ?r "es ! m"] IH rest Suc.prems
      by (simp add: take_Suc_conv_app_nth [of m es])
  qed
qed simp

lemma kb2_sort_node_map_sorts:
  "mset (kb2_sort_node_map es) = mset es" "sorted_entries (kb2_sort_node_map es)"
proof -
  have "mset (kb2_sort_node_map es) = mset es \<and> sorted_entries (kb2_sort_node_map es)"
  proof (cases "es = []")
    case False
    then have "1 \<le> length es" by (cases es) auto
    from kb2_sort_node_map_prefix [OF order_refl this] show ?thesis
      by (auto simp: kb2_sort_node_map_def Let_def)
  qed (simp add: kb2_sort_node_map_def)
  then show "mset (kb2_sort_node_map es) = mset es" "sorted_entries (kb2_sort_node_map es)" by auto
qed

definition artifact_ids :: "kb2_closure_storage \<Rightarrow> u32 list" where
  "artifact_ids st = map ar_node_id (arr_items (st_artifacts st))"

lemma kb2_node_map_entries_set:
  "e \<in> set (kb2_node_map_entries st) \<longleftrightarrow>
     nm_index e < length (artifact_ids st) \<and> nm_node_id e = artifact_ids st ! nm_index e"
proof -
  have "set (kb2_node_map_entries st) = set (map (\<lambda>index.
      \<lparr>nm_node_id = ar_node_id (arr_items (st_artifacts st) ! index), nm_index = index\<rparr>)
      [0..<length (arr_items (st_artifacts st))])"
    unfolding kb2_node_map_entries_def by (rule mset_eq_setD) (rule kb2_sort_node_map_sorts(1))
  then show ?thesis by (cases e) (auto simp: artifact_ids_def)
qed

lemma kb2_node_map_entries_sorted:
  assumes "distinct (artifact_ids st)"
  shows "sorted_wrt (<) (map nm_node_id (kb2_node_map_entries st))"
proof -
  let ?l = "map (\<lambda>index. \<lparr>nm_node_id = ar_node_id (arr_items (st_artifacts st) ! index),
         nm_index = index\<rparr>) [0..<length (arr_items (st_artifacts st))]"
  have "map nm_node_id ?l = artifact_ids st"
    by (auto simp: artifact_ids_def intro!: nth_equalityI)
  moreover have "mset (map nm_node_id (kb2_node_map_entries st)) = mset (map nm_node_id ?l)"
    unfolding kb2_node_map_entries_def by (simp only: mset_map kb2_sort_node_map_sorts(1))
  ultimately have "distinct (map nm_node_id (kb2_node_map_entries st))"
    using assms mset_eq_imp_distinct_iff [of "map nm_node_id (kb2_node_map_entries st)" "map nm_node_id ?l"]
    by (simp only:)
  then show ?thesis
    using kb2_sort_node_map_sorts(2) by (simp add: kb2_node_map_entries_def strict_sorted_iff)
qed

lemma kb2_node_map_find_iff:
  assumes "distinct (artifact_ids st)"
  shows "kb2_node_map_find (kb2_node_map_entries st) node = Some i \<longleftrightarrow>
    i < length (artifact_ids st) \<and> artifact_ids st ! i = node"
proof -
  let ?es = "kb2_node_map_entries st"
  have sorted: "nm_node_id (?es ! k) < nm_node_id (?es ! j)" if "k < j" "j < length ?es" for k j
    using kb2_node_map_entries_sorted [OF assms] that by (auto simp: sorted_wrt_iff_nth_less)
  have found: "kb2_node_map_find ?es node = Some (nm_index (?es ! k))"
    if "k < length ?es" "nm_node_id (?es ! k) = node" for k
    using bsearch_complete [of "length ?es" "\<lambda>k. nm_node_id (?es ! k)"
        "\<lambda>k. Some (nm_node_id (?es ! k))" "length ?es" 0 k] sorted that
    by (auto simp: kb2_node_map_find_def)
  show ?thesis
  proof
    assume "kb2_node_map_find ?es node = Some i"
    then obtain k where "bsearch (\<lambda>k. Some (nm_node_id (?es ! k))) node 0 (length ?es) = Some k"
      "i = nm_index (?es ! k)" by (auto simp: kb2_node_map_find_def)
    then have "?es ! k \<in> set ?es" "nm_node_id (?es ! k) = node" "i = nm_index (?es ! k)"
      by (auto dest: bsearch_sound)
    then show "i < length (artifact_ids st) \<and> artifact_ids st ! i = node"
      by (simp add: kb2_node_map_entries_set)
  next
    assume i: "i < length (artifact_ids st) \<and> artifact_ids st ! i = node"
    then have "\<lparr>nm_node_id = node, nm_index = i\<rparr> \<in> set ?es"
      by (simp add: kb2_node_map_entries_set)
    then obtain k where "k < length ?es" "?es ! k = \<lparr>nm_node_id = node, nm_index = i\<rparr>"
      by (auto simp: in_set_conv_nth)
    then show "kb2_node_map_find ?es node = Some i" using found by fastforce
  qed
qed

section \<open>Adjacency lists represent the edges\<close>

text \<open>The last edge before position \<open>k\<close> whose consumer is \<open>c\<close>.\<close>

fun last_edge :: "(nat \<times> nat) list \<Rightarrow> nat \<Rightarrow> nat \<Rightarrow> nat option" where
  "last_edge es c 0 = None"
| "last_edge es c (Suc k) = (if fst (es ! k) = c then Some k else last_edge es c k)"

definition edges_of :: "(nat \<times> nat) list \<Rightarrow> nat \<Rightarrow> nat \<Rightarrow> nat list" where
  "edges_of es c k = rev (filter (\<lambda>i. fst (es ! i) = c) [0..<k])"

definition indegree :: "(nat \<times> nat) list \<Rightarrow> nat \<Rightarrow> nat" where
  "indegree es v = length (filter (\<lambda>e. snd e = v) es)"

definition represents :: "nat \<Rightarrow> (nat \<times> nat) list \<Rightarrow> kb2_graph \<Rightarrow> bool" where
  "represents n es g \<longleftrightarrow> length (gr_heads g) = n \<and> length (gr_next g) = length es \<and>
     gr_targets g = map snd es \<and> length (gr_incoming g) = n \<and>
     (\<forall>c < n. gr_heads g ! c = last_edge es c (length es)) \<and>
     (\<forall>i < length es. gr_next g ! i = last_edge es (fst (es ! i)) i) \<and>
     (\<forall>v < n. gr_incoming g ! v = of_nat (indegree es v))"

lemma last_edge_append: "k \<le> length es \<Longrightarrow> last_edge (es @ fs) c k = last_edge es c k"
  by (induction k) (auto simp: nth_append)

lemma represents_empty: "represents n [] (kb2_graph_empty n)"
  by (simp add: represents_def kb2_graph_empty_def indegree_def)

lemma represents_add:
  assumes "represents n es g" "c < n" "p < n"
  shows "represents n (es @ [(c, p)])
    \<lparr>gr_heads = (gr_heads g)[c := Some (length (gr_next g))], gr_next = gr_next g @ [gr_heads g ! c],
     gr_targets = gr_targets g @ [p], gr_incoming = (gr_incoming g)[p := gr_incoming g ! p + 1]\<rparr>"
  using assms
  by (auto simp: represents_def last_edge_append nth_append nth_list_update indegree_def less_Suc_eq)

lemma kb2_for_edges_fold:
  assumes next_ok: "\<forall>i < length es. nxt ! i = last_edge es (fst (es ! i)) i"
  shows "k \<le> length es \<Longrightarrow> kb2_for_edges nxt body (last_edge es c k) s = Some (fold body (edges_of es c k) s)"
proof (induction k arbitrary: s)
  case 0
  then show ?case by (simp add: kb2_for_edges.simps edges_of_def)
next
  case (Suc k)
  show ?case
  proof (cases "fst (es ! k) = c")
    case True
    then have "kb2_for_edges nxt body (last_edge es c (Suc k)) s
        = kb2_for_edges nxt body (last_edge es c k) (body k s)"
      using Suc.prems next_ok by (subst kb2_for_edges.simps) simp
    also have "\<dots> = Some (fold body (edges_of es c k) (body k s))"
      using Suc by simp
    finally show ?thesis using True by (simp add: edges_of_def)
  next
    case False
    then show ?thesis using Suc by (simp add: edges_of_def)
  qed
qed

lemma kb2_for_edges_represents:
  "represents n es g \<Longrightarrow> c < n \<Longrightarrow>
   kb2_for_edges (gr_next g) body (gr_heads g ! c) s = Some (fold body (edges_of es c (length es)) s)"
  using kb2_for_edges_fold [of es "gr_next g" "length es" body c s] by (simp add: represents_def)

text \<open>The edges of the storage, when every dependency resolves.\<close>

definition resolve :: "kb2_closure_storage \<Rightarrow> kb2_closure_dependency_record \<Rightarrow> nat \<times> nat" where
  "resolve st d =
     (the (kb2_node_map_find (kb2_node_map_entries st) (dp_consumer_node_id d)),
      the (kb2_node_map_find (kb2_node_map_entries st) (dp_provider_node_id d)))"

definition dependency_ok :: "kb2_closure_storage \<Rightarrow> kb2_closure_dependency_record \<Rightarrow> bool" where
  "dependency_ok st d \<longleftrightarrow> (\<exists>c p. kb2_node_map_find (kb2_node_map_entries st) (dp_consumer_node_id d) = Some c \<and>
     kb2_node_map_find (kb2_node_map_entries st) (dp_provider_node_id d) = Some p \<and>
     \<not> (ar_kind (arr_items (st_artifacts st) ! c) = 0 \<and> ar_kind (arr_items (st_artifacts st) ! p) \<noteq> 0))"

lemma kb2_graph_edges_spec:
  assumes ids: "distinct (artifact_ids st)"
  shows "represents (length (artifact_ids st)) es g \<Longrightarrow> length es + length ds < 2 ^ 32 - 1 \<Longrightarrow>
   (if list_all (dependency_ok st) ds
    then \<exists>g'. kb2_graph_edges st (kb2_node_map_entries st) ds g = Inr g' \<and>
       represents (length (artifact_ids st)) (es @ map (resolve st) ds) g'
    else kb2_graph_edges st (kb2_node_map_entries st) ds g = Inl KB2_STATUS_INVALID_CONFIGURATION)"
proof (induction ds arbitrary: es g)
  case (Cons d ds)
  let ?find = "kb2_node_map_find (kb2_node_map_entries st)"
  show ?case
  proof (cases "dependency_ok st d")
    case False
    then show ?thesis by (auto simp: dependency_ok_def split: option.split)
  next
    case True
    then obtain c p where f: "?find (dp_consumer_node_id d) = Some c" "?find (dp_provider_node_id d) = Some p"
      and kind: "\<not> (ar_kind (arr_items (st_artifacts st) ! c) = 0 \<and>
         ar_kind (arr_items (st_artifacts st) ! p) \<noteq> 0)"
      by (auto simp: dependency_ok_def)
    then have lt: "c < length (artifact_ids st)" "p < length (artifact_ids st)"
      using kb2_node_map_find_iff [OF ids] by blast+
    have "indegree es p \<le> length es" by (simp add: indegree_def)
    then have "unat (of_nat (indegree es p) :: u32) = indegree es p"
      using Cons.prems(2) by (intro unat_of_nat_u32) simp
    then have "gr_incoming g ! p \<noteq> -1"
      using Cons.prems lt \<open>indegree es p \<le> length es\<close>
      by (auto simp: represents_def unsigned_minus_1_eq_mask mask_eq_exp_minus_1 dest!: arg_cong [where f = unat])
    moreover have "resolve st d = (c, p)" using f by (simp add: resolve_def)
    ultimately show ?thesis
      using Cons.IH [OF represents_add [OF Cons.prems(1) lt]] Cons.prems f kind True
      by (auto split: if_splits)
  qed
qed simp

section \<open>Topological sort\<close>

definition edge_count :: "(nat \<times> nat) list \<Rightarrow> nat list \<Rightarrow> nat \<Rightarrow> nat" where
  "edge_count es L v = length (filter (\<lambda>i. snd (es ! i) = v) L)"

lemma edge_count_Cons [simp]:
  "edge_count es (i # L) v = (if snd (es ! i) = v then Suc (edge_count es L v) else edge_count es L v)"
  by (simp add: edge_count_def)

lemma unat_pred: "0 < unat (x :: u32) \<Longrightarrow> unat (x - 1) = unat x - 1"
  by (metis unat_0 less_numeral_extra(3) unat_minus_one)

lemma release_fold:
  assumes "\<forall>i \<in> set L. i < length es" "\<forall>i < length es. snd (es ! i) < n"
    "length inc = n" "\<forall>v < n. edge_count es L v \<le> unat (inc ! v)"
  shows "\<exists>inc' new. fold (kb2_release_provider (map snd es)) L (inc, queue) = (inc', queue @ new) \<and>
    length inc' = n \<and> (\<forall>v < n. unat (inc' ! v) = unat (inc ! v) - edge_count es L v) \<and>
    distinct new \<and> set new = {v. v < n \<and> 0 < edge_count es L v \<and> unat (inc ! v) = edge_count es L v}"
  using assms
proof (induction L arbitrary: inc queue)
  case Nil
  then show ?case by (auto simp: edge_count_def)
next
  case (Cons i L)
  let ?p = "snd (es ! i)"
  let ?inc = "inc[?p := inc ! ?p - 1]"
  let ?queue = "if ?inc ! ?p = 0 then queue @ [?p] else queue"
  have p: "?p < n" and i: "i < length es" using Cons.prems by auto
  have pos: "Suc (edge_count es L ?p) \<le> unat (inc ! ?p)" using Cons.prems(4) p by force
  then have one: "unat (?inc ! ?p) = unat (inc ! ?p) - 1"
    using Cons.prems(3) p by (simp add: unat_pred)
  have other: "?inc ! v = inc ! v" if "v \<noteq> ?p" for v using that by simp
  have bound: "\<forall>v < n. edge_count es L v \<le> unat (?inc ! v)"
  proof (intro allI impI)
    fix v assume "v < n"
    then show "edge_count es L v \<le> unat (?inc ! v)"
      using pos one other [of v] Cons.prems(4) by (cases "v = ?p") auto
  qed
  have step: "fold (kb2_release_provider (map snd es)) (i # L) (inc, queue)
      = fold (kb2_release_provider (map snd es)) L (?inc, ?queue)"
    using i by (simp add: kb2_release_provider_def Let_def)
  obtain inc' new where r: "fold (kb2_release_provider (map snd es)) L (?inc, ?queue) = (inc', ?queue @ new)"
    "length inc' = n" "\<forall>v < n. unat (inc' ! v) = unat (?inc ! v) - edge_count es L v" "distinct new"
    "set new = {v. v < n \<and> 0 < edge_count es L v \<and> unat (?inc ! v) = edge_count es L v}"
    using Cons.IH [of ?inc ?queue] Cons.prems bound by auto
  have zero: "?inc ! ?p = 0 \<longleftrightarrow> unat (inc ! ?p) = 1"
  proof -
    have "?inc ! ?p = 0 \<longleftrightarrow> unat (?inc ! ?p) = 0" by (simp only: unat_eq_0)
    then show ?thesis using one pos by linarith
  qed
  let ?new = "if ?inc ! ?p = 0 then ?p # new else new"
  have v1: "\<forall>v < n. unat (inc' ! v) = unat (inc ! v) - edge_count es (i # L) v"
    using r(3) one other pos by (auto simp: nth_list_update)
  have v2: "distinct ?new" using r(4,5) zero pos one by auto
  have v3: "set ?new = {v. v < n \<and> 0 < edge_count es (i # L) v \<and> unat (inc ! v) = edge_count es (i # L) v}"
  proof (rule set_eqI)
    fix v
    have mem: "v \<in> set new \<longleftrightarrow> v < n \<and> 0 < edge_count es L v \<and> unat (?inc ! v) = edge_count es L v"
      unfolding r(5) by simp
    show "v \<in> set ?new \<longleftrightarrow>
      v \<in> {v. v < n \<and> 0 < edge_count es (i # L) v \<and> unat (inc ! v) = edge_count es (i # L) v}"
    proof (cases "v = ?p")
      case True
      have "v \<in> set new \<longleftrightarrow> 0 < edge_count es L ?p \<and> unat (inc ! ?p) - 1 = edge_count es L ?p"
        using mem p one unfolding True by simp
      then show ?thesis using True p pos zero by auto
    next
      case False
      then have "v \<in> set ?new \<longleftrightarrow> v \<in> set new" by simp
      also have "\<dots> \<longleftrightarrow> v < n \<and> 0 < edge_count es L v \<and> unat (inc ! v) = edge_count es L v"
        unfolding mem other [OF False] ..
      finally show ?thesis using False by simp
    qed
  qed
  have "fold (kb2_release_provider (map snd es)) (i # L) (inc, queue) = (inc', queue @ ?new)"
    using step r(1) by simp
  then show ?case using r(2) v1 v2 v3 by blast
qed

text \<open>
  Invariant of the main loop: nodes before \<open>b\<close> in the queue are done; \<open>inc\<close> counts the edges
  from nodes that are not done; exactly the nodes without such edges are queued; and every
  queued node stands after all its consumers.
\<close>

definition pending_edges :: "(nat \<times> nat) list \<Rightarrow> nat set \<Rightarrow> nat \<Rightarrow> nat" where
  "pending_edges es D v = length (filter (\<lambda>e. snd e = v \<and> fst e \<notin> D) es)"

definition kahn_inv :: "nat \<Rightarrow> (nat \<times> nat) list \<Rightarrow> u32 list \<Rightarrow> nat list \<Rightarrow> nat \<Rightarrow> bool" where
  "kahn_inv n es inc queue b \<longleftrightarrow> length inc = n \<and> b \<le> length queue \<and> distinct queue \<and>
     set queue \<subseteq> {..<n} \<and>
     (\<forall>v < n. unat (inc ! v) = pending_edges es (set (take b queue)) v) \<and>
     (\<forall>v < n. v \<in> set queue \<longleftrightarrow> unat (inc ! v) = 0) \<and>
     (\<forall>j < length queue. \<forall>c. (c, queue ! j) \<in> set es \<longrightarrow> c \<in> set (take j queue))"

lemma pending_edges_0: "pending_edges es D v = 0 \<longleftrightarrow> (\<forall>c. (c, v) \<in> set es \<longrightarrow> c \<in> D)"
  by (auto simp: pending_edges_def filter_empty_conv)

lemma edge_count_edges_of:
  "edge_count es (edges_of es c (length es)) v = length (filter (\<lambda>e. fst e = c \<and> snd e = v) es)"
proof -
  have "edge_count es (edges_of es c (length es)) v
      = length (filter (\<lambda>i. fst (es ! i) = c \<and> snd (es ! i) = v) [0..<length es])"
    by (simp add: edge_count_def edges_of_def rev_filter [symmetric] conj_commute)
  also have "\<dots> = length (filter (\<lambda>e. fst e = c \<and> snd e = v) (map ((!) es) [0..<length es]))"
    by (simp only: filter_map length_map o_def)
  finally show ?thesis by (simp only: map_nth)
qed

lemma pending_edges_insert:
  "c \<notin> D \<Longrightarrow> pending_edges es D v =
     pending_edges es (insert c D) v + edge_count es (edges_of es c (length es)) v"
  unfolding edge_count_edges_of pending_edges_def
  by (induction es) auto

lemma kahn_inv_step:
  assumes es: "\<forall>i < length es. snd (es ! i) < n" and inv: "kahn_inv n es inc queue b" and b: "b < length queue"
  shows "\<exists>inc' queue'. fold (kb2_release_provider (map snd es)) (edges_of es (queue ! b) (length es)) (inc, queue)
      = (inc', queue') \<and> kahn_inv n es inc' queue' (Suc b)"
proof -
  let ?c = "queue ! b" and ?D = "set (take b queue)"
  let ?L = "edges_of es ?c (length es)"
  have q: "length inc = n" "distinct queue" "set queue \<subseteq> {..<n}"
    and cnt: "\<And>v. v < n \<Longrightarrow> unat (inc ! v) = pending_edges es ?D v"
    and mem: "\<And>v. v < n \<Longrightarrow> v \<in> set queue \<longleftrightarrow> unat (inc ! v) = 0"
    and top: "\<And>j c. j < length queue \<Longrightarrow> (c, queue ! j) \<in> set es \<Longrightarrow> c \<in> set (take j queue)"
    using inv unfolding kahn_inv_def by blast+
  have D: "?c \<notin> ?D" using q(2) b by (auto simp: in_set_conv_nth distinct_conv_nth)
  have D': "set (take (Suc b) queue) = insert ?c ?D" using b by (simp add: take_Suc_conv_app_nth)
  have L: "\<forall>i \<in> set ?L. i < length es" by (auto simp: edges_of_def)
  have le: "\<forall>v < n. edge_count es ?L v \<le> unat (inc ! v)"
    using cnt pending_edges_insert [OF D, of es] by simp
  obtain inc' new where r: "fold (kb2_release_provider (map snd es)) ?L (inc, queue) = (inc', queue @ new)"
    "length inc' = n" "\<forall>v < n. unat (inc' ! v) = unat (inc ! v) - edge_count es ?L v" "distinct new"
    "set new = {v. v < n \<and> 0 < edge_count es ?L v \<and> unat (inc ! v) = edge_count es ?L v}"
    using release_fold [OF L es q(1) le] by blast
  have tk: "take (Suc b) (queue @ new) = take (Suc b) queue" using b by simp
  have cnt': "\<forall>v < n. unat (inc' ! v) = pending_edges es (insert ?c ?D) v"
    using r(3) cnt pending_edges_insert [OF D, of es] by simp
  have disj: "set queue \<inter> set new = {}"
    using mem r(5) by fastforce
  have mem': "\<forall>v < n. v \<in> set (queue @ new) \<longleftrightarrow> unat (inc' ! v) = 0"
  proof (intro allI impI)
    fix v assume "v < n"
    then show "v \<in> set (queue @ new) \<longleftrightarrow> unat (inc' ! v) = 0"
      using mem [of v] r(3) r(5) le by auto
  qed
  have top': "c \<in> set (take j (queue @ new))" if "j < length (queue @ new)" "(c, (queue @ new) ! j) \<in> set es" for j c
  proof (cases "j < length queue")
    case True
    then show ?thesis using that top [of j c] by (simp add: nth_append)
  next
    case False
    let ?v = "(queue @ new) ! j"
    have "?v \<in> set new" using that False by (auto simp: nth_append)
    then have "?v < n" "?v \<in> set (queue @ new)" using r(5) by auto
    then have "pending_edges es (insert ?c ?D) ?v = 0" using mem' cnt' by auto
    then have "c \<in> insert ?c ?D" using that(2) unfolding pending_edges_0 by blast
    then have "c \<in> set (take (Suc b) (queue @ new))" unfolding tk D' .
    then show ?thesis using False b set_take_subset_set_take [of "Suc b" j "queue @ new"] by auto
  qed
  have "kahn_inv n es inc' (queue @ new) (Suc b)"
    unfolding kahn_inv_def using r(2,4) b q disj cnt' mem' top' D' tk r(5) by auto
  then show ?thesis using r(1) by blast
qed

lemma represents_targets: "represents n es g \<Longrightarrow> gr_targets g = map snd es"
  by (simp add: represents_def)

lemma kb2_topological_loop_spec:
  assumes g: "represents n es g" and es: "\<forall>i < length es. snd (es ! i) < n"
  shows "kahn_inv n es inc queue b \<Longrightarrow>
    \<exists>inc' queue'. kb2_topological_loop g inc queue b b = Some (length queue') \<and>
      kahn_inv n es inc' queue' (length queue')"
proof (induction "n - b" arbitrary: inc queue b rule: less_induct)
  case less
  show ?case
  proof (cases "b < length queue")
    case True
    obtain inc' queue' where step: "fold (kb2_release_provider (map snd es))
        (edges_of es (queue ! b) (length es)) (inc, queue) = (inc', queue')" "kahn_inv n es inc' queue' (Suc b)"
      using kahn_inv_step [OF es less.prems True] by blast
    have "queue ! b \<in> set queue" using True by simp
    then have c: "queue ! b < n" using less.prems by (auto simp: kahn_inv_def)
    have "length queue \<le> n"
      using less.prems unfolding kahn_inv_def by (metis card_lessThan card_mono distinct_card finite_lessThan)
    then have "n - Suc b < n - b" using True by simp
    from less.hyps [OF this step(2)] obtain inc2 queue2 where
      "kb2_topological_loop g inc' queue' (Suc b) (Suc b) = Some (length queue2)"
      "kahn_inv n es inc2 queue2 (length queue2)" by blast
    moreover have "kb2_for_edges (gr_next g) (kb2_release_provider (gr_targets g)) (gr_heads g ! (queue ! b))
        (inc, queue) = Some (inc', queue')"
      by (simp add: kb2_for_edges_represents [OF g c] represents_targets [OF g] step(1))
    then have "kb2_topological_loop g inc queue b b = kb2_topological_loop g inc' queue' (Suc b) (Suc b)"
      using True by (subst kb2_topological_loop.simps) simp
    ultimately show ?thesis by auto
  next
    case False
    then have "b = length queue" using less.prems by (simp add: kahn_inv_def)
    then show ?thesis using less.prems False by (subst kb2_topological_loop.simps) auto
  qed
qed

lemma kahn_inv_init:
  assumes "represents n es g" "length es < 2 ^ 32"
  shows "kahn_inv n es (gr_incoming g) (filter (\<lambda>i. gr_incoming g ! i = 0) [0..<n]) 0"
proof -
  have "unat (gr_incoming g ! v) = indegree es v" if "v < n" for v
  proof -
    have "indegree es v < 2 ^ 32" using assms(2) by (simp add: indegree_def le_less_trans [OF length_filter_le])
    then show ?thesis using assms that unat_of_nat_u32 by (simp add: represents_def)
  qed
  moreover have "indegree es v = pending_edges es {} v" for v
    by (simp add: indegree_def pending_edges_def)
  ultimately have cnt: "\<forall>v < n. unat (gr_incoming g ! v) = pending_edges es {} v" by simp
  have none: "(c, v) \<notin> set es" if "v < n" "gr_incoming g ! v = 0" for c v
    using cnt that pending_edges_0 [of es "{}" v] by auto
  let ?q = "filter (\<lambda>i. gr_incoming g ! i = 0) [0..<n]"
  have "(c, ?q ! j) \<notin> set es" if "j < length ?q" for c j
    using nth_mem [OF that] none by auto
  then show ?thesis
    using assms(1) cnt unfolding kahn_inv_def represents_def by (auto simp: unat_eq_0)
qed

lemma kahn_inv_final:
  assumes inv: "kahn_inv n es inc queue (length queue)" and es: "set es \<subseteq> {..<n} \<times> {..<n}"
  shows "length queue = n \<longleftrightarrow> acyclic (set es)"
proof
  assume "length queue = n"
  define rank where "rank v = (LEAST j. j < length queue \<and> queue ! j = v)" for v
  have queue: "distinct queue" "set queue \<subseteq> {..<n}"
    and top: "\<And>j c. j < length queue \<Longrightarrow> (c, queue ! j) \<in> set es \<Longrightarrow> c \<in> set (take j queue)"
    using inv unfolding kahn_inv_def by blast+
  have "set queue = {..<n}"
    using queue \<open>length queue = n\<close> by (intro card_subset_eq) (auto simp: distinct_card)
  have rank: "rank (queue ! j) = j" if "j < length queue" for j
    unfolding rank_def using that queue(1) by (intro Least_equality) (auto simp: nth_eq_iff_index_eq)
  have "(c, v) \<in> set es \<Longrightarrow> rank c < rank v" for c v
  proof -
    assume e: "(c, v) \<in> set es"
    then have "v \<in> set queue" using es \<open>set queue = {..<n}\<close> by auto
    then obtain j where j: "j < length queue" "queue ! j = v" by (auto simp: in_set_conv_nth)
    then have "c \<in> set (take j queue)" using e top by blast
    then obtain k where "k < j" "queue ! k = c" using j by (auto simp: in_set_conv_nth)
    then show "rank c < rank v" using rank j by (metis order_less_trans)
  qed
  then have "set es \<subseteq> measure rank" by auto
  then show "acyclic (set es)" using wf_measure wf_acyclic wf_subset by blast
next
  assume "acyclic (set es)"
  then have wf: "wf (set es)" by (simp add: finite_acyclic_wf)
  have queue: "distinct queue" "set queue \<subseteq> {..<n}"
    and cnt: "\<And>v. v < n \<Longrightarrow> unat (inc ! v) = pending_edges es (set queue) v"
    and mem: "\<And>v. v < n \<Longrightarrow> v \<in> set queue \<longleftrightarrow> unat (inc ! v) = 0"
    using inv unfolding kahn_inv_def by auto
  have "{..<n} \<subseteq> set queue"
  proof (rule ccontr)
    assume "\<not> {..<n} \<subseteq> set queue"
    then have "{..<n} - set queue \<noteq> {}" by blast
    then obtain v where v: "v \<in> {..<n} - set queue" "\<And>c. (c, v) \<in> set es \<Longrightarrow> c \<notin> {..<n} - set queue"
      using wf by (metis ex_in_conv wfE_min)
    then have "pending_edges es (set queue) v = 0"
      using es unfolding pending_edges_0 by blast
    then show False using v cnt [of v] mem [of v] by simp
  qed
  then have "set queue = {..<n}" using queue by auto
  then show "length queue = n" using queue(1) distinct_card [of queue] by simp
qed

section \<open>Reachability\<close>

lemma reach_fold:
  assumes "\<forall>i \<in> set L. i < length es" "\<forall>i < length es. snd (es ! i) < n" "length R = n"
  shows "\<exists>R' new. fold (kb2_reach_provider (map snd es)) L (R, queue) = (R', queue @ new) \<and>
    length R' = n \<and> (\<forall>v < n. R' ! v \<longleftrightarrow> R ! v \<or> v \<in> (\<lambda>i. snd (es ! i)) ` set L) \<and>
    distinct new \<and> set new = {v \<in> (\<lambda>i. snd (es ! i)) ` set L. \<not> R ! v}"
  using assms
proof (induction L arbitrary: R queue)
  case (Cons i L)
  let ?p = "snd (es ! i)"
  have p: "?p < n" and i: "i < length es" using Cons.prems by auto
  show ?case
  proof (cases "R ! ?p")
    case True
    then have "fold (kb2_reach_provider (map snd es)) (i # L) (R, queue)
        = fold (kb2_reach_provider (map snd es)) L (R, queue)"
      using i by (simp add: kb2_reach_provider_def)
    moreover obtain R' new where r: "fold (kb2_reach_provider (map snd es)) L (R, queue) = (R', queue @ new)"
      "length R' = n" "\<forall>v < n. R' ! v \<longleftrightarrow> R ! v \<or> v \<in> (\<lambda>i. snd (es ! i)) ` set L" "distinct new"
      "set new = {v \<in> (\<lambda>i. snd (es ! i)) ` set L. \<not> R ! v}"
      using Cons.IH [of R queue] Cons.prems by auto
    ultimately show ?thesis using True by (intro exI [of _ R'] exI [of _ new]) auto
  next
    case False
    let ?R = "R[?p := True]"
    have "fold (kb2_reach_provider (map snd es)) (i # L) (R, queue)
        = fold (kb2_reach_provider (map snd es)) L (?R, queue @ [?p])"
      using False i by (simp add: kb2_reach_provider_def Let_def)
    moreover obtain R' new where r: "fold (kb2_reach_provider (map snd es)) L (?R, queue @ [?p])
        = (R', (queue @ [?p]) @ new)" "length R' = n"
      "\<forall>v < n. R' ! v \<longleftrightarrow> ?R ! v \<or> v \<in> (\<lambda>i. snd (es ! i)) ` set L" "distinct new"
      "set new = {v \<in> (\<lambda>i. snd (es ! i)) ` set L. \<not> ?R ! v}"
      using Cons.IH [of ?R "queue @ [?p]"] Cons.prems by auto
    moreover have upd: "?R ! v \<longleftrightarrow> v = ?p \<or> R ! v" for v
      using p Cons.prems(3) by (cases "v = ?p") auto
    ultimately show ?thesis
      using False by (intro exI [of _ R'] exI [of _ "?p # new"]) (auto simp: upd)
  qed
qed auto

definition bfs_inv :: "nat \<Rightarrow> (nat \<times> nat) list \<Rightarrow> nat set \<Rightarrow> bool list \<Rightarrow> nat list \<Rightarrow> nat \<Rightarrow> bool" where
  "bfs_inv n es roots R queue b \<longleftrightarrow> length R = n \<and> b \<le> length queue \<and> distinct queue \<and>
     set queue \<subseteq> {..<n} \<and> (\<forall>v < n. R ! v \<longleftrightarrow> v \<in> set queue) \<and> roots \<subseteq> set queue \<and>
     set queue \<subseteq> (set es)\<^sup>* `` roots \<and> set es `` set (take b queue) \<subseteq> set queue"

lemma edges_of_targets: "(\<lambda>i. snd (es ! i)) ` set (edges_of es c (length es)) = set es `` {c}"
  by (force simp: edges_of_def in_set_conv_nth)

lemma bfs_inv_step:
  assumes es: "\<forall>i < length es. snd (es ! i) < n" and inv: "bfs_inv n es roots R queue b" and b: "b < length queue"
  shows "\<exists>R' queue'. fold (kb2_reach_provider (map snd es)) (edges_of es (queue ! b) (length es)) (R, queue)
      = (R', queue') \<and> bfs_inv n es roots R' queue' (Suc b)"
proof -
  let ?c = "queue ! b"
  let ?L = "edges_of es ?c (length es)"
  have L: "\<forall>i \<in> set ?L. i < length es" by (auto simp: edges_of_def)
  have q: "length R = n" "distinct queue" "set queue \<subseteq> {..<n}" "\<forall>v < n. R ! v \<longleftrightarrow> v \<in> set queue"
    "roots \<subseteq> set queue" "set queue \<subseteq> (set es)\<^sup>* `` roots" "set es `` set (take b queue) \<subseteq> set queue"
    using inv unfolding bfs_inv_def by blast+
  obtain R' new where r: "fold (kb2_reach_provider (map snd es)) ?L (R, queue) = (R', queue @ new)"
    "length R' = n" "\<forall>v < n. R' ! v \<longleftrightarrow> R ! v \<or> v \<in> set es `` {?c}" "distinct new"
    "set new = {v \<in> set es `` {?c}. \<not> R ! v}"
    using reach_fold [OF L es q(1), of queue] unfolding edges_of_targets by blast
  have sub: "set es `` {?c} \<subseteq> {..<n}" using es by (force simp: in_set_conv_nth)
  have new: "set new = set es `` {?c} - set queue" using r(5) q(4) sub by auto
  have "?c \<in> (set es)\<^sup>* `` roots" using q(6) b by auto
  then have reach: "set es `` {?c} \<subseteq> (set es)\<^sup>* `` roots" by (auto intro: rtrancl_into_rtrancl)
  have tk: "set (take (Suc b) (queue @ new)) = insert ?c (set (take b queue))"
    using b by (simp add: take_Suc_conv_app_nth)
  have "bfs_inv n es roots R' (queue @ new) (Suc b)"
    unfolding bfs_inv_def tk using r(2,3,4) q b new sub reach by auto
  then show ?thesis using r(1) by blast
qed

lemma kb2_reachable_loop_spec:
  assumes g: "represents n es g" and es: "\<forall>i < length es. snd (es ! i) < n"
  shows "bfs_inv n es roots R queue b \<Longrightarrow>
    \<exists>R' queue'. kb2_reachable_loop g R queue b = Some R' \<and> bfs_inv n es roots R' queue' (length queue')"
proof (induction "n - b" arbitrary: R queue b rule: less_induct)
  case less
  show ?case
  proof (cases "b < length queue")
    case True
    obtain R' queue' where step: "fold (kb2_reach_provider (map snd es))
        (edges_of es (queue ! b) (length es)) (R, queue) = (R', queue')" "bfs_inv n es roots R' queue' (Suc b)"
      using bfs_inv_step [OF es less.prems True] by blast
    have "queue ! b \<in> set queue" using True by simp
    then have c: "queue ! b < n" using less.prems by (auto simp: bfs_inv_def)
    have "length queue \<le> n"
      using less.prems unfolding bfs_inv_def by (metis card_lessThan card_mono distinct_card finite_lessThan)
    then have "n - Suc b < n - b" using True by simp
    from less.hyps [OF this step(2)] obtain R2 queue2 where
      "kb2_reachable_loop g R' queue' (Suc b) = Some R2" "bfs_inv n es roots R2 queue2 (length queue2)" by blast
    moreover have "kb2_for_edges (gr_next g) (kb2_reach_provider (gr_targets g)) (gr_heads g ! (queue ! b))
        (R, queue) = Some (R', queue')"
      by (simp add: kb2_for_edges_represents [OF g c] represents_targets [OF g] step(1))
    then have "kb2_reachable_loop g R queue b = kb2_reachable_loop g R' queue' (Suc b)"
      using True by (subst kb2_reachable_loop.simps) simp
    ultimately show ?thesis by auto
  next
    case False
    then have "b = length queue" using less.prems by (simp add: bfs_inv_def)
    then show ?thesis using less.prems False by (subst kb2_reachable_loop.simps) auto
  qed
qed

lemma bfs_inv_final:
  assumes "bfs_inv n es roots R queue (length queue)"
  shows "set queue = (set es)\<^sup>* `` roots"
proof -
  have "v \<in> set queue" if "(r, v) \<in> (set es)\<^sup>*" "r \<in> roots" for r v
    using that assms by (induction rule: rtrancl_induct) (auto simp: bfs_inv_def)
  then show ?thesis using assms by (auto simp: bfs_inv_def)
qed

section \<open>The check decides the graph condition\<close>

definition dependency_relation :: "kb2_closure_storage \<Rightarrow> (u32 \<times> u32) set" where
  "dependency_relation st =
     (\<lambda>d. (dp_consumer_node_id d, dp_provider_node_id d)) ` set (arr_items (st_dependencies st))"

text \<open>
  The condition on the graph, over node identifiers: every dependency joins two artifacts and
  no shared provider depends on a module; there is no cycle; and every artifact is needed,
  directly or not, by a root module.
\<close>

definition graph_spec :: "kb2_closure_storage \<Rightarrow> bool" where
  "graph_spec st \<longleftrightarrow>
     (\<forall>(c, p) \<in> dependency_relation st. \<exists>a \<in> set (arr_items (st_artifacts st)).
        \<exists>b \<in> set (arr_items (st_artifacts st)). ar_node_id a = c \<and> ar_node_id b = p \<and>
          (ar_kind a = 0 \<longrightarrow> ar_kind b = 0)) \<and>
     acyclic (dependency_relation st) \<and>
     (\<forall>a \<in> set (arr_items (st_artifacts st)). \<exists>r \<in> set (arr_items (st_artifacts st)).
        ar_is_root r \<and> (ar_node_id r, ar_node_id a) \<in> (dependency_relation st)\<^sup>*)"

lemma acyclic_inv_image: "acyclic r \<Longrightarrow> acyclic (inv_image r f)"
proof -
  have "(x, y) \<in> (inv_image r f)\<^sup>+ \<Longrightarrow> (f x, f y) \<in> r\<^sup>+" for x y
    by (induction rule: trancl_induct) (auto intro: trancl_into_trancl)
  then show "acyclic r \<Longrightarrow> ?thesis" by (auto simp: acyclic_def)
qed

lemma relation_image:
  assumes f: "inj_on f A" and r: "r \<subseteq> A \<times> A"
  shows "acyclic (map_prod f f ` r) \<longleftrightarrow> acyclic r"
    and "x \<in> A \<Longrightarrow> y \<in> A \<Longrightarrow> (f x, f y) \<in> (map_prod f f ` r)\<^sup>* \<longleftrightarrow> (x, y) \<in> r\<^sup>*"
proof -
  have "r \<subseteq> inv_image (map_prod f f ` r) f" by auto
  moreover have "map_prod f f ` r \<subseteq> inv_image r (inv_into A f)"
    using r by (auto simp: inv_into_f_f [OF f])
  ultimately show "acyclic (map_prod f f ` r) \<longleftrightarrow> acyclic r"
    using acyclic_inv_image acyclic_subset by metis
next
  assume x: "x \<in> A" and y: "y \<in> A"
  have "(x, z) \<in> r\<^sup>* \<Longrightarrow> (f x, f z) \<in> (map_prod f f ` r)\<^sup>*" for z
    by (induction rule: rtrancl_induct) (auto intro: rtrancl_into_rtrancl)
  moreover have "(f x, w) \<in> (map_prod f f ` r)\<^sup>* \<Longrightarrow> \<exists>z \<in> A. w = f z \<and> (x, z) \<in> r\<^sup>*" for w
  proof (induction rule: rtrancl_induct)
    case (step w w')
    then obtain z a b where "z \<in> A" "w = f z" "(x, z) \<in> r\<^sup>*" "(a, b) \<in> r" "w = f a" "w' = f b" by auto
    moreover then have "a = z" using f r by (auto dest: inj_onD)
    ultimately show ?case using r by (auto intro: rtrancl_into_rtrancl)
  qed (use x in auto)
  ultimately show "(f x, f y) \<in> (map_prod f f ` r)\<^sup>* \<longleftrightarrow> (x, y) \<in> r\<^sup>*"
    using inj_onD [OF f _ y] by blast
qed

lemma nth_node_id:
  "i < length (artifact_ids st) \<Longrightarrow> artifact_ids st ! i = ar_node_id (arr_items (st_artifacts st) ! i)"
  by (simp add: artifact_ids_def)

lemma dependency_ok_iff:
  assumes ids: "distinct (artifact_ids st)"
  shows "dependency_ok st d \<longleftrightarrow> (\<exists>a \<in> set (arr_items (st_artifacts st)).
        \<exists>b \<in> set (arr_items (st_artifacts st)). ar_node_id a = dp_consumer_node_id d \<and>
          ar_node_id b = dp_provider_node_id d \<and> (ar_kind a = 0 \<longrightarrow> ar_kind b = 0))"
proof -
  let ?as = "arr_items (st_artifacts st)"
  have find: "kb2_node_map_find (kb2_node_map_entries st) node = Some i \<longleftrightarrow>
      i < length ?as \<and> ar_node_id (?as ! i) = node" for node i
    using kb2_node_map_find_iff [OF ids] by (auto simp: artifact_ids_def)
  show ?thesis
    unfolding dependency_ok_def find by (metis in_set_conv_nth)
qed

lemma resolve_ok:
  assumes ids: "distinct (artifact_ids st)" and d: "dependency_ok st d"
  shows "fst (resolve st d) < length (artifact_ids st)" "snd (resolve st d) < length (artifact_ids st)"
    "artifact_ids st ! fst (resolve st d) = dp_consumer_node_id d"
    "artifact_ids st ! snd (resolve st d) = dp_provider_node_id d"
proof -
  obtain c p where "kb2_node_map_find (kb2_node_map_entries st) (dp_consumer_node_id d) = Some c"
    "kb2_node_map_find (kb2_node_map_entries st) (dp_provider_node_id d) = Some p"
    using d unfolding dependency_ok_def by blast
  moreover from this have "c < length (artifact_ids st) \<and> artifact_ids st ! c = dp_consumer_node_id d"
    "p < length (artifact_ids st) \<and> artifact_ids st ! p = dp_provider_node_id d"
    by (simp_all only: kb2_node_map_find_iff [OF ids])
  ultimately show "fst (resolve st d) < length (artifact_ids st)" "snd (resolve st d) < length (artifact_ids st)"
    "artifact_ids st ! fst (resolve st d) = dp_consumer_node_id d"
    "artifact_ids st ! snd (resolve st d) = dp_provider_node_id d"
    by (simp_all add: resolve_def)
qed

lemma kb2_graph_status_spec:
  assumes ids: "distinct (artifact_ids st)" and few: "length (arr_items (st_dependencies st)) < 2 ^ 32 - 1"
  shows "kb2_graph_status st (kb2_node_map_entries st)
    = Some (if graph_spec st then KB2_STATUS_OK else KB2_STATUS_INVALID_CONFIGURATION)"
proof -
  let ?ds = "arr_items (st_dependencies st)" and ?as = "arr_items (st_artifacts st)"
  let ?n = "length (artifact_ids st)" and ?f = "\<lambda>i. artifact_ids st ! i"
  let ?es = "map (resolve st) ?ds" and ?roots = "{i. i < ?n \<and> ar_is_root (?as ! i)}"
  have n: "?n = length ?as" by (simp add: artifact_ids_def)
  have deps: "(\<forall>(c, p) \<in> dependency_relation st. \<exists>a \<in> set ?as. \<exists>b \<in> set ?as. ar_node_id a = c \<and>
      ar_node_id b = p \<and> (ar_kind a = 0 \<longrightarrow> ar_kind b = 0)) \<longleftrightarrow> list_all (dependency_ok st) ?ds"
    by (auto simp: dependency_relation_def list_all_iff dependency_ok_iff [OF ids])
  show ?thesis
  proof (cases "list_all (dependency_ok st) ?ds")
    case False
    then show ?thesis
      using kb2_graph_edges_spec [OF ids represents_empty, of ?ds] few deps
      by (simp add: kb2_graph_status_def graph_spec_def n)
  next
    case True
    then obtain g where edges: "kb2_graph_edges st (kb2_node_map_entries st) ?ds (kb2_graph_empty ?n) = Inr g"
      and g: "represents ?n ?es g"
      using kb2_graph_edges_spec [OF ids represents_empty, of ?ds] few by auto
    have ok: "dependency_ok st d" if "d \<in> set ?ds" for d using True that by (simp add: list_all_iff)
    have sub: "set ?es \<subseteq> {..<?n} \<times> {..<?n}"
      using resolve_ok(1,2) [OF ids ok] by (simp add: image_subset_iff mem_Times_iff)
    then have snd: "\<forall>i < length ?es. snd (?es ! i) < ?n" using resolve_ok(2) [OF ids ok] by auto
    have inj: "inj_on ?f {..<?n}" using ids by (auto simp: inj_on_def nth_eq_iff_index_eq)
    have "map_prod ?f ?f (resolve st d) = (dp_consumer_node_id d, dp_provider_node_id d)" if "d \<in> set ?ds" for d
      using resolve_ok [OF ids ok [OF that]] by (cases "resolve st d") simp
    then have image: "dependency_relation st = map_prod ?f ?f ` set ?es"
      unfolding dependency_relation_def set_map image_image by (intro image_cong refl) (rule sym)
    obtain inc queue where kahn: "kb2_topological_loop g (gr_incoming g)
        (filter (\<lambda>i. gr_incoming g ! i = 0) [0..<?n]) 0 0 = Some (length queue)"
      "kahn_inv ?n ?es inc queue (length queue)"
      using kb2_topological_loop_spec [OF g snd kahn_inv_init [OF g]] few by auto
    have acyclic: "length queue = ?n \<longleftrightarrow> acyclic (dependency_relation st)"
      using kahn_inv_final [OF kahn(2) sub] relation_image(1) [OF inj sub] image by simp
    have "bfs_inv ?n ?es ?roots (map (\<lambda>i. ar_is_root (?as ! i)) [0..<?n])
        (filter (\<lambda>i. ar_is_root (?as ! i)) [0..<?n]) 0"
      by (auto simp: bfs_inv_def)
    from kb2_reachable_loop_spec [OF g snd this] obtain R q where
      reach: "kb2_reachable_loop g (map (\<lambda>i. ar_is_root (?as ! i)) [0..<?n])
        (filter (\<lambda>i. ar_is_root (?as ! i)) [0..<?n]) 0 = Some R" "bfs_inv ?n ?es ?roots R q (length q)"
      by blast
    have "(\<forall>i < ?n. R ! i) \<longleftrightarrow> (\<forall>i < ?n. \<exists>r \<in> ?roots. (r, i) \<in> (set ?es)\<^sup>*)"
      using reach(2) bfs_inv_final [OF reach(2)] unfolding bfs_inv_def by auto
    also have "\<dots> \<longleftrightarrow> (\<forall>i < ?n. \<exists>r \<in> ?roots. (?f r, ?f i) \<in> (dependency_relation st)\<^sup>*)"
      unfolding image using relation_image(2) [OF inj sub] by (metis (no_types, lifting) lessThan_iff mem_Collect_eq)
    also have "\<dots> \<longleftrightarrow> (\<forall>a \<in> set ?as. \<exists>r \<in> set ?as. ar_is_root r \<and>
        (ar_node_id r, ar_node_id a) \<in> (dependency_relation st)\<^sup>*)"
      unfolding n artifact_ids_def by (auto simp: all_set_conv_all_nth Bex_def in_set_conv_nth)
    finally have "graph_spec st \<longleftrightarrow> length queue = ?n \<and> (\<forall>i < ?n. R ! i)"
      unfolding graph_spec_def deps acyclic using True by simp
    then show ?thesis
      using edges kahn(1) reach(1) n by (auto simp: kb2_graph_status_def Let_def)
  qed
qed

definition block_of :: "nat option \<Rightarrow> nat \<Rightarrow> (nat \<times> nat) multiset" where
  "block_of b n = (case b of None \<Rightarrow> {#} | Some p \<Rightarrow> {#(p, n)#})"

lemma allocate_block_of:
  "allocator_laws al live \<Longrightarrow> al_allocate al h n = (b, h') \<Longrightarrow> live h' = live h + block_of b n"
  using allocator_allocate [of al live h n] by (cases b) (auto simp: block_of_def)

lemma kb2_free_if_block_of:
  "allocator_laws al live \<Longrightarrow> live h = R + block_of b n \<Longrightarrow> live (kb2_free_if al b n h) = R"
  by (cases b) (auto simp: block_of_def kb2_free_if_def allocator_deallocate)

lemma kb2_validate_graph_spec:
  assumes ids: "distinct (artifact_ids st)" and few: "length (arr_items (st_dependencies st)) < 2 ^ 32 - 1"
    and al: "allocator_laws al live"
  shows "\<exists>s h'. kb2_validate_graph al h st (kb2_node_map_entries st) = Some (s, h') \<and> live h' = live h \<and>
    (s = KB2_STATUS_NO_MEMORY \<or>
     s = (if graph_spec st then KB2_STATUS_OK else KB2_STATUS_INVALID_CONFIGURATION))"
proof -
  let ?n = "length (arr_items (st_artifacts st))" and ?d = "length (arr_items (st_dependencies st))"
  obtain p1 h1 where 1: "al_allocate al h (?n * 8) = (p1, h1)" by fastforce
  obtain p2 h2 where 2: "al_allocate al h1 (?n * 8) = (p2, h2)" by fastforce
  obtain p3 h3 where 3: "al_allocate al h2 (?n * 4) = (p3, h3)" by fastforce
  obtain p4 h4 where 4: "al_allocate al h3 (?n * 1) = (p4, h4)" by fastforce
  obtain p5 h5 where 5: "(if ?d \<noteq> 0 then al_allocate al h4 (?d * 8) else (None, h4)) = (p5, h5)" by fastforce
  obtain p6 h6 where 6: "(if ?d \<noteq> 0 then al_allocate al h5 (?d * 8) else (None, h5)) = (p6, h6)" by fastforce
  note blocks = allocate_block_of [OF al]
  have l5: "live h5 = live h4 + block_of p5 (?d * 8)"
    using 5 blocks by (auto simp: block_of_def split: if_splits)
  have l6: "live h6 = live h5 + block_of p6 (?d * 8)"
    using 6 blocks by (auto simp: block_of_def split: if_splits)
  note free = kb2_free_if_block_of [OF al]
  let ?g1 = "kb2_free_if al p6 (?d * 8) h6" let ?g2 = "kb2_free_if al p5 (?d * 8) ?g1"
  let ?g3 = "kb2_free_if al p4 (?n * 1) ?g2" let ?g4 = "kb2_free_if al p3 (?n * 4) ?g3"
  let ?g5 = "kb2_free_if al p2 (?n * 8) ?g4" let ?g6 = "kb2_free_if al p1 (?n * 8) ?g5"
  have "live ?g1 = live h5" using free [OF l6] .
  then have "live ?g2 = live h4" using free l5 by simp
  then have "live ?g3 = live h3" using free blocks [OF 4] by simp
  then have "live ?g4 = live h2" using free blocks [OF 3] by simp
  then have "live ?g5 = live h1" using free blocks [OF 2] by simp
  then have "live ?g6 = live h" using free blocks [OF 1] by simp
  then show ?thesis
    using 1 2 3 4 5 6 kb2_graph_status_spec [OF ids few]
    unfolding kb2_validate_graph_def Let_def by (simp only: split fst_conv snd_conv) auto
qed

end
