(* ===== verification/Closure.thy ===== *)
theory Closure
  imports Closure_Graph "HOL-Library.Product_Lexorder" "HOL-Library.List_Lexorder"
begin

text \<open>
  Sealing a module closure: the second half of \<open>src/closure.c\<close>. Validation of artifacts,
  symbols and resources, the sorted copy that \<open>kb2_closure_clone\<close> makes, sealing, destruction
  and the read accessors.

  The outer option of the operations that run the graph check is \<open>None\<close> if one of its loops
  did not end; the theorems show that this never happens on a builder's storage.
\<close>

section \<open>Canonical order\<close>

text \<open>\<open>strcmp\<close> on names without NUL, up to its sign.\<close>

fun strcmp :: "bytes \<Rightarrow> bytes \<Rightarrow> int" where
  "strcmp [] [] = 0"
| "strcmp [] (_ # _) = -1"
| "strcmp (_ # _) [] = 1"
| "strcmp (x # xs) (y # ys) = (if x < y then -1 else if y < x then 1 else strcmp xs ys)"

definition kb2_compare_artifacts :: "kb2_closure_artifact_record \<Rightarrow> kb2_closure_artifact_record \<Rightarrow> int" where
  "kb2_compare_artifacts left right =
     (if ar_node_id left < ar_node_id right then -1
      else if ar_node_id left > ar_node_id right then 1 else 0)"

definition kb2_compare_dependencies ::
    "kb2_closure_dependency_record \<Rightarrow> kb2_closure_dependency_record \<Rightarrow> int" where
  "kb2_compare_dependencies left right =
     (if dp_consumer_node_id left \<noteq> dp_consumer_node_id right
      then (if dp_consumer_node_id left < dp_consumer_node_id right then -1 else 1)
      else if dp_provider_node_id left < dp_provider_node_id right then -1
      else if dp_provider_node_id left > dp_provider_node_id right then 1 else 0)"

definition kb2_compare_exports :: "kb2_closure_export_record \<Rightarrow> kb2_closure_export_record \<Rightarrow> int" where
  "kb2_compare_exports left right =
     (if ex_node_id left \<noteq> ex_node_id right then (if ex_node_id left < ex_node_id right then -1 else 1)
      else let order = strcmp (ex_symbol left) (ex_symbol right) in
        if order \<noteq> 0 then order
        else if ex_kind left < ex_kind right then -1
        else if ex_kind left > ex_kind right then 1 else 0)"

definition kb2_compare_imports :: "kb2_closure_import_record \<Rightarrow> kb2_closure_import_record \<Rightarrow> int" where
  "kb2_compare_imports left right =
     (if im_consumer_node_id left \<noteq> im_consumer_node_id right
      then (if im_consumer_node_id left < im_consumer_node_id right then -1 else 1)
      else let order = strcmp (im_consumer_symbol left) (im_consumer_symbol right) in
        if order \<noteq> 0 then order
        else if im_provider_node_id left < im_provider_node_id right then -1
        else if im_provider_node_id left > im_provider_node_id right then 1 else 0)"

definition kb2_compare_resources :: "kb2_closure_resource_record \<Rightarrow> kb2_closure_resource_record \<Rightarrow> int" where
  "kb2_compare_resources left right =
     (if rs_slot_id left < rs_slot_id right then -1
      else if rs_slot_id left > rs_slot_id right then 1 else 0)"

definition kb2_compare_resource_bindings ::
    "kb2_closure_resource_binding_record \<Rightarrow> kb2_closure_resource_binding_record \<Rightarrow> int" where
  "kb2_compare_resource_bindings left right =
     (if bd_slot_id left \<noteq> bd_slot_id right then (if bd_slot_id left < bd_slot_id right then -1 else 1)
      else if bd_node_id left < bd_node_id right then -1
      else if bd_node_id left > bd_node_id right then 1 else 0)"

text \<open>
  The C library's \<open>qsort\<close>, as insertion sort; on items without equal keys every correct sort
  gives the same list (\<open>qsort_unique\<close>).
\<close>

fun insert_by :: "('a \<Rightarrow> 'a \<Rightarrow> int) \<Rightarrow> 'a \<Rightarrow> 'a list \<Rightarrow> 'a list" where
  "insert_by cmp x [] = [x]"
| "insert_by cmp x (y # ys) = (if cmp x y \<le> 0 then x # y # ys else y # insert_by cmp x ys)"

definition qsort :: "('a \<Rightarrow> 'a \<Rightarrow> int) \<Rightarrow> 'a list \<Rightarrow> 'a list" where
  "qsort cmp xs = foldr (insert_by cmp) xs []"

definition kb2_sort_array :: "'a kb2_array \<Rightarrow> ('a \<Rightarrow> 'a \<Rightarrow> int) \<Rightarrow> 'a kb2_array" where
  "kb2_sort_array items compare =
     (if length (arr_items items) > 1 then items\<lparr>arr_items := qsort compare (arr_items items)\<rparr> else items)"

definition kb2_storage_sort :: "kb2_closure_storage \<Rightarrow> kb2_closure_storage" where
  "kb2_storage_sort storage = storage
     \<lparr>st_artifacts := kb2_sort_array (st_artifacts storage) kb2_compare_artifacts,
      st_dependencies := kb2_sort_array (st_dependencies storage) kb2_compare_dependencies,
      st_exports := kb2_sort_array (st_exports storage) kb2_compare_exports,
      st_imports := kb2_sort_array (st_imports storage) kb2_compare_imports,
      st_resources := kb2_sort_array (st_resources storage) kb2_compare_resources,
      st_resource_bindings := kb2_sort_array (st_resource_bindings storage) kb2_compare_resource_bindings\<rparr>"

section \<open>Validation\<close>

text \<open>The loop body of \<open>kb2_validate_artifacts\<close>.\<close>

definition kb2_artifact_acceptable :: "kb2_closure_storage \<Rightarrow> kb2_closure_artifact_record \<Rightarrow> bool" where
  "kb2_artifact_acceptable storage artifact \<longleftrightarrow>
     ar_lifecycle_set artifact \<and>
     ar_native_lifecycle artifact = ar_native_lifecycle (arr_items (st_artifacts storage) ! 0) \<and>
     (\<not> ar_native_lifecycle artifact \<longrightarrow>
        kb2_find_export storage (ar_node_id artifact) (ar_init_symbol artifact) KB2_SYMBOL_FUNCTION \<noteq> None \<and>
        kb2_find_export storage (ar_node_id artifact) (ar_quiesce_symbol artifact) KB2_SYMBOL_FUNCTION \<noteq> None \<and>
        kb2_find_export storage (ar_node_id artifact) (ar_cleanup_symbol artifact) KB2_SYMBOL_FUNCTION \<noteq> None) \<and>
     (ar_is_root artifact \<longrightarrow> ar_kind artifact = KB2_ARTIFACT_RELOCATABLE_MODULE)"

definition kb2_validate_artifacts :: "kb2_closure_storage \<Rightarrow> kb2_status" where
  "kb2_validate_artifacts storage =
     (let artifacts = arr_items (st_artifacts storage);
          root_count = length (filter ar_is_root artifacts);
          provider_count = length (filter (\<lambda>a. ar_kind a = KB2_ARTIFACT_SHARED_PROVIDER) artifacts) in
      if length artifacts = 0 then KB2_STATUS_INVALID_CONFIGURATION
      else if \<not> list_all (kb2_artifact_acceptable storage) artifacts then KB2_STATUS_INVALID_CONFIGURATION
      else if ar_native_lifecycle (artifacts ! 0) \<and> provider_count \<noteq> 1
      then KB2_STATUS_INVALID_CONFIGURATION
      else if root_count = 0 then KB2_STATUS_INVALID_CONFIGURATION else KB2_STATUS_OK)"

text \<open>The loop body of \<open>kb2_validate_symbols\<close> for one import.\<close>

definition kb2_import_acceptable ::
    "kb2_closure_storage \<Rightarrow> kb2_node_map_entry list \<Rightarrow> kb2_closure_import_record \<Rightarrow> bool" where
  "kb2_import_acceptable storage entries r \<longleftrightarrow>
     kb2_node_map_find entries (im_consumer_node_id r) \<noteq> None \<and>
     (im_provider_node_id r = 0 \<or>
      kb2_node_map_find entries (im_provider_node_id r) \<noteq> None \<and>
      kb2_has_dependency storage (im_consumer_node_id r) (im_provider_node_id r) \<and>
      \<not> (kb2_find_export storage (im_provider_node_id r) (im_provider_symbol r) (im_kind r) = None \<and>
         (im_flags r AND KB2_IMPORT_OPTIONAL) = 0))"

definition kb2_validate_symbols :: "kb2_closure_storage \<Rightarrow> kb2_node_map_entry list \<Rightarrow> kb2_status" where
  "kb2_validate_symbols storage entries =
     (if \<not> list_all (\<lambda>r. kb2_node_map_find entries (ex_node_id r) \<noteq> None) (arr_items (st_exports storage))
      then KB2_STATUS_INVALID_CONFIGURATION
      else if \<not> list_all (kb2_import_acceptable storage entries) (arr_items (st_imports storage))
      then KB2_STATUS_INVALID_CONFIGURATION
      else KB2_STATUS_OK)"

definition kb2_find_resource :: "kb2_closure_storage \<Rightarrow> u32 \<Rightarrow> kb2_closure_resource_record option" where
  "kb2_find_resource storage slot_id =
     find (\<lambda>r. rs_slot_id r = slot_id) (arr_items (st_resources storage))"

definition kb2_validate_resources :: "kb2_closure_storage \<Rightarrow> kb2_node_map_entry list \<Rightarrow> kb2_status" where
  "kb2_validate_resources storage entries =
     (if \<not> list_all (\<lambda>binding. kb2_find_resource storage (bd_slot_id binding) \<noteq> None \<and>
            kb2_node_map_find entries (bd_node_id binding) \<noteq> None)
          (arr_items (st_resource_bindings storage))
      then KB2_STATUS_INVALID_CONFIGURATION
      else if list_ex (\<lambda>resource.
            let binding_count = length (filter (\<lambda>b. bd_slot_id b = rs_slot_id resource)
                  (arr_items (st_resource_bindings storage))) in
            binding_count = 0 \<or> ((rs_flags resource AND KB2_RESOURCE_SHARED) = 0 \<and> binding_count \<noteq> 1))
          (arr_items (st_resources storage))
      then KB2_STATUS_INVALID_CONFIGURATION
      else KB2_STATUS_OK)"

definition kb2_validate_storage ::
    "'h kb2_allocator \<Rightarrow> 'h \<Rightarrow> kb2_closure_storage \<Rightarrow> (kb2_status \<times> 'h) option" where
  "kb2_validate_storage al h storage =
     (if kb2_validate_artifacts storage \<noteq> KB2_STATUS_OK then Some (kb2_validate_artifacts storage, h)
      else case kb2_build_node_map al h storage of
        (status, None, h) \<Rightarrow> Some (status, h)
      | (status, Some (p, entries), h) \<Rightarrow> do {
          (status, h) \<leftarrow> kb2_validate_graph al h storage entries;
          let status = (if status = KB2_STATUS_OK then kb2_validate_symbols storage entries else status);
              status = (if status = KB2_STATUS_OK then kb2_validate_resources storage entries else status)
          in Some (status, al_deallocate al h p (length (arr_items (st_artifacts storage)) * 16)) })"

section \<open>Closures\<close>

record kb2_closure =
  cl_block :: nat
  cl_storage :: kb2_closure_storage

definition kb2_clone_array ::
    "'h kb2_allocator \<Rightarrow> 'h \<Rightarrow> 'a kb2_array \<Rightarrow> nat \<Rightarrow> kb2_status \<times> 'a kb2_array \<times> 'h" where
  "kb2_clone_array al h source item_size =
     (let count = length (arr_items source) in
      if count = 0 then (KB2_STATUS_OK, empty_array, h)
      else if count > SIZE_MAX div item_size then (KB2_STATUS_RESOURCE_EXHAUSTED, empty_array, h)
      else case al_allocate al h (count * item_size) of
        (None, h) \<Rightarrow> (KB2_STATUS_NO_MEMORY, empty_array, h)
      | (Some p, h) \<Rightarrow>
          (KB2_STATUS_OK, \<lparr>arr_block = Some p, arr_items = arr_items source, arr_capacity = count\<rparr>, h))"

text \<open>The macro \<open>KB2_CLONE_FIELD\<close>; once a field has failed the rest is skipped.\<close>

definition kb2_clone_field ::
    "'h kb2_allocator \<Rightarrow> 'a kb2_array \<Rightarrow> nat \<Rightarrow> ('a kb2_array \<Rightarrow> kb2_closure_storage \<Rightarrow> kb2_closure_storage)
     \<Rightarrow> kb2_status \<times> kb2_closure_storage \<times> 'h \<Rightarrow> kb2_status \<times> kb2_closure_storage \<times> 'h" where
  "kb2_clone_field al source item_size assign = (\<lambda>(status, storage, h).
     if status \<noteq> KB2_STATUS_OK then (status, storage, h)
     else case kb2_clone_array al h source item_size of
       (status, items, h) \<Rightarrow> (status, if status = KB2_STATUS_OK then assign items storage else storage, h))"

definition kb2_clone_fields ::
    "'h kb2_allocator \<Rightarrow> kb2_closure_storage \<Rightarrow> kb2_status \<times> kb2_closure_storage \<times> 'h
     \<Rightarrow> kb2_status \<times> kb2_closure_storage \<times> 'h" where
  "kb2_clone_fields al source =
     kb2_clone_field al (st_resource_bindings source) sizeof_resource_binding_record
       (\<lambda>items st. st\<lparr>st_resource_bindings := items\<rparr>) \<circ>
     kb2_clone_field al (st_resources source) sizeof_resource_record
       (\<lambda>items st. st\<lparr>st_resources := items\<rparr>) \<circ>
     kb2_clone_field al (st_imports source) sizeof_import_record
       (\<lambda>items st. st\<lparr>st_imports := items\<rparr>) \<circ>
     kb2_clone_field al (st_exports source) sizeof_export_record
       (\<lambda>items st. st\<lparr>st_exports := items\<rparr>) \<circ>
     kb2_clone_field al (st_dependencies source) sizeof_dependency_record
       (\<lambda>items st. st\<lparr>st_dependencies := items\<rparr>) \<circ>
     kb2_clone_field al (st_artifacts source) sizeof_artifact_record
       (\<lambda>items st. st\<lparr>st_artifacts := items\<rparr>)"

fun kb2_closure_destroy :: "'h kb2_allocator \<Rightarrow> 'h \<Rightarrow> kb2_closure option \<Rightarrow> 'h" where
  "kb2_closure_destroy al h None = h"
| "kb2_closure_destroy al h (Some closure) =
     al_deallocate al (kb2_storage_release al h (cl_storage closure)) (cl_block closure) sizeof_closure"

definition kb2_closure_clone ::
    "'h kb2_allocator \<Rightarrow> 'h \<Rightarrow> bool \<Rightarrow> kb2_closure option \<Rightarrow> kb2_status \<times> kb2_closure option \<times> 'h" where
  "kb2_closure_clone al h pointers source =
     (case source of
        None \<Rightarrow> (KB2_STATUS_INVALID_ARGUMENT, None, h)
      | Some src \<Rightarrow>
        if \<not> pointers then (KB2_STATUS_INVALID_ARGUMENT, None, h)
        else (case al_allocate al h sizeof_closure of
          (None, h) \<Rightarrow> (KB2_STATUS_NO_MEMORY, None, h)
        | (Some p, h) \<Rightarrow>
          (case kb2_clone_fields al (cl_storage src)
               (KB2_STATUS_OK, empty_storage (st_manifest_digest (cl_storage src)), h) of
            (status, storage, h) \<Rightarrow>
              if status \<noteq> KB2_STATUS_OK
              then (status, None, kb2_closure_destroy al h (Some \<lparr>cl_block = p, cl_storage = storage\<rparr>))
              else (KB2_STATUS_OK, Some \<lparr>cl_block = p, cl_storage = kb2_storage_sort storage\<rparr>, h))))"

fun kb2_closure_launch_flags :: "kb2_closure option \<Rightarrow> u32" where
  "kb2_closure_launch_flags None = 0"
| "kb2_closure_launch_flags (Some closure) =
     (if list_ex (\<lambda>r. (rs_flags r AND KB2_RESOURCE_RESET_REQUIRED) \<noteq> 0)
          (arr_items (st_resources (cl_storage closure))) then 1 else 0)"

definition kb2_closure_builder_seal ::
    "'h kb2_allocator \<Rightarrow> 'h \<Rightarrow> bool \<Rightarrow> kb2_closure_builder option
     \<Rightarrow> (kb2_status \<times> kb2_closure option \<times> 'h) option" where
  "kb2_closure_builder_seal al h closure_out builder =
     (case builder of
        None \<Rightarrow> Some (KB2_STATUS_INVALID_ARGUMENT, None, h)
      | Some b \<Rightarrow>
        if \<not> closure_out then Some (KB2_STATUS_INVALID_ARGUMENT, None, h)
        else do {
          (status, h) \<leftarrow> kb2_validate_storage al h (bu_storage b);
          if status \<noteq> KB2_STATUS_OK then Some (status, None, h)
          else Some (kb2_closure_clone al h True (Some \<lparr>cl_block = 0, cl_storage = bu_storage b\<rparr>)) })"

section \<open>Accessors\<close>

fun kb2_closure_uses_native_lifecycle :: "kb2_closure option \<Rightarrow> bool" where
  "kb2_closure_uses_native_lifecycle None \<longleftrightarrow> False"
| "kb2_closure_uses_native_lifecycle (Some closure) \<longleftrightarrow>
     length (arr_items (st_artifacts (cl_storage closure))) \<noteq> 0 \<and>
     ar_native_lifecycle (arr_items (st_artifacts (cl_storage closure)) ! 0)"

definition kb2_closure_copy_manifest_digest ::
    "kb2_closure option \<Rightarrow> bool \<Rightarrow> nat \<Rightarrow> kb2_status \<times> bytes option" where
  "kb2_closure_copy_manifest_digest closure digest_out digest_size =
     (case closure of
        None \<Rightarrow> (KB2_STATUS_INVALID_ARGUMENT, None)
      | Some c \<Rightarrow>
        if \<not> digest_out \<or> digest_size \<noteq> KB2_DIGEST_SIZE then (KB2_STATUS_INVALID_ARGUMENT, None)
        else (KB2_STATUS_OK, Some (st_manifest_digest (cl_storage c))))"

definition kb2_closure_artifact_count :: "kb2_closure option \<Rightarrow> nat" where
  "kb2_closure_artifact_count closure =
     (case closure of None \<Rightarrow> 0 | Some c \<Rightarrow> length (arr_items (st_artifacts (cl_storage c))))"

definition kb2_closure_dependency_count :: "kb2_closure option \<Rightarrow> nat" where
  "kb2_closure_dependency_count closure =
     (case closure of None \<Rightarrow> 0 | Some c \<Rightarrow> length (arr_items (st_dependencies (cl_storage c))))"

definition kb2_closure_export_count :: "kb2_closure option \<Rightarrow> nat" where
  "kb2_closure_export_count closure =
     (case closure of None \<Rightarrow> 0 | Some c \<Rightarrow> length (arr_items (st_exports (cl_storage c))))"

definition kb2_closure_import_count :: "kb2_closure option \<Rightarrow> nat" where
  "kb2_closure_import_count closure =
     (case closure of None \<Rightarrow> 0 | Some c \<Rightarrow> length (arr_items (st_imports (cl_storage c))))"

definition kb2_closure_resource_count :: "kb2_closure option \<Rightarrow> nat" where
  "kb2_closure_resource_count closure =
     (case closure of None \<Rightarrow> 0 | Some c \<Rightarrow> length (arr_items (st_resources (cl_storage c))))"

definition kb2_closure_resource_binding_count :: "kb2_closure option \<Rightarrow> nat" where
  "kb2_closure_resource_binding_count closure =
     (case closure of None \<Rightarrow> 0 | Some c \<Rightarrow> length (arr_items (st_resource_bindings (cl_storage c))))"

definition kb2_closure_artifact ::
    "kb2_closure option \<Rightarrow> nat \<Rightarrow> bool \<Rightarrow> nat \<Rightarrow> kb2_status \<times> (u32 \<times> int \<times> bool \<times> bytes) option" where
  "kb2_closure_artifact closure index outs digest_size =
     (case closure of
        None \<Rightarrow> (KB2_STATUS_INVALID_ARGUMENT, None)
      | Some c \<Rightarrow>
        if length (arr_items (st_artifacts (cl_storage c))) \<le> index \<or> \<not> outs \<or> digest_size \<noteq> KB2_DIGEST_SIZE
        then (KB2_STATUS_INVALID_ARGUMENT, None)
        else let r = arr_items (st_artifacts (cl_storage c)) ! index in
          (KB2_STATUS_OK, Some (ar_node_id r, ar_kind r, ar_is_root r, ar_content_digest r)))"

definition kb2_closure_resource ::
    "kb2_closure option \<Rightarrow> nat \<Rightarrow> bool \<Rightarrow> nat
     \<Rightarrow> kb2_status \<times> (u32 \<times> int \<times> bytes \<times> u32 \<times> u32 \<times> u64 \<times> u64 \<times> u32) option" where
  "kb2_closure_resource closure index outs digest_size =
     (case closure of
        None \<Rightarrow> (KB2_STATUS_INVALID_ARGUMENT, None)
      | Some c \<Rightarrow>
        if length (arr_items (st_resources (cl_storage c))) \<le> index \<or> \<not> outs \<or> digest_size \<noteq> KB2_DIGEST_SIZE
        then (KB2_STATUS_INVALID_ARGUMENT, None)
        else let r = arr_items (st_resources (cl_storage c)) ! index in
          (KB2_STATUS_OK, Some (rs_slot_id r, rs_type r, rs_interface_schema_digest r, rs_minimum_count r,
             rs_maximum_count r, rs_required_rights r, rs_maximum_rights r, rs_flags r)))"

definition kb2_closure_resource_binding ::
    "kb2_closure option \<Rightarrow> nat \<Rightarrow> bool \<Rightarrow> kb2_status \<times> (u32 \<times> u32) option" where
  "kb2_closure_resource_binding closure index outs =
     (case closure of
        None \<Rightarrow> (KB2_STATUS_INVALID_ARGUMENT, None)
      | Some c \<Rightarrow>
        if length (arr_items (st_resource_bindings (cl_storage c))) \<le> index \<or> \<not> outs
        then (KB2_STATUS_INVALID_ARGUMENT, None)
        else let r = arr_items (st_resource_bindings (cl_storage c)) ! index in
          (KB2_STATUS_OK, Some (bd_slot_id r, bd_node_id r)))"

section \<open>Sorting is canonical\<close>

text \<open>A comparison function that orders by a key.\<close>

locale keyed_comparison =
  fixes cmp :: "'a \<Rightarrow> 'a \<Rightarrow> int" and key :: "'a \<Rightarrow> 'k :: linorder"
  assumes cmp_le: "cmp x y \<le> 0 \<longleftrightarrow> key x \<le> key y"
begin

lemma qsort_eq_sort_key: "qsort cmp xs = sort_key key xs"
proof -
  have "insert_by cmp x ys = insort_key key x ys" for x ys
    by (induction ys) (auto simp: cmp_le)
  then have "insert_by cmp = insort_key key" by (intro ext)
  then show ?thesis by (simp add: qsort_def sort_key_def)
qed

text \<open>
  Any list with the same items in the order of the keys is the result, when the keys are
  distinct: the choice of the sorting algorithm does not matter.
\<close>

lemma qsort_unique:
  assumes "mset ys = mset xs" "sorted (map key ys)" "distinct (map key xs)"
  shows "ys = qsort cmp xs"
proof -
  have "map key ys = sort (map key xs)"
    using assms by (intro properties_for_sort [symmetric]) simp_all
  also have "\<dots> = map key (sort_key key xs)"
    by (intro properties_for_sort) simp_all
  finally have "map key ys = map key (qsort cmp xs)" by (simp add: qsort_eq_sort_key)
  moreover have "set ys = set xs" using assms(1) by (rule mset_eq_setD)
  then have "inj_on key (set ys \<union> set (qsort cmp xs))"
    using assms(3) by (simp add: qsort_eq_sort_key distinct_map)
  ultimately show ?thesis by (rule map_inj_on)
qed

lemma qsort_canonical:
  assumes "mset xs = mset ys" "distinct (map key xs)"
  shows "qsort cmp xs = qsort cmp ys"
  using qsort_unique [of "qsort cmp ys" xs] assms by (simp add: qsort_eq_sort_key)

lemma mset_qsort: "mset (qsort cmp xs) = mset xs"
  by (simp add: qsort_eq_sort_key)

lemma sort_array_items: "arr_items (kb2_sort_array a cmp) = qsort cmp (arr_items a)"
  by (cases "arr_items a" rule: list.exhaust)
    (auto simp: kb2_sort_array_def qsort_def split: list.split)

lemma sort_array_block [simp]:
  "arr_block (kb2_sort_array a cmp) = arr_block a" "arr_capacity (kb2_sort_array a cmp) = arr_capacity a"
  by (simp_all add: kb2_sort_array_def)

end

lemma strcmp_iff: "strcmp xs ys < 0 \<longleftrightarrow> xs < ys" "strcmp xs ys = 0 \<longleftrightarrow> xs = ys"
  by (induction xs ys rule: strcmp.induct) auto

interpretation artifact_order: keyed_comparison kb2_compare_artifacts ar_node_id
  by unfold_locales (auto simp: kb2_compare_artifacts_def)

interpretation dependency_order:
  keyed_comparison kb2_compare_dependencies "\<lambda>d. (dp_consumer_node_id d, dp_provider_node_id d)"
  by unfold_locales (auto simp: kb2_compare_dependencies_def)

interpretation export_order:
  keyed_comparison kb2_compare_exports "\<lambda>e. (ex_node_id e, ex_symbol e, ex_kind e)"
proof unfold_locales
  fix x y :: kb2_closure_export_record
  show "kb2_compare_exports x y \<le> 0 \<longleftrightarrow>
      (ex_node_id x, ex_symbol x, ex_kind x) \<le> (ex_node_id y, ex_symbol y, ex_kind y)"
    using strcmp_iff [of "ex_symbol x" "ex_symbol y"]
    by (auto simp: kb2_compare_exports_def Let_def)
qed

interpretation import_order: keyed_comparison kb2_compare_imports
  "\<lambda>i. (im_consumer_node_id i, im_consumer_symbol i, im_provider_node_id i)"
proof unfold_locales
  fix x y :: kb2_closure_import_record
  show "kb2_compare_imports x y \<le> 0 \<longleftrightarrow>
      (im_consumer_node_id x, im_consumer_symbol x, im_provider_node_id x)
      \<le> (im_consumer_node_id y, im_consumer_symbol y, im_provider_node_id y)"
    using strcmp_iff [of "im_consumer_symbol x" "im_consumer_symbol y"]
    by (auto simp: kb2_compare_imports_def Let_def)
qed

interpretation resource_order: keyed_comparison kb2_compare_resources rs_slot_id
  by unfold_locales (auto simp: kb2_compare_resources_def)

interpretation binding_order:
  keyed_comparison kb2_compare_resource_bindings "\<lambda>b. (bd_slot_id b, bd_node_id b)"
  by unfold_locales (auto simp: kb2_compare_resource_bindings_def)

section \<open>Cloning\<close>

definition closure_blocks :: "kb2_closure \<Rightarrow> (nat \<times> nat) multiset" where
  "closure_blocks c = add_mset (cl_block c, 192) (storage_blocks (cl_storage c))"

text \<open>Two storages hold the same records in the same order.\<close>

definition same_items :: "kb2_closure_storage \<Rightarrow> kb2_closure_storage \<Rightarrow> bool" where
  "same_items st st' \<longleftrightarrow> arr_items (st_artifacts st) = arr_items (st_artifacts st') \<and>
     arr_items (st_dependencies st) = arr_items (st_dependencies st') \<and>
     arr_items (st_exports st) = arr_items (st_exports st') \<and>
     arr_items (st_imports st) = arr_items (st_imports st') \<and>
     arr_items (st_resources st) = arr_items (st_resources st') \<and>
     arr_items (st_resource_bindings st) = arr_items (st_resource_bindings st') \<and>
     st_manifest_digest st = st_manifest_digest st'"

lemma array_blocks_empty [simp]: "array_blocks w empty_array = {#}"
  by (simp add: array_blocks_def empty_array_def)

lemma arr_items_empty [simp]: "arr_items empty_array = []"
  by (simp add: empty_array_def)

lemma kb2_clone_array_result:
  assumes "allocator_laws al live" "kb2_clone_array al h src w = (s, a, h')"
  shows "live h' = live h + array_blocks w a" "s = KB2_STATUS_OK \<Longrightarrow> arr_items a = arr_items src"
    "s \<noteq> KB2_STATUS_OK \<Longrightarrow> a = empty_array"
    "s = KB2_STATUS_OK \<Longrightarrow> arr_capacity a = length (arr_items src)"
    "s \<in> {KB2_STATUS_OK, KB2_STATUS_NO_MEMORY, KB2_STATUS_RESOURCE_EXHAUSTED}"
  using assms allocator_allocate [OF assms(1)]
  by (auto simp: kb2_clone_array_def Let_def array_blocks_def empty_array_def
      split: if_split_asm prod.split_asm option.split_asm)

lemma kb2_clone_fields_result:
  assumes al: "allocator_laws al live"
    and run: "kb2_clone_fields al src (KB2_STATUS_OK, empty_storage (st_manifest_digest src), h) = (s, st, h')"
  shows "live h' = live h + storage_blocks st" "s = KB2_STATUS_OK \<Longrightarrow> same_items st src"
    "s \<in> {KB2_STATUS_OK, KB2_STATUS_NO_MEMORY, KB2_STATUS_RESOURCE_EXHAUSTED}"
proof -
  obtain s1 a1 h1 where 1: "kb2_clone_array al h (st_artifacts src) 564 = (s1, a1, h1)" by (metis prod_cases3)
  obtain s2 a2 h2 where 2: "kb2_clone_array al h1 (st_dependencies src) 8 = (s2, a2, h2)" by (metis prod_cases3)
  obtain s3 a3 h3 where 3: "kb2_clone_array al h2 (st_exports src) 136 = (s3, a3, h3)" by (metis prod_cases3)
  obtain s4 a4 h4 where 4: "kb2_clone_array al h3 (st_imports src) 272 = (s4, a4, h4)" by (metis prod_cases3)
  obtain s5 a5 h5 where 5: "kb2_clone_array al h4 (st_resources src) 72 = (s5, a5, h5)" by (metis prod_cases3)
  obtain s6 a6 h6 where 6: "kb2_clone_array al h5 (st_resource_bindings src) 8 = (s6, a6, h6)" by (metis prod_cases3)
  let ?st0 = "empty_storage (st_manifest_digest src)"
  let ?st1 = "?st0\<lparr>st_artifacts := a1\<rparr>" let ?st2 = "?st1\<lparr>st_dependencies := a2\<rparr>"
  let ?st3 = "?st2\<lparr>st_exports := a3\<rparr>" let ?st4 = "?st3\<lparr>st_imports := a4\<rparr>"
  let ?st5 = "?st4\<lparr>st_resources := a5\<rparr>" let ?st6 = "?st5\<lparr>st_resource_bindings := a6\<rparr>"
  have eq: "(s, st, h') = (if s1 \<noteq> KB2_STATUS_OK then (s1, ?st0, h1)
      else if s2 \<noteq> KB2_STATUS_OK then (s2, ?st1, h2) else if s3 \<noteq> KB2_STATUS_OK then (s3, ?st2, h3)
      else if s4 \<noteq> KB2_STATUS_OK then (s4, ?st3, h4) else if s5 \<noteq> KB2_STATUS_OK then (s5, ?st4, h5)
      else if s6 \<noteq> KB2_STATUS_OK then (s6, ?st5, h6) else (KB2_STATUS_OK, ?st6, h6))"
    using run by (auto simp: kb2_clone_fields_def kb2_clone_field_def 1 2 3 4 5 6 split: if_split_asm)
  have live: "live h1 = live h + array_blocks 564 a1" "live h2 = live h1 + array_blocks 8 a2"
    "live h3 = live h2 + array_blocks 136 a3" "live h4 = live h3 + array_blocks 272 a4"
    "live h5 = live h4 + array_blocks 72 a5" "live h6 = live h5 + array_blocks 8 a6"
    using kb2_clone_array_result(1) [OF al] 1 2 3 4 5 6 by blast+
  have failed: "s1 \<noteq> KB2_STATUS_OK \<Longrightarrow> a1 = empty_array" "s2 \<noteq> KB2_STATUS_OK \<Longrightarrow> a2 = empty_array"
    "s3 \<noteq> KB2_STATUS_OK \<Longrightarrow> a3 = empty_array" "s4 \<noteq> KB2_STATUS_OK \<Longrightarrow> a4 = empty_array"
    "s5 \<noteq> KB2_STATUS_OK \<Longrightarrow> a5 = empty_array" "s6 \<noteq> KB2_STATUS_OK \<Longrightarrow> a6 = empty_array"
    using kb2_clone_array_result(3) [OF al] 1 2 3 4 5 6 by blast+
  show "live h' = live h + storage_blocks st"
    using eq live failed by (auto simp: storage_blocks_def empty_storage_def split: if_split_asm)
  show "s = KB2_STATUS_OK \<Longrightarrow> same_items st src"
    using eq kb2_clone_array_result(2) [OF al 1] kb2_clone_array_result(2) [OF al 2]
      kb2_clone_array_result(2) [OF al 3] kb2_clone_array_result(2) [OF al 4]
      kb2_clone_array_result(2) [OF al 5] kb2_clone_array_result(2) [OF al 6]
    by (auto simp: same_items_def empty_storage_def split: if_split_asm)
  show "s \<in> {KB2_STATUS_OK, KB2_STATUS_NO_MEMORY, KB2_STATUS_RESOURCE_EXHAUSTED}"
    using eq kb2_clone_array_result(5) [OF al 1] kb2_clone_array_result(5) [OF al 2]
      kb2_clone_array_result(5) [OF al 3] kb2_clone_array_result(5) [OF al 4]
      kb2_clone_array_result(5) [OF al 5] kb2_clone_array_result(5) [OF al 6]
    by (simp split: if_split_asm)
qed

lemma storage_blocks_sort [simp]: "storage_blocks (kb2_storage_sort st) = storage_blocks st"
  by (simp add: storage_blocks_def kb2_storage_sort_def array_blocks_def kb2_sort_array_def split: option.split)

text \<open>The storage of a clone holds the source's records in canonical order.\<close>

definition sorted_copy :: "kb2_closure_storage \<Rightarrow> kb2_closure_storage \<Rightarrow> bool" where
  "sorted_copy st src \<longleftrightarrow>
     arr_items (st_artifacts st) = qsort kb2_compare_artifacts (arr_items (st_artifacts src)) \<and>
     arr_items (st_dependencies st) = qsort kb2_compare_dependencies (arr_items (st_dependencies src)) \<and>
     arr_items (st_exports st) = qsort kb2_compare_exports (arr_items (st_exports src)) \<and>
     arr_items (st_imports st) = qsort kb2_compare_imports (arr_items (st_imports src)) \<and>
     arr_items (st_resources st) = qsort kb2_compare_resources (arr_items (st_resources src)) \<and>
     arr_items (st_resource_bindings st) =
       qsort kb2_compare_resource_bindings (arr_items (st_resource_bindings src)) \<and>
     st_manifest_digest st = st_manifest_digest src"

lemma kb2_storage_sort_copy: "same_items st src \<Longrightarrow> sorted_copy (kb2_storage_sort st) src"
  by (simp add: sorted_copy_def same_items_def kb2_storage_sort_def artifact_order.sort_array_items
      dependency_order.sort_array_items export_order.sort_array_items import_order.sort_array_items
      resource_order.sort_array_items binding_order.sort_array_items)

lemma kb2_closure_destroy_blocks:
  assumes al: "allocator_laws al live" and l: "live h = R + closure_blocks c"
  shows "live (kb2_closure_destroy al h (Some c)) = R"
proof -
  have "live (kb2_storage_release al h (cl_storage c)) = add_mset (cl_block c, 192) R"
    using l by (intro kb2_storage_release_blocks [OF al]) (simp add: closure_blocks_def)
  from allocator_deallocate [OF al this] show ?thesis by simp
qed

lemma kb2_closure_clone_result:
  assumes al: "allocator_laws al live"
    and run: "kb2_closure_clone al h True (Some src) = (s, copy, h')"
  shows "(s = KB2_STATUS_OK \<and> (\<exists>c. copy = Some c \<and> live h' = live h + closure_blocks c \<and>
      sorted_copy (cl_storage c) (cl_storage src))) \<or>
    (s \<in> {KB2_STATUS_NO_MEMORY, KB2_STATUS_RESOURCE_EXHAUSTED} \<and> copy = None \<and> live h' = live h)"
proof (cases "al_allocate al h 192")
  case (Pair p h1)
  show ?thesis
  proof (cases p)
    case None
    then show ?thesis using run Pair allocator_allocate [OF al] by (auto simp: kb2_closure_clone_def)
  next
    case (Some q)
    obtain s2 st h2 where f: "kb2_clone_fields al (cl_storage src)
        (KB2_STATUS_OK, empty_storage (st_manifest_digest (cl_storage src)), h1) = (s2, st, h2)"
      by (metis prod_cases3)
    note r = kb2_clone_fields_result [OF al f]
    have "live h1 = add_mset (q, 192) (live h)" using Pair Some allocator_allocate [OF al] by auto
    then have l: "live h2 = live h + closure_blocks \<lparr>cl_block = q, cl_storage = st\<rparr>"
      using r(1) by (simp add: closure_blocks_def)
    then have "live (kb2_closure_destroy al h2 (Some \<lparr>cl_block = q, cl_storage = st\<rparr>)) = live h"
      by (rule kb2_closure_destroy_blocks [OF al])
    then show ?thesis
      using run Pair Some f l r(2,3) kb2_storage_sort_copy [of st "cl_storage src"]
      by (auto simp: kb2_closure_clone_def closure_blocks_def split: if_splits)
  qed
qed

section \<open>What sealing accepts\<close>

definition exports_symbol :: "kb2_closure_storage \<Rightarrow> u32 \<Rightarrow> bytes \<Rightarrow> int \<Rightarrow> bool" where
  "exports_symbol st node symbol kind \<longleftrightarrow> (\<exists>e \<in> set (arr_items (st_exports st)).
     ex_node_id e = node \<and> ex_symbol e = symbol \<and> ex_kind e = kind)"

text \<open>
  Every artifact has a life cycle, all of the same mode: either the native loader's, with one
  shared provider, or explicit, and then the three life cycle functions are exported. There is
  a root, and roots are modules.
\<close>

definition artifacts_spec :: "kb2_closure_storage \<Rightarrow> bool" where
  "artifacts_spec st \<longleftrightarrow> (let as = arr_items (st_artifacts st) in
     (\<forall>a \<in> set as. ar_lifecycle_set a) \<and>
     ((\<forall>a \<in> set as. ar_native_lifecycle a) \<and> length (filter (\<lambda>a. ar_kind a = 0) as) = 1 \<or>
      (\<forall>a \<in> set as. \<not> ar_native_lifecycle a \<and>
         exports_symbol st (ar_node_id a) (ar_init_symbol a) 0 \<and>
         exports_symbol st (ar_node_id a) (ar_quiesce_symbol a) 0 \<and>
         exports_symbol st (ar_node_id a) (ar_cleanup_symbol a) 0)) \<and>
     (\<exists>a \<in> set as. ar_is_root a) \<and> (\<forall>a \<in> set as. ar_is_root a \<longrightarrow> ar_kind a = 1))"

text \<open>
  Exports and imports belong to artifacts; an import from a provider follows a declared
  dependency, and unless it is optional the provider exports the symbol with that kind.
\<close>

definition symbols_spec :: "kb2_closure_storage \<Rightarrow> bool" where
  "symbols_spec st \<longleftrightarrow>
     (\<forall>e \<in> set (arr_items (st_exports st)). ex_node_id e \<in> set (artifact_ids st)) \<and>
     (\<forall>i \<in> set (arr_items (st_imports st)). im_consumer_node_id i \<in> set (artifact_ids st) \<and>
        (im_provider_node_id i \<noteq> 0 \<longrightarrow> im_provider_node_id i \<in> set (artifact_ids st) \<and>
           (im_consumer_node_id i, im_provider_node_id i) \<in> dependency_relation st \<and>
           (im_flags i AND 1 = 0 \<longrightarrow>
              exports_symbol st (im_provider_node_id i) (im_provider_symbol i) (im_kind i))))"

text \<open>Bindings join existing slots and artifacts; a slot is bound, and once unless shared.\<close>

definition resources_spec :: "kb2_closure_storage \<Rightarrow> bool" where
  "resources_spec st \<longleftrightarrow>
     (\<forall>b \<in> set (arr_items (st_resource_bindings st)).
        bd_slot_id b \<in> rs_slot_id ` set (arr_items (st_resources st)) \<and> bd_node_id b \<in> set (artifact_ids st)) \<and>
     (\<forall>r \<in> set (arr_items (st_resources st)).
        let k = length (filter (\<lambda>b. bd_slot_id b = rs_slot_id r) (arr_items (st_resource_bindings st)))
        in 1 \<le> k \<and> (rs_flags r AND 2 = 0 \<longrightarrow> k = 1))"

definition closure_spec :: "kb2_closure_storage \<Rightarrow> bool" where
  "closure_spec st \<longleftrightarrow> artifacts_spec st \<and> graph_spec st \<and> symbols_spec st \<and> resources_spec st"

lemma kb2_find_export_iff:
  "kb2_find_export st node symbol kind \<noteq> None \<longleftrightarrow> exports_symbol st node symbol kind"
  by (auto simp: kb2_find_export_def exports_symbol_def find_None_iff)

lemma kb2_find_export_None_iff:
  "kb2_find_export st node symbol kind = None \<longleftrightarrow> \<not> exports_symbol st node symbol kind"
  using kb2_find_export_iff by blast

lemma kb2_node_map_find_None_iff:
  assumes "distinct (artifact_ids st)"
  shows "kb2_node_map_find (kb2_node_map_entries st) node = None \<longleftrightarrow> node \<notin> set (artifact_ids st)"
  using kb2_node_map_find_iff [OF assms, of node]
  by (metis in_set_conv_nth not_None_eq)

lemma kb2_has_dependency_iff:
  "kb2_has_dependency st c p \<longleftrightarrow> (c, p) \<in> dependency_relation st"
  by (auto simp: kb2_has_dependency_def dependency_relation_def list_ex_iff)

lemma kb2_validate_artifacts_spec:
  "kb2_validate_artifacts st = (if artifacts_spec st then KB2_STATUS_OK else KB2_STATUS_INVALID_CONFIGURATION)"
proof -
  let ?as = "arr_items (st_artifacts st)"
  have roots: "length (filter ar_is_root ?as) = 0 \<longleftrightarrow> \<not> (\<exists>a \<in> set ?as. ar_is_root a)"
    by (simp add: filter_empty_conv)
  show ?thesis
  proof (cases ?as)
    case Nil
    then show ?thesis by (simp add: kb2_validate_artifacts_def artifacts_spec_def)
  next
    case (Cons a rest)
    then have mem: "a \<in> set ?as" and first: "?as ! 0 = a" by simp_all
    have "list_all (kb2_artifact_acceptable st) ?as \<and>
        \<not> (ar_native_lifecycle a \<and> length (filter (\<lambda>a. ar_kind a = 0) ?as) \<noteq> 1) \<and>
        (\<exists>a \<in> set ?as. ar_is_root a) \<longleftrightarrow> artifacts_spec st"
    proof (cases "ar_native_lifecycle a")
      case True
      then show ?thesis
        unfolding artifacts_spec_def Let_def list_all_iff kb2_artifact_acceptable_def first using mem by blast
    next
      case False
      then show ?thesis
        unfolding artifacts_spec_def Let_def list_all_iff kb2_artifact_acceptable_def first
          kb2_find_export_iff using mem by blast
    qed
    then show ?thesis
      unfolding kb2_validate_artifacts_def Let_def roots first using Cons by (simp only: length_0_conv list.simps) argo
  qed
qed

lemma kb2_validate_symbols_spec:
  assumes "distinct (artifact_ids st)"
  shows "kb2_validate_symbols st (kb2_node_map_entries st)
    = (if symbols_spec st then KB2_STATUS_OK else KB2_STATUS_INVALID_CONFIGURATION)"
  unfolding kb2_validate_symbols_def symbols_spec_def kb2_import_acceptable_def list_all_iff
    kb2_node_map_find_None_iff [OF assms] kb2_has_dependency_iff kb2_find_export_None_iff
  by (simp add: de_Morgan_conj) blast

lemma kb2_validate_resources_spec:
  assumes "distinct (artifact_ids st)"
  shows "kb2_validate_resources st (kb2_node_map_entries st)
    = (if resources_spec st then KB2_STATUS_OK else KB2_STATUS_INVALID_CONFIGURATION)"
proof -
  have "kb2_find_resource st slot \<noteq> None \<longleftrightarrow> slot \<in> rs_slot_id ` set (arr_items (st_resources st))" for slot
    by (auto simp: kb2_find_resource_def find_None_iff)
  then show ?thesis
    unfolding kb2_validate_resources_def resources_spec_def list_all_iff list_ex_iff Let_def
      kb2_node_map_find_None_iff [OF assms]
    by (auto simp: Suc_le_eq)
qed

lemma storage_wf_ids: "storage_wf st \<Longrightarrow> distinct (artifact_ids st)"
  by (simp add: storage_wf_def artifacts_wf_def artifact_ids_def)

lemma kb2_validate_storage_spec:
  assumes wf: "storage_wf st" and al: "allocator_laws al live"
  shows "\<exists>s h'. kb2_validate_storage al h st = Some (s, h') \<and> live h' = live h \<and>
    (s = KB2_STATUS_NO_MEMORY \<or>
     s = (if closure_spec st then KB2_STATUS_OK else KB2_STATUS_INVALID_CONFIGURATION))"
proof (cases "artifacts_spec st")
  case False
  then show ?thesis
    by (simp add: kb2_validate_storage_def kb2_validate_artifacts_spec closure_spec_def)
next
  case True
  let ?n = "length (arr_items (st_artifacts st))"
  have "?n \<le> 4096" "length (arr_items (st_dependencies st)) \<le> 65536"
    using wf by (auto simp: storage_wf_def artifacts_wf_def dependencies_wf_def array_ok_def)
  then have n: "\<not> SIZE_MAX div 16 < ?n" and few: "length (arr_items (st_dependencies st)) < 2 ^ 32 - 1"
    by (auto simp: SIZE_MAX_def)
  obtain p h1 where alloc: "al_allocate al h (?n * 16) = (p, h1)" by fastforce
  show ?thesis
  proof (cases p)
    case None
    then show ?thesis
      using alloc n True allocator_allocate [OF al]
      by (auto simp: kb2_validate_storage_def kb2_validate_artifacts_spec kb2_build_node_map_def)
  next
    case (Some q)
    obtain s h2 where g: "kb2_validate_graph al h1 st (kb2_node_map_entries st) = Some (s, h2)" "live h2 = live h1"
      "s = KB2_STATUS_NO_MEMORY \<or>
       s = (if graph_spec st then KB2_STATUS_OK else KB2_STATUS_INVALID_CONFIGURATION)"
      using kb2_validate_graph_spec [OF storage_wf_ids [OF wf] few al] by blast
    have "live h2 = add_mset (q, ?n * 16) (live h)"
      using g(2) alloc Some allocator_allocate [OF al] by auto
    then have "live (al_deallocate al h2 q (?n * 16)) = live h" by (rule allocator_deallocate [OF al])
    moreover have "kb2_build_node_map al h st = (KB2_STATUS_OK, Some (q, kb2_node_map_entries st), h1)"
      using alloc n Some by (simp add: kb2_build_node_map_def)
    ultimately show ?thesis
      using g True kb2_validate_symbols_spec [OF storage_wf_ids [OF wf]]
        kb2_validate_resources_spec [OF storage_wf_ids [OF wf]]
      by (cases "graph_spec st")
        (auto simp: kb2_validate_storage_def kb2_validate_artifacts_spec closure_spec_def Let_def)
  qed
qed

lemma kb2_closure_builder_seal_spec:
  assumes wf: "storage_wf (bu_storage b)" and al: "allocator_laws al live"
  shows "\<exists>s copy h'. kb2_closure_builder_seal al h True (Some b) = Some (s, copy, h') \<and>
    (s = KB2_STATUS_OK \<and> closure_spec (bu_storage b) \<and>
       (\<exists>c. copy = Some c \<and> live h' = live h + closure_blocks c \<and> sorted_copy (cl_storage c) (bu_storage b)) \<or>
     s = KB2_STATUS_INVALID_CONFIGURATION \<and> \<not> closure_spec (bu_storage b) \<and> copy = None \<and> live h' = live h \<or>
     s \<in> {KB2_STATUS_NO_MEMORY, KB2_STATUS_RESOURCE_EXHAUSTED} \<and> copy = None \<and> live h' = live h)"
proof -
  obtain s h1 where v: "kb2_validate_storage al h (bu_storage b) = Some (s, h1)" "live h1 = live h"
    "s = KB2_STATUS_NO_MEMORY \<or>
     s = (if closure_spec (bu_storage b) then KB2_STATUS_OK else KB2_STATUS_INVALID_CONFIGURATION)"
    using kb2_validate_storage_spec [OF wf al] by blast
  show ?thesis
  proof (cases "s = KB2_STATUS_OK")
    case True
    obtain s2 copy h2 where c: "kb2_closure_clone al h1 True (Some \<lparr>cl_block = 0, cl_storage = bu_storage b\<rparr>)
        = (s2, copy, h2)" by (metis prod_cases3)
    have spec: "closure_spec (bu_storage b)" using v(3) True by (auto split: if_splits)
    have run: "kb2_closure_builder_seal al h True (Some b) = Some (s2, copy, h2)"
      using v(1) True c by (simp add: kb2_closure_builder_seal_def)
    show ?thesis
      using kb2_closure_clone_result [OF al c] v(2) spec run by auto
  next
    case False
    then show ?thesis using v by (auto simp: kb2_closure_builder_seal_def split: if_splits)
  qed
qed

section \<open>Refused allocations\<close>

text \<open>
  A count of the requests that the allocator has refused. Every allocator can be observed in this
  way: \<open>counting\<close> adds the count to its state.
\<close>

definition refusal_laws :: "'h kb2_allocator \<Rightarrow> ('h \<Rightarrow> nat) \<Rightarrow> bool" where
  "refusal_laws al refused \<longleftrightarrow>
     (\<forall>h n p h'. al_allocate al h n = (Some p, h') \<longrightarrow> refused h' = refused h) \<and>
     (\<forall>h n h'. al_allocate al h n = (None, h') \<longrightarrow> refused h' = refused h + 1) \<and>
     (\<forall>h p n. refused (al_deallocate al h p n) = refused h)"

definition counting :: "'h kb2_allocator \<Rightarrow> ('h \<times> nat) kb2_allocator" where
  "counting al =
    \<lparr>al_allocate = (\<lambda>(h, k) n. case al_allocate al h n of (p, h') \<Rightarrow> (p, h', if p = None then k + 1 else k)),
     al_deallocate = (\<lambda>(h, k) p n. (al_deallocate al h p n, k))\<rparr>"

lemma counting_laws:
  "refusal_laws (counting al) snd" "allocator_laws al live \<Longrightarrow> allocator_laws (counting al) (live \<circ> fst)"
  by (auto simp: refusal_laws_def allocator_laws_def counting_def split: prod.split_asm if_split_asm)

lemma refused_allocate:
  "refusal_laws al refused \<Longrightarrow> al_allocate al h n = (p, h') \<Longrightarrow> refused h' = refused h + (if p = None then 1 else 0)"
  by (cases p) (auto simp: refusal_laws_def)

lemma refused_deallocate [simp]:
  assumes "refusal_laws al refused"
  shows "refused (al_deallocate al h p n) = refused h" "refused (kb2_free_if al b n h) = refused h"
    "refused (kb2_release_array al h a w) = refused h" "refused (kb2_storage_release al h st) = refused h"
    "refused (kb2_closure_destroy al h c) = refused h"
proof -
  show d: "refused (al_deallocate al h p n) = refused h" for h p n using assms by (simp add: refusal_laws_def)
  show "refused (kb2_free_if al b n h) = refused h" by (simp add: kb2_free_if_def d split: option.split)
  show a: "refused (kb2_release_array al h a w) = refused h" for h a w
    by (simp add: kb2_release_array_def d split: option.split)
  show s: "refused (kb2_storage_release al h st) = refused h" for h st by (simp add: kb2_storage_release_def Let_def a)
  show "refused (kb2_closure_destroy al h c) = refused h" by (cases c) (simp_all add: d s)
qed

text \<open>The answer of a step says NO_MEMORY exactly when a request was refused on the way.\<close>

definition tells_refusal :: "('h \<Rightarrow> nat) \<Rightarrow> 'h \<Rightarrow> kb2_status \<Rightarrow> 'h \<Rightarrow> bool" where
  "tells_refusal refused h s h' \<longleftrightarrow>
     s \<noteq> KB2_STATUS_NO_MEMORY \<and> refused h' = refused h \<or> s = KB2_STATUS_NO_MEMORY \<and> refused h < refused h'"

lemma validate_graph_refusals:
  assumes "refusal_laws al refused" "kb2_validate_graph al h st es = Some (s, h')" "kb2_graph_status st es \<noteq> Some KB2_STATUS_NO_MEMORY"
  shows "tells_refusal refused h s h'"
proof -
  let ?n = "length (arr_items (st_artifacts st))" and ?d = "length (arr_items (st_dependencies st))"
  obtain p1 h1 where 1: "al_allocate al h (?n * 8) = (p1, h1)" by fastforce
  obtain p2 h2 where 2: "al_allocate al h1 (?n * 8) = (p2, h2)" by fastforce
  obtain p3 h3 where 3: "al_allocate al h2 (?n * 4) = (p3, h3)" by fastforce
  obtain p4 h4 where 4: "al_allocate al h3 (?n * 1) = (p4, h4)" by fastforce
  obtain p5 h5 where 5: "(if ?d \<noteq> 0 then al_allocate al h4 (?d * 8) else (None, h4)) = (p5, h5)" by fastforce
  obtain p6 h6 where 6: "(if ?d \<noteq> 0 then al_allocate al h5 (?d * 8) else (None, h5)) = (p6, h6)" by fastforce
  define lacks where "lacks p = (if p = None then 1 else 0 :: nat)" for p :: "nat option"
  define last where "last p = (if ?d \<noteq> 0 \<and> p = None then 1 else 0 :: nat)" for p :: "nat option"
  note r = refused_allocate [OF assms(1), folded lacks_def]
  have "refused h5 = refused h4 + last p5" "refused h6 = refused h5 + last p6"
    using 5 6 r by (auto simp: last_def lacks_def split: if_split_asm)
  then have count: "refused h6 = refused h + lacks p1 + lacks p2 + lacks p3 + lacks p4 + last p5 + last p6"
    using r [OF 1] r [OF 2] r [OF 3] r [OF 4] by simp
  have "refused h' = refused h6 \<and> (if p1 = None \<or> p2 = None \<or> p3 = None \<or> p4 = None \<or> (?d \<noteq> 0 \<and> (p5 = None \<or> p6 = None))
      then s = KB2_STATUS_NO_MEMORY else Some s = kb2_graph_status st es)"
    using assms(2) 1 2 3 4 5 6 unfolding kb2_validate_graph_def Let_def
    by (simp only: split fst_conv snd_conv) (auto simp: refused_deallocate [OF assms(1)] bind_eq_Some_conv split: if_split_asm)
  then show ?thesis using count assms(3) by (auto simp: tells_refusal_def lacks_def last_def split: if_split_asm)
qed

lemma clone_array_refusals:
  assumes "refusal_laws al refused" "kb2_clone_array al h src w = (s, a, h')" "length (arr_items src) \<le> SIZE_MAX div w"
  shows "tells_refusal refused h s h' \<and> s \<in> {KB2_STATUS_OK, KB2_STATUS_NO_MEMORY}"
  using assms(2,3) refused_allocate [OF assms(1), of h "length (arr_items src) * w"]
  by (auto simp: kb2_clone_array_def Let_def tells_refusal_def split: if_split_asm prod.split_asm option.split_asm)

lemma clone_field_refusals:
  assumes "refusal_laws al refused" "kb2_clone_field al src w assign (s, st, h1) = (s', st', h')" "length (arr_items src) \<le> SIZE_MAX div w"
    "tells_refusal refused h s h1 \<and> s \<in> {KB2_STATUS_OK, KB2_STATUS_NO_MEMORY}"
  shows "tells_refusal refused h s' h' \<and> s' \<in> {KB2_STATUS_OK, KB2_STATUS_NO_MEMORY}"
proof (cases "s = KB2_STATUS_OK")
  case True
  obtain a where "kb2_clone_array al h1 src w = (s', a, h')"
    using assms(2) True by (auto simp: kb2_clone_field_def split: prod.split_asm)
  from clone_array_refusals [OF assms(1) this assms(3)] show ?thesis using assms(4) True by (auto simp: tells_refusal_def)
qed (use assms in \<open>auto simp: kb2_clone_field_def\<close>)

lemma clone_fields_refusals:
  assumes "refusal_laws al refused" "storage_wf src" "kb2_clone_fields al src (KB2_STATUS_OK, st0, h) = (s, st, h')"
  shows "tells_refusal refused h s h' \<and> s \<in> {KB2_STATUS_OK, KB2_STATUS_NO_MEMORY}"
proof -
  have sizes: "length (arr_items (st_artifacts src)) \<le> SIZE_MAX div 564" "length (arr_items (st_dependencies src)) \<le> SIZE_MAX div 8"
    "length (arr_items (st_exports src)) \<le> SIZE_MAX div 136" "length (arr_items (st_imports src)) \<le> SIZE_MAX div 272"
    "length (arr_items (st_resources src)) \<le> SIZE_MAX div 72" "length (arr_items (st_resource_bindings src)) \<le> SIZE_MAX div 8"
    using assms(2) by (auto simp: storage_wf_def artifacts_wf_def dependencies_wf_def exports_wf_def imports_wf_def resources_wf_def
        bindings_wf_def array_ok_def SIZE_MAX_def)
  define good where "good x = (case x of (s, st :: kb2_closure_storage, h') \<Rightarrow>
    tells_refusal refused h s h' \<and> s \<in> {KB2_STATUS_OK, KB2_STATUS_NO_MEMORY})" for x
  have step: "good (kb2_clone_field al a w assign x)" if "good x" "length (arr_items a) \<le> SIZE_MAX div w"
    for x w assign and a :: "'x kb2_array"
  proof -
    obtain s1 st1 h1 where x: "x = (s1, st1, h1)" by (metis prod_cases3)
    obtain s2 st2 h2 where y: "kb2_clone_field al a w assign x = (s2, st2, h2)" by (metis prod_cases3)
    show ?thesis using clone_field_refusals [OF assms(1) y [unfolded x] that(2), of h] that(1) x y by (simp add: good_def)
  qed
  have "good (KB2_STATUS_OK, st0, h)" by (simp add: good_def tells_refusal_def)
  then have "good (kb2_clone_fields al src (KB2_STATUS_OK, st0, h))"
    unfolding kb2_clone_fields_def o_apply by (intro step sizes)
  then show ?thesis using assms(3) by (simp add: good_def)
qed

lemma closure_clone_refusals:
  assumes "refusal_laws al refused" "storage_wf (cl_storage src)" "kb2_closure_clone al h True (Some src) = (s, copy, h')"
  shows "tells_refusal refused h s h' \<and> s \<in> {KB2_STATUS_OK, KB2_STATUS_NO_MEMORY}"
proof -
  obtain p h1 where p: "al_allocate al h 192 = (p, h1)" by fastforce
  obtain s2 st h2 where f: "kb2_clone_fields al (cl_storage src)
      (KB2_STATUS_OK, empty_storage (st_manifest_digest (cl_storage src)), h1) = (s2, st, h2)" by (metis prod_cases3)
  show ?thesis
    using assms(3) p f refused_allocate [OF assms(1) p] clone_fields_refusals [OF assms(1,2) f] refused_deallocate(5) [OF assms(1)]
    by (auto simp: kb2_closure_clone_def tells_refusal_def simp del: kb2_closure_destroy.simps split: if_split_asm option.split_asm)
qed

lemma validate_storage_refusals:
  assumes al: "refusal_laws al refused" and wf: "storage_wf st" and run: "kb2_validate_storage al h st = Some (s, h')"
  shows "tells_refusal refused h s h'"
proof (cases "kb2_validate_artifacts st = KB2_STATUS_OK")
  case True
  let ?n = "length (arr_items (st_artifacts st))"
  have "?n \<le> 4096" using wf by (auto simp: storage_wf_def artifacts_wf_def array_ok_def)
  then have n: "\<not> SIZE_MAX div 16 < ?n" by (auto simp: SIZE_MAX_def)
  have status: "kb2_graph_status st (kb2_node_map_entries st) \<noteq> Some KB2_STATUS_NO_MEMORY"
    "kb2_validate_symbols st (kb2_node_map_entries st) \<noteq> KB2_STATUS_NO_MEMORY"
    "kb2_validate_resources st (kb2_node_map_entries st) \<noteq> KB2_STATUS_NO_MEMORY"
    using kb2_graph_status_spec [OF storage_wf_ids [OF wf]] kb2_validate_symbols_spec [OF storage_wf_ids [OF wf]]
      kb2_validate_resources_spec [OF storage_wf_ids [OF wf]] wf
    by (auto simp: storage_wf_def dependencies_wf_def array_ok_def split: if_split_asm)
  obtain p h1 where p: "al_allocate al h (?n * 16) = (p, h1)" by fastforce
  show ?thesis
  proof (cases p)
    case None
    then show ?thesis using run True n p refused_allocate [OF al p]
      by (auto simp: kb2_validate_storage_def kb2_build_node_map_def tells_refusal_def)
  next
    case (Some q)
    then obtain s1 h2 where g: "kb2_validate_graph al h1 st (kb2_node_map_entries st) = Some (s1, h2)"
      using run True n p by (auto simp: kb2_validate_storage_def kb2_build_node_map_def bind_eq_Some_conv)
    from validate_graph_refusals [OF al g status(1)] show ?thesis
      using run True n p Some g status refused_allocate [OF al p] refused_deallocate(1) [OF al]
      by (auto simp: kb2_validate_storage_def kb2_build_node_map_def tells_refusal_def Let_def split: if_split_asm)
  qed
next
  case False
  then show ?thesis using run kb2_validate_artifacts_spec [of st]
    by (auto simp: kb2_validate_storage_def tells_refusal_def split: if_split_asm)
qed

lemma seal_refusals:
  assumes al: "refusal_laws al refused" and laws: "allocator_laws al live" and wf: "storage_wf (bu_storage b)"
    and run: "kb2_closure_builder_seal al h True (Some b) = Some (s, copy, h')"
  shows "tells_refusal refused h s h' \<and> s \<noteq> KB2_STATUS_RESOURCE_EXHAUSTED"
proof -
  obtain s1 h1 where v: "kb2_validate_storage al h (bu_storage b) = Some (s1, h1)"
    using run by (auto simp: kb2_closure_builder_seal_def bind_eq_Some_conv)
  note r = validate_storage_refusals [OF al wf v]
  show ?thesis
  proof (cases "s1 = KB2_STATUS_OK")
    case True
    then have "kb2_closure_clone al h1 True (Some \<lparr>cl_block = 0, cl_storage = bu_storage b\<rparr>) = (s, copy, h')"
      using run v by (simp add: kb2_closure_builder_seal_def)
    from closure_clone_refusals [OF al _ this] wf r True show ?thesis by (auto simp: tells_refusal_def)
  next
    case False
    then have "s1 = s" "h1 = h'" using run v by (simp_all add: kb2_closure_builder_seal_def)
    moreover have "s1 \<noteq> KB2_STATUS_RESOURCE_EXHAUSTED"
      using kb2_validate_storage_spec [OF wf laws, of h] v by (auto split: if_split_asm)
    ultimately show ?thesis using r by simp
  qed
qed

section \<open>A concrete host\<close>

text \<open>An allocator that never reuses an address, with the list of live blocks as its state.\<close>

type_synonym bump_state = "nat \<times> (nat \<times> nat) list"

definition bump_allocator :: "bump_state kb2_allocator" where
  "bump_allocator =
    \<lparr>al_allocate = (\<lambda>(next_address, live) size'. (Some next_address, (next_address + 1, (next_address, size') # live))),
     al_deallocate = (\<lambda>(next_address, live) p size'. (next_address, remove1 (p, size') live))\<rparr>"

definition bump_live :: "bump_state \<Rightarrow> (nat \<times> nat) multiset" where
  "bump_live h = mset (snd h)"

lemma bump_allocator_laws: "allocator_laws bump_allocator bump_live"
  by (auto simp: allocator_laws_def bump_allocator_def bump_live_def)

text \<open>An allocator that has nothing to give.\<close>

definition empty_allocator :: "unit kb2_allocator" where
  "empty_allocator = \<lparr>al_allocate = (\<lambda>h n. (None, h)), al_deallocate = (\<lambda>h p n. h)\<rparr>"

lemma bump_refusal_laws: "refusal_laws bump_allocator (\<lambda>_. 0)"
  by (auto simp: refusal_laws_def bump_allocator_def)

lemma empty_allocator_laws: "allocator_laws empty_allocator (\<lambda>_. {#})"
  by (auto simp: allocator_laws_def empty_allocator_def)

definition next_state :: "kb2_status \<times> kb2_closure_builder option \<times> 'h \<Rightarrow> kb2_closure_builder \<times> 'h" where
  "next_state r = (the (fst (snd r)), snd (snd r))"

text \<open>A closure of one shared provider and one root module that depends on it.\<close>

definition sample_0 :: "kb2_closure_builder \<times> bump_state" where
  "sample_0 = next_state (kb2_closure_builder_create bump_allocator (1, []) True (Some (replicate 32 1)))"
definition sample_1 :: "kb2_closure_builder \<times> bump_state" where
  "sample_1 = (case sample_0 of (b, h) \<Rightarrow> next_state (kb2_closure_builder_add_artifact bump_allocator h (Some b)
     10 0 (Some (replicate 32 2)) (Some [0x61])))"
definition sample_2 :: "kb2_closure_builder \<times> bump_state" where
  "sample_2 = (case sample_1 of (b, h) \<Rightarrow> next_state (kb2_closure_builder_add_artifact bump_allocator h (Some b)
     20 1 (Some (replicate 32 3)) (Some [0x62])))"
definition sample_3 :: "kb2_closure_builder \<times> bump_state" where
  "sample_3 = (case sample_2 of (b, h) \<Rightarrow> next_state (kb2_closure_builder_set_native_lifecycle h (Some b) 10))"
definition sample_4 :: "kb2_closure_builder \<times> bump_state" where
  "sample_4 = (case sample_3 of (b, h) \<Rightarrow> next_state (kb2_closure_builder_set_native_lifecycle h (Some b) 20))"
definition sample_5 :: "kb2_closure_builder \<times> bump_state" where
  "sample_5 = (case sample_4 of (b, h) \<Rightarrow> next_state (kb2_closure_builder_mark_root h (Some b) 20))"
definition sample_6 :: "kb2_closure_builder \<times> bump_state" where
  "sample_6 = (case sample_5 of (b, h) \<Rightarrow> next_state (kb2_closure_builder_add_dependency bump_allocator h (Some b) 20 10))"

lemma next_state_eq:
  "fst r = s \<Longrightarrow> fst (snd r) \<noteq> None \<Longrightarrow> r = (s, Some (fst (next_state r)), snd (next_state r))"
  by (cases r) (auto simp: next_state_def)

lemma reachable_next:
  assumes "builder_reachable al h0 bh" "\<And>s b' h'. r = (s, Some b', h') \<Longrightarrow> builder_step al bh s (b', h')"
    "fst (snd r) \<noteq> None"
  shows "builder_reachable al h0 (next_state r)"
  using assms by (cases r) (auto simp: next_state_def intro: builder_reachable.stepped)

lemma on_builder_Some: "fst (snd (on_builder (Some b) h op)) \<noteq> None"
  by (simp split: prod.split)

lemma on_builder_returns:
  "fst (snd (kb2_closure_builder_add_artifact al h (Some b) node kind digest name)) \<noteq> None"
  "fst (snd (kb2_closure_builder_set_native_lifecycle h (Some b) node)) \<noteq> None"
  "fst (snd (kb2_closure_builder_mark_root h (Some b) node)) \<noteq> None"
  "fst (snd (kb2_closure_builder_add_dependency al h (Some b) consumer provider)) \<noteq> None"
  unfolding kb2_closure_builder_add_artifact_def kb2_closure_builder_set_native_lifecycle_def
    kb2_closure_builder_mark_root_def kb2_closure_builder_add_dependency_def
  by (rule on_builder_Some)+

lemma reachable_artifact:
  "builder_reachable al h0 bh \<Longrightarrow> builder_reachable al h0
     (next_state (kb2_closure_builder_add_artifact al (snd bh) (Some (fst bh)) node kind digest name))"
  by (erule reachable_next [OF _ _ on_builder_returns(1)]) (cases bh, simp, rule builder_step.step_artifact)

lemma reachable_native_lifecycle:
  "builder_reachable al h0 bh \<Longrightarrow> builder_reachable al h0
     (next_state (kb2_closure_builder_set_native_lifecycle (snd bh) (Some (fst bh)) node))"
  by (erule reachable_next [OF _ _ on_builder_returns(2)]) (cases bh, simp, rule builder_step.step_native_lifecycle)

lemma reachable_root:
  "builder_reachable al h0 bh \<Longrightarrow> builder_reachable al h0
     (next_state (kb2_closure_builder_mark_root (snd bh) (Some (fst bh)) node))"
  by (erule reachable_next [OF _ _ on_builder_returns(3)]) (cases bh, simp, rule builder_step.step_root)

lemma reachable_dependency:
  "builder_reachable al h0 bh \<Longrightarrow> builder_reachable al h0
     (next_state (kb2_closure_builder_add_dependency al (snd bh) (Some (fst bh)) consumer provider))"
  by (erule reachable_next [OF _ _ on_builder_returns(4)]) (cases bh, simp, rule builder_step.step_dependency)

lemma sample_reachable: "builder_reachable bump_allocator (1, []) sample_6"
proof -
  let ?r = "kb2_closure_builder_create bump_allocator (1, []) True (Some (replicate 32 1))"
  have "fst ?r = KB2_STATUS_OK \<and> fst (snd ?r) \<noteq> None" by code_simp
  then have "?r = (KB2_STATUS_OK, Some (fst sample_0), snd sample_0)"
    unfolding sample_0_def by (intro next_state_eq) blast+
  then have "builder_reachable bump_allocator (1, []) (fst sample_0, snd sample_0)"
    by (rule builder_reachable.created)
  then show ?thesis
    unfolding sample_6_def sample_5_def sample_4_def sample_3_def sample_2_def sample_1_def case_prod_beta
    by (intro reachable_artifact reachable_native_lifecycle reachable_root reachable_dependency) simp
qed

text \<open>The storage of the finished sample, written out.\<close>

definition sample_provider :: kb2_closure_artifact_record where
  "sample_provider = \<lparr>ar_content_digest = replicate 32 2, ar_namespace_name = [0x61], ar_init_symbol = [],
     ar_quiesce_symbol = [], ar_cleanup_symbol = [], ar_node_id = 10, ar_kind = 0, ar_lifecycle_set = True,
     ar_native_lifecycle = True, ar_is_root = False\<rparr>"

definition sample_module :: kb2_closure_artifact_record where
  "sample_module = \<lparr>ar_content_digest = replicate 32 3, ar_namespace_name = [0x62], ar_init_symbol = [],
     ar_quiesce_symbol = [], ar_cleanup_symbol = [], ar_node_id = 20, ar_kind = 1, ar_lifecycle_set = True,
     ar_native_lifecycle = True, ar_is_root = True\<rparr>"

definition sample_storage :: "kb2_closure_artifact_record list \<Rightarrow> kb2_closure_storage" where
  "sample_storage artifacts = (empty_storage (replicate 32 1))
     \<lparr>st_artifacts := \<lparr>arr_block = Some 2, arr_items = artifacts, arr_capacity = 8\<rparr>,
      st_dependencies := \<lparr>arr_block = Some 3,
        arr_items = [\<lparr>dp_consumer_node_id = 20, dp_provider_node_id = 10\<rparr>], arr_capacity = 8\<rparr>\<rparr>"

lemma sample_digests [simp]:
  "\<not> kb2_digest_is_zero (replicate 32 1)" "\<not> kb2_digest_is_zero (replicate 32 2)"
  "\<not> kb2_digest_is_zero (replicate 32 3)"
  by code_simp+

lemma sample_storage_wf:
  "storage_wf (sample_storage [sample_provider, sample_module])"
  "storage_wf (sample_storage [sample_module, sample_provider])"
  by (simp_all add: sample_storage_def empty_storage_def sample_provider_def sample_module_def storage_wf_def
      artifacts_wf_def dependencies_wf_def exports_wf_def imports_wf_def resources_wf_def bindings_wf_def
      array_ok_def artifact_wf_def name_ok_def empty_array_def)

lemma sample_closure_spec: "closure_spec (sample_storage [sample_provider, sample_module])"
  by (auto simp: closure_spec_def artifacts_spec_def graph_spec_def symbols_spec_def resources_spec_def
      sample_storage_def empty_storage_def sample_provider_def sample_module_def acyclic_insert
      dependency_relation_def acyclic_def [of "{}"])

definition sample_builder :: kb2_closure_builder where
  "sample_builder = \<lparr>bu_block = 1, bu_storage = sample_storage [sample_provider, sample_module]\<rparr>"

section \<open>Properties\<close>

text \<open>C16. The builder's invariant: whatever operations are called on a builder, successful or not,
  its arrays stay within their capacity and bound, identifiers, names and keys stay unique,
  every stored name and digest is valid, only modules are roots, and the rights a resource
  requires are among those it may have, which are known rights of its type.\<close>

theorem kb2_closure_builder_invariant:
  "builder_reachable al h0 (b, h) \<Longrightarrow> storage_wf (bu_storage b)"
  using builder_reachable_wf by fastforce

theorem kb2_closure_builder_invariant_witness: "storage_wf (bu_storage (fst sample_6))"
  using kb2_closure_builder_invariant [of bump_allocator "(1, [])" "fst sample_6" "snd sample_6"]
    sample_reachable by simp

text \<open>C13. The graph check is right and ends: on a builder's storage the adjacency lists, Kahn's
  algorithm and the breadth-first search always finish, and they accept exactly the graphs
  whose dependencies join artifacts, with no provider depending on a module, without a cycle,
  and with every artifact reachable from a root module.\<close>

theorem kb2_graph_status_decides:
  "storage_wf st \<Longrightarrow> kb2_graph_status st (kb2_node_map_entries st)
     = Some (if graph_spec st then KB2_STATUS_OK else KB2_STATUS_INVALID_CONFIGURATION)"
  by (intro kb2_graph_status_spec storage_wf_ids)
    (auto simp: storage_wf_def dependencies_wf_def array_ok_def)

theorem kb2_graph_status_decides_witness:
  "kb2_graph_status (sample_storage [sample_provider, sample_module])
     (kb2_node_map_entries (sample_storage [sample_provider, sample_module])) = Some KB2_STATUS_OK"
  using kb2_graph_status_decides [OF sample_storage_wf(1)] sample_closure_spec by (simp add: closure_spec_def)

text \<open>C14. Sealing is exact. On a well-formed builder \<open>kb2_closure_builder_seal\<close> returns, with one of three
  answers. OK: the storage satisfies the declarative closure condition (life cycles, graph, symbols,
  resources), no request was refused by the allocator, and the sealed closure holds the same records
  in canonical order. INVALID_CONFIGURATION: the condition does not hold, and no request was refused.
  NO_MEMORY: the allocator did refuse a request during the call. The allocator's ledger has grown by
  the closure's blocks alone, or not at all. So as long as memory is available the answer is OK
  exactly for the storages that satisfy the condition.\<close>

theorem kb2_closure_builder_seal_correct:
  assumes "storage_wf (bu_storage b)" "allocator_laws al live" "refusal_laws al refused"
  shows "\<exists>s copy h'. kb2_closure_builder_seal al h True (Some b) = Some (s, copy, h') \<and>
    (s = KB2_STATUS_OK \<and> closure_spec (bu_storage b) \<and> refused h' = refused h \<and>
       (\<exists>c. copy = Some c \<and> live h' = live h + closure_blocks c \<and> sorted_copy (cl_storage c) (bu_storage b)) \<or>
     s = KB2_STATUS_INVALID_CONFIGURATION \<and> \<not> closure_spec (bu_storage b) \<and> refused h' = refused h \<and>
       copy = None \<and> live h' = live h \<or>
     s = KB2_STATUS_NO_MEMORY \<and> refused h < refused h' \<and> copy = None \<and> live h' = live h)"
proof -
  from kb2_closure_builder_seal_spec [OF assms(1,2), of h] obtain s copy h' where
    run: "kb2_closure_builder_seal al h True (Some b) = Some (s, copy, h')" and
    r: "s = KB2_STATUS_OK \<and> closure_spec (bu_storage b) \<and>
       (\<exists>c. copy = Some c \<and> live h' = live h + closure_blocks c \<and> sorted_copy (cl_storage c) (bu_storage b)) \<or>
     s = KB2_STATUS_INVALID_CONFIGURATION \<and> \<not> closure_spec (bu_storage b) \<and> copy = None \<and> live h' = live h \<or>
     s \<in> {KB2_STATUS_NO_MEMORY, KB2_STATUS_RESOURCE_EXHAUSTED} \<and> copy = None \<and> live h' = live h" by blast
  from seal_refusals [OF assms(3,2,1) run] r show ?thesis
    using run by (auto simp: tells_refusal_def)
qed

theorem kb2_closure_builder_seal_correct_witness:
  "closure_spec (bu_storage sample_builder) \<and>
   (\<exists>c h'. kb2_closure_builder_seal bump_allocator (4, []) True (Some sample_builder) = Some (KB2_STATUS_OK, Some c, h') \<and>
      sorted_copy (cl_storage c) (bu_storage sample_builder)) \<and>
   (\<exists>h'. kb2_closure_builder_seal (counting empty_allocator) ((), 0) True (Some sample_builder) =
      Some (KB2_STATUS_NO_MEMORY, None, h') \<and> 0 < snd h')"
proof -
  have wf: "storage_wf (bu_storage sample_builder)" "closure_spec (bu_storage sample_builder)"
    using sample_storage_wf(1) sample_closure_spec by (simp_all add: sample_builder_def)
  have ok: "\<exists>c h'. kb2_closure_builder_seal bump_allocator (4, []) True (Some sample_builder) = Some (KB2_STATUS_OK, Some c, h') \<and>
      sorted_copy (cl_storage c) (bu_storage sample_builder)"
    using kb2_closure_builder_seal_correct [OF wf(1) bump_allocator_laws bump_refusal_laws, of "(4, [])"] wf(2) by auto
  have "closure_blocks c \<noteq> {#}" for c by (simp add: closure_blocks_def)
  then have "\<exists>h'. kb2_closure_builder_seal (counting empty_allocator) ((), 0) True (Some sample_builder) =
      Some (KB2_STATUS_NO_MEMORY, None, h') \<and> 0 < snd h'"
    using kb2_closure_builder_seal_correct
      [OF wf(1) counting_laws(2) [OF empty_allocator_laws] counting_laws(1), of "((), 0)"] wf(2)
    by auto
  with ok wf(2) show ?thesis by blast
qed

text \<open>C15. No leak and no double free: create a builder, call any operations on it, try to seal it,
  then destroy the builder and the closure if there is one. Whatever failed on the way, the
  allocator's ledger of live blocks is the one before the builder was created.\<close>

theorem kb2_closure_lifecycle_no_leak:
  assumes "allocator_laws al live" "builder_reachable al h0 (b, h)"
  shows "\<exists>s copy h1. kb2_closure_builder_seal al h True (Some b) = Some (s, copy, h1) \<and>
    live (kb2_closure_destroy al (kb2_closure_builder_destroy al h1 (Some b)) copy) = live h0"
proof -
  have l: "live h = live h0 + builder_blocks b"
    using builder_reachable_blocks [OF assms] by simp
  have "storage_wf (bu_storage b)" using builder_reachable_wf [OF assms(2)] by simp
  from kb2_closure_builder_seal_spec [OF this assms(1), of h] obtain s copy h1 where
    run: "kb2_closure_builder_seal al h True (Some b) = Some (s, copy, h1)"
    and "(\<exists>c. copy = Some c \<and> live h1 = live h + closure_blocks c) \<or> copy = None \<and> live h1 = live h"
    by blast
  then consider c where "copy = Some c" "live h1 = (live h0 + closure_blocks c) + builder_blocks b" |
      "copy = None" "live h1 = live h0 + builder_blocks b"
    using l by (auto simp: ac_simps)
  then have "live (kb2_closure_destroy al (kb2_closure_builder_destroy al h1 (Some b)) copy) = live h0"
  proof cases
    case 1
    from kb2_closure_destroy_blocks [OF assms(1) kb2_closure_builder_destroy_blocks [OF assms(1) 1(2)]]
    show ?thesis using 1(1) by simp
  next
    case 2
    from kb2_closure_builder_destroy_blocks [OF assms(1) 2(2)] show ?thesis using 2(1) by simp
  qed
  with run show ?thesis by blast
qed

theorem kb2_closure_lifecycle_no_leak_witness:
  "\<exists>s copy h1. kb2_closure_builder_seal bump_allocator (snd sample_6) True (Some (fst sample_6)) = Some (s, copy, h1) \<and>
    bump_live (kb2_closure_destroy bump_allocator
      (kb2_closure_builder_destroy bump_allocator h1 (Some (fst sample_6))) copy) = {#}"
  using kb2_closure_lifecycle_no_leak [OF bump_allocator_laws, of "(1, [])" "fst sample_6" "snd sample_6"]
    sample_reachable by (simp add: bump_live_def)

text \<open>C17. The canonical order forgets the order of the calls: two well-formed storages with the same
  records, added in any order, are the same after the sort that every clone performs, so that
  sealed closures can be compared record by record.\<close>

theorem kb2_storage_sort_canonical:
  assumes "storage_wf st"
    "mset (arr_items (st_artifacts st)) = mset (arr_items (st_artifacts st'))"
    "mset (arr_items (st_dependencies st)) = mset (arr_items (st_dependencies st'))"
    "mset (arr_items (st_exports st)) = mset (arr_items (st_exports st'))"
    "mset (arr_items (st_imports st)) = mset (arr_items (st_imports st'))"
    "mset (arr_items (st_resources st)) = mset (arr_items (st_resources st'))"
    "mset (arr_items (st_resource_bindings st)) = mset (arr_items (st_resource_bindings st'))"
    "st_manifest_digest st = st_manifest_digest st'"
  shows "same_items (kb2_storage_sort st) (kb2_storage_sort st')"
proof -
  have d: "distinct (map ar_node_id (arr_items (st_artifacts st)))"
    "distinct (map (\<lambda>d. (dp_consumer_node_id d, dp_provider_node_id d)) (arr_items (st_dependencies st)))"
    "distinct (map (\<lambda>e. (ex_node_id e, ex_symbol e, ex_kind e)) (arr_items (st_exports st)))"
    "distinct (map (\<lambda>i. (im_consumer_node_id i, im_consumer_symbol i, im_provider_node_id i))
       (arr_items (st_imports st)))"
    "distinct (map rs_slot_id (arr_items (st_resources st)))"
    "distinct (map (\<lambda>b. (bd_slot_id b, bd_node_id b)) (arr_items (st_resource_bindings st)))"
    using assms(1) by (auto simp: storage_wf_def artifacts_wf_def dependencies_wf_def exports_wf_def
        imports_wf_def resources_wf_def bindings_wf_def distinct_map inj_on_def)
  show ?thesis
    using artifact_order.qsort_canonical [OF assms(2) d(1)] dependency_order.qsort_canonical [OF assms(3) d(2)]
      export_order.qsort_canonical [OF assms(4) d(3)] import_order.qsort_canonical [OF assms(5) d(4)]
      resource_order.qsort_canonical [OF assms(6) d(5)] binding_order.qsort_canonical [OF assms(7) d(6)] assms(8)
    by (simp add: same_items_def kb2_storage_sort_def artifact_order.sort_array_items
        dependency_order.sort_array_items export_order.sort_array_items import_order.sort_array_items
        resource_order.sort_array_items binding_order.sort_array_items)
qed

theorem kb2_storage_sort_canonical_witness:
  "same_items (kb2_storage_sort (sample_storage [sample_provider, sample_module]))
     (kb2_storage_sort (sample_storage [sample_module, sample_provider]))"
  by (rule kb2_storage_sort_canonical [OF sample_storage_wf(1)]) (simp_all add: sample_storage_def empty_storage_def)

end
