(* ===== verification/Controller.thy ===== *)
theory Controller
  imports Closure
begin

text \<open>
  The life-cycle controller, \<open>src/controller/controller.c\<close>. A controller holds the launch
  configuration, the flags that say what of a generation is still to be cleaned up, and at
  most one pending action, which the host performs and completes. The theory models every
  function of the file, lets an arbitrary client call them in any order beside a host that
  performs the actions, and proves what the host may rely on.
\<close>

section \<open>Data\<close>

datatype kb2_state = KB2_STATE_INVALID | KB2_STATE_IDLE | KB2_STATE_STARTING | KB2_STATE_HANDSHAKING
  | KB2_STATE_RUNNING | KB2_STATE_STOPPING | KB2_STATE_FAULTED

datatype kb2_action_type = KB2_ACTION_NONE | KB2_ACTION_ALLOCATE_RESOURCES | KB2_ACTION_LAUNCH_SANDBOX
  | KB2_ACTION_TRANSFER_RESOURCES | KB2_ACTION_QUIESCE_SANDBOX | KB2_ACTION_TERMINATE_SANDBOX
  | KB2_ACTION_REVOKE_RESOURCES | KB2_ACTION_RESET_RESOURCES | KB2_ACTION_REAP_SANDBOX
  | KB2_ACTION_RELEASE_RESOURCES

datatype kb2_fault_kind = KB2_FAULT_NONE | KB2_FAULT_PROCESS_EXIT | KB2_FAULT_PROTOCOL
  | KB2_FAULT_HOST_ACTION | KB2_FAULT_CONTROLLER

text \<open>The casts of the two enumerations to \<open>uint64_t\<close>, which become fault codes.\<close>

primrec action_code :: "kb2_action_type \<Rightarrow> u64" where
  "action_code KB2_ACTION_NONE = 0"
| "action_code KB2_ACTION_ALLOCATE_RESOURCES = 1"
| "action_code KB2_ACTION_LAUNCH_SANDBOX = 2"
| "action_code KB2_ACTION_TRANSFER_RESOURCES = 3"
| "action_code KB2_ACTION_QUIESCE_SANDBOX = 4"
| "action_code KB2_ACTION_TERMINATE_SANDBOX = 5"
| "action_code KB2_ACTION_REVOKE_RESOURCES = 6"
| "action_code KB2_ACTION_RESET_RESOURCES = 7"
| "action_code KB2_ACTION_REAP_SANDBOX = 8"
| "action_code KB2_ACTION_RELEASE_RESOURCES = 9"

primrec status_code :: "kb2_status \<Rightarrow> u64" where
  "status_code KB2_STATUS_OK = 0"
| "status_code KB2_STATUS_INVALID_ARGUMENT = 1"
| "status_code KB2_STATUS_INVALID_STATE = 2"
| "status_code KB2_STATUS_INVALID_CONFIGURATION = 3"
| "status_code KB2_STATUS_ACTION_PENDING = 4"
| "status_code KB2_STATUS_STALE_GENERATION = 5"
| "status_code KB2_STATUS_STALE_ACTION = 6"
| "status_code KB2_STATUS_NO_MEMORY = 7"
| "status_code KB2_STATUS_RESOURCE_DENIED = 8"
| "status_code KB2_STATUS_RESOURCE_EXHAUSTED = 9"
| "status_code KB2_STATUS_HOST_FAILURE = 10"
| "status_code KB2_STATUS_COUNTER_EXHAUSTED = 11"

abbreviation (input) UINT64_MAX :: u64 where "UINT64_MAX \<equiv> - 1"
abbreviation (input) KB2_DIGEST_MANIFEST :: int where "KB2_DIGEST_MANIFEST \<equiv> 0"
abbreviation (input) KB2_DIGEST_PROFILE :: nat where "KB2_DIGEST_PROFILE \<equiv> 1"
abbreviation (input) KB2_DIGEST_CHANNEL_SET :: int where "KB2_DIGEST_CHANNEL_SET \<equiv> 3"
abbreviation (input) KB2_DIGEST_KIND_COUNT :: nat where "KB2_DIGEST_KIND_COUNT \<equiv> 4"
abbreviation (input) KB2_LIMIT_SHARED_MEMORY_BYTES :: int where "KB2_LIMIT_SHARED_MEMORY_BYTES \<equiv> 0"
abbreviation (input) KB2_LIMIT_OUTSTANDING_REQUEST_COUNT :: int where
  "KB2_LIMIT_OUTSTANDING_REQUEST_COUNT \<equiv> 3"
abbreviation (input) KB2_LIMIT_KIND_COUNT :: nat where "KB2_LIMIT_KIND_COUNT \<equiv> 4"
abbreviation (input) KB2_LAUNCH_RESET_REQUIRED :: u32 where "KB2_LAUNCH_RESET_REQUIRED \<equiv> 1"
abbreviation (input) KB2_KNOWN_LAUNCH_FLAGS :: u32 where "KB2_KNOWN_LAUNCH_FLAGS \<equiv> 1"
abbreviation (input) sizeof_controller :: nat where "sizeof_controller \<equiv> 496"

record kb2_configuration =
  cf_closure :: "kb2_closure option"
  cf_digests :: "bytes list"
  cf_limits :: "u64 list"
  cf_digest_mask :: u32
  cf_flags :: u32

record kb2_action =
  ac_type :: kb2_action_type
  ac_token :: u64
  ac_generation :: u64
  ac_resource_set_id :: u64
  ac_sandbox_id :: u64
  ac_configuration :: kb2_configuration

record kb2_controller =
  co_block :: nat
  co_configuration :: kb2_configuration
  co_action :: kb2_action
  co_state :: kb2_state
  co_fault_kind :: kb2_fault_kind
  co_fault_code :: u64
  co_generation :: u64
  co_next_token :: u64
  co_resource_set_id :: u64
  co_sandbox_id :: u64
  co_action_pending :: bool
  co_resources_allocated :: bool
  co_resources_revoked :: bool
  co_resources_reset :: bool
  co_process_started :: bool
  co_process_exited :: bool
  co_restart_requested :: bool
  co_graceful_stop :: bool

text \<open>What \<open>memset\<close> to zero leaves in the structures.\<close>

definition zero_configuration :: kb2_configuration where
  "zero_configuration = \<lparr>cf_closure = None, cf_digests = replicate KB2_DIGEST_KIND_COUNT (replicate KB2_DIGEST_SIZE 0),
     cf_limits = replicate KB2_LIMIT_KIND_COUNT 0, cf_digest_mask = 0, cf_flags = 0\<rparr>"

definition zero_action :: kb2_action where
  "zero_action = \<lparr>ac_type = KB2_ACTION_NONE, ac_token = 0, ac_generation = 0, ac_resource_set_id = 0,
     ac_sandbox_id = 0, ac_configuration = zero_configuration\<rparr>"

section \<open>Helpers\<close>

definition kb2_digest_kind_valid :: "int \<Rightarrow> bool" where
  "kb2_digest_kind_valid kind \<longleftrightarrow> KB2_DIGEST_MANIFEST \<le> kind \<and> kind \<le> KB2_DIGEST_CHANNEL_SET"

definition kb2_limit_kind_valid :: "int \<Rightarrow> bool" where
  "kb2_limit_kind_valid kind \<longleftrightarrow>
     KB2_LIMIT_SHARED_MEMORY_BYTES \<le> kind \<and> kind \<le> KB2_LIMIT_OUTSTANDING_REQUEST_COUNT"

definition kb2_clear_action :: "kb2_controller \<Rightarrow> kb2_controller" where
  "kb2_clear_action c = c\<lparr>co_action := zero_action, co_action_pending := False\<rparr>"

text \<open>The switch of \<open>kb2_emit_action\<close>: which identifiers an action carries.\<close>

fun action_ids :: "kb2_controller \<Rightarrow> kb2_action_type \<Rightarrow> u64 \<times> u64" where
  "action_ids c KB2_ACTION_LAUNCH_SANDBOX = (co_resource_set_id c, 0)"
| "action_ids c KB2_ACTION_RESET_RESOURCES = (co_resource_set_id c, 0)"
| "action_ids c KB2_ACTION_RELEASE_RESOURCES = (co_resource_set_id c, 0)"
| "action_ids c KB2_ACTION_TRANSFER_RESOURCES = (co_resource_set_id c, co_sandbox_id c)"
| "action_ids c KB2_ACTION_QUIESCE_SANDBOX = (co_resource_set_id c, co_sandbox_id c)"
| "action_ids c KB2_ACTION_TERMINATE_SANDBOX = (0, co_sandbox_id c)"
| "action_ids c KB2_ACTION_REAP_SANDBOX = (0, co_sandbox_id c)"
| "action_ids c KB2_ACTION_REVOKE_RESOURCES = (co_resource_set_id c, 0)"
| "action_ids c KB2_ACTION_ALLOCATE_RESOURCES = (0, 0)"
| "action_ids c KB2_ACTION_NONE = (0, 0)"

definition kb2_emit_action :: "kb2_controller \<Rightarrow> kb2_action_type \<Rightarrow> kb2_status \<times> kb2_controller" where
  "kb2_emit_action c type =
     (if co_next_token c = UINT64_MAX
      then (KB2_STATUS_COUNTER_EXHAUSTED, c\<lparr>co_state := KB2_STATE_FAULTED,
        co_fault_kind := KB2_FAULT_CONTROLLER, co_fault_code := status_code KB2_STATUS_COUNTER_EXHAUSTED\<rparr>)
      else let c = c\<lparr>co_next_token := co_next_token c + 1\<rparr> in
        (KB2_STATUS_OK, c\<lparr>co_action := \<lparr>ac_type = type, ac_token = co_next_token c,
           ac_generation = co_generation c, ac_resource_set_id = fst (action_ids c type),
           ac_sandbox_id = snd (action_ids c type), ac_configuration = co_configuration c\<rparr>,
           co_action_pending := True\<rparr>))"

definition kb2_validate_configuration :: "kb2_controller \<Rightarrow> kb2_status" where
  "kb2_validate_configuration c =
     (let cf = co_configuration c in
      if cf_closure cf = None \<or> cf_digest_mask cf \<noteq> (push_bit KB2_DIGEST_KIND_COUNT 1 - 1) AND NOT (push_bit 0 1)
      then KB2_STATUS_INVALID_CONFIGURATION
      else if list_ex (\<lambda>index. kb2_digest_is_zero (cf_digests cf ! index)) [KB2_DIGEST_PROFILE..<KB2_DIGEST_KIND_COUNT]
      then KB2_STATUS_INVALID_CONFIGURATION
      else if list_ex (\<lambda>index. cf_limits cf ! index = 0) [0..<KB2_LIMIT_KIND_COUNT]
      then KB2_STATUS_INVALID_CONFIGURATION
      else if cf_flags cf AND NOT KB2_KNOWN_LAUNCH_FLAGS \<noteq> 0 then KB2_STATUS_INVALID_CONFIGURATION
      else KB2_STATUS_OK)"

definition kb2_action_result_valid :: "kb2_status \<Rightarrow> bool" where
  "kb2_action_result_valid result \<longleftrightarrow> result = KB2_STATUS_OK \<or> result = KB2_STATUS_RESOURCE_DENIED \<or>
     result = KB2_STATUS_RESOURCE_EXHAUSTED \<or> result = KB2_STATUS_HOST_FAILURE"

definition kb2_begin_start :: "kb2_controller \<Rightarrow> kb2_status \<times> kb2_controller" where
  "kb2_begin_start c =
     (if co_generation c = UINT64_MAX \<or> co_next_token c = UINT64_MAX then (KB2_STATUS_COUNTER_EXHAUSTED, c)
      else if kb2_validate_configuration c \<noteq> KB2_STATUS_OK then (kb2_validate_configuration c, c)
      else kb2_emit_action (c\<lparr>co_generation := co_generation c + 1, co_state := KB2_STATE_STARTING,
        co_fault_kind := KB2_FAULT_NONE, co_fault_code := 0, co_resource_set_id := 0, co_sandbox_id := 0,
        co_resources_allocated := False, co_resources_revoked := False, co_resources_reset := False,
        co_process_started := False, co_process_exited := False\<rparr>) KB2_ACTION_ALLOCATE_RESOURCES)"

definition kb2_finish_cleanup :: "kb2_controller \<Rightarrow> kb2_status \<times> kb2_controller" where
  "kb2_finish_cleanup c =
     (let restart = co_restart_requested c;
          c = c\<lparr>co_restart_requested := False, co_state := KB2_STATE_IDLE,
                co_fault_kind := KB2_FAULT_NONE, co_fault_code := 0\<rparr> in
      if restart then
        (case kb2_begin_start c of (status, c) \<Rightarrow>
          (status, if status \<noteq> KB2_STATUS_OK
             then c\<lparr>co_state := KB2_STATE_FAULTED, co_fault_kind := KB2_FAULT_CONTROLLER,
                    co_fault_code := status_code status\<rparr>
             else c))
      else (KB2_STATUS_OK, c))"

definition kb2_next_cleanup_action :: "kb2_controller \<Rightarrow> kb2_status \<times> kb2_controller" where
  "kb2_next_cleanup_action c =
     (let reset_required = cf_flags (co_configuration c) AND KB2_LAUNCH_RESET_REQUIRED \<noteq> 0 in
      if co_process_started c
      then kb2_emit_action c (if co_graceful_stop c then KB2_ACTION_QUIESCE_SANDBOX else KB2_ACTION_TERMINATE_SANDBOX)
      else if co_resources_allocated c \<and> \<not> co_resources_revoked c
      then kb2_emit_action c KB2_ACTION_REVOKE_RESOURCES
      else if co_resources_allocated c \<and> reset_required \<and> \<not> co_resources_reset c
      then kb2_emit_action c KB2_ACTION_RESET_RESOURCES
      else if co_process_exited c then kb2_emit_action c KB2_ACTION_REAP_SANDBOX
      else if co_resources_allocated c then kb2_emit_action c KB2_ACTION_RELEASE_RESOURCES
      else kb2_finish_cleanup c)"

definition kb2_begin_cleanup :: "kb2_controller \<Rightarrow> bool \<Rightarrow> kb2_status \<times> kb2_controller" where
  "kb2_begin_cleanup c restart =
     kb2_next_cleanup_action (c\<lparr>co_graceful_stop := co_state c \<noteq> KB2_STATE_FAULTED,
       co_state := KB2_STATE_STOPPING, co_restart_requested := restart\<rparr>)"

section \<open>Construction and configuration\<close>

text \<open>
  As for the builder, a controller argument may be NULL. \<open>on_controller\<close> is the shared first
  check; operations that do not allocate have no host state.
\<close>

fun on_controller ::
    "kb2_controller option \<Rightarrow> (kb2_controller \<Rightarrow> kb2_status \<times> kb2_controller)
     \<Rightarrow> kb2_status \<times> kb2_controller option" where
  "on_controller None operation = (KB2_STATUS_INVALID_ARGUMENT, None)"
| "on_controller (Some c) operation = (case operation c of (status, c') \<Rightarrow> (status, Some c'))"

definition kb2_controller_create ::
    "'h kb2_allocator \<Rightarrow> 'h \<Rightarrow> bool \<Rightarrow> kb2_status \<times> kb2_controller option \<times> 'h" where
  "kb2_controller_create al h pointers =
     (if \<not> pointers then (KB2_STATUS_INVALID_ARGUMENT, None, h)
      else case al_allocate al h sizeof_controller of
        (None, h) \<Rightarrow> (KB2_STATUS_NO_MEMORY, None, h)
      | (Some p, h) \<Rightarrow>
          (KB2_STATUS_OK, Some \<lparr>co_block = p, co_configuration = zero_configuration, co_action = zero_action,
             co_state = KB2_STATE_IDLE, co_fault_kind = KB2_FAULT_NONE, co_fault_code = 0, co_generation = 0,
             co_next_token = 0, co_resource_set_id = 0, co_sandbox_id = 0, co_action_pending = False,
             co_resources_allocated = False, co_resources_revoked = False, co_resources_reset = False,
             co_process_started = False, co_process_exited = False, co_restart_requested = False,
             co_graceful_stop = False\<rparr>, h))"

fun kb2_controller_destroy :: "'h kb2_allocator \<Rightarrow> 'h \<Rightarrow> kb2_controller option \<Rightarrow> 'h" where
  "kb2_controller_destroy al h None = h"
| "kb2_controller_destroy al h (Some c) =
     al_deallocate al (kb2_closure_destroy al h (cf_closure (co_configuration c))) (co_block c) sizeof_controller"

definition kb2_controller_set_closure ::
    "'h kb2_allocator \<Rightarrow> 'h \<Rightarrow> kb2_controller option \<Rightarrow> kb2_closure option
     \<Rightarrow> kb2_status \<times> kb2_controller option \<times> 'h" where
  "kb2_controller_set_closure al h controller closure =
     (case controller of
        None \<Rightarrow> (KB2_STATUS_INVALID_ARGUMENT, None, h)
      | Some c \<Rightarrow>
        if closure = None then (KB2_STATUS_INVALID_ARGUMENT, Some c, h)
        else if co_state c \<noteq> KB2_STATE_IDLE \<or> co_action_pending c then (KB2_STATUS_INVALID_STATE, Some c, h)
        else (case kb2_closure_clone al h True closure of (status, copy, h) \<Rightarrow>
          if status \<noteq> KB2_STATUS_OK then (status, Some c, h)
          else let h = kb2_closure_destroy al h (cf_closure (co_configuration c)) in
            (KB2_STATUS_OK, Some (c\<lparr>co_configuration := (co_configuration c)
               \<lparr>cf_closure := copy, cf_flags := kb2_closure_launch_flags copy\<rparr>\<rparr>), h)))"

definition kb2_controller_set_digest ::
    "kb2_controller option \<Rightarrow> int \<Rightarrow> bytes option \<Rightarrow> kb2_status \<times> kb2_controller option" where
  "kb2_controller_set_digest controller kind digest = on_controller controller (\<lambda>c.
     case digest of
       None \<Rightarrow> (KB2_STATUS_INVALID_ARGUMENT, c)
     | Some digest \<Rightarrow>
       if \<not> kb2_digest_kind_valid kind \<or> length digest \<noteq> KB2_DIGEST_SIZE then (KB2_STATUS_INVALID_ARGUMENT, c)
       else if kind = KB2_DIGEST_MANIFEST then (KB2_STATUS_INVALID_ARGUMENT, c)
       else if co_state c \<noteq> KB2_STATE_IDLE \<or> co_action_pending c then (KB2_STATUS_INVALID_STATE, c)
       else if kb2_digest_is_zero digest then (KB2_STATUS_INVALID_CONFIGURATION, c)
       else (KB2_STATUS_OK, c\<lparr>co_configuration := (co_configuration c)
         \<lparr>cf_digests := (cf_digests (co_configuration c))[nat kind := digest],
          cf_digest_mask := cf_digest_mask (co_configuration c) OR push_bit (nat kind) 1\<rparr>\<rparr>))"

definition kb2_controller_set_limit ::
    "kb2_controller option \<Rightarrow> int \<Rightarrow> u64 \<Rightarrow> kb2_status \<times> kb2_controller option" where
  "kb2_controller_set_limit controller kind limit = on_controller controller (\<lambda>c.
     if \<not> kb2_limit_kind_valid kind then (KB2_STATUS_INVALID_ARGUMENT, c)
     else if co_state c \<noteq> KB2_STATE_IDLE \<or> co_action_pending c then (KB2_STATUS_INVALID_STATE, c)
     else if limit = 0 then (KB2_STATUS_INVALID_CONFIGURATION, c)
     else (KB2_STATUS_OK, c\<lparr>co_configuration := (co_configuration c)
       \<lparr>cf_limits := (cf_limits (co_configuration c))[nat kind := limit]\<rparr>\<rparr>))"

section \<open>Accessors\<close>

definition kb2_controller_state :: "kb2_controller option \<Rightarrow> kb2_state" where
  "kb2_controller_state controller = (case controller of None \<Rightarrow> KB2_STATE_INVALID | Some c \<Rightarrow> co_state c)"

definition kb2_controller_generation :: "kb2_controller option \<Rightarrow> u64" where
  "kb2_controller_generation controller = (case controller of None \<Rightarrow> 0 | Some c \<Rightarrow> co_generation c)"

definition kb2_controller_fault_kind :: "kb2_controller option \<Rightarrow> kb2_fault_kind" where
  "kb2_controller_fault_kind controller = (case controller of None \<Rightarrow> KB2_FAULT_NONE | Some c \<Rightarrow> co_fault_kind c)"

definition kb2_controller_fault_code :: "kb2_controller option \<Rightarrow> u64" where
  "kb2_controller_fault_code controller = (case controller of None \<Rightarrow> 0 | Some c \<Rightarrow> co_fault_code c)"

definition kb2_controller_pending_action :: "kb2_controller option \<Rightarrow> kb2_action option" where
  "kb2_controller_pending_action controller =
     (case controller of None \<Rightarrow> None | Some c \<Rightarrow> if \<not> co_action_pending c then None else Some (co_action c))"

definition kb2_action_type_of :: "kb2_action option \<Rightarrow> kb2_action_type" where
  "kb2_action_type_of action = (case action of None \<Rightarrow> KB2_ACTION_NONE | Some a \<Rightarrow> ac_type a)"

definition kb2_action_token :: "kb2_action option \<Rightarrow> u64" where
  "kb2_action_token action = (case action of None \<Rightarrow> 0 | Some a \<Rightarrow> ac_token a)"

definition kb2_action_generation :: "kb2_action option \<Rightarrow> u64" where
  "kb2_action_generation action = (case action of None \<Rightarrow> 0 | Some a \<Rightarrow> ac_generation a)"

definition kb2_action_resource_set_id :: "kb2_action option \<Rightarrow> u64" where
  "kb2_action_resource_set_id action = (case action of None \<Rightarrow> 0 | Some a \<Rightarrow> ac_resource_set_id a)"

definition kb2_action_sandbox_id :: "kb2_action option \<Rightarrow> u64" where
  "kb2_action_sandbox_id action = (case action of None \<Rightarrow> 0 | Some a \<Rightarrow> ac_sandbox_id a)"

definition kb2_action_launch_flags :: "kb2_action option \<Rightarrow> u32" where
  "kb2_action_launch_flags action = (case action of None \<Rightarrow> 0 | Some a \<Rightarrow> cf_flags (ac_configuration a))"

definition kb2_action_closure :: "kb2_action option \<Rightarrow> kb2_closure option" where
  "kb2_action_closure action = (case action of None \<Rightarrow> None | Some a \<Rightarrow> cf_closure (ac_configuration a))"

definition kb2_action_copy_digest ::
    "kb2_action option \<Rightarrow> int \<Rightarrow> bool \<Rightarrow> nat \<Rightarrow> kb2_status \<times> bytes option" where
  "kb2_action_copy_digest action kind digest_out digest_size =
     (case action of
        None \<Rightarrow> (KB2_STATUS_INVALID_ARGUMENT, None)
      | Some a \<Rightarrow>
        if \<not> digest_out \<or> \<not> kb2_digest_kind_valid kind \<or> digest_size \<noteq> KB2_DIGEST_SIZE
        then (KB2_STATUS_INVALID_ARGUMENT, None)
        else if kind = KB2_DIGEST_MANIFEST
        then kb2_closure_copy_manifest_digest (cf_closure (ac_configuration a)) digest_out digest_size
        else (KB2_STATUS_OK, Some (cf_digests (ac_configuration a) ! nat kind)))"

definition kb2_action_limit :: "kb2_action option \<Rightarrow> int \<Rightarrow> bool \<Rightarrow> kb2_status \<times> u64 option" where
  "kb2_action_limit action kind value_out =
     (case action of
        None \<Rightarrow> (KB2_STATUS_INVALID_ARGUMENT, None)
      | Some a \<Rightarrow>
        if \<not> value_out \<or> \<not> kb2_limit_kind_valid kind then (KB2_STATUS_INVALID_ARGUMENT, None)
        else (KB2_STATUS_OK, Some (cf_limits (ac_configuration a) ! nat kind)))"

section \<open>The life cycle\<close>

definition kb2_controller_start :: "kb2_controller option \<Rightarrow> kb2_status \<times> kb2_controller option" where
  "kb2_controller_start controller = on_controller controller (\<lambda>c.
     if co_state c \<noteq> KB2_STATE_IDLE then (KB2_STATUS_INVALID_STATE, c)
     else if co_action_pending c then (KB2_STATUS_ACTION_PENDING, c)
     else kb2_begin_start c)"

definition kb2_controller_stop :: "kb2_controller option \<Rightarrow> kb2_status \<times> kb2_controller option" where
  "kb2_controller_stop controller = on_controller controller (\<lambda>c.
     if co_action_pending c then (KB2_STATUS_ACTION_PENDING, c)
     else if co_state c \<noteq> KB2_STATE_HANDSHAKING \<and> co_state c \<noteq> KB2_STATE_RUNNING \<and> co_state c \<noteq> KB2_STATE_FAULTED
     then (KB2_STATUS_INVALID_STATE, c)
     else kb2_begin_cleanup c False)"

definition kb2_controller_restart :: "kb2_controller option \<Rightarrow> kb2_status \<times> kb2_controller option" where
  "kb2_controller_restart controller = on_controller controller (\<lambda>c.
     if co_action_pending c then (KB2_STATUS_ACTION_PENDING, c)
     else if co_state c \<noteq> KB2_STATE_HANDSHAKING \<and> co_state c \<noteq> KB2_STATE_RUNNING \<and> co_state c \<noteq> KB2_STATE_FAULTED
     then (KB2_STATUS_INVALID_STATE, c)
     else kb2_begin_cleanup c True)"

text \<open>The check of the identifiers a completion carries.\<close>

fun completion_ids_valid :: "kb2_action_type \<Rightarrow> kb2_status \<Rightarrow> u64 \<Rightarrow> u64 \<Rightarrow> bool" where
  "completion_ids_valid type result resource_set_id sandbox_id \<longleftrightarrow>
     (if result \<noteq> KB2_STATUS_OK then \<not> (resource_set_id \<noteq> 0 \<or> sandbox_id \<noteq> 0)
      else (case type of
          KB2_ACTION_ALLOCATE_RESOURCES \<Rightarrow> \<not> (resource_set_id = 0 \<or> sandbox_id \<noteq> 0)
        | KB2_ACTION_LAUNCH_SANDBOX \<Rightarrow> \<not> (resource_set_id \<noteq> 0 \<or> sandbox_id = 0)
        | _ \<Rightarrow> \<not> (resource_set_id \<noteq> 0 \<or> sandbox_id \<noteq> 0)))"

text \<open>The switch on the completed action after it was cleared.\<close>

fun after_completion ::
    "kb2_controller \<Rightarrow> kb2_action_type \<Rightarrow> u64 \<Rightarrow> u64 \<Rightarrow> kb2_status \<times> kb2_controller" where
  "after_completion c KB2_ACTION_ALLOCATE_RESOURCES resource_set_id sandbox_id =
     kb2_emit_action (c\<lparr>co_resource_set_id := resource_set_id, co_resources_allocated := True\<rparr>)
       KB2_ACTION_LAUNCH_SANDBOX"
| "after_completion c KB2_ACTION_LAUNCH_SANDBOX resource_set_id sandbox_id =
     kb2_emit_action (c\<lparr>co_sandbox_id := sandbox_id, co_process_started := True\<rparr>) KB2_ACTION_TRANSFER_RESOURCES"
| "after_completion c KB2_ACTION_TRANSFER_RESOURCES resource_set_id sandbox_id =
     (KB2_STATUS_OK, c\<lparr>co_state := KB2_STATE_HANDSHAKING\<rparr>)"
| "after_completion c KB2_ACTION_QUIESCE_SANDBOX resource_set_id sandbox_id =
     kb2_next_cleanup_action (c\<lparr>co_process_started := False, co_process_exited := True\<rparr>)"
| "after_completion c KB2_ACTION_TERMINATE_SANDBOX resource_set_id sandbox_id =
     kb2_next_cleanup_action (c\<lparr>co_process_started := False, co_process_exited := True\<rparr>)"
| "after_completion c KB2_ACTION_REAP_SANDBOX resource_set_id sandbox_id =
     kb2_next_cleanup_action (c\<lparr>co_process_exited := False, co_sandbox_id := 0\<rparr>)"
| "after_completion c KB2_ACTION_REVOKE_RESOURCES resource_set_id sandbox_id =
     kb2_next_cleanup_action (c\<lparr>co_resources_revoked := True\<rparr>)"
| "after_completion c KB2_ACTION_RESET_RESOURCES resource_set_id sandbox_id =
     kb2_next_cleanup_action (c\<lparr>co_resources_reset := True\<rparr>)"
| "after_completion c KB2_ACTION_RELEASE_RESOURCES resource_set_id sandbox_id =
     kb2_next_cleanup_action (c\<lparr>co_resources_allocated := False, co_resource_set_id := 0\<rparr>)"
| "after_completion c KB2_ACTION_NONE resource_set_id sandbox_id =
     (KB2_STATUS_INVALID_STATE, c\<lparr>co_state := KB2_STATE_FAULTED, co_fault_kind := KB2_FAULT_HOST_ACTION,
        co_fault_code := action_code KB2_ACTION_NONE\<rparr>)"

definition kb2_controller_complete_action ::
    "kb2_controller option \<Rightarrow> u64 \<Rightarrow> u64 \<Rightarrow> kb2_status \<Rightarrow> u64 \<Rightarrow> u64
     \<Rightarrow> kb2_status \<times> kb2_controller option" where
  "kb2_controller_complete_action controller generation token result resource_set_id sandbox_id =
     on_controller controller (\<lambda>c.
       if \<not> kb2_action_result_valid result then (KB2_STATUS_INVALID_ARGUMENT, c)
       else if \<not> co_action_pending c then (KB2_STATUS_INVALID_STATE, c)
       else if generation \<noteq> co_generation c then (KB2_STATUS_STALE_GENERATION, c)
       else if token \<noteq> ac_token (co_action c) then (KB2_STATUS_STALE_ACTION, c)
       else if \<not> completion_ids_valid (ac_type (co_action c)) result resource_set_id sandbox_id
       then (KB2_STATUS_INVALID_ARGUMENT, c)
       else let completed = ac_type (co_action c); c = kb2_clear_action c in
         if result \<noteq> KB2_STATUS_OK
         then (result, c\<lparr>co_state := KB2_STATE_FAULTED, co_fault_kind := KB2_FAULT_HOST_ACTION,
                 co_fault_code := action_code completed\<rparr>)
         else after_completion c completed resource_set_id sandbox_id)"

definition kb2_controller_report_ready ::
    "kb2_controller option \<Rightarrow> u64 \<Rightarrow> kb2_status \<times> kb2_controller option" where
  "kb2_controller_report_ready controller generation = on_controller controller (\<lambda>c.
     if generation \<noteq> co_generation c then (KB2_STATUS_STALE_GENERATION, c)
     else if co_action_pending c then (KB2_STATUS_ACTION_PENDING, c)
     else if co_state c \<noteq> KB2_STATE_HANDSHAKING then (KB2_STATUS_INVALID_STATE, c)
     else (KB2_STATUS_OK, c\<lparr>co_state := KB2_STATE_RUNNING\<rparr>))"

definition kb2_controller_report_fault ::
    "kb2_controller option \<Rightarrow> u64 \<Rightarrow> kb2_fault_kind \<Rightarrow> u64 \<Rightarrow> kb2_status \<times> kb2_controller option" where
  "kb2_controller_report_fault controller generation kind code = on_controller controller (\<lambda>c.
     if kind \<noteq> KB2_FAULT_PROCESS_EXIT \<and> kind \<noteq> KB2_FAULT_PROTOCOL then (KB2_STATUS_INVALID_ARGUMENT, c)
     else if generation \<noteq> co_generation c then (KB2_STATUS_STALE_GENERATION, c)
     else if co_action_pending c then (KB2_STATUS_ACTION_PENDING, c)
     else if co_state c \<noteq> KB2_STATE_HANDSHAKING \<and> co_state c \<noteq> KB2_STATE_RUNNING then (KB2_STATUS_INVALID_STATE, c)
     else let c = (if kind = KB2_FAULT_PROCESS_EXIT
                   then c\<lparr>co_process_started := False, co_process_exited := True\<rparr> else c) in
       (KB2_STATUS_OK, c\<lparr>co_state := KB2_STATE_FAULTED, co_fault_kind := kind, co_fault_code := code\<rparr>))"

section \<open>The controller's invariant\<close>

text \<open>The flags of a generation agree with each other and with the identifiers.\<close>

definition flags_ok :: "kb2_controller \<Rightarrow> bool" where
  "flags_ok c \<longleftrightarrow>
     (co_resources_allocated c \<longleftrightarrow> co_resource_set_id c \<noteq> 0) \<and>
     (co_process_started c \<or> co_process_exited c \<longleftrightarrow> co_sandbox_id c \<noteq> 0) \<and>
     \<not> (co_process_started c \<and> co_process_exited c) \<and>
     (co_process_started c \<or> co_process_exited c \<longrightarrow> co_resources_allocated c) \<and>
     (co_resources_revoked c \<longrightarrow> \<not> co_process_started c) \<and>
     (co_resources_reset c \<longrightarrow> co_resources_revoked c) \<and>
     (co_resources_reset c \<and> co_resources_allocated c \<longrightarrow> cf_flags (co_configuration c) AND 1 \<noteq> 0)"

definition configuration_ok :: "kb2_controller \<Rightarrow> bool" where
  "configuration_ok c \<longleftrightarrow>
     length (cf_digests (co_configuration c)) = KB2_DIGEST_KIND_COUNT \<and>
     length (cf_limits (co_configuration c)) = KB2_LIMIT_KIND_COUNT \<and>
     cf_flags (co_configuration c) = kb2_closure_launch_flags (cf_closure (co_configuration c))"

text \<open>The first step of the clean-up that the flags still ask for.\<close>

definition cleanup_action :: "kb2_controller \<Rightarrow> kb2_action_type option" where
  "cleanup_action c =
     (if co_process_started c
      then Some (if co_graceful_stop c then KB2_ACTION_QUIESCE_SANDBOX else KB2_ACTION_TERMINATE_SANDBOX)
      else if co_resources_allocated c \<and> \<not> co_resources_revoked c then Some KB2_ACTION_REVOKE_RESOURCES
      else if co_resources_allocated c \<and> cf_flags (co_configuration c) AND 1 \<noteq> 0 \<and> \<not> co_resources_reset c
      then Some KB2_ACTION_RESET_RESOURCES
      else if co_process_exited c then Some KB2_ACTION_REAP_SANDBOX
      else if co_resources_allocated c then Some KB2_ACTION_RELEASE_RESOURCES
      else None)"

definition pending_ok :: "kb2_controller \<Rightarrow> bool" where
  "pending_ok c \<longleftrightarrow> (co_action_pending c \<longrightarrow>
     ac_generation (co_action c) = co_generation c \<and> ac_token (co_action c) = co_next_token c \<and>
     co_next_token c \<noteq> 0 \<and> ac_configuration (co_action c) = co_configuration c \<and>
     (ac_resource_set_id (co_action c), ac_sandbox_id (co_action c)) = action_ids c (ac_type (co_action c)))"

definition starting_ok :: "kb2_controller \<Rightarrow> kb2_action_type \<Rightarrow> bool" where
  "starting_ok c type \<longleftrightarrow> \<not> co_process_exited c \<and> \<not> co_resources_revoked c \<and>
     (type = KB2_ACTION_ALLOCATE_RESOURCES \<and> \<not> co_resources_allocated c \<and> \<not> co_process_started c \<or>
      type = KB2_ACTION_LAUNCH_SANDBOX \<and> co_resources_allocated c \<and> \<not> co_process_started c \<or>
      type = KB2_ACTION_TRANSFER_RESOURCES \<and> co_process_started c)"

definition phase_ok :: "kb2_controller \<Rightarrow> bool" where
  "phase_ok c \<longleftrightarrow>
     (case co_state c of
        KB2_STATE_INVALID \<Rightarrow> False
      | KB2_STATE_IDLE \<Rightarrow> \<not> co_action_pending c \<and> cleanup_action c = None \<and>
          \<not> co_restart_requested c \<and> co_fault_kind c = KB2_FAULT_NONE
      | KB2_STATE_STARTING \<Rightarrow> co_action_pending c \<and> starting_ok c (ac_type (co_action c))
      | KB2_STATE_HANDSHAKING \<Rightarrow> \<not> co_action_pending c \<and> co_process_started c
      | KB2_STATE_RUNNING \<Rightarrow> \<not> co_action_pending c \<and> co_process_started c
      | KB2_STATE_STOPPING \<Rightarrow> co_action_pending c \<and> cleanup_action c = Some (ac_type (co_action c))
      | KB2_STATE_FAULTED \<Rightarrow> \<not> co_action_pending c \<and> co_fault_kind c \<noteq> KB2_FAULT_NONE) \<and>
     (co_state c \<noteq> KB2_STATE_IDLE \<longrightarrow> kb2_validate_configuration c = KB2_STATUS_OK)"

definition controller_inv :: "kb2_controller \<Rightarrow> bool" where
  "controller_inv c \<longleftrightarrow> flags_ok c \<and> configuration_ok c \<and> pending_ok c \<and> phase_ok c"

lemmas controller_inv_defs = controller_inv_def flags_ok_def configuration_ok_def pending_ok_def phase_ok_def

text \<open>Which fields each of the predicates depends on.\<close>

lemma flags_ok_frame [simp]:
  "flags_ok (c\<lparr>co_action := new_action\<rparr>) = flags_ok c"
  "flags_ok (c\<lparr>co_state := new_state\<rparr>) = flags_ok c"
  "flags_ok (c\<lparr>co_fault_kind := new_fault_kind\<rparr>) = flags_ok c"
  "flags_ok (c\<lparr>co_fault_code := new_fault_code\<rparr>) = flags_ok c"
  "flags_ok (c\<lparr>co_generation := new_generation\<rparr>) = flags_ok c"
  "flags_ok (c\<lparr>co_next_token := new_next_token\<rparr>) = flags_ok c"
  "flags_ok (c\<lparr>co_action_pending := new_action_pending\<rparr>) = flags_ok c"
  "flags_ok (c\<lparr>co_restart_requested := new_restart_requested\<rparr>) = flags_ok c"
  "flags_ok (c\<lparr>co_graceful_stop := new_graceful_stop\<rparr>) = flags_ok c"
  by (simp_all add: flags_ok_def)

lemma configuration_ok_frame [simp]:
  "configuration_ok (c\<lparr>co_action := new_action\<rparr>) = configuration_ok c"
  "configuration_ok (c\<lparr>co_state := new_state\<rparr>) = configuration_ok c"
  "configuration_ok (c\<lparr>co_fault_kind := new_fault_kind\<rparr>) = configuration_ok c"
  "configuration_ok (c\<lparr>co_fault_code := new_fault_code\<rparr>) = configuration_ok c"
  "configuration_ok (c\<lparr>co_generation := new_generation\<rparr>) = configuration_ok c"
  "configuration_ok (c\<lparr>co_next_token := new_next_token\<rparr>) = configuration_ok c"
  "configuration_ok (c\<lparr>co_resource_set_id := new_resource_set_id\<rparr>) = configuration_ok c"
  "configuration_ok (c\<lparr>co_sandbox_id := new_sandbox_id\<rparr>) = configuration_ok c"
  "configuration_ok (c\<lparr>co_action_pending := new_action_pending\<rparr>) = configuration_ok c"
  "configuration_ok (c\<lparr>co_resources_allocated := new_resources_allocated\<rparr>) = configuration_ok c"
  "configuration_ok (c\<lparr>co_resources_revoked := new_resources_revoked\<rparr>) = configuration_ok c"
  "configuration_ok (c\<lparr>co_resources_reset := new_resources_reset\<rparr>) = configuration_ok c"
  "configuration_ok (c\<lparr>co_process_started := new_process_started\<rparr>) = configuration_ok c"
  "configuration_ok (c\<lparr>co_process_exited := new_process_exited\<rparr>) = configuration_ok c"
  "configuration_ok (c\<lparr>co_restart_requested := new_restart_requested\<rparr>) = configuration_ok c"
  "configuration_ok (c\<lparr>co_graceful_stop := new_graceful_stop\<rparr>) = configuration_ok c"
  by (simp_all add: configuration_ok_def)

lemma validate_configuration_frame [simp]:
  "kb2_validate_configuration (c\<lparr>co_action := new_action\<rparr>) = kb2_validate_configuration c"
  "kb2_validate_configuration (c\<lparr>co_state := new_state\<rparr>) = kb2_validate_configuration c"
  "kb2_validate_configuration (c\<lparr>co_fault_kind := new_fault_kind\<rparr>) = kb2_validate_configuration c"
  "kb2_validate_configuration (c\<lparr>co_fault_code := new_fault_code\<rparr>) = kb2_validate_configuration c"
  "kb2_validate_configuration (c\<lparr>co_generation := new_generation\<rparr>) = kb2_validate_configuration c"
  "kb2_validate_configuration (c\<lparr>co_next_token := new_next_token\<rparr>) = kb2_validate_configuration c"
  "kb2_validate_configuration (c\<lparr>co_resource_set_id := new_resource_set_id\<rparr>) = kb2_validate_configuration c"
  "kb2_validate_configuration (c\<lparr>co_sandbox_id := new_sandbox_id\<rparr>) = kb2_validate_configuration c"
  "kb2_validate_configuration (c\<lparr>co_action_pending := new_action_pending\<rparr>) = kb2_validate_configuration c"
  "kb2_validate_configuration (c\<lparr>co_resources_allocated := new_resources_allocated\<rparr>) = kb2_validate_configuration c"
  "kb2_validate_configuration (c\<lparr>co_resources_revoked := new_resources_revoked\<rparr>) = kb2_validate_configuration c"
  "kb2_validate_configuration (c\<lparr>co_resources_reset := new_resources_reset\<rparr>) = kb2_validate_configuration c"
  "kb2_validate_configuration (c\<lparr>co_process_started := new_process_started\<rparr>) = kb2_validate_configuration c"
  "kb2_validate_configuration (c\<lparr>co_process_exited := new_process_exited\<rparr>) = kb2_validate_configuration c"
  "kb2_validate_configuration (c\<lparr>co_restart_requested := new_restart_requested\<rparr>) = kb2_validate_configuration c"
  "kb2_validate_configuration (c\<lparr>co_graceful_stop := new_graceful_stop\<rparr>) = kb2_validate_configuration c"
  by (simp_all add: kb2_validate_configuration_def)

lemma cleanup_action_frame [simp]:
  "cleanup_action (c\<lparr>co_action := new_action\<rparr>) = cleanup_action c"
  "cleanup_action (c\<lparr>co_state := new_state\<rparr>) = cleanup_action c"
  "cleanup_action (c\<lparr>co_fault_kind := new_fault_kind\<rparr>) = cleanup_action c"
  "cleanup_action (c\<lparr>co_fault_code := new_fault_code\<rparr>) = cleanup_action c"
  "cleanup_action (c\<lparr>co_generation := new_generation\<rparr>) = cleanup_action c"
  "cleanup_action (c\<lparr>co_next_token := new_next_token\<rparr>) = cleanup_action c"
  "cleanup_action (c\<lparr>co_resource_set_id := new_resource_set_id\<rparr>) = cleanup_action c"
  "cleanup_action (c\<lparr>co_sandbox_id := new_sandbox_id\<rparr>) = cleanup_action c"
  "cleanup_action (c\<lparr>co_action_pending := new_action_pending\<rparr>) = cleanup_action c"
  "cleanup_action (c\<lparr>co_restart_requested := new_restart_requested\<rparr>) = cleanup_action c"
  by (simp_all add: cleanup_action_def)

lemma starting_ok_frame [simp]:
  "starting_ok (c\<lparr>co_state := new_state\<rparr>) t = starting_ok c t"
  "starting_ok (c\<lparr>co_fault_kind := new_fault_kind\<rparr>) t = starting_ok c t"
  "starting_ok (c\<lparr>co_fault_code := new_fault_code\<rparr>) t = starting_ok c t"
  "starting_ok (c\<lparr>co_generation := new_generation\<rparr>) t = starting_ok c t"
  "starting_ok (c\<lparr>co_next_token := new_next_token\<rparr>) t = starting_ok c t"
  "starting_ok (c\<lparr>co_resource_set_id := new_resource_set_id\<rparr>) t = starting_ok c t"
  "starting_ok (c\<lparr>co_sandbox_id := new_sandbox_id\<rparr>) t = starting_ok c t"
  "starting_ok (c\<lparr>co_action_pending := new_action_pending\<rparr>) t = starting_ok c t"
  "starting_ok (c\<lparr>co_resources_reset := new_resources_reset\<rparr>) t = starting_ok c t"
  "starting_ok (c\<lparr>co_restart_requested := new_restart_requested\<rparr>) t = starting_ok c t"
  "starting_ok (c\<lparr>co_graceful_stop := new_graceful_stop\<rparr>) t = starting_ok c t"
  "starting_ok (c\<lparr>co_action := new_action\<rparr>) t = starting_ok c t"
  by (simp_all add: starting_ok_def)

lemma action_ids_frame [simp]:
  "action_ids (c\<lparr>co_action := new_action\<rparr>) t = action_ids c t"
  "action_ids (c\<lparr>co_state := new_state\<rparr>) t = action_ids c t"
  "action_ids (c\<lparr>co_fault_kind := new_fault_kind\<rparr>) t = action_ids c t"
  "action_ids (c\<lparr>co_fault_code := new_fault_code\<rparr>) t = action_ids c t"
  "action_ids (c\<lparr>co_generation := new_generation\<rparr>) t = action_ids c t"
  "action_ids (c\<lparr>co_next_token := new_next_token\<rparr>) t = action_ids c t"
  "action_ids (c\<lparr>co_action_pending := new_action_pending\<rparr>) t = action_ids c t"
  "action_ids (c\<lparr>co_resources_allocated := new_resources_allocated\<rparr>) t = action_ids c t"
  "action_ids (c\<lparr>co_resources_revoked := new_resources_revoked\<rparr>) t = action_ids c t"
  "action_ids (c\<lparr>co_resources_reset := new_resources_reset\<rparr>) t = action_ids c t"
  "action_ids (c\<lparr>co_process_started := new_process_started\<rparr>) t = action_ids c t"
  "action_ids (c\<lparr>co_process_exited := new_process_exited\<rparr>) t = action_ids c t"
  "action_ids (c\<lparr>co_restart_requested := new_restart_requested\<rparr>) t = action_ids c t"
  "action_ids (c\<lparr>co_graceful_stop := new_graceful_stop\<rparr>) t = action_ids c t"
  by (cases t; simp)+

lemma validate_configuration_result:
  "kb2_validate_configuration c \<in> {KB2_STATUS_OK, KB2_STATUS_INVALID_CONFIGURATION}"
  by (simp add: kb2_validate_configuration_def Let_def)

lemma minus_one_plus_one: "(x :: u64) \<noteq> - 1 \<Longrightarrow> x + 1 \<noteq> 0"
  by (metis add.inverse_unique add.commute)

text \<open>Emitting an action in a state that expects it, or faulting for want of a token.\<close>

lemma emit_action_inv:
  assumes "kb2_emit_action c t = (s, c')" "flags_ok c" "configuration_ok c" "\<not> co_action_pending c"
    "kb2_validate_configuration c = KB2_STATUS_OK"
    "co_state c = KB2_STATE_STARTING \<and> starting_ok c t \<or>
     co_state c = KB2_STATE_STOPPING \<and> cleanup_action c = Some t"
  shows "controller_inv c'"
  using assms
  by (auto simp: kb2_emit_action_def controller_inv_def pending_ok_def phase_ok_def Let_def
      minus_one_plus_one split: if_split_asm)

lemma begin_start_inv:
  assumes "kb2_begin_start c = (s, c')" "configuration_ok c" "\<not> co_action_pending c"
  shows "s = KB2_STATUS_OK \<and> controller_inv c' \<and> co_state c' = KB2_STATE_STARTING \<or>
    s \<noteq> KB2_STATUS_OK \<and> c' = c"
proof (cases "co_generation c = - 1 \<or> co_next_token c = - 1 \<or> kb2_validate_configuration c \<noteq> KB2_STATUS_OK")
  case True
  then show ?thesis using assms(1) by (auto simp: kb2_begin_start_def split: if_split_asm)
next
  case False
  let ?c = "c\<lparr>co_generation := co_generation c + 1, co_state := KB2_STATE_STARTING,
        co_fault_kind := KB2_FAULT_NONE, co_fault_code := 0, co_resource_set_id := 0, co_sandbox_id := 0,
        co_resources_allocated := False, co_resources_revoked := False, co_resources_reset := False,
        co_process_started := False, co_process_exited := False\<rparr>"
  have e: "kb2_emit_action ?c KB2_ACTION_ALLOCATE_RESOURCES = (s, c')"
    using assms(1) False by (simp add: kb2_begin_start_def)
  have "controller_inv c'"
    by (rule emit_action_inv [OF e]) (use assms False in \<open>auto simp: flags_ok_def starting_ok_def\<close>)
  moreover have "s = KB2_STATUS_OK \<and> co_state c' = KB2_STATE_STARTING"
    using e False by (auto simp: kb2_emit_action_def Let_def)
  ultimately show ?thesis by blast
qed

lemma next_cleanup_action_eq:
  "kb2_next_cleanup_action c =
     (case cleanup_action c of None \<Rightarrow> kb2_finish_cleanup c | Some t \<Rightarrow> kb2_emit_action c t)"
  by (simp add: kb2_next_cleanup_action_def cleanup_action_def Let_def)

lemma finish_cleanup_inv:
  assumes "kb2_finish_cleanup c = (s, c')" "flags_ok c" "configuration_ok c" "\<not> co_action_pending c"
    "kb2_validate_configuration c = KB2_STATUS_OK" "cleanup_action c = None"
  shows "controller_inv c'"
proof (cases "co_restart_requested c")
  case False
  then show ?thesis using assms
    by (auto simp: kb2_finish_cleanup_def controller_inv_def pending_ok_def phase_ok_def)
next
  case True
  let ?c = "c\<lparr>co_restart_requested := False, co_state := KB2_STATE_IDLE, co_fault_kind := KB2_FAULT_NONE, co_fault_code := 0\<rparr>"
  obtain s1 c1 where b: "kb2_begin_start ?c = (s1, c1)" by (metis prod.exhaust)
  from begin_start_inv [OF b] assms
  have "s1 = KB2_STATUS_OK \<and> controller_inv c1 \<or> s1 \<noteq> KB2_STATUS_OK \<and> c1 = ?c" by auto
  then show ?thesis using assms True b
    by (auto simp: kb2_finish_cleanup_def controller_inv_def pending_ok_def phase_ok_def Let_def)
qed

lemma next_cleanup_action_inv:
  assumes "kb2_next_cleanup_action c = (s, c')" "flags_ok c" "configuration_ok c" "\<not> co_action_pending c"
    "kb2_validate_configuration c = KB2_STATUS_OK" "co_state c = KB2_STATE_STOPPING"
  shows "controller_inv c'"
  using assms by (auto simp: next_cleanup_action_eq intro: finish_cleanup_inv emit_action_inv split: option.split_asm)

lemma begin_cleanup_inv:
  assumes "kb2_begin_cleanup c r = (s, c')" "controller_inv c" "\<not> co_action_pending c" "co_state c \<noteq> KB2_STATE_IDLE"
  shows "controller_inv c'"
  by (rule next_cleanup_action_inv [OF assms(1) [unfolded kb2_begin_cleanup_def]])
    (use assms in \<open>auto simp: controller_inv_def phase_ok_def\<close>)


section \<open>Calls of a client\<close>

datatype kb2_call = Set_Closure "kb2_closure option" | Set_Digest int "bytes option" | Set_Limit int u64
  | Start | Stop | Restart | Complete_Action u64 u64 kb2_status u64 u64 | Report_Ready u64
  | Report_Fault u64 kb2_fault_kind u64

text \<open>One call on a controller, by the operation it names.\<close>

fun run_call ::
    "'h kb2_allocator \<Rightarrow> kb2_call \<Rightarrow> kb2_controller \<Rightarrow> 'h \<Rightarrow> kb2_status \<times> kb2_controller option \<times> 'h" where
  "run_call al (Set_Closure closure) c h = kb2_controller_set_closure al h (Some c) closure"
| "run_call al (Set_Digest kind digest) c h = (case kb2_controller_set_digest (Some c) kind digest of (s, c') \<Rightarrow> (s, c', h))"
| "run_call al (Set_Limit kind limit) c h = (case kb2_controller_set_limit (Some c) kind limit of (s, c') \<Rightarrow> (s, c', h))"
| "run_call al Start c h = (case kb2_controller_start (Some c) of (s, c') \<Rightarrow> (s, c', h))"
| "run_call al Stop c h = (case kb2_controller_stop (Some c) of (s, c') \<Rightarrow> (s, c', h))"
| "run_call al Restart c h = (case kb2_controller_restart (Some c) of (s, c') \<Rightarrow> (s, c', h))"
| "run_call al (Complete_Action generation token result resource_set_id sandbox_id) c h =
     (case kb2_controller_complete_action (Some c) generation token result resource_set_id sandbox_id of
        (s, c') \<Rightarrow> (s, c', h))"
| "run_call al (Report_Ready generation) c h =
     (case kb2_controller_report_ready (Some c) generation of (s, c') \<Rightarrow> (s, c', h))"
| "run_call al (Report_Fault generation kind code) c h =
     (case kb2_controller_report_fault (Some c) generation kind code of (s, c') \<Rightarrow> (s, c', h))"

lemma on_controller_eq:
  "on_controller (Some c) operation = (s, c') \<longleftrightarrow> (\<exists>d. c' = Some d \<and> operation c = (s, d))"
  by (auto split: prod.splits)

declare on_controller.simps(2) [simp del]

lemma clear_action_frame [simp]:
  "flags_ok (kb2_clear_action c) = flags_ok c" "configuration_ok (kb2_clear_action c) = configuration_ok c"
  "kb2_validate_configuration (kb2_clear_action c) = kb2_validate_configuration c"
  "co_action_pending (kb2_clear_action c) = False" "co_state (kb2_clear_action c) = co_state c"
  by (simp_all add: kb2_clear_action_def)

text \<open>What the pending action says about the flags.\<close>

lemma pending_type:
  assumes "controller_inv c" "co_action_pending c"
  shows "co_state c = KB2_STATE_STARTING \<and> starting_ok c (ac_type (co_action c)) \<or>
    co_state c = KB2_STATE_STOPPING \<and> cleanup_action c = Some (ac_type (co_action c))"
    "kb2_validate_configuration c = KB2_STATUS_OK"
  using assms by (auto simp: controller_inv_def phase_ok_def split: kb2_state.split_asm)

lemma after_completion_inv:
  assumes run: "after_completion (kb2_clear_action c) (ac_type (co_action c)) rid sid = (s, c')"
    and inv: "controller_inv c" and p: "co_action_pending c"
    and ids: "completion_ids_valid (ac_type (co_action c)) KB2_STATUS_OK rid sid"
  shows "controller_inv c'"
proof -
  have f: "flags_ok c" "configuration_ok c" using inv by (simp_all add: controller_inv_def)
  note t = pending_type [OF inv p]
  show ?thesis
  proof (cases "ac_type (co_action c)")
    case KB2_ACTION_ALLOCATE_RESOURCES
    then show ?thesis using run ids f t
      by (intro emit_action_inv [of "(kb2_clear_action c)\<lparr>co_resource_set_id := rid, co_resources_allocated := True\<rparr>"
            KB2_ACTION_LAUNCH_SANDBOX s])
        (auto simp: flags_ok_def starting_ok_def kb2_clear_action_def cleanup_action_def split: if_split_asm)
  next
    case KB2_ACTION_LAUNCH_SANDBOX
    then show ?thesis using run ids f t
      by (intro emit_action_inv [of "(kb2_clear_action c)\<lparr>co_sandbox_id := sid, co_process_started := True\<rparr>"
            KB2_ACTION_TRANSFER_RESOURCES s])
        (auto simp: flags_ok_def starting_ok_def kb2_clear_action_def cleanup_action_def split: if_split_asm)
  next
    case KB2_ACTION_TRANSFER_RESOURCES
    then show ?thesis using run f t
      by (auto simp: controller_inv_def pending_ok_def phase_ok_def starting_ok_def kb2_clear_action_def cleanup_action_def
          split: if_split_asm)
  next
    case KB2_ACTION_QUIESCE_SANDBOX
    then show ?thesis using run f t
      by (intro next_cleanup_action_inv [of "(kb2_clear_action c)\<lparr>co_process_started := False, co_process_exited := True\<rparr>" s])
        (auto simp: flags_ok_def starting_ok_def kb2_clear_action_def cleanup_action_def split: if_split_asm)
  next
    case KB2_ACTION_TERMINATE_SANDBOX
    then show ?thesis using run f t
      by (intro next_cleanup_action_inv [of "(kb2_clear_action c)\<lparr>co_process_started := False, co_process_exited := True\<rparr>" s])
        (auto simp: flags_ok_def starting_ok_def kb2_clear_action_def cleanup_action_def split: if_split_asm)
  next
    case KB2_ACTION_REAP_SANDBOX
    then show ?thesis using run f t
      by (intro next_cleanup_action_inv [of "(kb2_clear_action c)\<lparr>co_process_exited := False, co_sandbox_id := 0\<rparr>" s])
        (auto simp: flags_ok_def starting_ok_def kb2_clear_action_def cleanup_action_def split: if_split_asm)
  next
    case KB2_ACTION_REVOKE_RESOURCES
    then show ?thesis using run f t
      by (intro next_cleanup_action_inv [of "(kb2_clear_action c)\<lparr>co_resources_revoked := True\<rparr>" s])
        (auto simp: flags_ok_def starting_ok_def kb2_clear_action_def cleanup_action_def split: if_split_asm)
  next
    case KB2_ACTION_RESET_RESOURCES
    then show ?thesis using run f t
      by (intro next_cleanup_action_inv [of "(kb2_clear_action c)\<lparr>co_resources_reset := True\<rparr>" s])
        (auto simp: flags_ok_def starting_ok_def kb2_clear_action_def cleanup_action_def split: if_split_asm)
  next
    case KB2_ACTION_RELEASE_RESOURCES
    then show ?thesis using run f t
      by (intro next_cleanup_action_inv [of "(kb2_clear_action c)\<lparr>co_resources_allocated := False, co_resource_set_id := 0\<rparr>" s])
        (auto simp: flags_ok_def starting_ok_def kb2_clear_action_def cleanup_action_def split: if_split_asm)
  next
    case KB2_ACTION_NONE
    then show ?thesis using t by (auto simp: starting_ok_def cleanup_action_def split: if_split_asm)
  qed
qed


lemma complete_action_inv:
  assumes "kb2_controller_complete_action (Some c) g t r rid sid = (s, Some c')" "controller_inv c"
  shows "controller_inv c'"
proof -
  have "controller_inv ((kb2_clear_action c)\<lparr>co_state := KB2_STATE_FAULTED, co_fault_kind := KB2_FAULT_HOST_ACTION,
      co_fault_code := code\<rparr>)" if "co_action_pending c" for code
    using assms(2) pending_type(2) [OF assms(2) that] by (simp add: controller_inv_def pending_ok_def phase_ok_def)
  then show ?thesis
    using assms by (auto simp: kb2_controller_complete_action_def on_controller_eq Let_def simp del: completion_ids_valid.simps
        split: if_split_asm intro: after_completion_inv)
qed

text \<open>The configuration changes only in the idle state, in which nothing refers to it.\<close>

lemma idle_configuration_inv:
  assumes "controller_inv c" "co_state c = KB2_STATE_IDLE" "configuration_ok (c\<lparr>co_configuration := cf\<rparr>)"
  shows "controller_inv (c\<lparr>co_configuration := cf\<rparr>)"
  using assms
  by (auto simp: controller_inv_def phase_ok_def pending_ok_def flags_ok_def cleanup_action_def split: if_split_asm)

lemma set_closure_inv:
  assumes "kb2_controller_set_closure al h (Some c) closure = (s, Some c', h')" "controller_inv c"
  shows "controller_inv c'"
  using assms by (auto simp: kb2_controller_set_closure_def Let_def split: if_split_asm prod.split_asm
      intro!: idle_configuration_inv) (auto simp: controller_inv_def configuration_ok_def)

lemma set_digest_inv:
  assumes "kb2_controller_set_digest (Some c) kind digest = (s, Some c')" "controller_inv c"
  shows "controller_inv c'"
  using assms by (auto simp: kb2_controller_set_digest_def on_controller_eq split: if_split_asm option.split_asm
      intro!: idle_configuration_inv) (auto simp: controller_inv_def configuration_ok_def)

lemma set_limit_inv:
  assumes "kb2_controller_set_limit (Some c) kind limit = (s, Some c')" "controller_inv c"
  shows "controller_inv c'"
  using assms by (auto simp: kb2_controller_set_limit_def on_controller_eq split: if_split_asm
      intro!: idle_configuration_inv) (auto simp: controller_inv_def configuration_ok_def)

lemma start_inv:
  assumes "kb2_controller_start (Some c) = (s, Some c')" "controller_inv c"
  shows "controller_inv c'"
  using assms begin_start_inv [of c s c']
  by (auto simp: kb2_controller_start_def on_controller_eq controller_inv_def split: if_split_asm)

lemma stop_inv:
  assumes "kb2_controller_stop (Some c) = (s, Some c')" "controller_inv c"
  shows "controller_inv c'"
  using assms
  by (auto simp: kb2_controller_stop_def on_controller_eq split: if_split_asm intro: begin_cleanup_inv)

lemma restart_inv:
  assumes "kb2_controller_restart (Some c) = (s, Some c')" "controller_inv c"
  shows "controller_inv c'"
  using assms
  by (auto simp: kb2_controller_restart_def on_controller_eq split: if_split_asm intro: begin_cleanup_inv)

lemma inv_change_state:
  assumes "controller_inv c" "\<not> co_action_pending c" "co_state c \<noteq> KB2_STATE_IDLE" "co_process_started c"
  shows "controller_inv (c\<lparr>co_state := KB2_STATE_RUNNING\<rparr>)"
    "kind \<noteq> KB2_FAULT_NONE \<Longrightarrow>
     controller_inv (c\<lparr>co_state := KB2_STATE_FAULTED, co_fault_kind := kind, co_fault_code := code\<rparr>)"
  using assms by (simp_all add: controller_inv_def pending_ok_def phase_ok_def)

lemma inv_active:
  "controller_inv c \<Longrightarrow> co_state c = KB2_STATE_HANDSHAKING \<or> co_state c = KB2_STATE_RUNNING \<Longrightarrow>
     co_process_started c"
  by (auto simp: controller_inv_def phase_ok_def)

lemma inv_process_exit:
  assumes "controller_inv c" "\<not> co_action_pending c" "co_state c \<noteq> KB2_STATE_IDLE" "co_process_started c"
    "kind \<noteq> KB2_FAULT_NONE"
  shows "controller_inv (c\<lparr>co_process_started := False, co_process_exited := True, co_state := KB2_STATE_FAULTED,
      co_fault_kind := kind, co_fault_code := code\<rparr>)"
  using assms by (simp add: controller_inv_def pending_ok_def phase_ok_def flags_ok_def) blast

lemma report_ready_inv:
  assumes "kb2_controller_report_ready (Some c) g = (s, Some c')" "controller_inv c"
  shows "controller_inv c'"
  using assms inv_change_state(1) [of c] inv_active [of c]
  by (simp add: kb2_controller_report_ready_def on_controller_eq split: if_split_asm)

lemma report_fault_inv:
  assumes "kb2_controller_report_fault (Some c) g kind code = (s, Some c')" "controller_inv c"
  shows "controller_inv c'"
  using assms inv_change_state(2) [of c kind code] inv_process_exit [of c kind code] inv_active [of c]
  by (auto simp: kb2_controller_report_fault_def on_controller_eq Let_def split: if_split_asm)

lemmas operations_inv = complete_action_inv set_closure_inv set_digest_inv set_limit_inv start_inv stop_inv restart_inv
  report_ready_inv report_fault_inv

lemma run_call_inv:
  "run_call al call c h = (s, Some c', h') \<Longrightarrow> controller_inv c \<Longrightarrow> controller_inv c'"
  by (cases call) (auto dest: operations_inv split: prod.split_asm)

lemma create_inv: "kb2_controller_create al h p = (s, Some c, h') \<Longrightarrow> controller_inv c"
  by (auto simp: kb2_controller_create_def zero_configuration_def controller_inv_defs cleanup_action_def
      split: if_split_asm option.split_asm prod.split_asm)

section \<open>The host beside the controller\<close>

text \<open>
  What a host holds on behalf of one controller, as the completions it reported and the
  controller accepted have made it: one resource set and one sandbox at most.
\<close>

datatype resource_status = Unallocated | Held u64 | Revoked u64 | Reset u64
datatype sandbox_status = No_Sandbox | Live u64 | Dead u64
type_synonym host = "resource_status \<times> sandbox_status"

text \<open>
  The abstract protocol of the actions. It says in which host states an action makes sense,
  with which identifiers: resources are revoked only when no sandbox runs, reset after they
  were revoked, and released only when revoked, reset where the launch flags require it, and
  the sandbox is reaped.
\<close>

definition isolated :: "bool \<Rightarrow> u64 \<Rightarrow> resource_status" where
  "isolated reset_required rid = (if reset_required then Reset rid else Revoked rid)"

fun action_permitted :: "kb2_action \<Rightarrow> host \<Rightarrow> bool" where
  "action_permitted a (r, p) \<longleftrightarrow>
     (let rid = ac_resource_set_id a; sid = ac_sandbox_id a;
          reset_required = cf_flags (ac_configuration a) AND 1 \<noteq> 0 in
      case ac_type a of
        KB2_ACTION_NONE \<Rightarrow> False
      | KB2_ACTION_ALLOCATE_RESOURCES \<Rightarrow> r = Unallocated \<and> p = No_Sandbox
      | KB2_ACTION_LAUNCH_SANDBOX \<Rightarrow> r = Held rid \<and> p = No_Sandbox
      | KB2_ACTION_TRANSFER_RESOURCES \<Rightarrow> r = Held rid \<and> p = Live sid
      | KB2_ACTION_QUIESCE_SANDBOX \<Rightarrow> r = Held rid \<and> p = Live sid
      | KB2_ACTION_TERMINATE_SANDBOX \<Rightarrow> (\<exists>rid. r = Held rid) \<and> p = Live sid
      | KB2_ACTION_REVOKE_RESOURCES \<Rightarrow> r = Held rid \<and> (\<forall>sid. p \<noteq> Live sid)
      | KB2_ACTION_RESET_RESOURCES \<Rightarrow> r = Revoked rid \<and> reset_required \<and> (\<forall>sid. p \<noteq> Live sid)
      | KB2_ACTION_REAP_SANDBOX \<Rightarrow> (\<exists>rid. r = isolated reset_required rid) \<and> p = Dead sid
      | KB2_ACTION_RELEASE_RESOURCES \<Rightarrow> r = isolated reset_required rid \<and> p = No_Sandbox)"

text \<open>The effect of a performed action, with the identifiers the host returns.\<close>

fun perform_action :: "kb2_action \<Rightarrow> u64 \<Rightarrow> u64 \<Rightarrow> host \<Rightarrow> host" where
  "perform_action a rid sid (r, p) =
     (case ac_type a of
        KB2_ACTION_NONE \<Rightarrow> (r, p)
      | KB2_ACTION_ALLOCATE_RESOURCES \<Rightarrow> (Held rid, p)
      | KB2_ACTION_LAUNCH_SANDBOX \<Rightarrow> (r, Live sid)
      | KB2_ACTION_TRANSFER_RESOURCES \<Rightarrow> (r, p)
      | KB2_ACTION_QUIESCE_SANDBOX \<Rightarrow> (r, Dead (ac_sandbox_id a))
      | KB2_ACTION_TERMINATE_SANDBOX \<Rightarrow> (r, Dead (ac_sandbox_id a))
      | KB2_ACTION_REVOKE_RESOURCES \<Rightarrow> (Revoked (ac_resource_set_id a), p)
      | KB2_ACTION_RESET_RESOURCES \<Rightarrow> (Reset (ac_resource_set_id a), p)
      | KB2_ACTION_REAP_SANDBOX \<Rightarrow> (r, No_Sandbox)
      | KB2_ACTION_RELEASE_RESOURCES \<Rightarrow> (Unallocated, p))"

fun process_exit :: "host \<Rightarrow> host" where
  "process_exit (r, Live sid) = (r, Dead sid)"
| "process_exit w = w"

text \<open>
  The host reports success for the pending action under its generation and token, with the
  identifiers the action calls for: then, and only then, it has performed that action.
\<close>

definition completes :: "kb2_controller \<Rightarrow> u64 \<Rightarrow> u64 \<Rightarrow> kb2_status \<Rightarrow> u64 \<Rightarrow> u64 \<Rightarrow> bool" where
  "completes c generation token result rid sid \<longleftrightarrow> result = KB2_STATUS_OK \<and> co_action_pending c \<and>
     generation = co_generation c \<and> token = ac_token (co_action c) \<and>
     completion_ids_valid (ac_type (co_action c)) result rid sid"

fun host_after :: "kb2_call \<Rightarrow> kb2_controller \<Rightarrow> kb2_status \<Rightarrow> host \<Rightarrow> host" where
  "host_after (Complete_Action generation token result rid sid) c status w =
     (if completes c generation token result rid sid then perform_action (co_action c) rid sid w else w)"
| "host_after (Report_Fault generation kind code) c status w =
     (if status = KB2_STATUS_OK \<and> kind = KB2_FAULT_PROCESS_EXIT then process_exit w else w)"
| "host_after call c status w = w"

text \<open>Any client: calls in any order, with any arguments, from the creation on.\<close>

inductive system_reachable ::
    "'h kb2_allocator \<Rightarrow> 'h \<Rightarrow> kb2_controller \<Rightarrow> 'h \<Rightarrow> host \<Rightarrow> bool" for al h0 where
  system_created: "kb2_controller_create al h0 pointers = (KB2_STATUS_OK, Some c, h) \<Longrightarrow>
     system_reachable al h0 c h (Unallocated, No_Sandbox)"
| system_called: "system_reachable al h0 c h w \<Longrightarrow> run_call al call c h = (s, Some c', h') \<Longrightarrow>
     system_reachable al h0 c' h' (host_after call c s w)"

text \<open>What the controller believes of the host.\<close>

definition believed :: "kb2_controller \<Rightarrow> host" where
  "believed c =
     (if \<not> co_resources_allocated c then Unallocated
      else if co_resources_reset c then Reset (co_resource_set_id c)
      else if co_resources_revoked c then Revoked (co_resource_set_id c)
      else Held (co_resource_set_id c),
      if co_process_started c then Live (co_sandbox_id c)
      else if co_process_exited c then Dead (co_sandbox_id c) else No_Sandbox)"

lemma believed_frame [simp]:
  "believed (c\<lparr>co_state := new_state\<rparr>) = believed c" "believed (c\<lparr>co_fault_kind := new_kind\<rparr>) = believed c"
  "believed (c\<lparr>co_fault_code := new_code\<rparr>) = believed c" "believed (c\<lparr>co_next_token := new_token\<rparr>) = believed c"
  "believed (c\<lparr>co_action := new_action\<rparr>) = believed c" "believed (c\<lparr>co_action_pending := new_pending\<rparr>) = believed c"
  "believed (c\<lparr>co_restart_requested := new_restart\<rparr>) = believed c" "believed (c\<lparr>co_generation := new_generation\<rparr>) = believed c"
  "believed (c\<lparr>co_graceful_stop := new_graceful\<rparr>) = believed c" "believed (kb2_clear_action c) = believed c"
  "believed (c\<lparr>co_configuration := new_configuration\<rparr>) = believed c"
  by (simp_all add: believed_def kb2_clear_action_def)

lemma believed_emit: "kb2_emit_action c t = (s, c') \<Longrightarrow> believed c' = believed c"
  by (auto simp: kb2_emit_action_def Let_def split: if_split_asm)

lemma believed_idle: "cleanup_action c = None \<Longrightarrow> believed c = (Unallocated, No_Sandbox)"
  by (auto simp: cleanup_action_def believed_def split: if_split_asm)

lemma believed_begin_start:
  assumes "kb2_begin_start c = (s, c')" "cleanup_action c = None"
  shows "believed c' = (Unallocated, No_Sandbox)"
  using assms believed_idle [OF assms(2)]
  by (auto simp: kb2_begin_start_def dest!: believed_emit split: if_split_asm) (simp add: believed_def)

lemma believed_finish_cleanup:
  assumes "kb2_finish_cleanup c = (s, c')" "cleanup_action c = None"
  shows "believed c' = (Unallocated, No_Sandbox)"
proof (cases "kb2_begin_start (c\<lparr>co_restart_requested := False, co_state := KB2_STATE_IDLE,
                co_fault_kind := KB2_FAULT_NONE, co_fault_code := 0\<rparr>)")
  case (Pair s1 c1)
  have "believed c1 = (Unallocated, No_Sandbox)" using believed_begin_start [OF Pair] assms(2) by simp
  then show ?thesis using assms Pair believed_idle [OF assms(2)]
    by (auto simp: kb2_finish_cleanup_def Let_def split: if_split_asm)
qed

lemma believed_next_cleanup:
  assumes "kb2_next_cleanup_action c = (s, c')"
  shows "believed c' = believed c"
proof (cases "cleanup_action c")
  case None
  then show ?thesis using assms believed_finish_cleanup [OF _ None] believed_idle [OF None]
    by (simp add: next_cleanup_action_eq)
next
  case (Some t)
  then show ?thesis using assms believed_emit by (simp add: next_cleanup_action_eq)
qed

lemma believed_begin_cleanup: "kb2_begin_cleanup c r = (s, c') \<Longrightarrow> believed c' = believed c"
  by (auto simp: kb2_begin_cleanup_def dest: believed_next_cleanup)

lemma believed_permitted:
  assumes "controller_inv c" "co_action_pending c"
  shows "action_permitted (co_action c) (believed c)"
proof -
  have f: "flags_ok c" and a: "ac_configuration (co_action c) = co_configuration c"
    "(ac_resource_set_id (co_action c), ac_sandbox_id (co_action c)) = action_ids c (ac_type (co_action c))"
    using assms by (simp_all add: controller_inv_def pending_ok_def)
  from pending_type(1) [OF assms] show ?thesis
  proof (elim disjE conjE)
    assume "starting_ok c (ac_type (co_action c))"
    then show ?thesis using a f by (auto simp: starting_ok_def believed_def flags_ok_def)
  next
    assume "cleanup_action c = Some (ac_type (co_action c))"
    then show ?thesis using a f
      by (cases "ac_type (co_action c)")
        (auto simp: cleanup_action_def believed_def flags_ok_def isolated_def split: if_split_asm)
  qed
qed

lemma believed_after_completion:
  assumes run: "after_completion (kb2_clear_action c) (ac_type (co_action c)) rid sid = (s, c')"
    and inv: "controller_inv c" and p: "co_action_pending c"
  shows "believed c' = perform_action (co_action c) rid sid (believed c)"
proof -
  have f: "flags_ok c" and a:
    "(ac_resource_set_id (co_action c), ac_sandbox_id (co_action c)) = action_ids c (ac_type (co_action c))"
    using inv p by (simp_all add: controller_inv_def pending_ok_def)
  note t = pending_type(1) [OF inv p]
  note facts = believed_def starting_ok_def cleanup_action_def flags_ok_def kb2_clear_action_def
  show ?thesis
  proof (cases "ac_type (co_action c)")
    case KB2_ACTION_ALLOCATE_RESOURCES
    from believed_emit [OF run [unfolded KB2_ACTION_ALLOCATE_RESOURCES after_completion.simps]] show ?thesis
      using KB2_ACTION_ALLOCATE_RESOURCES t a f by (simp add: facts split: if_split_asm)
  next
    case KB2_ACTION_LAUNCH_SANDBOX
    from believed_emit [OF run [unfolded KB2_ACTION_LAUNCH_SANDBOX after_completion.simps]] show ?thesis
      using KB2_ACTION_LAUNCH_SANDBOX t a f by (simp add: facts split: if_split_asm)
  next
    case KB2_ACTION_TRANSFER_RESOURCES
    then show ?thesis using run t a f by (auto simp: facts split: if_split_asm)
  next
    case KB2_ACTION_QUIESCE_SANDBOX
    from believed_next_cleanup [OF run [unfolded KB2_ACTION_QUIESCE_SANDBOX after_completion.simps]] show ?thesis
      using KB2_ACTION_QUIESCE_SANDBOX t a f by (simp add: facts split: if_split_asm)
  next
    case KB2_ACTION_TERMINATE_SANDBOX
    from believed_next_cleanup [OF run [unfolded KB2_ACTION_TERMINATE_SANDBOX after_completion.simps]] show ?thesis
      using KB2_ACTION_TERMINATE_SANDBOX t a f by (simp add: facts split: if_split_asm)
  next
    case KB2_ACTION_REVOKE_RESOURCES
    from believed_next_cleanup [OF run [unfolded KB2_ACTION_REVOKE_RESOURCES after_completion.simps]] show ?thesis
      using KB2_ACTION_REVOKE_RESOURCES t a f by (simp add: facts split: if_split_asm)
  next
    case KB2_ACTION_RESET_RESOURCES
    from believed_next_cleanup [OF run [unfolded KB2_ACTION_RESET_RESOURCES after_completion.simps]] show ?thesis
      using KB2_ACTION_RESET_RESOURCES t a f by (simp add: facts split: if_split_asm)
  next
    case KB2_ACTION_REAP_SANDBOX
    from believed_next_cleanup [OF run [unfolded KB2_ACTION_REAP_SANDBOX after_completion.simps]] show ?thesis
      using KB2_ACTION_REAP_SANDBOX t a f by (simp add: facts split: if_split_asm)
  next
    case KB2_ACTION_RELEASE_RESOURCES
    from believed_next_cleanup [OF run [unfolded KB2_ACTION_RELEASE_RESOURCES after_completion.simps]] show ?thesis
      using KB2_ACTION_RELEASE_RESOURCES t a f by (simp add: facts split: if_split_asm)
  next
    case KB2_ACTION_NONE
    then show ?thesis using run t a f by (auto simp: facts split: if_split_asm)
  qed
qed

lemma idle_cleanup: "controller_inv c \<Longrightarrow> co_state c = KB2_STATE_IDLE \<Longrightarrow> cleanup_action c = None"
  by (simp add: controller_inv_def phase_ok_def)

lemma believed_complete_action:
  assumes "kb2_controller_complete_action (Some c) g t r rid sid = (s, Some c')" "controller_inv c"
  shows "believed c' = (if completes c g t r rid sid then perform_action (co_action c) rid sid (believed c) else believed c)"
  using assms
  by (auto simp: kb2_controller_complete_action_def on_controller_eq Let_def completes_def kb2_action_result_valid_def
      simp del: completion_ids_valid.simps perform_action.simps split: if_split_asm intro: believed_after_completion)

lemma believed_report_fault:
  assumes "kb2_controller_report_fault (Some c) g kind code = (s, Some c')" "controller_inv c"
  shows "believed c' = (if s = KB2_STATUS_OK \<and> kind = KB2_FAULT_PROCESS_EXIT then process_exit (believed c) else believed c)"
  using assms inv_active [of c]
  by (auto simp: kb2_controller_report_fault_def on_controller_eq Let_def believed_def split: if_split_asm)

lemma believed_run_call:
  assumes "run_call al call c h = (s, Some c', h')" "controller_inv c"
  shows "believed c' = host_after call c s (believed c)"
proof (cases call)
  case (Set_Closure closure)
  with assms show ?thesis
    by (auto simp: kb2_controller_set_closure_def Let_def split: if_split_asm prod.split_asm)
next
  case (Set_Digest kind digest)
  with assms show ?thesis
    by (auto simp: kb2_controller_set_digest_def on_controller_eq split: if_split_asm prod.split_asm option.split_asm)
next
  case (Set_Limit kind limit)
  with assms show ?thesis
    by (auto simp: kb2_controller_set_limit_def on_controller_eq split: if_split_asm prod.split_asm)
next
  case Start
  with assms show ?thesis
    by (auto simp: kb2_controller_start_def on_controller_eq idle_cleanup believed_idle dest: believed_begin_start
        split: if_split_asm prod.split_asm)
next
  case Stop
  with assms show ?thesis
    by (auto simp: kb2_controller_stop_def on_controller_eq dest: believed_begin_cleanup split: if_split_asm prod.split_asm)
next
  case Restart
  with assms show ?thesis
    by (auto simp: kb2_controller_restart_def on_controller_eq dest: believed_begin_cleanup split: if_split_asm prod.split_asm)
next
  case (Complete_Action g t r rid sid)
  with assms believed_complete_action [of c g t r rid sid s c'] show ?thesis
    by (auto simp del: perform_action.simps split: prod.split_asm)
next
  case (Report_Ready g)
  with assms show ?thesis
    by (auto simp: kb2_controller_report_ready_def on_controller_eq split: if_split_asm prod.split_asm)
next
  case (Report_Fault g kind code)
  with assms believed_report_fault [of c g kind code s c'] show ?thesis by (auto split: prod.split_asm)
qed

lemma system_reachable_inv: "system_reachable al h0 c h w \<Longrightarrow> controller_inv c \<and> w = believed c"
proof (induction rule: system_reachable.induct)
  case (system_created pointers c h)
  then have "believed c = (Unallocated, No_Sandbox)"
    by (auto simp: kb2_controller_create_def believed_def split: if_split_asm option.split_asm prod.split_asm)
  with create_inv [OF system_created] show ?case by simp
next
  case (system_called c h w call s c' h')
  then show ?case using run_call_inv believed_run_call by metis
qed

section \<open>Progress of the counters\<close>

text \<open>
  A call keeps the controller's block, never lets the generation or the token counter fall, and
  leaves as pending the action that was pending or one with a token above all earlier ones.
\<close>

definition advances :: "kb2_controller \<Rightarrow> kb2_controller \<Rightarrow> bool" where
  "advances c c' \<longleftrightarrow> co_block c' = co_block c \<and>
     co_generation c \<le> co_generation c' \<and> co_next_token c \<le> co_next_token c' \<and>
     (co_action_pending c' \<longrightarrow> co_action_pending c \<and> co_action c' = co_action c \<or>
        co_next_token c < ac_token (co_action c'))"

lemma advances_refl [simp]: "advances c c"
  by (simp add: advances_def)

lemma advances_trans:
  assumes "advances c c'" "advances c' c''"
  shows "advances c c''"
proof -
  have "co_generation c \<le> co_generation c''" "co_next_token c \<le> co_next_token c''" "co_block c'' = co_block c"
    using assms by (auto simp: advances_def intro: order_trans)
  moreover have "co_action_pending c \<and> co_action c'' = co_action c \<or> co_next_token c < ac_token (co_action c'')"
    if p: "co_action_pending c''"
  proof (cases "co_action_pending c' \<and> co_action c'' = co_action c'")
    case True
    then show ?thesis using assms(1) by (auto simp: advances_def)
  next
    case False
    then have "co_next_token c' < ac_token (co_action c'')" using assms(2) p by (auto simp: advances_def)
    moreover have "co_next_token c \<le> co_next_token c'" using assms(1) by (simp add: advances_def)
    ultimately show ?thesis using order_le_less_trans by blast
  qed
  ultimately show ?thesis by (simp add: advances_def)
qed

lemma unat_plus_one:
  assumes "(x :: u64) \<noteq> - 1" shows "unat (x + 1) = unat x + 1"
proof -
  have "unat x \<noteq> unat (- 1 :: u64)" using assms by (simp add: word_unat_eq_iff)
  then have "unat x + 1 < 2 ^ 64"
    using unat_u64_lt [of x] by (simp add: unsigned_minus_1_eq_mask mask_eq_exp_minus_1)
  then show ?thesis by (simp add: unat_word_ariths)
qed

lemma less_plus_one: "(x :: u64) \<noteq> - 1 \<Longrightarrow> x < x + 1"
  using unat_plus_one [of x] by (simp add: word_less_nat_alt)

lemma advances_emit:
  assumes "kb2_emit_action c t = (s, c')"
  shows "advances c c' \<and> co_configuration c' = co_configuration c"
proof (cases "co_next_token c = - 1")
  case True
  then show ?thesis using assms by (clarsimp simp: kb2_emit_action_def advances_def)
next
  case False
  then show ?thesis using assms less_plus_one [OF False] order_less_imp_le [OF less_plus_one [OF False]]
    by (clarsimp simp: kb2_emit_action_def advances_def Let_def)
qed

lemma advances_begin_start:
  assumes "kb2_begin_start c = (s, c')"
  shows "advances c c' \<and> co_configuration c' = co_configuration c"
proof (cases "co_generation c = - 1 \<or> co_next_token c = - 1 \<or> kb2_validate_configuration c \<noteq> KB2_STATUS_OK")
  case True
  then show ?thesis using assms by (auto simp: kb2_begin_start_def split: if_split_asm)
next
  case False
  let ?c = "c\<lparr>co_generation := co_generation c + 1, co_state := KB2_STATE_STARTING,
        co_fault_kind := KB2_FAULT_NONE, co_fault_code := 0, co_resource_set_id := 0, co_sandbox_id := 0,
        co_resources_allocated := False, co_resources_revoked := False, co_resources_reset := False,
        co_process_started := False, co_process_exited := False\<rparr>"
  have "advances c ?c" using order_less_imp_le [OF less_plus_one, of "co_generation c"] False
    by (simp add: advances_def)
  moreover have "advances ?c c' \<and> co_configuration c' = co_configuration ?c"
    using assms False by (intro advances_emit [of _ KB2_ACTION_ALLOCATE_RESOURCES s]) (simp add: kb2_begin_start_def)
  ultimately show ?thesis using advances_trans by auto
qed

lemma advances_finish_cleanup:
  assumes "kb2_finish_cleanup c = (s, c')"
  shows "advances c c' \<and> co_configuration c' = co_configuration c"
proof (cases "kb2_begin_start (c\<lparr>co_restart_requested := False, co_state := KB2_STATE_IDLE,
                co_fault_kind := KB2_FAULT_NONE, co_fault_code := 0\<rparr>)")
  case (Pair s1 c1)
  from advances_begin_start [OF Pair] have "advances c c1" "co_configuration c1 = co_configuration c"
    by (simp_all add: advances_def)
  with assms Pair show ?thesis
    by (auto simp: kb2_finish_cleanup_def Let_def advances_def split: if_split_asm)
qed

lemma advances_next_cleanup:
  "kb2_next_cleanup_action c = (s, c') \<Longrightarrow> advances c c' \<and> co_configuration c' = co_configuration c"
  by (auto simp: next_cleanup_action_eq dest: advances_emit advances_finish_cleanup split: option.split_asm)

lemma advances_begin_cleanup:
  "kb2_begin_cleanup c r = (s, c') \<Longrightarrow> advances c c' \<and> co_configuration c' = co_configuration c"
  by (auto simp: kb2_begin_cleanup_def advances_def dest!: advances_next_cleanup)

lemma advances_after_completion:
  "after_completion (kb2_clear_action c) t rid sid = (s, c') \<Longrightarrow>
   advances c c' \<and> co_configuration c' = co_configuration c"
  by (cases t) (auto simp: advances_def kb2_clear_action_def dest!: advances_emit advances_next_cleanup)

lemmas advances_steps = advances_begin_start advances_begin_cleanup advances_after_completion

lemma advances_run_call:
  assumes "run_call al call c h = (s, Some c', h')"
  shows "advances c c'"
proof (cases call)
  case (Set_Closure closure)
  with assms show ?thesis
    by (auto simp: kb2_controller_set_closure_def Let_def advances_def split: if_split_asm prod.split_asm)
next
  case (Set_Digest kind digest)
  with assms show ?thesis
    by (auto simp: kb2_controller_set_digest_def on_controller_eq advances_def
        split: if_split_asm prod.split_asm option.split_asm)
next
  case (Set_Limit kind limit)
  with assms show ?thesis
    by (auto simp: kb2_controller_set_limit_def on_controller_eq advances_def split: if_split_asm prod.split_asm)
next
  case Start
  with assms show ?thesis
    by (auto simp: kb2_controller_start_def on_controller_eq dest: advances_steps split: if_split_asm prod.split_asm)
next
  case Stop
  with assms show ?thesis
    by (auto simp: kb2_controller_stop_def on_controller_eq dest: advances_steps split: if_split_asm prod.split_asm)
next
  case Restart
  with assms show ?thesis
    by (auto simp: kb2_controller_restart_def on_controller_eq dest: advances_steps split: if_split_asm prod.split_asm)
next
  case (Complete_Action g t r rid sid)
  with assms show ?thesis
    by (auto simp: kb2_controller_complete_action_def on_controller_eq Let_def simp del: completion_ids_valid.simps
        dest: advances_steps split: if_split_asm prod.split_asm) (simp_all add: advances_def kb2_clear_action_def)
next
  case (Report_Ready g)
  with assms show ?thesis
    by (auto simp: kb2_controller_report_ready_def on_controller_eq advances_def split: if_split_asm prod.split_asm)
next
  case (Report_Fault g kind code)
  with assms show ?thesis
    by (auto simp: kb2_controller_report_fault_def on_controller_eq advances_def Let_def split: if_split_asm prod.split_asm)
qed

text \<open>States that later calls may lead to.\<close>

inductive later :: "'h kb2_allocator \<Rightarrow> kb2_controller \<Rightarrow> 'h \<Rightarrow> kb2_controller \<Rightarrow> 'h \<Rightarrow> bool" for al c h where
  later_now: "later al c h c h"
| later_call: "later al c h c' h' \<Longrightarrow> run_call al call c' h' = (s, Some c'', h'') \<Longrightarrow> later al c h c'' h''"

lemma advances_later: "later al c h c' h' \<Longrightarrow> advances c c'"
  by (induction rule: later.induct) (auto intro: advances_trans advances_run_call)

lemma later_inv: "later al c h c' h' \<Longrightarrow> controller_inv c \<Longrightarrow> controller_inv c'"
  by (induction rule: later.induct) (auto intro: run_call_inv)

lemma after_completion_fresh:
  "after_completion c t rid sid = (s, c') \<Longrightarrow> \<not> co_action_pending c \<Longrightarrow> co_action_pending c' \<Longrightarrow>
   co_next_token c < ac_token (co_action c')"
  by (cases t) (auto simp: advances_def dest!: advances_emit advances_next_cleanup)

text \<open>What \<open>kb2_controller_complete_action\<close> does to a controller: nothing, with a refusal that says why,
  or it takes the completion for the pending action, which is then no longer pending.\<close>

lemma complete_action_cases:
  assumes "kb2_controller_complete_action (Some c) g t result rid sid = (s, Some c')" "controller_inv c"
  obtains (refused) "c' = c"
    "s = KB2_STATUS_INVALID_ARGUMENT \<or> s \<in> {KB2_STATUS_INVALID_STATE, KB2_STATUS_STALE_GENERATION, KB2_STATUS_STALE_ACTION} \<and>
       \<not> (co_action_pending c \<and> ac_generation (co_action c) = g \<and> ac_token (co_action c) = t)"
  | (taken) "co_action_pending c" "ac_generation (co_action c) = g" "ac_token (co_action c) = t"
    "co_action_pending c' \<Longrightarrow> ac_token (co_action c) < ac_token (co_action c')"
proof -
  have p: "ac_generation (co_action c) = co_generation c" "ac_token (co_action c) = co_next_token c" if "co_action_pending c"
    using assms(2) that by (auto simp: controller_inv_def pending_ok_def)
  have clear: "\<not> co_action_pending (kb2_clear_action c)" "co_next_token (kb2_clear_action c) = co_next_token c"
    by (simp_all add: kb2_clear_action_def)
  show ?thesis
    using assms(1) p after_completion_fresh [OF _ clear(1), of "ac_type (co_action c)" rid sid s c'] clear refused taken
    by (auto simp: kb2_controller_complete_action_def on_controller_eq Let_def simp del: completion_ids_valid.simps
        split: if_split_asm)
qed

section \<open>Memory\<close>

definition controller_blocks :: "kb2_controller \<Rightarrow> (nat \<times> nat) multiset" where
  "controller_blocks c = add_mset (co_block c, 496)
     (case cf_closure (co_configuration c) of None \<Rightarrow> {#} | Some k \<Rightarrow> closure_blocks k)"

lemma run_call_frame:
  assumes "run_call al call c h = (s, Some c', h')" "\<And>closure. call \<noteq> Set_Closure closure"
  shows "h' = h \<and> cf_closure (co_configuration c') = cf_closure (co_configuration c)"
proof (cases call)
  case (Complete_Action g t r rid sid)
  with assms show ?thesis
    by (auto simp: kb2_controller_complete_action_def on_controller_eq Let_def simp del: completion_ids_valid.simps
        dest!: advances_after_completion split: if_split_asm prod.split_asm) (simp_all add: kb2_clear_action_def)
next
  case Start
  with assms show ?thesis
    by (auto simp: kb2_controller_start_def on_controller_eq dest: advances_steps split: if_split_asm prod.split_asm)
next
  case Stop
  with assms show ?thesis
    by (auto simp: kb2_controller_stop_def on_controller_eq dest: advances_steps split: if_split_asm prod.split_asm)
next
  case Restart
  with assms show ?thesis
    by (auto simp: kb2_controller_restart_def on_controller_eq dest: advances_steps split: if_split_asm prod.split_asm)
qed (use assms in \<open>auto simp: kb2_controller_set_digest_def kb2_controller_set_limit_def kb2_controller_report_ready_def
    kb2_controller_report_fault_def on_controller_eq Let_def split: if_split_asm prod.split_asm option.split_asm\<close>)

lemma closure_destroy_option_blocks:
  assumes "allocator_laws al live" "live h = R + (case k of None \<Rightarrow> {#} | Some c \<Rightarrow> closure_blocks c)"
  shows "live (kb2_closure_destroy al h k) = R"
  using assms kb2_closure_destroy_blocks [OF assms(1)] by (cases k) auto

lemma set_closure_blocks:
  assumes al: "allocator_laws al live" and l: "live h = R + controller_blocks c"
    and run: "kb2_controller_set_closure al h (Some c) closure = (s, Some c', h')"
  shows "live h' = R + controller_blocks c'"
proof (cases "closure = None \<or> co_state c \<noteq> KB2_STATE_IDLE \<or> co_action_pending c")
  case True
  then show ?thesis using run l by (auto simp: kb2_controller_set_closure_def split: if_split_asm)
next
  case False
  then obtain src where src: "closure = Some src" by auto
  obtain s1 copy h1 where k: "kb2_closure_clone al h True (Some src) = (s1, copy, h1)" by (metis prod_cases3)
  show ?thesis
  proof (cases "s1 = KB2_STATUS_OK")
    case True
    with kb2_closure_clone_result [OF al k] obtain d where d: "copy = Some d" "live h1 = live h + closure_blocks d" by auto
    have "live (kb2_closure_destroy al h1 (cf_closure (co_configuration c))) = add_mset (co_block c, 496) (R + closure_blocks d)"
      by (rule closure_destroy_option_blocks [OF al]) (use d l in \<open>simp add: controller_blocks_def\<close>)
    then show ?thesis using run False src k True d(1)
      by (auto simp: kb2_controller_set_closure_def controller_blocks_def Let_def)
  next
    case False
    with kb2_closure_clone_result [OF al k] have "live h1 = live h" by auto
    then show ?thesis using run src k l False by (auto simp: kb2_controller_set_closure_def split: if_split_asm)
  qed
qed

lemma system_reachable_blocks:
  assumes al: "allocator_laws al live"
  shows "system_reachable al h0 c h w \<Longrightarrow> live h = live h0 + controller_blocks c"
proof (induction rule: system_reachable.induct)
  case (system_created pointers c h)
  then have "al_allocate al h0 496 = (Some (co_block c), h)" "cf_closure (co_configuration c) = None"
    by (auto simp: kb2_controller_create_def zero_configuration_def split: if_split_asm option.split_asm prod.split_asm)
  then show ?case using allocator_allocate(1) [OF al] by (simp add: controller_blocks_def)
next
  case (system_called c h w call s c' h')
  show ?case
  proof (cases "\<exists>closure. call = Set_Closure closure")
    case True
    then obtain closure where "call = Set_Closure closure" by blast
    with system_called.hyps(2) have "kb2_controller_set_closure al h (Some c) closure = (s, Some c', h')" by simp
    from set_closure_blocks [OF al system_called.IH this] show ?thesis .
  next
    case False
    then have "h' = h \<and> cf_closure (co_configuration c') = cf_closure (co_configuration c)"
      by (intro run_call_frame [OF system_called.hyps(2)]) blast
    moreover have "co_block c' = co_block c"
      using advances_run_call [OF system_called.hyps(2)] by (simp add: advances_def)
    ultimately show ?thesis using system_called.IH by (simp add: controller_blocks_def)
  qed
qed

lemma controller_destroy_blocks:
  assumes al: "allocator_laws al live" and l: "live h = R + controller_blocks c"
  shows "live (kb2_controller_destroy al h (Some c)) = R"
proof -
  have "live (kb2_closure_destroy al h (cf_closure (co_configuration c))) = add_mset (co_block c, 496) R"
    using l by (intro closure_destroy_option_blocks [OF al]) (simp add: controller_blocks_def)
  from allocator_deallocate [OF al this] show ?thesis by simp
qed

section \<open>Clean-up ends\<close>

text \<open>The number of actions that the clean-up still needs.\<close>

definition remaining :: "kb2_controller \<Rightarrow> nat" where
  "remaining c = (if co_process_started c then 2 else if co_process_exited c then 1 else 0) +
     (if co_resources_allocated c
      then 1 + (if co_resources_revoked c then 0 else 1) +
        (if cf_flags (co_configuration c) AND 1 \<noteq> 0 \<and> \<not> co_resources_reset c then 1 else 0)
      else 0)"

lemma remaining_frame [simp]:
  "remaining (c\<lparr>co_state := new_state\<rparr>) = remaining c" "remaining (c\<lparr>co_next_token := new_token\<rparr>) = remaining c"
  "remaining (c\<lparr>co_action := new_action\<rparr>) = remaining c" "remaining (c\<lparr>co_action_pending := new_pending\<rparr>) = remaining c"
  "remaining (c\<lparr>co_restart_requested := new_restart\<rparr>) = remaining c"
  "remaining (c\<lparr>co_graceful_stop := new_graceful\<rparr>) = remaining c" "remaining (kb2_clear_action c) = remaining c"
  by (simp_all add: remaining_def kb2_clear_action_def)

lemma remaining_le: "remaining c \<le> 5"
  by (simp add: remaining_def)

lemma remaining_0_iff: "flags_ok c \<Longrightarrow> remaining c = 0 \<longleftrightarrow> cleanup_action c = None"
  by (auto simp: remaining_def cleanup_action_def flags_ok_def split: if_split_asm)

text \<open>A host that completes every clean-up action as it is told to.\<close>

definition complete_pending :: "kb2_controller \<Rightarrow> kb2_controller" where
  "complete_pending c = the (snd (kb2_controller_complete_action (Some c)
     (ac_generation (co_action c)) (ac_token (co_action c)) KB2_STATUS_OK 0 0))"

fun drive :: "nat \<Rightarrow> kb2_controller \<Rightarrow> kb2_controller" where
  "drive 0 c = c"
| "drive (Suc n) c = (if co_state c = KB2_STATE_STOPPING then drive n (complete_pending c) else c)"

text \<open>The clean-up is over: idle, or the next generation is being started.\<close>

definition cleaned :: "bool \<Rightarrow> u64 \<Rightarrow> kb2_controller \<Rightarrow> bool" where
  "cleaned restart generation c \<longleftrightarrow>
     (if restart then co_state c = KB2_STATE_STARTING \<and> co_generation c = generation + 1
      else co_state c = KB2_STATE_IDLE \<and> co_generation c = generation) \<and>
     believed c = (Unallocated, No_Sandbox)"

lemma finish_cleanup_cleaned:
  assumes "kb2_finish_cleanup c = (s, c')" "cleanup_action c = None"
    "co_restart_requested c \<longrightarrow> co_generation c \<noteq> - 1 \<and> co_next_token c \<noteq> - 1 \<and> kb2_validate_configuration c = KB2_STATUS_OK"
  shows "cleaned (co_restart_requested c) (co_generation c) c'"
  using assms believed_finish_cleanup [OF assms(1,2)]
  by (auto simp: kb2_finish_cleanup_def cleaned_def kb2_begin_start_def kb2_emit_action_def Let_def split: if_split_asm)

text \<open>What completing the pending clean-up action does to the flags.\<close>

lemma complete_cleanup_step:
  assumes inv: "controller_inv c" and st: "co_state c = KB2_STATE_STOPPING"
  shows "\<exists>d. complete_pending c = snd (kb2_next_cleanup_action d) \<and> Suc (remaining d) = remaining c \<and> flags_ok d \<and>
    \<not> co_action_pending d \<and> co_state d = KB2_STATE_STOPPING \<and> co_next_token d = co_next_token c \<and>
    co_generation d = co_generation c \<and> co_restart_requested d = co_restart_requested c \<and>
    co_configuration d = co_configuration c"
proof -
  have f: "flags_ok c" and p: "co_action_pending c" and t: "cleanup_action c = Some (ac_type (co_action c))"
    and g: "ac_generation (co_action c) = co_generation c"
    using inv st by (auto simp: controller_inv_def phase_ok_def pending_ok_def)
  have run: "complete_pending c = snd (after_completion (kb2_clear_action c) (ac_type (co_action c)) 0 0)"
    using t p g by (auto simp: complete_pending_def kb2_controller_complete_action_def kb2_action_result_valid_def
        Let_def on_controller.simps cleanup_action_def split: if_split_asm prod.split)
  note facts = remaining_def cleanup_action_def flags_ok_def kb2_clear_action_def
  show ?thesis
  proof (cases "ac_type (co_action c)")
    case KB2_ACTION_QUIESCE_SANDBOX
    then show ?thesis using run t f st
      by (intro exI [of _ "(kb2_clear_action c)\<lparr>co_process_started := False, co_process_exited := True\<rparr>"])
        (simp add: facts split: if_split_asm)
  next
    case KB2_ACTION_TERMINATE_SANDBOX
    then show ?thesis using run t f st
      by (intro exI [of _ "(kb2_clear_action c)\<lparr>co_process_started := False, co_process_exited := True\<rparr>"])
        (simp add: facts split: if_split_asm)
  next
    case KB2_ACTION_REVOKE_RESOURCES
    then show ?thesis using run t f st
      by (intro exI [of _ "(kb2_clear_action c)\<lparr>co_resources_revoked := True\<rparr>"]) (simp add: facts split: if_split_asm)
  next
    case KB2_ACTION_RESET_RESOURCES
    then show ?thesis using run t f st
      by (intro exI [of _ "(kb2_clear_action c)\<lparr>co_resources_reset := True\<rparr>"]) (simp add: facts split: if_split_asm)
  next
    case KB2_ACTION_REAP_SANDBOX
    then show ?thesis using run t f st
      by (intro exI [of _ "(kb2_clear_action c)\<lparr>co_process_exited := False, co_sandbox_id := 0\<rparr>"])
        (simp add: facts split: if_split_asm)
  next
    case KB2_ACTION_RELEASE_RESOURCES
    then show ?thesis using run t f st
      by (intro exI [of _ "(kb2_clear_action c)\<lparr>co_resources_allocated := False, co_resource_set_id := 0\<rparr>"])
        (simp add: facts split: if_split_asm)
  qed (use t in \<open>auto simp: cleanup_action_def split: if_split_asm\<close>)
qed

lemma next_cleanup_progress:
  assumes "flags_ok d" "co_state d = KB2_STATE_STOPPING" "remaining d \<noteq> 0" "co_next_token d \<noteq> - 1"
  shows "\<exists>c. kb2_next_cleanup_action d = (KB2_STATUS_OK, c) \<and> co_state c = KB2_STATE_STOPPING \<and> remaining c = remaining d \<and>
    unat (co_next_token c) = unat (co_next_token d) + 1 \<and> co_generation c = co_generation d \<and>
    co_restart_requested c = co_restart_requested d"
proof -
  obtain t where "cleanup_action d = Some t" using assms(3) remaining_0_iff [OF assms(1)] by auto
  then show ?thesis using assms(2,4) unat_plus_one [OF assms(4)]
    by (simp add: next_cleanup_action_eq kb2_emit_action_def Let_def)
qed

lemma on_controller_Some: "\<exists>s d. on_controller (Some c) operation = (s, Some d)"
  by (cases "operation c") (simp add: on_controller.simps)

lemma complete_pending_inv:
  assumes "controller_inv c"
  shows "controller_inv (complete_pending c)"
proof -
  obtain s d where r: "kb2_controller_complete_action (Some c) (ac_generation (co_action c)) (ac_token (co_action c))
      KB2_STATUS_OK 0 0 = (s, Some d)"
    unfolding kb2_controller_complete_action_def using on_controller_Some by meson
  from complete_action_inv [OF r assms] show ?thesis using r by (simp add: complete_pending_def)
qed

lemma drive_stopped: "co_state c \<noteq> KB2_STATE_STOPPING \<Longrightarrow> drive n c = c"
  by (cases n) simp_all

lemma drive_add: "drive (m + n) c = drive n (drive m c)"
  by (induction m arbitrary: c) (simp_all add: drive_stopped)

lemma cleaned_stopped: "cleaned r g c \<Longrightarrow> co_state c \<noteq> KB2_STATE_STOPPING"
  by (auto simp: cleaned_def split: if_split_asm)

lemma next_cleanup_cleaned:
  assumes "flags_ok d" "remaining d = 0" "co_restart_requested d \<longrightarrow> co_generation d \<noteq> - 1"
    "co_next_token d \<noteq> - 1" "kb2_validate_configuration d = KB2_STATUS_OK"
  shows "cleaned (co_restart_requested d) (co_generation d) (snd (kb2_next_cleanup_action d))"
proof -
  have "cleanup_action d = None" using assms(1,2) remaining_0_iff by simp
  then show ?thesis
    using finish_cleanup_cleaned [of d "fst (kb2_finish_cleanup d)" "snd (kb2_finish_cleanup d)"] assms
    by (simp add: next_cleanup_action_eq)
qed

lemma token_room: "unat (t :: u64) + n < 2 ^ 64 - 1 \<Longrightarrow> t \<noteq> - 1"
  by (auto simp: unsigned_minus_1_eq_mask mask_eq_exp_minus_1)

lemma drive_cleaned:
  assumes "controller_inv c" "co_state c = KB2_STATE_STOPPING" "unat (co_next_token c) + remaining c < 2 ^ 64 - 1"
    "co_restart_requested c \<longrightarrow> co_generation c \<noteq> - 1"
  shows "cleaned (co_restart_requested c) (co_generation c) (drive (remaining c) c)"
  using assms
proof (induction "remaining c" arbitrary: c)
  case 0
  then show ?case using complete_cleanup_step [OF 0(2,3)] by simp
next
  case (Suc n)
  from complete_cleanup_step [OF Suc.prems(1,2)] obtain d where
    d: "complete_pending c = snd (kb2_next_cleanup_action d)" "Suc (remaining d) = remaining c" "flags_ok d"
    "co_state d = KB2_STATE_STOPPING" "co_next_token d = co_next_token c"
    "co_generation d = co_generation c" "co_restart_requested d = co_restart_requested c"
    "co_configuration d = co_configuration c" by blast
  have n: "remaining d = n" using d(2) Suc.hyps(2) by simp
  have tok: "co_next_token d \<noteq> - 1" using token_room [OF Suc.prems(3)] d(5) by simp
  have step: "drive (remaining c) c = drive n (complete_pending c)"
    using Suc.prems(2) Suc.hyps(2) by (metis drive.simps(2))
  have v: "kb2_validate_configuration d = KB2_STATUS_OK"
  proof -
    have "kb2_validate_configuration c = KB2_STATUS_OK" using Suc.prems(1,2) by (simp add: controller_inv_def phase_ok_def)
    then show ?thesis using d(8) by (simp add: kb2_validate_configuration_def)
  qed
  show ?case
  proof (cases "n = 0")
    case True
    then show ?thesis using next_cleanup_cleaned [of d] d n tok v Suc.prems(4) step by simp
  next
    case False
    with next_cleanup_progress [OF d(3,4)] n tok obtain c' where
      c': "kb2_next_cleanup_action d = (KB2_STATUS_OK, c')" "co_state c' = KB2_STATE_STOPPING" "remaining c' = n"
      "unat (co_next_token c') = unat (co_next_token d) + 1" "co_generation c' = co_generation d"
      "co_restart_requested c' = co_restart_requested d" by auto
    have "controller_inv c'" using complete_pending_inv [OF Suc.prems(1)] d(1) c'(1) by simp
    from Suc.hyps(1) [OF c'(3) [symmetric] this c'(2)] c' d Suc.prems(3,4) Suc.hyps(2) step
    show ?thesis by simp
  qed
qed

text \<open>Stopping or restarting a controller, then completing what it asks for.\<close>

lemma begin_cleanup_cleaned:
  assumes inv: "controller_inv c" and np: "\<not> co_action_pending c" and st: "co_state c \<noteq> KB2_STATE_IDLE"
    and tok: "unat (co_next_token c) + 6 < 2 ^ 64 - 1" and gen: "restart \<longrightarrow> co_generation c \<noteq> - 1"
  shows "cleaned restart (co_generation c) (drive 5 (snd (kb2_begin_cleanup c restart)))"
proof -
  let ?d = "c\<lparr>co_graceful_stop := co_state c \<noteq> KB2_STATE_FAULTED, co_state := KB2_STATE_STOPPING,
      co_restart_requested := restart\<rparr>"
  have run: "kb2_begin_cleanup c restart = kb2_next_cleanup_action ?d" by (simp add: kb2_begin_cleanup_def)
  have d: "flags_ok ?d" "co_next_token ?d \<noteq> - 1" "kb2_validate_configuration ?d = KB2_STATUS_OK"
    using inv st token_room [OF tok] by (auto simp: controller_inv_def phase_ok_def)
  show ?thesis
  proof (cases "remaining ?d = 0")
    case True
    have "cleaned restart (co_generation c) (snd (kb2_begin_cleanup c restart))"
      using next_cleanup_cleaned [OF d(1) True _ d(2,3)] gen run by simp
    then show ?thesis using drive_stopped cleaned_stopped by metis
  next
    case False
    from next_cleanup_progress [OF d(1) _ False d(2)] obtain c' where
      c': "kb2_next_cleanup_action ?d = (KB2_STATUS_OK, c')" "co_state c' = KB2_STATE_STOPPING" "remaining c' = remaining c"
      "unat (co_next_token c') = unat (co_next_token c) + 1" "co_generation c' = co_generation c"
      "co_restart_requested c' = restart" by auto
    have inv': "controller_inv c'" using begin_cleanup_inv [OF _ inv np st] run c'(1) by metis
    have "cleaned restart (co_generation c) (drive (remaining c') c')"
      using drive_cleaned [OF inv' c'(2)] c'(3-6) tok gen remaining_le [of c] by simp
    moreover have "drive 5 c' = drive (5 - remaining c') (drive (remaining c') c')"
      using drive_add [of "remaining c'" "5 - remaining c'" c'] remaining_le [of c'] by simp
    ultimately show ?thesis using run c'(1) drive_stopped cleaned_stopped by (metis snd_conv)
  qed
qed

section \<open>Rejected calls\<close>

text \<open>The statuses with which a call is refused.\<close>

definition refusals :: "kb2_status set" where
  "refusals = {KB2_STATUS_INVALID_ARGUMENT, KB2_STATUS_INVALID_STATE, KB2_STATUS_INVALID_CONFIGURATION,
     KB2_STATUS_ACTION_PENDING, KB2_STATUS_STALE_GENERATION, KB2_STATUS_STALE_ACTION}"

lemma emit_not_refused: "kb2_emit_action c t = (s, c') \<Longrightarrow> s \<notin> refusals"
  by (auto simp: kb2_emit_action_def refusals_def Let_def split: if_split_asm)

lemma begin_start_refused: "kb2_begin_start c = (s, c') \<Longrightarrow> s \<in> refusals \<Longrightarrow> c' = c"
  by (auto simp: kb2_begin_start_def dest: emit_not_refused split: if_split_asm)

lemma begin_start_not_refused:
  "kb2_begin_start c = (s, c') \<Longrightarrow> kb2_validate_configuration c = KB2_STATUS_OK \<Longrightarrow> s \<notin> refusals"
  by (auto simp: kb2_begin_start_def refusals_def kb2_emit_action_def Let_def split: if_split_asm)

lemma finish_cleanup_not_refused:
  assumes "kb2_finish_cleanup c = (s, c')" "kb2_validate_configuration c = KB2_STATUS_OK"
  shows "s \<notin> refusals"
proof (cases "kb2_begin_start (c\<lparr>co_restart_requested := False, co_state := KB2_STATE_IDLE,
                co_fault_kind := KB2_FAULT_NONE, co_fault_code := 0\<rparr>)")
  case (Pair s1 c1)
  have "s1 \<notin> refusals" using begin_start_not_refused [OF Pair] assms(2) by simp
  then show ?thesis using assms(1) Pair
    by (auto simp: kb2_finish_cleanup_def Let_def refusals_def split: if_split_asm)
qed

lemma next_cleanup_not_refused:
  "kb2_next_cleanup_action c = (s, c') \<Longrightarrow> kb2_validate_configuration c = KB2_STATUS_OK \<Longrightarrow> s \<notin> refusals"
  by (auto simp: next_cleanup_action_eq dest: emit_not_refused finish_cleanup_not_refused split: option.split_asm)

lemma begin_cleanup_not_refused:
  "kb2_begin_cleanup c r = (s, c') \<Longrightarrow> kb2_validate_configuration c = KB2_STATUS_OK \<Longrightarrow> s \<notin> refusals"
  by (auto simp: kb2_begin_cleanup_def dest: next_cleanup_not_refused)

lemma after_completion_not_refused:
  assumes "after_completion (kb2_clear_action c) (ac_type (co_action c)) rid sid = (s, c')" "controller_inv c"
    "co_action_pending c"
  shows "s \<notin> refusals"
  using assms(1) pending_type [OF assms(2,3)]
  by (cases "ac_type (co_action c)")
    (auto simp: starting_ok_def cleanup_action_def refusals_def dest!: emit_not_refused next_cleanup_not_refused
      split: if_split_asm)

lemma active_configuration:
  "controller_inv c \<Longrightarrow> co_state c \<noteq> KB2_STATE_IDLE \<Longrightarrow> kb2_validate_configuration c = KB2_STATUS_OK"
  by (simp add: controller_inv_def phase_ok_def)

lemma refused_unchanged:
  assumes "run_call al call c h = (s, Some c', h')" "controller_inv c" "s \<in> refusals"
  shows "c' = c"
proof (cases call)
  case (Set_Closure closure)
  with assms show ?thesis
    by (auto simp: kb2_controller_set_closure_def Let_def refusals_def split: if_split_asm prod.split_asm)
next
  case (Set_Digest kind digest)
  with assms show ?thesis
    by (auto simp: kb2_controller_set_digest_def on_controller_eq refusals_def
        split: if_split_asm prod.split_asm option.split_asm)
next
  case (Set_Limit kind limit)
  with assms show ?thesis
    by (auto simp: kb2_controller_set_limit_def on_controller_eq refusals_def split: if_split_asm prod.split_asm)
next
  case Start
  with assms show ?thesis
    by (auto simp: kb2_controller_start_def on_controller_eq dest: begin_start_refused
        split: if_split_asm prod.split_asm)
next
  case Stop
  with assms show ?thesis
    by (auto simp: kb2_controller_stop_def on_controller_eq dest!: begin_cleanup_not_refused intro: active_configuration
        split: if_split_asm prod.split_asm)
next
  case Restart
  with assms show ?thesis
    by (auto simp: kb2_controller_restart_def on_controller_eq dest!: begin_cleanup_not_refused intro: active_configuration
        split: if_split_asm prod.split_asm)
next
  case (Complete_Action g t r rid sid)
  with assms show ?thesis
    by (auto simp: kb2_controller_complete_action_def on_controller_eq Let_def kb2_action_result_valid_def
        simp del: completion_ids_valid.simps dest!: after_completion_not_refused
        split: if_split_asm prod.split_asm) (auto simp: refusals_def)
next
  case (Report_Ready g)
  with assms show ?thesis
    by (auto simp: kb2_controller_report_ready_def on_controller_eq refusals_def split: if_split_asm prod.split_asm)
next
  case (Report_Fault g kind code)
  with assms show ?thesis
    by (auto simp: kb2_controller_report_fault_def on_controller_eq refusals_def Let_def split: if_split_asm prod.split_asm)
qed

section \<open>A concrete run\<close>

fun run_calls ::
    "'h kb2_allocator \<Rightarrow> kb2_call list \<Rightarrow> kb2_controller \<times> 'h \<times> host \<Rightarrow> kb2_controller \<times> 'h \<times> host" where
  "run_calls al [] s = s"
| "run_calls al (call # calls) (c, h, w) =
     (case run_call al call c h of
        (status, None, h') \<Rightarrow> (c, h, w)
      | (status, Some c', h') \<Rightarrow> run_calls al calls (c', h', host_after call c status w))"

text \<open>An application that configures a controller, starts it, and reports it ready.\<close>

definition sample_setup :: "kb2_call list" where
  "sample_setup =
    [Set_Closure (Some \<lparr>cl_block = 0, cl_storage = empty_storage (replicate 32 1)\<rparr>),
     Set_Digest 1 (Some (replicate 32 1)), Set_Digest 2 (Some (replicate 32 2)), Set_Digest 3 (Some (replicate 32 3)),
     Set_Limit 0 4096, Set_Limit 1 1, Set_Limit 2 1, Set_Limit 3 8]"

definition sample_start :: "kb2_call list" where
  "sample_start = [Start, Complete_Action 1 1 KB2_STATUS_OK 7 0, Complete_Action 1 2 KB2_STATUS_OK 0 9,
     Complete_Action 1 3 KB2_STATUS_OK 0 0, Report_Ready 1]"

definition sample_created :: "kb2_controller \<times> bump_state \<times> host" where
  "sample_created = (case kb2_controller_create bump_allocator (1, []) True of
     (s, c, h) \<Rightarrow> (the c, h, (Unallocated, No_Sandbox)))"

definition sample_running :: "kb2_controller \<times> bump_state \<times> host" where
  "sample_running = run_calls bump_allocator (sample_setup @ sample_start) sample_created"

lemma sample_running_state: "co_state (fst sample_running) = KB2_STATE_RUNNING"
  by code_simp

lemma run_calls_reachable:
  "system_reachable al h0 c h w \<Longrightarrow> run_calls al calls (c, h, w) = (c', h', w') \<Longrightarrow> system_reachable al h0 c' h' w'"
proof (induction calls arbitrary: c h w)
  case Nil
  then show ?case by auto
next
  case (Cons call calls)
  obtain s d k where r: "run_call al call c h = (s, d, k)" by (metis prod_cases3)
  show ?case
  proof (cases d)
    case None
    then show ?thesis using Cons.prems r by auto
  next
    case (Some e)
    with system_called [OF Cons.prems(1), of call s e k] r Cons.prems(2) Cons.IH show ?thesis by simp
  qed
qed

lemma sample_created_reachable:
  "system_reachable bump_allocator (1, []) (fst sample_created) (fst (snd sample_created)) (snd (snd sample_created))"
proof -
  obtain c h where r: "kb2_controller_create bump_allocator (1, []) True = (KB2_STATUS_OK, Some c, h)"
    by (simp add: kb2_controller_create_def bump_allocator_def)
  from system_created [OF r] show ?thesis using r by (simp add: sample_created_def)
qed

lemma sample_running_reachable:
  "system_reachable bump_allocator (1, []) (fst sample_running) (fst (snd sample_running)) (snd (snd sample_running))"
  using run_calls_reachable [OF sample_created_reachable] by (simp add: sample_running_def)

definition sample_starting :: "kb2_controller \<times> bump_state \<times> host" where
  "sample_starting = run_calls bump_allocator (sample_setup @ [Start]) sample_created"

lemma sample_starting_reachable:
  "system_reachable bump_allocator (1, []) (fst sample_starting) (fst (snd sample_starting)) (snd (snd sample_starting))"
  using run_calls_reachable [OF sample_created_reachable] by (simp add: sample_starting_def)

section \<open>Properties\<close>

text \<open>C1. The controller drives the host by the rules, whatever the client calls: the pending
  action is one that the protocol permits in the host's state, with the identifiers the host
  gave out; so resources are revoked only after the sandbox stopped, reset only after that, and
  released last. A controller that is idle has left nothing behind, and one that is handshaking
  or running has its resources and its sandbox.\<close>

theorem kb2_controller_refines_protocol:
  assumes "system_reachable al h0 c h w"
  shows "(case kb2_controller_pending_action (Some c) of None \<Rightarrow> True | Some a \<Rightarrow> action_permitted a w) \<and>
    (case kb2_controller_state (Some c) of
       KB2_STATE_IDLE \<Rightarrow> w = (Unallocated, No_Sandbox)
     | KB2_STATE_HANDSHAKING \<Rightarrow> w = (Held (co_resource_set_id c), Live (co_sandbox_id c))
     | KB2_STATE_RUNNING \<Rightarrow> w = (Held (co_resource_set_id c), Live (co_sandbox_id c))
     | _ \<Rightarrow> True)"
proof -
  have inv: "controller_inv c" and w: "w = believed c" using system_reachable_inv [OF assms] by auto
  have "flags_ok c" using inv by (simp add: controller_inv_def)
  then have "co_process_started c \<Longrightarrow> believed c = (Held (co_resource_set_id c), Live (co_sandbox_id c))"
    by (auto simp: believed_def flags_ok_def)
  then show ?thesis
    using believed_permitted [OF inv] inv_active [OF inv] believed_idle [OF idle_cleanup [OF inv]] w
    by (auto simp: kb2_controller_pending_action_def kb2_controller_state_def simp del: action_permitted.simps
        split: kb2_state.split)
qed

theorem kb2_controller_refines_protocol_witness:
  "snd (snd sample_running) = (Held (co_resource_set_id (fst sample_running)), Live (co_sandbox_id (fst sample_running)))"
  using kb2_controller_refines_protocol [OF sample_running_reachable] sample_running_state
  by (simp add: kb2_controller_state_def)

text \<open>C18. The controller's invariant: its flags, identifiers and pending action agree in every
  state that calls can reach, at most one action is pending, the pending action carries the
  current generation and the newest token, and outside the idle state the configuration is
  complete and valid.\<close>

theorem kb2_controller_invariant: "system_reachable al h0 c h w \<Longrightarrow> controller_inv c"
  by (drule system_reachable_inv) simp

theorem kb2_controller_invariant_witness: "controller_inv (fst sample_running)"
  by (rule kb2_controller_invariant [OF sample_running_reachable])

text \<open>C3. Tokens name actions. Take any state the system can reach, the action \<open>a\<close> that is pending in it,
  any later state, and any completion that is then reported, successful or failed. If the controller
  takes it, changing its state in any way, the completion carries the generation and the token of the
  pending action, that action is consumed by it, and if the token is the one of \<open>a\<close> the action is
  \<open>a\<close> itself. Otherwise the call is refused, and a completion for the pending action only because
  its other arguments are malformed. So a completion that arrives late, or twice, never hits another
  action.\<close>

theorem kb2_controller_late_completion:
  assumes "system_reachable al h0 c h w" "kb2_controller_pending_action (Some c) = Some a" "later al c h c' h'"
    "kb2_controller_complete_action (Some c') g t result rid sid = (s, Some c'')"
  shows "(c'' \<noteq> c' \<longrightarrow> (\<exists>b. kb2_controller_pending_action (Some c') = Some b \<and> ac_generation b = g \<and> ac_token b = t \<and>
        kb2_controller_pending_action (Some c'') \<noteq> Some b \<and> (t = ac_token a \<longrightarrow> b = a))) \<and>
    (c'' = c' \<longrightarrow> s = KB2_STATUS_INVALID_ARGUMENT \<or>
       s \<in> {KB2_STATUS_INVALID_STATE, KB2_STATUS_STALE_GENERATION, KB2_STATUS_STALE_ACTION} \<and>
       (\<forall>b. kb2_controller_pending_action (Some c') = Some b \<longrightarrow> ac_generation b \<noteq> g \<or> ac_token b \<noteq> t))"
proof -
  have inv: "controller_inv c" using system_reachable_inv [OF assms(1)] by simp
  have a: "co_action_pending c" "a = co_action c"
    using assms(2) by (auto simp: kb2_controller_pending_action_def split: if_split_asm)
  have token: "ac_token a = co_next_token c" using inv a by (simp add: controller_inv_def pending_ok_def)
  from assms(4) later_inv [OF assms(3) inv] show ?thesis
  proof (cases rule: complete_action_cases)
    case refused
    then show ?thesis by (auto simp: kb2_controller_pending_action_def)
  next
    case taken
    have "co_action c' = a" if "t = ac_token a"
      using advances_later [OF assms(3)] taken that token a by (auto simp: advances_def)
    moreover have "kb2_controller_pending_action (Some c'') \<noteq> Some (co_action c')" "c'' \<noteq> c'"
      using taken by (auto simp: kb2_controller_pending_action_def)
    ultimately show ?thesis using taken by (simp add: kb2_controller_pending_action_def)
  qed
qed

text \<open>The completion of the first action is taken, and the second action is pending; when the completion
  is reported again it is refused and changes nothing.\<close>

theorem kb2_controller_late_completion_witness:
  "\<exists>c'. kb2_controller_complete_action (Some (fst sample_starting)) 1 1 KB2_STATUS_OK 7 0 = (KB2_STATUS_OK, Some c') \<and>
     kb2_controller_pending_action (Some c') \<noteq> Some (co_action (fst sample_starting)) \<and>
     kb2_controller_complete_action (Some c') 1 1 KB2_STATUS_OK 7 0 = (KB2_STATUS_STALE_ACTION, Some c')"
proof -
  let ?c = "fst sample_starting" and ?h = "fst (snd sample_starting)"
  define first where "first = kb2_controller_complete_action (Some ?c) 1 1 KB2_STATUS_OK 7 0"
  define second where "second = kb2_controller_complete_action (snd first) 1 1 KB2_STATUS_OK 7 0"
  have "co_action_pending ?c" and one: "ac_token (co_action ?c) = 1" by code_simp+
  then have pend: "kb2_controller_pending_action (Some ?c) = Some (co_action ?c)" by (simp add: kb2_controller_pending_action_def)
  have "fst first = KB2_STATUS_OK" "snd first \<noteq> None" "fst second = KB2_STATUS_STALE_ACTION" "snd second \<noteq> None"
    "map_option ac_token (kb2_controller_pending_action (snd first)) = Some 2"
    unfolding second_def first_def by code_simp+
  then obtain c' c'' where c': "kb2_controller_complete_action (Some ?c) 1 1 KB2_STATUS_OK 7 0 = (KB2_STATUS_OK, Some c')"
    and c'': "kb2_controller_complete_action (Some c') 1 1 KB2_STATUS_OK 7 0 = (KB2_STATUS_STALE_ACTION, Some c'')"
    and two: "map_option ac_token (kb2_controller_pending_action (Some c')) = Some 2"
    unfolding second_def first_def by (metis option.collapse prod.collapse)
  have "run_call bump_allocator (Complete_Action 1 1 KB2_STATUS_OK 7 0) ?c ?h = (KB2_STATUS_OK, Some c', ?h)"
    using c' by simp
  from later_call [OF later_now this] have "later bump_allocator ?c ?h c' ?h" .
  from kb2_controller_late_completion [OF sample_starting_reachable pend this c''] have "c'' = c'" using two by auto
  then show ?thesis using c' c'' one two by auto
qed

text \<open>C19. Refused calls have no effect: a call that is answered with INVALID_ARGUMENT,
  INVALID_STATE, INVALID_CONFIGURATION, ACTION_PENDING, STALE_GENERATION or STALE_ACTION leaves
  the controller exactly as it was.\<close>

theorem kb2_controller_refused_unchanged:
  "system_reachable al h0 c h w \<Longrightarrow> run_call al call c h = (s, Some c', h') \<Longrightarrow> s \<in> refusals \<Longrightarrow> c' = c"
  by (drule system_reachable_inv) (simp add: refused_unchanged)

theorem kb2_controller_refused_unchanged_witness:
  "\<exists>c' h'. run_call bump_allocator Start (fst sample_running) (fst (snd sample_running)) =
     (KB2_STATUS_INVALID_STATE, Some c', h') \<and> c' = fst sample_running"
proof -
  obtain c' h' where r: "run_call bump_allocator Start (fst sample_running) (fst (snd sample_running)) =
     (KB2_STATUS_INVALID_STATE, Some c', h')"
    using sample_running_state by (simp add: kb2_controller_start_def on_controller.simps)
  from kb2_controller_refused_unchanged [OF sample_running_reachable r] show ?thesis
    using r by (simp add: refusals_def)
qed

text \<open>C2. Clean-up ends: a controller that is stopped or restarted while no action is pending asks
  for at most five actions. If they are completed it is idle, or starting the next generation,
  and nothing of the old one is left. The counters must have room: six tokens, and for a restart
  one generation.\<close>

theorem kb2_controller_cleanup_ends:
  assumes "system_reachable al h0 c h w"
    "co_state c \<in> {KB2_STATE_HANDSHAKING, KB2_STATE_RUNNING, KB2_STATE_FAULTED}"
    "unat (co_next_token c) + 6 < 2 ^ 64 - 1" "co_generation c \<noteq> - 1"
  shows "(\<exists>s d. kb2_controller_stop (Some c) = (s, Some d) \<and> cleaned False (co_generation c) (drive 5 d)) \<and>
    (\<exists>s d. kb2_controller_restart (Some c) = (s, Some d) \<and> cleaned True (co_generation c) (drive 5 d))"
proof -
  have inv: "controller_inv c" using system_reachable_inv [OF assms(1)] by simp
  have st: "co_state c \<noteq> KB2_STATE_IDLE" and np: "\<not> co_action_pending c"
    using assms(2) inv by (auto simp: controller_inv_def phase_ok_def)
  have "kb2_controller_stop (Some c) = on_controller (Some c) (\<lambda>c. kb2_begin_cleanup c False)"
    "kb2_controller_restart (Some c) = on_controller (Some c) (\<lambda>c. kb2_begin_cleanup c True)"
    using assms(2) np by (auto simp: kb2_controller_stop_def kb2_controller_restart_def on_controller.simps)
  then show ?thesis
    using begin_cleanup_cleaned [OF inv np st assms(3), of False] begin_cleanup_cleaned [OF inv np st assms(3), of True]
      assms(4) by (auto simp: on_controller.simps split: prod.split)
qed

theorem kb2_controller_cleanup_ends_witness:
  "\<exists>s d. kb2_controller_restart (Some (fst sample_running)) = (s, Some d) \<and> cleaned True 1 (drive 5 d)"
proof -
  have c: "co_next_token (fst sample_running) = 3" "co_generation (fst sample_running) = 1" by code_simp+
  show ?thesis
    using kb2_controller_cleanup_ends [OF sample_running_reachable] sample_running_state c by simp
qed

text \<open>C20. No leak: after any calls, destroying the controller gives back every block it
  obtained, its own and those of the closure it cloned.\<close>

theorem kb2_controller_no_leak:
  assumes "allocator_laws al live" "system_reachable al h0 c h w"
  shows "live (kb2_controller_destroy al h (Some c)) = live h0"
  by (rule controller_destroy_blocks [OF assms(1) system_reachable_blocks [OF assms]])

theorem kb2_controller_no_leak_witness:
  "bump_live (kb2_controller_destroy bump_allocator (fst (snd sample_running)) (Some (fst sample_running))) = {#}"
  using kb2_controller_no_leak [OF bump_allocator_laws sample_running_reachable] by (simp add: bump_live_def)

end
