(* ===== verification/Tables.thy ===== *)
theory Tables
  imports Protocol
begin

text \<open>
  Loops and tables shared by the decoders of resource grants and closure manifests: the counting
  \<open>for\<close> loop with an early return, the binary search over fallible reads, record codecs addressed
  by index, and the runs of equal keys into which one table divides another.
\<close>

section \<open>Loops\<close>

text \<open>A step that may leave the function, followed by the rest of the function.\<close>

definition check_then :: "('e + 's) option \<Rightarrow> ('s \<Rightarrow> ('e + 't) option) \<Rightarrow> ('e + 't) option" where
  "check_then x k = do { r \<leftarrow> x; case r of Inl e \<Rightarrow> Some (Inl e) | Inr s \<Rightarrow> k s }"

lemma check_then_simps [simp]:
  "check_then (Some (Inl e)) k = Some (Inl e)" "check_then (Some (Inr s)) k = k s"
  "check_then (Some (if P then Inr s else Inl e)) k = (if P then k s else Some (Inl e))"
  by (simp_all add: check_then_def)

text \<open>
  \<open>for (index = i; index < i + n; ++index)\<close> over a state; \<open>Inl\<close> is a \<open>return\<close> or \<open>goto\<close> out of
  the loop.
\<close>

fun for_loop :: "(nat \<Rightarrow> 's \<Rightarrow> ('e + 's) option) \<Rightarrow> nat \<Rightarrow> nat \<Rightarrow> 's \<Rightarrow> ('e + 's) option" where
  "for_loop body index 0 s = Some (Inr s)"
| "for_loop body index (Suc n) s =
     check_then (body index s) (for_loop body (Suc index) n)"

text \<open>
  A loop whose body checks a condition and moves on to a state that depends on the index alone
  decides whether the condition holds at every index.
\<close>

lemma for_loop_from:
  "(\<And>i. k \<le> i \<Longrightarrow> i < k + n \<Longrightarrow> body i (st i) = Some (if P i then Inr (st (Suc i)) else Inl e)) \<Longrightarrow>
   for_loop body k n (st k) = Some (if \<forall>i. k \<le> i \<and> i < k + n \<longrightarrow> P i then Inr (st (k + n)) else Inl e)"
proof (induction n arbitrary: k)
  case (Suc n)
  have IH: "for_loop body (Suc k) n (st (Suc k)) =
      Some (if \<forall>i. Suc k \<le> i \<and> i < Suc k + n \<longrightarrow> P i then Inr (st (Suc k + n)) else Inl e)"
    using Suc.prems by (intro Suc.IH) auto
  have split: "(\<forall>i. k \<le> i \<and> i < k + Suc n \<longrightarrow> P i) \<longleftrightarrow> P k \<and> (\<forall>i. Suc k \<le> i \<and> i < Suc k + n \<longrightarrow> P i)"
    by (metis Suc_leI add_Suc_right add_Suc_shift le_neq_implies_less less_add_Suc1 order_refl Suc_leD)
  show ?case using Suc.prems [of k] IH unfolding split by (cases "P k") auto
qed simp

lemma for_loop_decides:
  assumes "\<And>i. i < n \<Longrightarrow> body i (st i) = Some (if P i then Inr (st (Suc i)) else Inl e)"
  shows "for_loop body 0 n (st 0) = Some (if \<forall>i < n. P i then Inr (st n) else Inl e)"
  using for_loop_from [of 0 n body st P e] assms by simp

lemma for_loop_check:
  assumes "\<And>i. i < n \<Longrightarrow> body i () = Some (if P i then Inr () else Inl e)"
  shows "for_loop body 0 n () = Some (if \<forall>i < n. P i then Inr () else Inl e)"
  using for_loop_decides [of n body "\<lambda>_. ()" P e] assms by simp

text \<open>Loops whose steps fail in one way only, and loops that reach their end.\<close>

definition decides :: "'e \<Rightarrow> ('e + 's) option \<Rightarrow> bool" where
  "decides e x \<longleftrightarrow> x = Some (Inl e) \<or> (\<exists>s. x = Some (Inr s))"

lemma decides_simps [simp]: "decides e (Some (Inr s))" "decides e (Some (Inl e'))  \<longleftrightarrow> e = e'"
  by (auto simp: decides_def)

lemma decides_check_then: "decides e x \<Longrightarrow> (\<And>s. x = Some (Inr s) \<Longrightarrow> decides e (k s)) \<Longrightarrow> decides e (check_then x k)"
  by (auto simp: decides_def)

lemma decides_for_loop: "(\<And>i s. decides e (body i s)) \<Longrightarrow> decides e (for_loop body index n s)"
  by (induction n arbitrary: index s) (auto intro: decides_check_then)

lemma check_then_Inr: "check_then x k = Some (Inr t) \<longleftrightarrow> (\<exists>s. x = Some (Inr s) \<and> k s = Some (Inr t))"
  by (auto simp: check_then_def split: Option.bind_split_asm sum.split_asm)

lemma for_loop_Inr_step:
  "for_loop body index n s = Some (Inr s') \<Longrightarrow> index \<le> i \<Longrightarrow> i < index + n \<Longrightarrow> \<exists>s1 s2. body i s1 = Some (Inr s2)"
proof (induction n arbitrary: index s)
  case (Suc n)
  then obtain s1 where "body index s = Some (Inr s1)" "for_loop body (Suc index) n s1 = Some (Inr s')"
    by (auto simp: check_then_Inr)
  then show ?case using Suc.IH [of "Suc index" s1] Suc.prems(2,3) by (cases "i = index") auto
qed simp

lemma decides_iff: "decides e x \<Longrightarrow> x = Some (Inr ()) \<longleftrightarrow> P \<Longrightarrow> x = Some (if P then Inr () else Inl e)"
  by (auto simp: decides_def)

text \<open>A loop that reaches its end has taken every step, each from the state the one before left.\<close>

lemma for_loop_trace:
  assumes "for_loop body k n (st k) = Some (Inr s)"
    and "\<And>i x. k \<le> i \<Longrightarrow> i < k + n \<Longrightarrow> body i (st i) = Some (Inr x) \<Longrightarrow> P i \<and> x = st (Suc i)"
  shows "(\<forall>i. k \<le> i \<and> i < k + n \<longrightarrow> P i) \<and> s = st (k + n)"
  using assms
proof (induction n arbitrary: k)
  case (Suc n)
  then obtain x where x: "body k (st k) = Some (Inr x)" "for_loop body (Suc k) n x = Some (Inr s)"
    by (auto simp: check_then_Inr)
  then have step: "P k" "x = st (Suc k)" using Suc.prems(2) [of k] by auto
  have "(\<forall>i. Suc k \<le> i \<and> i < Suc k + n \<longrightarrow> P i) \<and> s = st (Suc k + n)"
    using Suc.prems(2) x(2) step(2) by (intro Suc.IH) auto
  then show ?case using step(1) by (metis Suc_leI add_Suc_right add_Suc_shift le_neq_implies_less)
qed auto

lemma for_loop_trace0:
  assumes "for_loop body 0 n (st 0) = Some (Inr s)"
    and "\<And>i x. i < n \<Longrightarrow> body i (st i) = Some (Inr x) \<Longrightarrow> P i \<and> x = st (Suc i)"
  shows "(\<forall>i < n. P i) \<and> s = st n"
  using for_loop_trace [of body 0 n st s P] assms by auto

lemma for_loop_unit:
  "for_loop body k n () = Some (Inr ()) \<longleftrightarrow> (\<forall>i. k \<le> i \<and> i < k + n \<longrightarrow> body i () = Some (Inr ()))"
proof (induction n arbitrary: k)
  case (Suc n)
  have "(\<forall>i. k \<le> i \<and> i < k + Suc n \<longrightarrow> Q i) \<longleftrightarrow> Q k \<and> (\<forall>i. Suc k \<le> i \<and> i < Suc k + n \<longrightarrow> Q i)" for Q
    by (metis Suc_leI add_Suc_right add_Suc_shift le_neq_implies_less less_add_Suc1 order_refl Suc_leD)
  then show ?case using Suc.IH by (simp add: check_then_Inr)
qed auto

lemma for_loop_Inl: "(\<And>i s. body i s \<noteq> Some (Inl e)) \<Longrightarrow> for_loop body k n s \<noteq> Some (Inl e)"
proof (induction n arbitrary: k s)
  case (Suc n)
  show ?case using Suc.prems [of k s] Suc.IH [OF Suc.prems]
    by (auto simp: check_then_def split: Option.bind_split_asm sum.split_asm)
qed simp

lemma for_loop_total: "(\<And>i s. body i s \<noteq> None) \<Longrightarrow> for_loop body k n s \<noteq> None"
proof (induction n arbitrary: k s)
  case (Suc n)
  obtain r where "body k s = Some r" using Suc.prems by blast
  then show ?case using Suc.IH [OF Suc.prems] by (cases r) (simp_all del: not_None_eq)
qed simp

text \<open>The key before index \<open>i\<close>, as the loops keep it in a variable that starts at zero.\<close>

definition prior :: "'a::zero list \<Rightarrow> nat \<Rightarrow> 'a" where
  "prior xs i = (if i = 0 then 0 else xs ! (i - 1))"

lemma prior_0 [simp]: "prior xs 0 = 0"
  by (simp add: prior_def)

lemma prior_Suc [simp]: "prior xs (Suc i) = xs ! i"
  by (simp add: prior_def)

lemma prior_Cons_all:
  "(\<forall>i < Suc (length ys). prior (y # ys) i < (y # ys) ! i) \<longleftrightarrow> 0 < y \<and> (\<forall>i < length ys. (y # ys) ! i < ys ! i)"
  by (auto simp: less_Suc_eq_0_disj)

lemma sorted_wrt_steps:
  assumes "transp R"
  shows "sorted_wrt R xs \<longleftrightarrow> (\<forall>i. Suc i < length xs \<longrightarrow> R (xs ! i) (xs ! Suc i))"
  by (rule sorted_wrt_iff_nth_Suc_transp [OF assms])

lemma prior_strict_iff:
  fixes xs :: "'a::len word list"
  shows "(\<forall>i < length xs. prior xs i < xs ! i) \<longleftrightarrow> sorted_wrt (<) xs \<and> (\<forall>x \<in> set xs. x \<noteq> 0)"
proof (cases xs)
  case (Cons y ys)
  have "(\<forall>i < length xs. prior xs i < xs ! i) \<longleftrightarrow> 0 < y \<and> (\<forall>i. Suc i < length xs \<longrightarrow> xs ! i < xs ! Suc i)"
    by (simp add: Cons prior_Cons_all)
  also have "\<dots> \<longleftrightarrow> 0 < y \<and> sorted_wrt (<) xs"
    by (simp add: sorted_wrt_steps)
  also have "\<dots> \<longleftrightarrow> sorted_wrt (<) xs \<and> (\<forall>x \<in> set xs. x \<noteq> 0)"
    by (auto simp: Cons word_gt_0)
  finally show ?thesis .
qed simp

lemma prior_weak_iff:
  fixes xs :: "'a::len word list"
  shows "(\<forall>i < length xs. prior xs i \<le> xs ! i) \<longleftrightarrow> sorted xs"
  unfolding sorted_iff_nth_Suc
  by (auto simp: prior_def) (metis Suc_pred not_gr_zero)

section \<open>Sizes\<close>

text \<open>\<open>add_size\<close>, which both table codecs define; \<open>None\<close> is its failure.\<close>

definition add_size :: "nat \<Rightarrow> nat \<Rightarrow> nat \<Rightarrow> nat option" where
  "add_size sz count item_size =
     (if count \<noteq> 0 \<and> (SIZE_MAX - sz) div count < item_size then None
      else Some (sz + count * item_size))"

lemma add_size_exact:
  "sz \<le> SIZE_MAX \<Longrightarrow>
   add_size sz count item_size =
     (if sz + count * item_size \<le> SIZE_MAX then Some (sz + count * item_size) else None)"
  using kb2_size_add_multiply_exact [of sz count item_size]
  by (simp add: add_size_def kb2_size_add_multiply_def)

section \<open>Binary search over fallible reads\<close>

text \<open>
  The lookups of the decoders read a whole record at the middle and stop when the read fails;
  the outer \<open>None\<close> is a read outside the buffer, the inner one the sources' \<open>SIZE_MAX\<close>.
\<close>

function bsearch_reads :: "(nat \<Rightarrow> ('e + 'k::linorder) option) \<Rightarrow> 'k \<Rightarrow> nat \<Rightarrow> nat \<Rightarrow> nat option option" where
  "bsearch_reads key k left right =
     (if left < right then
        let middle = left + (right - left) div 2 in
        do { r \<leftarrow> key middle;
             case r of
               Inl e \<Rightarrow> Some None
             | Inr x \<Rightarrow>
                 if x = k then Some (Some middle)
                 else if x < k then bsearch_reads key k (middle + 1) right
                 else bsearch_reads key k left middle }
      else Some None)"
  by pat_completeness auto
termination
  by (relation "measure (\<lambda>(key, k, left, right). right - left)") auto

declare bsearch_reads.simps [simp del]

lemma bsearch_reads_eq:
  "(\<And>i. i < n \<Longrightarrow> key i \<noteq> None) \<Longrightarrow> right \<le> n \<Longrightarrow>
   bsearch_reads key k left right =
     Some (bsearch (\<lambda>i. case key i of Some (Inr x) \<Rightarrow> Some x | _ \<Rightarrow> None) k left right)"
proof (induction key k left right rule: bsearch_reads.induct)
  case (1 key k left right)
  let ?m = "left + (right - left) div 2"
  show ?case
  proof (cases "left < right")
    case True
    then have m: "?m < n" using "1.prems"(2) by linarith
    then obtain r where r: "key ?m = Some r" using "1.prems"(1) by auto
    show ?thesis
    proof (cases r)
      case (Inl e)
      then show ?thesis using r True
        by (simp add: bsearch_reads.simps [of key k left] bsearch.simps [of _ k left] Let_def)
    next
      case (Inr x)
      have IH1: "x \<noteq> k \<Longrightarrow> x < k \<Longrightarrow> bsearch_reads key k (?m + 1) right =
          Some (bsearch (\<lambda>i. case key i of Some (Inr x) \<Rightarrow> Some x | _ \<Rightarrow> None) k (?m + 1) right)"
        using "1.IH"(1) [OF True refl r Inr] "1.prems" by blast
      have IH2: "x \<noteq> k \<Longrightarrow> \<not> x < k \<Longrightarrow> bsearch_reads key k left ?m =
          Some (bsearch (\<lambda>i. case key i of Some (Inr x) \<Rightarrow> Some x | _ \<Rightarrow> None) k left ?m)"
        using "1.IH"(2) [OF True refl r Inr] "1.prems"(1) less_imp_le [OF m] by blast
      show ?thesis using r True Inr IH1 IH2
        by (simp add: bsearch_reads.simps [of key k left] bsearch.simps [of _ k left] Let_def)
    qed
  qed (simp add: bsearch_reads.simps [of key k left] bsearch.simps [of _ k left])
qed

text \<open>On a strictly increasing list the search is a lookup.\<close>

lemma bsearch_sorted:
  assumes "sorted_wrt (<) (map f xs)" "\<And>i. i < length xs \<Longrightarrow> key i = Some (f (xs ! i))"
  shows "bsearch key k 0 (length xs) = Some i \<longleftrightarrow> i < length xs \<and> f (xs ! i) = k"
    and "bsearch key k 0 (length xs) = None \<longleftrightarrow> k \<notin> f ` set xs"
proof -
  have mono: "f (xs ! i) < f (xs ! j)" if "i < j" "j < length xs" for i j
    using sorted_wrt_nth_less [OF assms(1), of i j] that by simp
  have complete: "bsearch key (f (xs ! i)) 0 (length xs) = Some i" if "i < length xs" for i
    using bsearch_complete [of "length xs" "\<lambda>i. f (xs ! i)" key "length xs" 0 i] mono assms(2) that by simp
  show "bsearch key k 0 (length xs) = Some i \<longleftrightarrow> i < length xs \<and> f (xs ! i) = k"
    using complete [of i] bsearch_sound [of key k 0 "length xs" i] assms(2) [of i] by auto
  have "bsearch key k 0 (length xs) \<noteq> None \<longleftrightarrow> k \<in> f ` set xs"
  proof
    assume "bsearch key k 0 (length xs) \<noteq> None"
    then obtain i where "bsearch key k 0 (length xs) = Some i" by blast
    then show "k \<in> f ` set xs" using bsearch_sound [of key k 0 "length xs" i] assms(2) [of i] by auto
  next
    assume "k \<in> f ` set xs"
    then obtain i where "i < length xs" "f (xs ! i) = k" by (auto simp: in_set_conv_nth)
    then show "bsearch key k 0 (length xs) \<noteq> None" using complete [of i] by auto
  qed
  then show "bsearch key k 0 (length xs) = None \<longleftrightarrow> k \<notin> f ` set xs" by blast
qed

lemma bsearch_reads_sorted:
  assumes "sorted_wrt (<) (map f xs)" "\<And>i. i < length xs \<Longrightarrow> key i = Some (Inr (f (xs ! i)))"
  obtains r where "bsearch_reads key k 0 (length xs) = Some r"
    "\<And>i. r = Some i \<longleftrightarrow> i < length xs \<and> f (xs ! i) = k" "r = None \<longleftrightarrow> k \<notin> f ` set xs"
proof -
  let ?key = "\<lambda>i. case key i of Some (Inr x) \<Rightarrow> Some x | _ \<Rightarrow> None"
  have key: "?key i = Some (f (xs ! i))" if "i < length xs" for i using assms(2) [OF that] by simp
  have "bsearch_reads key k 0 (length xs) = Some (bsearch ?key k 0 (length xs))"
    by (rule bsearch_reads_eq [of "length xs"]) (simp_all add: assms(2))
  then show ?thesis
    by (rule that) (rule bsearch_sorted [of f xs ?key, OF assms(1) key]; assumption)+
qed

section \<open>Records addressed by index\<close>

text \<open>
  A reader that may reject a record: \<open>row v\<close> is its answer on the record that \<open>wr\<close> writes for
  \<open>v\<close>. The answer depends on the bytes of the record alone.
\<close>

locale row_codec =
  fixes width :: nat
    and wr :: "nat \<Rightarrow> 'v \<Rightarrow> writes"
    and rd :: "bytes \<Rightarrow> nat \<Rightarrow> 'r option"
    and row :: "'v \<Rightarrow> 'r"
    and ok :: "'v \<Rightarrow> bool"
  assumes wr_in: "ok v \<Longrightarrow> writes_in off (off + width) (wr off v)"
    and rd_wr: "ok v \<Longrightarrow> off + width \<le> length b \<Longrightarrow> slice b off width = zeros width \<Longrightarrow>
      rd (apply_writes b (wr off v)) off = Some (row v)"
    and rd_cong: "off + width \<le> length b \<Longrightarrow> off + width \<le> length b' \<Longrightarrow>
      slice b off width = slice b' off width \<Longrightarrow> rd b off = rd b' off"
    and rd_in: "off + width \<le> length b \<Longrightarrow> rd b off \<noteq> None"
begin

lemma rows_in: "list_all ok vs \<Longrightarrow> writes_in off (off + length vs * width) (table_writes wr width off vs)"
proof (induction vs arbitrary: off)
  case (Cons v vs)
  have "writes_in off (off + length (v # vs) * width) (wr off v)"
    using Cons.prems by (auto intro: writes_in_mono [OF wr_in])
  moreover have "writes_in off (off + length (v # vs) * width) (table_writes wr width (off + width) vs)"
    using Cons by (auto intro: writes_in_mono [OF Cons.IH])
  ultimately show ?case by simp
qed simp

text \<open>Stores elsewhere do not change a record.\<close>

lemma rd_disjoint:
  assumes "writes_in lo hi ws" "hi \<le> length b" "off + width \<le> length b" "off + width \<le> lo \<or> hi \<le> off"
  shows "rd (apply_writes b ws) off = rd b off"
  using assms length_apply_writes [OF assms(1,2)] slice_apply_writes_disjoint [OF assms(1,2)]
  by (intro rd_cong) auto

text \<open>A table written over zeroed bytes is read back record by record.\<close>

lemma rd_rows:
  "list_all ok vs \<Longrightarrow> off + length vs * width \<le> length b \<Longrightarrow>
   slice b off (length vs * width) = zeros (length vs * width) \<Longrightarrow> i < length vs \<Longrightarrow>
   rd (apply_writes b (table_writes wr width off vs)) (off + i * width) = Some (row (vs ! i))"
proof (induction vs arbitrary: b off i)
  case (Cons v vs)
  let ?n = "length vs * width"
  let ?b1 = "apply_writes b (wr off v)"
  have v: "writes_in off (off + width) (wr off v)" and vs: "list_all ok vs"
    using Cons.prems wr_in by auto
  have bounds: "off + width + ?n \<le> length b" "length ?b1 = length b"
    using Cons.prems(2) length_apply_writes [OF v, of b] by auto
  have zero: "slice b off width = zeros width" "slice b (off + width) ?n = zeros ?n"
    using Cons.prems(3) slice_slice [of 0 width "length (v # vs) * width" b off]
      slice_slice [of width ?n "length (v # vs) * width" b off] by (simp_all add: slice_zeros)
  have "slice ?b1 (off + width) ?n = zeros ?n"
    using bounds(1) zero by (subst slice_apply_writes_disjoint [OF v]) auto
  then have rest: "rd (apply_writes ?b1 (table_writes wr width (off + width) vs)) (off + width + j * width)
      = Some (row (vs ! j))" if "j < length vs" for j
    using Cons.IH [OF vs _ _ that, of "off + width" ?b1] bounds by simp
  show ?case
  proof (cases i)
    case 0
    have "rd (apply_writes ?b1 (table_writes wr width (off + width) vs)) off = rd ?b1 off"
      using bounds by (intro rd_disjoint [OF rows_in [OF vs]]) auto
    then show ?thesis using 0 Cons.prems bounds zero rd_wr [of v off b] by simp
  next
    case (Suc j)
    then show ?thesis using rest [of j] Cons.prems by (simp add: add.assoc)
  qed
qed simp

text \<open>So is a table whose bytes are those of such a table.\<close>

lemma rd_rows_image:
  assumes vs: "list_all ok vs" and len: "off + length vs * width \<le> length z" "off + length vs * width \<le> length b"
    and zero: "slice z off (length vs * width) = zeros (length vs * width)"
    and image: "slice b off (length vs * width) = slice (apply_writes z (table_writes wr width off vs)) off (length vs * width)"
    and i: "i < length vs"
  shows "rd b (off + i * width) = Some (row (vs ! i))"
proof -
  have fits: "i * width + width \<le> length vs * width"
    using i by (metis Suc_leI add.commute mult_Suc mult_le_mono1)
  have "length (apply_writes z (table_writes wr width off vs)) = length z"
    using len(1) by (rule length_apply_writes [OF rows_in [OF vs]])
  then have "rd b (off + i * width) = rd (apply_writes z (table_writes wr width off vs)) (off + i * width)"
    using fits len slice_eq_inside [OF image fits] by (intro rd_cong) auto
  then show ?thesis using rd_rows [OF vs len(1) zero i] by simp
qed

end

section \<open>Runs\<close>

text \<open>
  One table divides another: every entry of the first owns the next run of entries of the second
  that carry its key. \<open>while (cursor < count && key[cursor] == k) ++cursor\<close>:
\<close>

function skip_while :: "('a \<Rightarrow> bool) \<Rightarrow> 'a list \<Rightarrow> nat \<Rightarrow> nat" where
  "skip_while P xs cursor =
     (if cursor < length xs \<and> P (xs ! cursor) then skip_while P xs (cursor + 1) else cursor)"
  by pat_completeness auto
termination
  by (relation "measure (\<lambda>(P, xs, cursor). length xs - cursor)") auto

declare skip_while.simps [simp del]

lemma skip_while_eq: "cursor \<le> length xs \<Longrightarrow> skip_while P xs cursor = cursor + length (takeWhile P (drop cursor xs))"
proof (induction P xs cursor rule: skip_while.induct)
  case (1 P xs cursor)
  show ?case
  proof (cases "cursor < length xs")
    case True
    then have "drop cursor xs = xs ! cursor # drop (cursor + 1) xs" by (simp add: Cons_nth_drop_Suc)
    then show ?thesis using 1 True by (subst skip_while.simps) auto
  qed (subst skip_while.simps, simp)
qed

fun run_counts :: "'k list \<Rightarrow> 'k list \<Rightarrow> nat list" where
  "run_counts [] keys = []"
| "run_counts (k # ids) keys =
     (let c = length (takeWhile (\<lambda>x. x = k) keys) in c # run_counts ids (drop c keys))"

definition runs :: "nat list \<Rightarrow> 'k list \<Rightarrow> 'k list" where
  "runs cs ids = concat (map2 replicate cs ids)"

lemma runs_simps [simp]: "runs [] ids = []" "runs cs [] = []" "runs (c # cs) (k # ids) = replicate c k @ runs cs ids"
  by (simp_all add: runs_def)

lemma length_run_counts [simp]: "length (run_counts ids keys) = length ids"
  by (induction ids keys rule: run_counts.induct) (simp_all add: Let_def)

lemma set_runs: "set (runs cs ids) \<subseteq> set ids"
  by (induction cs ids rule: list_induct2') auto

lemma takeWhile_eq_replicate: "takeWhile (\<lambda>x. x = k) xs = replicate (length (takeWhile (\<lambda>x. x = k) xs)) k"
  by (induction xs) auto

lemma run_counts_split: "keys = runs (run_counts ids keys) ids @ drop (sum_list (run_counts ids keys)) keys"
proof (induction ids keys rule: run_counts.induct)
  case (2 k ids keys)
  let ?c = "length (takeWhile (\<lambda>x. x = k) keys)"
  have "keys = replicate ?c k @ drop ?c keys"
    by (metis takeWhile_eq_replicate takeWhile_dropWhile_id dropWhile_eq_drop)
  also have "drop ?c keys = runs (run_counts ids (drop ?c keys)) ids @ drop (sum_list (run_counts ids (drop ?c keys))) (drop ?c keys)"
    by (rule 2 [OF refl])
  finally show ?case by (simp add: Let_def add.commute)
qed simp

lemma length_runs: "length cs = length ids \<Longrightarrow> length (runs cs ids) = sum_list cs"
  by (induction cs ids rule: list_induct2) auto

lemma sum_run_counts_le: "sum_list (run_counts ids keys) \<le> length keys"
  using arg_cong [OF run_counts_split [of keys ids], of length] by (simp add: length_runs)

text \<open>The runs cover the second table exactly when its keys are the keys of the first, in order.\<close>

lemma run_counts_cover: "sum_list (run_counts ids keys) = length keys \<longleftrightarrow> keys = runs (run_counts ids keys) ids"
  using run_counts_split [of keys ids] length_runs [of "run_counts ids keys" ids] by auto

lemma run_counts_runs: "distinct ids \<Longrightarrow> length cs = length ids \<Longrightarrow> run_counts ids (runs cs ids) = cs"
proof (induction cs ids rule: list_induct2')
  case (4 c cs k ids)
  have "takeWhile (\<lambda>x. x = k) (runs cs ids) = []"
    using 4 set_runs [of cs ids] by (cases "runs cs ids") auto
  then have "takeWhile (\<lambda>x. x = k) (replicate c k @ runs cs ids) = replicate c k"
    by (simp add: takeWhile_append)
  then show ?case using 4 by simp
qed simp_all

lemma runs_iff:
  assumes "distinct ids" "length cs = length ids"
  shows "keys = runs cs ids \<longleftrightarrow> cs = run_counts ids keys \<and> sum_list cs = length keys"
  using assms run_counts_runs [OF assms] run_counts_cover [of ids keys] by (metis length_runs)

text \<open>Sorted keys from a sorted table are covered.\<close>

lemma run_counts_sorted:
  fixes ids keys :: "'k::linorder list"
  shows "sorted_wrt (<) ids \<Longrightarrow> sorted keys \<Longrightarrow> set keys \<subseteq> set ids \<Longrightarrow> sum_list (run_counts ids keys) = length keys"
proof (induction ids keys rule: run_counts.induct)
  case (2 k ids keys)
  let ?c = "length (takeWhile (\<lambda>x. x = k) keys)"
  have drop: "drop ?c keys = dropWhile (\<lambda>x. x = k) keys" by (simp add: dropWhile_eq_drop)
  have sub: "set (drop ?c keys) \<subseteq> set keys" by (rule set_drop_subset)
  have "set (drop ?c keys) \<subseteq> set ids"
  proof (cases "drop ?c keys")
    case (Cons y ys)
    then have "y \<noteq> k" using hd_dropWhile [of "\<lambda>x. x = k" keys] unfolding drop by auto
    moreover have "y \<in> set keys" using sub Cons by auto
    ultimately have "k < y" using 2(2,4) by auto
    moreover have "sorted (y # ys)" using 2(3) Cons sorted_wrt_drop by metis
    ultimately have "k \<notin> set (drop ?c keys)" using Cons by fastforce
    then show ?thesis using sub 2(4) by auto
  qed simp
  then have "sum_list (run_counts ids (drop ?c keys)) = length (drop ?c keys)"
    using 2 by (intro 2(1) [OF refl]) (auto intro: sorted_wrt_drop)
  moreover have "?c \<le> length keys" by (rule length_takeWhile_le)
  ultimately show ?case by (simp add: Let_def)
qed simp

text \<open>The run of entry \<open>i\<close> begins after the runs before it.\<close>

definition run_start :: "nat list \<Rightarrow> nat \<Rightarrow> nat" where
  "run_start cs i = sum_list (take i cs)"

lemma run_start_0 [simp]: "run_start cs 0 = 0"
  by (simp add: run_start_def)

lemma run_start_Suc: "i < length cs \<Longrightarrow> run_start cs (Suc i) = run_start cs i + cs ! i"
  by (simp add: run_start_def take_Suc_conv_app_nth)

lemma run_start_Cons [simp]: "run_start (c # cs) (Suc i) = c + run_start cs i"
  by (simp add: run_start_def)

lemma run_start_all: "run_start cs (length cs) = sum_list cs"
  by (simp add: run_start_def)

lemma run_start_le: "run_start cs i \<le> sum_list cs"
  by (simp add: run_start_def) (metis append_take_drop_id le_add1 sum_list_append)

lemma runs_nth_iff:
  "length cs = length ids \<Longrightarrow>
   keys = runs cs ids \<longleftrightarrow>
     sum_list cs = length keys \<and> (\<forall>i < length cs. \<forall>j < cs ! i. keys ! (run_start cs i + j) = ids ! i)"
proof (induction cs ids arbitrary: keys rule: list_induct2)
  case (Cons c cs k ids)
  have all: "(\<forall>i < length (c # cs). Q i) \<longleftrightarrow> Q 0 \<and> (\<forall>i < length cs. Q (Suc i))" for Q
    by (auto simp: less_Suc_eq_0_disj)
  show ?case
  proof (cases "c \<le> length keys")
    case True
    have "take c keys = replicate c k \<longleftrightarrow> (\<forall>j < c. keys ! j = k)"
      using True by (auto simp: list_eq_iff_nth_eq)
    moreover have "keys = replicate c k @ runs cs ids \<longleftrightarrow> take c keys = replicate c k \<and> drop c keys = runs cs ids"
      using True by (metis append_eq_conv_conj append_take_drop_id length_replicate)
    ultimately show ?thesis
      unfolding all using Cons.IH [of "drop c keys"] True by (auto simp: nth_drop add.assoc [symmetric])
  next
    case False
    then show ?thesis by auto
  qed
qed auto

text \<open>The cursor loops of an encoder compute the runs; the entries of a run are those with its key.\<close>

lemma set_runs_nth: "x \<in> set (runs cs ids) \<Longrightarrow> \<exists>i < length ids. i < length cs \<and> cs ! i \<noteq> 0 \<and> ids ! i = x"
proof (induction cs ids rule: list_induct2')
  case (4 c cs k ids)
  show ?case
  proof (cases "x \<in> set (runs cs ids)")
    case True
    then obtain i where "i < length ids" "i < length cs" "cs ! i \<noteq> 0" "ids ! i = x" using 4 by blast
    then show ?thesis by (intro exI [of _ "Suc i"]) simp
  next
    case False
    then show ?thesis using 4 by (intro exI [of _ 0]) auto
  qed
qed simp_all

lemma sorted_runs: "sorted_wrt (<) (ids :: 'a::linorder list) \<Longrightarrow> sorted (runs cs ids)"
  by (induction cs ids rule: list_induct2') (auto simp: sorted_append less_imp_le dest: subsetD [OF set_runs])

lemma run_counts_nth:
  "i < length ids \<Longrightarrow> run_counts ids keys ! i = length (takeWhile (\<lambda>x. x = ids ! i) (drop (run_start (run_counts ids keys) i) keys))"
proof (induction ids keys arbitrary: i rule: run_counts.induct)
  case (2 k ids keys)
  show ?case
  proof (cases i)
    case (Suc j)
    then show ?thesis using "2.IH" [OF refl, of j] "2.prems" by (simp add: Let_def add.commute)
  qed (simp add: Let_def)
qed simp

lemma skip_while_key:
  assumes "start \<le> length xs"
  shows "skip_while (\<lambda>x. key x = k) xs start = start + length (takeWhile (\<lambda>x. x = k) (drop start (map key xs)))"
  unfolding skip_while_eq [OF assms] drop_map takeWhile_map by (simp add: comp_def)

lemma skip_while_runs:
  assumes "i < length ids"
  shows "skip_while (\<lambda>x. key x = ids ! i) xs (run_start (run_counts ids (map key xs)) i) =
    run_start (run_counts ids (map key xs)) (Suc i)"
proof -
  have "run_start (run_counts ids (map key xs)) i \<le> length xs"
    using run_start_le [of "run_counts ids (map key xs)" i] sum_run_counts_le [of ids "map key xs"] by simp
  then show ?thesis
    using assms run_counts_nth [OF assms, of "map key xs"] by (simp add: skip_while_key run_start_Suc)
qed

lemma filter_runs:
  "length cs = length ids \<Longrightarrow> map key xs = runs cs ids \<Longrightarrow> distinct ids \<Longrightarrow> i < length ids \<Longrightarrow>
   filter (\<lambda>x. key x = ids ! i) xs = take (cs ! i) (drop (run_start cs i) xs)"
proof (induction cs ids arbitrary: xs i rule: list_induct2)
  case (Cons c cs k ids)
  define ys zs where "ys = take c xs" and "zs = drop c xs"
  have "map key ys = replicate c k" "map key zs = runs cs ids"
    using Cons.prems(1) by (simp_all add: ys_def zs_def take_map drop_map flip: take_map drop_map)
  then have ys: "\<forall>y \<in> set ys. key y = k" "length ys = c" and zs: "map key zs = runs cs ids"
    by (metis image_eqI list.set_map in_set_replicate, metis length_map length_replicate, simp)
  have xs: "xs = ys @ zs" by (simp add: ys_def zs_def)
  have k: "key z \<noteq> k" if "z \<in> set zs" for z
    using Cons.prems(2) set_runs [of cs ids] that zs by (metis distinct.simps(2) image_eqI list.set_map subsetD)
  show ?case
  proof (cases i)
    case 0
    have "filter (\<lambda>x. key x = k) ys = ys" "filter (\<lambda>x. key x = k) zs = []"
      using ys k by (auto simp: filter_id_conv filter_empty_conv)
    then show ?thesis using 0 ys(2) by (simp add: xs)
  next
    case (Suc j)
    have "filter (\<lambda>x. key x = ids ! j) ys = []"
      using ys Cons.prems(2,3) Suc by (auto simp: filter_empty_conv)
    then show ?thesis using Cons.IH [OF zs, of j] Cons.prems Suc ys(2) by (simp add: xs)
  qed
qed simp

section \<open>Segments\<close>

text \<open>
  The stores of an encoder fall into segments, one per table, with disjoint address ranges. What a
  segment contains afterwards depends on its own stores alone.
\<close>

definition segments :: "nat \<Rightarrow> (nat \<times> nat \<times> writes) list \<Rightarrow> bool" where
  "segments n segs \<longleftrightarrow> (\<forall>(lo, hi, ws) \<in> set segs. lo \<le> hi \<and> hi \<le> n \<and> writes_in lo hi ws) \<and>
     sorted_wrt (\<lambda>(lo, hi, _) (lo', hi', _). hi \<le> lo' \<or> hi' \<le> lo) segs"

definition segment_writes :: "(nat \<times> nat \<times> writes) list \<Rightarrow> writes" where
  "segment_writes segs = concat (map (\<lambda>(_, _, ws). ws) segs)"

lemma nth_put:
  "off + length xs \<le> length b \<Longrightarrow> i < length b \<Longrightarrow>
   put b off xs ! i = (if off \<le> i \<and> i < off + length xs then xs ! (i - off) else b ! i)"
  by (auto simp: put_def nth_append)

lemma nth_slice: "lo + n \<le> length b \<Longrightarrow> i < n \<Longrightarrow> slice b lo n ! i = b ! (lo + i)"
  by (simp add: slice_def)

lemma slice_put_local:
  assumes "lo \<le> off" "off + length xs \<le> hi" "hi \<le> length b"
  shows "slice (put b off xs) lo (hi - lo) = put (slice b lo (hi - lo)) (off - lo) xs"
  using assms by (intro nth_equalityI) (auto simp: nth_put nth_slice add.commute)

lemma apply_writes_local:
  assumes "hi \<le> length b" "hi \<le> length b'" "slice b lo (hi - lo) = slice b' lo (hi - lo)" "writes_in lo hi ws"
  shows "slice (apply_writes b ws) lo (hi - lo) = slice (apply_writes b' ws) lo (hi - lo)"
  using assms
proof (induction ws arbitrary: b b')
  case (Cons w ws)
  obtain off xs where w: "w = (off, xs)" by fastforce
  have "slice (put b off xs) lo (hi - lo) = slice (put b' off xs) lo (hi - lo)"
    using Cons.prems by (simp add: w slice_put_local)
  then show ?case using Cons.prems Cons.IH [of "put b off xs" "put b' off xs"] by (simp add: w apply_writes.simps)
qed (simp add: apply_writes.simps)

lemma segments_Cons:
  "segments n ((lo, hi, ws) # segs) \<longleftrightarrow> lo \<le> hi \<and> hi \<le> n \<and> writes_in lo hi ws \<and> segments n segs \<and>
     (\<forall>(lo', hi', _) \<in> set segs. hi \<le> lo' \<or> hi' \<le> lo)"
  by (auto simp: segments_def)

lemma segments_in: "segments n segs \<Longrightarrow> writes_in 0 n (segment_writes segs)"
  by (induction segs) (auto simp: segment_writes_def segments_Cons elim: writes_in_mono)

lemma segments_gap:
  "segments n segs \<Longrightarrow> \<forall>(lo', hi', _) \<in> set segs. hi \<le> lo' \<or> hi' \<le> lo \<Longrightarrow>
   list_all (\<lambda>(p, xs). lo + (hi - lo) \<le> p \<or> p + length xs \<le> lo) (segment_writes segs)" if "lo \<le> hi"
proof (induction segs)
  case (Cons s segs)
  obtain lo' hi' ws where s: "s = (lo', hi', ws)" by (cases s)
  have "writes_in lo' hi' ws" "hi \<le> lo' \<or> hi' \<le> lo" using Cons.prems by (auto simp: s segments_Cons)
  then have "list_all (\<lambda>(p, xs). lo + (hi - lo) \<le> p \<or> p + length xs \<le> lo) ws"
    using that by (fastforce simp: writes_in_def list_all_iff)
  then show ?case using Cons by (auto simp: s segments_Cons segment_writes_def)
qed (simp add: segment_writes_def)

lemma slice_segment:
  "segments n segs \<Longrightarrow> n \<le> length b \<Longrightarrow> (lo, hi, ws) \<in> set segs \<Longrightarrow>
   slice (apply_writes b (segment_writes segs)) lo (hi - lo) = slice (apply_writes b ws) lo (hi - lo)"
proof (induction segs arbitrary: b)
  case (Cons s segs)
  obtain lo' hi' ws' where s: "s = (lo', hi', ws')" by (cases s)
  let ?b = "apply_writes b ws'"
  have head: "writes_in lo' hi' ws'" "hi' \<le> length b" and segs: "segments n segs"
    using Cons.prems by (auto simp: s segments_Cons)
  then have len: "length ?b = length b" by (intro length_apply_writes) auto
  have step: "apply_writes b (segment_writes (s # segs)) = apply_writes ?b (segment_writes segs)"
    by (simp add: s segment_writes_def)
  show ?case
  proof (cases "(lo, hi, ws) \<in> set segs")
    case True
    have ws: "writes_in lo hi ws" "lo \<le> hi" "hi \<le> n" using segs True by (auto simp: segments_def)
    have "hi' \<le> lo \<or> hi \<le> lo'" using Cons.prems(1) True by (auto simp: s segments_Cons)
    then have "slice ?b lo (hi - lo) = slice b lo (hi - lo)"
      using head ws by (intro slice_apply_writes_disjoint [OF head]) auto
    then have "slice (apply_writes ?b ws) lo (hi - lo) = slice (apply_writes b ws) lo (hi - lo)"
      using ws Cons.prems(2) len by (intro apply_writes_local) auto
    then show ?thesis using Cons.IH [OF segs, of ?b] True Cons.prems(2) len unfolding step by simp
  next
    case False
    then have eq: "lo = lo'" "hi = hi'" "ws = ws'" using Cons.prems(3) s by auto
    have "list_all (\<lambda>(p, xs). lo + (hi - lo) \<le> p \<or> p + length xs \<le> lo) (segment_writes segs)"
      using Cons.prems(1) segs by (intro segments_gap) (auto simp: s eq segments_Cons)
    then show ?thesis unfolding step eq
      using segments_in [OF segs] Cons.prems(2) len by (intro slice_gap) auto
  qed
qed simp

text \<open>Stores to disjoint fields in any order: every field holds what was stored there.\<close>

lemma slice_writes:
  assumes "sorted_wrt (\<lambda>(p, xs) (q, ys). p + length xs \<le> q \<or> q + length ys \<le> p) ws" "writes_in 0 n ws" "n \<le> length b"
    and "(off, xs) \<in> set ws"
  shows "slice (apply_writes b ws) off (length xs) = xs"
proof -
  let ?segs = "map (\<lambda>(p, xs). (p, p + length xs, [(p, xs)])) ws"
  have "segments n ?segs"
    using assms(1,2) sorted_wrt_mono_rel [of ws, OF _ assms(1)]
    by (auto simp: segments_def writes_in_def sorted_wrt_map case_prod_beta)
  moreover have "segment_writes ?segs = ws"
    by (induction ws) (auto simp: segment_writes_def)
  moreover have "(off, off + length xs, [(off, xs)]) \<in> set ?segs" using assms(4) by force
  ultimately have "slice (apply_writes b ws) off (length xs) = slice (apply_writes b [(off, xs)]) off (length xs)"
    using slice_segment [of n ?segs b off "off + length xs" "[(off, xs)]"] assms(3) by simp
  moreover have "off + length xs \<le> length b" using assms(2-4) by (fastforce simp: writes_in_def)
  ultimately show ?thesis by (simp add: apply_writes.simps slice_put_same)
qed

text \<open>Stores to disjoint ranges commute.\<close>

lemma put_commute:
  assumes "off + length xs \<le> length b" "off' + length ys \<le> length b"
    and "off + length xs \<le> off' \<or> off' + length ys \<le> off"
  shows "put (put b off xs) off' ys = put (put b off' ys) off xs"
  using assms by (intro nth_equalityI) (auto simp: nth_put)

lemma put_put_append:
  assumes "off + length xs + length ys \<le> length b"
  shows "put (put b off xs) (off + length xs) ys = put b off (xs @ ys)"
  using assms by (intro nth_equalityI) (auto simp: nth_put nth_append)

lemma put_Nil [simp]: "off \<le> length b \<Longrightarrow> put b off [] = b"
  by (simp add: put_def)

lemma apply_writes_put_commute:
  "writes_in lo hi ws \<Longrightarrow> hi \<le> off \<Longrightarrow> off + length xs \<le> length b \<Longrightarrow>
   apply_writes (put b off xs) ws = put (apply_writes b ws) off xs"
proof (induction ws arbitrary: b)
  case (Cons w ws)
  obtain p ys where w: "w = (p, ys)" by fastforce
  have "put (put b off xs) p ys = put (put b p ys) off xs"
    using Cons.prems by (intro put_commute) (auto simp: w)
  then show ?case using Cons by (simp add: w apply_writes.simps)
qed (simp add: apply_writes.simps)

end
