(* ===== verification/Closure_Manifest.thy ===== *)
theory Closure_Manifest
  imports Tables
begin

text \<open>
  The closure manifest, \<open>protocol/src/closure_manifest.c\<close> with the layout constants of
  \<open>protocol/generated/include/kobox2/closure_layout.h\<close>: the encoder, the decoder and the accessors
  of the six tables (artifacts, dependencies, exports, imports, resources, resource bindings) and
  of the string table behind them.

  A manifest is a view of a buffer; an accessor answers \<open>Inl status\<close> or \<open>Inr record\<close>, and the
  outer \<open>None\<close> is an access outside the buffer. What an accessor leaves behind its output pointer
  when it fails is not represented. Digests are fixed arrays of 32 bytes; that the sources respect
  this is the predicate \<open>source_typed\<close>.
\<close>

section \<open>Data\<close>

text \<open>A string is a data pointer with a length, \<open>Null n\<close> when the pointer is NULL.\<close>

type_synonym kb2_closure_string = "u8 carray"

record kb2_closure_manifest_artifact_t =
  ma_node_id :: u32
  ma_kind :: u32
  ma_flags :: u32
  ma_content_size :: u64
  ma_content_digest :: bytes
  ma_namespace_name :: kb2_closure_string
  ma_init_symbol :: kb2_closure_string
  ma_quiesce_symbol :: kb2_closure_string
  ma_cleanup_symbol :: kb2_closure_string

record kb2_closure_manifest_dependency_t =
  md_consumer_node_id :: u32
  md_provider_node_id :: u32

record kb2_closure_manifest_symbol_t =
  my_node_id :: u32
  my_kind :: u32
  my_name :: kb2_closure_string

record kb2_closure_manifest_import_t =
  mi_consumer_node_id :: u32
  mi_provider_node_id :: u32
  mi_kind :: u32
  mi_flags :: u32
  mi_consumer_name :: kb2_closure_string
  mi_provider_name :: kb2_closure_string

record kb2_closure_manifest_resource_t =
  mr_slot_id :: u32
  mr_type :: u32
  mr_minimum_count :: u32
  mr_maximum_count :: u32
  mr_required_rights :: u64
  mr_maximum_rights :: u64
  mr_flags :: u32
  mr_interface_schema_digest :: bytes

record kb2_closure_manifest_binding_t =
  mb_slot_id :: u32
  mb_node_id :: u32

record kb2_closure_manifest_source =
  ms_artifacts :: "kb2_closure_manifest_artifact_t carray"
  ms_dependencies :: "kb2_closure_manifest_dependency_t carray"
  ms_exports :: "kb2_closure_manifest_symbol_t carray"
  ms_imports :: "kb2_closure_manifest_import_t carray"
  ms_resources :: "kb2_closure_manifest_resource_t carray"
  ms_bindings :: "kb2_closure_manifest_binding_t carray"

record kb2_closure_manifest =
  mf_bytes :: "bytes option"
  mf_size :: nat
  mf_counts :: "u32 list"
  mf_offsets :: "u32 list"
  mf_string_table_size :: u32

abbreviation (input) ARTIFACTS :: nat where "ARTIFACTS \<equiv> 0"
abbreviation (input) DEPENDENCIES :: nat where "DEPENDENCIES \<equiv> 1"
abbreviation (input) EXPORTS :: nat where "EXPORTS \<equiv> 2"
abbreviation (input) IMPORTS :: nat where "IMPORTS \<equiv> 3"
abbreviation (input) RESOURCES :: nat where "RESOURCES \<equiv> 4"
abbreviation (input) BINDINGS :: nat where "BINDINGS \<equiv> 5"
abbreviation (input) STRINGS :: nat where "STRINGS \<equiv> 6"

abbreviation (input) KB2_CLOSURE_ARTIFACT_FLAG_ROOT :: u32 where "KB2_CLOSURE_ARTIFACT_FLAG_ROOT \<equiv> 1"
abbreviation (input) KB2_CLOSURE_ARTIFACT_FLAG_NATIVE_LINUX :: u32 where
  "KB2_CLOSURE_ARTIFACT_FLAG_NATIVE_LINUX \<equiv> 2"

definition manifest_limits :: "nat list" where
  "manifest_limits = [4096, 65536, 65536, 65536, 16384, 65536]"

definition manifest_sizes :: "nat list" where
  "manifest_sizes = [96, 8, 16, 32, 72, 8]"

definition manifest_schema_digest :: bytes where
  "manifest_schema_digest =
    [0x47, 0xfe, 0x5f, 0x18, 0x83, 0x61, 0x8c, 0x3b,
     0x17, 0xdd, 0x27, 0x9f, 0x4c, 0x87, 0x73, 0xb2,
     0x41, 0x9b, 0xcf, 0x47, 0xdf, 0x65, 0x17, 0x4e,
     0xc9, 0xd3, 0xe9, 0x84, 0x8b, 0x8d, 0x81, 0x0f]"

definition manifest_abi_identity :: bytes where
  "manifest_abi_identity = [0x64, 0x65, 0x76, 0x00]"

section \<open>Encoder\<close>

definition digest_is_zero :: "bytes \<Rightarrow> bool" where
  "digest_is_zero digest \<longleftrightarrow> fold (\<lambda>byte combined. combined OR byte) digest 0 = 0"

definition string_valid :: "kb2_closure_string \<Rightarrow> bool" where
  "string_valid string =
     (case string of
        Null _ \<Rightarrow> False
      | Arr data \<Rightarrow> data \<noteq> [] \<and> length data \<le> 127 \<and>
          list_all (\<lambda>byte. \<not> (byte < 0x21 \<or> 0x7e < byte \<or> byte = 0x2f \<or> byte = 0x5c)) data)"

definition carray_list :: "'a carray \<Rightarrow> 'a list" where
  "carray_list a = (case a of Null _ \<Rightarrow> [] | Arr xs \<Rightarrow> xs)"

definition is_null :: "'a carray \<Rightarrow> bool" where
  "is_null a = (case a of Null _ \<Rightarrow> True | Arr _ \<Rightarrow> False)"

definition manifest_source_valid :: "kb2_closure_manifest_source option \<Rightarrow> bool" where
  "manifest_source_valid source =
     (case source of
        None \<Rightarrow> False
      | Some src \<Rightarrow>
          \<not> (is_null (ms_artifacts src) \<or> carray_count (ms_artifacts src) = 0 \<or>
             4096 < carray_count (ms_artifacts src) \<or>
             65536 < carray_count (ms_dependencies src) \<or>
             65536 < carray_count (ms_exports src) \<or>
             65536 < carray_count (ms_imports src) \<or>
             16384 < carray_count (ms_resources src) \<or>
             65536 < carray_count (ms_bindings src) \<or>
             (carray_count (ms_dependencies src) \<noteq> 0 \<and> is_null (ms_dependencies src)) \<or>
             (carray_count (ms_exports src) \<noteq> 0 \<and> is_null (ms_exports src)) \<or>
             (carray_count (ms_imports src) \<noteq> 0 \<and> is_null (ms_imports src)) \<or>
             (carray_count (ms_resources src) \<noteq> 0 \<and> is_null (ms_resources src)) \<or>
             (carray_count (ms_bindings src) \<noteq> 0 \<and> is_null (ms_bindings src))) \<and>
          list_all (\<lambda>resource. \<not> digest_is_zero (mr_interface_schema_digest resource))
            (carray_list (ms_resources src)))"

text \<open>\<open>None\<close> is the \<open>return 0\<close> of the sz computations.\<close>

definition native_artifact :: "kb2_closure_manifest_artifact_t \<Rightarrow> bool" where
  "native_artifact artifact \<longleftrightarrow> ma_flags artifact AND KB2_CLOSURE_ARTIFACT_FLAG_NATIVE_LINUX \<noteq> 0"

fun artifact_string_sizes :: "kb2_closure_manifest_artifact_t list \<Rightarrow> nat \<Rightarrow> nat option" where
  "artifact_string_sizes [] sz = Some sz"
| "artifact_string_sizes (artifact # artifacts) sz =
     (if \<not> string_valid (ma_namespace_name artifact) \<or>
         (if native_artifact artifact
          then carray_count (ma_init_symbol artifact) \<noteq> 0 \<or> carray_count (ma_quiesce_symbol artifact) \<noteq> 0 \<or>
            carray_count (ma_cleanup_symbol artifact) \<noteq> 0
          else \<not> string_valid (ma_init_symbol artifact) \<or> \<not> string_valid (ma_quiesce_symbol artifact) \<or>
            \<not> string_valid (ma_cleanup_symbol artifact))
      then None
      else do {
        sz \<leftarrow> add_size sz 1 (carray_count (ma_namespace_name artifact));
        sz \<leftarrow> add_size sz 1 (carray_count (ma_init_symbol artifact));
        sz \<leftarrow> add_size sz 1 (carray_count (ma_quiesce_symbol artifact));
        sz \<leftarrow> add_size sz 1 (carray_count (ma_cleanup_symbol artifact));
        artifact_string_sizes artifacts sz })"

fun export_string_sizes :: "kb2_closure_manifest_symbol_t list \<Rightarrow> nat \<Rightarrow> nat option" where
  "export_string_sizes [] sz = Some sz"
| "export_string_sizes (symbol # symbols) sz =
     (if \<not> string_valid (my_name symbol) then None
      else do {
        sz \<leftarrow> add_size sz 1 (carray_count (my_name symbol));
        export_string_sizes symbols sz })"

fun import_string_sizes :: "kb2_closure_manifest_import_t list \<Rightarrow> nat \<Rightarrow> nat option" where
  "import_string_sizes [] sz = Some sz"
| "import_string_sizes (record # records) sz =
     (if \<not> string_valid (mi_consumer_name record) \<or> \<not> string_valid (mi_provider_name record) then None
      else do {
        sz \<leftarrow> add_size sz 1 (carray_count (mi_consumer_name record));
        sz \<leftarrow> add_size sz 1 (carray_count (mi_provider_name record));
        import_string_sizes records sz })"

definition source_string_size :: "kb2_closure_manifest_source \<Rightarrow> nat option" where
  "source_string_size src = do {
     sz \<leftarrow> artifact_string_sizes (carray_list (ms_artifacts src)) 0;
     sz \<leftarrow> export_string_sizes (carray_list (ms_exports src)) sz;
     sz \<leftarrow> import_string_sizes (carray_list (ms_imports src)) sz;
     if sz \<le> UINT32_MAX then Some sz else None }"

definition kb2_closure_copy_schema_digest ::
    "bytes option \<Rightarrow> kb2_protocol_status \<times> bytes option" where
  "kb2_closure_copy_schema_digest digest_out =
     (case digest_out of
        None \<Rightarrow> (KB2_PROTOCOL_INVALID_ARGUMENT, None)
      | Some d \<Rightarrow> if length d \<noteq> 32 then (KB2_PROTOCOL_INVALID_ARGUMENT, Some d)
          else (KB2_PROTOCOL_OK, Some manifest_schema_digest))"

definition manifest_size_sum :: "kb2_closure_manifest_source \<Rightarrow> nat option" where
  "manifest_size_sum src = do {
     string_size \<leftarrow> source_string_size src;
     sz \<leftarrow> add_size 128 (carray_count (ms_artifacts src)) 96;
     sz \<leftarrow> add_size sz (carray_count (ms_dependencies src)) 8;
     sz \<leftarrow> add_size sz (carray_count (ms_exports src)) 16;
     sz \<leftarrow> add_size sz (carray_count (ms_imports src)) 32;
     sz \<leftarrow> add_size sz (carray_count (ms_resources src)) 72;
     sz \<leftarrow> add_size sz (carray_count (ms_bindings src)) 8;
     sz \<leftarrow> add_size sz 1 string_size;
     if UINT32_MAX < sz then None else Some sz }"

definition kb2_closure_manifest_encoded_size ::
    "kb2_closure_manifest_source option \<Rightarrow> bool \<Rightarrow> kb2_protocol_status + nat" where
  "kb2_closure_manifest_encoded_size source size_out =
     (let refused = Inl (if source = None \<or> \<not> size_out then KB2_PROTOCOL_INVALID_ARGUMENT else KB2_PROTOCOL_OVERFLOW) in
      if \<not> size_out \<or> \<not> manifest_source_valid source then refused
      else (case Option.bind source manifest_size_sum of None \<Rightarrow> refused | Some sz \<Rightarrow> Inr sz))"

text \<open>
  The string cursor is a \<open>uint32_t\<close>; the total of the strings is at most \<open>UINT32_MAX\<close>, so that a
  natural number counts it exactly. A NULL string with a length would be dereferenced.
\<close>

definition append_string :: "nat \<Rightarrow> nat \<Rightarrow> kb2_closure_string \<Rightarrow> (writes \<times> nat \<times> nat) option" where
  "append_string string_table_offset cursor string =
     (case string of
        Null _ \<Rightarrow> None
      | Arr data \<Rightarrow> Some ([(string_table_offset + cursor, data)], cursor, cursor + length data))"

definition store_string_reference ::
    "nat \<Rightarrow> nat \<Rightarrow> nat \<Rightarrow> nat \<Rightarrow> nat \<Rightarrow> kb2_closure_string \<Rightarrow> (writes \<times> nat) option" where
  "store_string_reference record offset_field length_field string_table_offset cursor string =
     (if carray_count string = 0
      then Some ([(record + offset_field, le32 0), (record + length_field, le32 0)], cursor)
      else do {
        (ws, offset, cursor) \<leftarrow> append_string string_table_offset cursor string;
        Some (ws @ [(record + offset_field, le32 (of_nat offset)),
                    (record + length_field, le32 (of_nat (carray_count string)))], cursor) })"

text \<open>The bodies of the six table loops; \<open>strings\<close> is the offset of the string table.\<close>

definition encode_artifact ::
    "nat \<Rightarrow> nat \<Rightarrow> nat \<Rightarrow> kb2_closure_manifest_artifact_t \<Rightarrow> (writes \<times> nat) option" where
  "encode_artifact strings record cursor artifact = do {
     (ns, cursor) \<leftarrow> store_string_reference record 56 60 strings cursor (ma_namespace_name artifact);
     (init, cursor) \<leftarrow> store_string_reference record 64 68 strings cursor (ma_init_symbol artifact);
     (quiesce, cursor) \<leftarrow> store_string_reference record 72 76 strings cursor (ma_quiesce_symbol artifact);
     (cleanup, cursor) \<leftarrow> store_string_reference record 80 84 strings cursor (ma_cleanup_symbol artifact);
     Some ([(record, le32 (ma_node_id artifact)),
            (record + 4, le32 (ma_kind artifact)),
            (record + 8, le32 (ma_flags artifact)),
            (record + 16, le64 (ma_content_size artifact)),
            (record + 24, ma_content_digest artifact)] @ ns @ init @ quiesce @ cleanup, cursor) }"

definition encode_dependency :: "nat \<Rightarrow> kb2_closure_manifest_dependency_t \<Rightarrow> writes" where
  "encode_dependency record dependency =
     [(record, le32 (md_consumer_node_id dependency)),
      (record + 4, le32 (md_provider_node_id dependency))]"

definition encode_export ::
    "nat \<Rightarrow> nat \<Rightarrow> nat \<Rightarrow> kb2_closure_manifest_symbol_t \<Rightarrow> (writes \<times> nat) option" where
  "encode_export strings record cursor symbol = do {
     (name, cursor) \<leftarrow> store_string_reference record 8 12 strings cursor (my_name symbol);
     Some ([(record, le32 (my_node_id symbol)), (record + 4, le32 (my_kind symbol))] @ name, cursor) }"

definition encode_import ::
    "nat \<Rightarrow> nat \<Rightarrow> nat \<Rightarrow> kb2_closure_manifest_import_t \<Rightarrow> (writes \<times> nat) option" where
  "encode_import strings record cursor entry = do {
     (consumer, cursor) \<leftarrow> store_string_reference record 16 20 strings cursor (mi_consumer_name entry);
     (provider, cursor) \<leftarrow> store_string_reference record 24 28 strings cursor (mi_provider_name entry);
     Some ([(record, le32 (mi_consumer_node_id entry)),
            (record + 4, le32 (mi_provider_node_id entry)),
            (record + 8, le32 (mi_kind entry)),
            (record + 12, le32 (mi_flags entry))] @ consumer @ provider, cursor) }"

definition encode_resource :: "nat \<Rightarrow> kb2_closure_manifest_resource_t \<Rightarrow> writes" where
  "encode_resource record resource =
     [(record, le32 (mr_slot_id resource)),
      (record + 4, le32 (mr_type resource)),
      (record + 8, le32 (mr_minimum_count resource)),
      (record + 12, le32 (mr_maximum_count resource)),
      (record + 16, le64 (mr_required_rights resource)),
      (record + 24, le64 (mr_maximum_rights resource)),
      (record + 32, le32 (mr_flags resource)),
      (record + 40, mr_interface_schema_digest resource)]"

definition encode_binding :: "nat \<Rightarrow> kb2_closure_manifest_binding_t \<Rightarrow> writes" where
  "encode_binding record binding =
     [(record, le32 (mb_slot_id binding)), (record + 4, le32 (mb_node_id binding))]"

text \<open>A table loop that threads the string cursor.\<close>

fun encode_records ::
    "(nat \<Rightarrow> nat \<Rightarrow> 'v \<Rightarrow> (writes \<times> nat) option) \<Rightarrow> nat \<Rightarrow> nat \<Rightarrow> nat \<Rightarrow> 'v list \<Rightarrow> (writes \<times> nat) option" where
  "encode_records enc w record cursor [] = Some ([], cursor)"
| "encode_records enc w record cursor (v # vs) = do {
     (ws, cursor) \<leftarrow> enc record cursor v;
     (rest, cursor) \<leftarrow> encode_records enc w (record + w) cursor vs;
     Some (ws @ rest, cursor) }"

fun table_offsets :: "nat \<Rightarrow> nat list \<Rightarrow> nat list \<Rightarrow> nat list" where
  "table_offsets off (c # counts) (s # sizes) = off # table_offsets (off + c * s) counts sizes"
| "table_offsets off _ _ = [off]"

definition manifest_header_writes :: "nat \<Rightarrow> nat list \<Rightarrow> nat list \<Rightarrow> writes" where
  "manifest_header_writes encoded_size counts offsets =
     [(0, le32 (of_nat encoded_size)), (4, manifest_abi_identity), (8, manifest_schema_digest)] @
     concat (map (\<lambda>index. [(40 + index * 4, le32 (of_nat (counts ! index))),
                            (64 + index * 4, le32 (of_nat (offsets ! index)))]) [0..<6]) @
     [(88, le32 (of_nat (offsets ! STRINGS))), (92, le32 (of_nat (encoded_size - offsets ! STRINGS)))]"

definition source_counts :: "kb2_closure_manifest_source \<Rightarrow> nat list" where
  "source_counts src =
     [carray_count (ms_artifacts src), carray_count (ms_dependencies src), carray_count (ms_exports src),
      carray_count (ms_imports src), carray_count (ms_resources src), carray_count (ms_bindings src)]"

definition manifest_writes :: "nat \<Rightarrow> kb2_closure_manifest_source \<Rightarrow> writes option" where
  "manifest_writes encoded_size src =
     (let counts = source_counts src; offsets = table_offsets 128 counts manifest_sizes; strings = offsets ! STRINGS in
      do {
        (artifacts, cursor) \<leftarrow> encode_records (encode_artifact strings) 96 (offsets ! ARTIFACTS) 0
          (carray_list (ms_artifacts src));
        (exports, cursor) \<leftarrow> encode_records (encode_export strings) 16 (offsets ! EXPORTS) cursor
          (carray_list (ms_exports src));
        (imports, cursor) \<leftarrow> encode_records (encode_import strings) 32 (offsets ! IMPORTS) cursor
          (carray_list (ms_imports src));
        Some ((0, zeros encoded_size) # manifest_header_writes encoded_size counts offsets @ artifacts @
          table_writes encode_dependency 8 (offsets ! DEPENDENCIES) (carray_list (ms_dependencies src)) @
          exports @ imports @
          table_writes encode_resource 72 (offsets ! RESOURCES) (carray_list (ms_resources src)) @
          table_writes encode_binding 8 (offsets ! BINDINGS) (carray_list (ms_bindings src))) })"

text \<open>Status, \<open>*encoded_size_out\<close> and the buffer; \<open>None\<close> is a store outside the buffer.\<close>

definition kb2_closure_manifest_encode ::
    "bytes option \<Rightarrow> bool \<Rightarrow> kb2_closure_manifest_source option
     \<Rightarrow> (kb2_protocol_status \<times> nat option \<times> bytes option) option" where
  "kb2_closure_manifest_encode buffer encoded_size_out source =
     (case (buffer, source) of
        (Some b, Some src) \<Rightarrow>
          if \<not> encoded_size_out then Some (KB2_PROTOCOL_INVALID_ARGUMENT, None, buffer)
          else (case kb2_closure_manifest_encoded_size source True of
            Inl _ \<Rightarrow> Some (KB2_PROTOCOL_MALFORMED, None, buffer)
          | Inr encoded_size \<Rightarrow>
              if length b < encoded_size then Some (KB2_PROTOCOL_BUFFER_TOO_SMALL, None, buffer)
              else do {
                ws \<leftarrow> manifest_writes encoded_size src;
                b' \<leftarrow> store_all b ws;
                Some (KB2_PROTOCOL_OK, Some encoded_size, Some b') })
      | _ \<Rightarrow> Some (KB2_PROTOCOL_INVALID_ARGUMENT, None, buffer))"

section \<open>Accessors\<close>

definition decoded_string :: "kb2_closure_manifest \<Rightarrow> u32 \<Rightarrow> u32 \<Rightarrow> kb2_closure_string option option" where
  "decoded_string manifest offset len =
     (if mf_string_table_size manifest < offset \<or> mf_string_table_size manifest - offset < len
      then Some None
      else do {
        b \<leftarrow> mf_bytes manifest;
        data \<leftarrow> load_bytes b (unat (mf_offsets manifest ! STRINGS) + unat offset) (unat len);
        Some (if string_valid (Arr data) then Some (Arr data) else None) })"

definition decoded_lifecycle ::
    "kb2_closure_manifest \<Rightarrow> u32 \<Rightarrow> u32 \<Rightarrow> u32 \<Rightarrow> kb2_closure_string option option" where
  "decoded_lifecycle manifest flags offset len =
     (if flags AND KB2_CLOSURE_ARTIFACT_FLAG_NATIVE_LINUX \<noteq> 0
      then Some (if offset = 0 \<and> len = 0 then Some (Null 0) else None)
      else decoded_string manifest offset len)"

text \<open>The prologue of every accessor: the pointers, the index, and the address of the record.\<close>

definition with_record ::
    "kb2_closure_manifest option \<Rightarrow> nat \<Rightarrow> bool \<Rightarrow> nat \<Rightarrow> nat \<Rightarrow>
     (kb2_closure_manifest \<Rightarrow> bytes \<Rightarrow> nat \<Rightarrow> (kb2_protocol_status + 'r) option) \<Rightarrow> (kb2_protocol_status + 'r) option" where
  "with_record manifest index out table width read =
     (case manifest of
        None \<Rightarrow> Some (Inl KB2_PROTOCOL_INVALID_ARGUMENT)
      | Some m \<Rightarrow>
          if \<not> out then Some (Inl KB2_PROTOCOL_INVALID_ARGUMENT)
          else if unat (mf_counts m ! table) \<le> index then Some (Inl KB2_PROTOCOL_MALFORMED)
          else do { b \<leftarrow> mf_bytes m; read m b (unat (mf_offsets m ! table) + index * width) })"

text \<open>The loads of an artifact record: its fields, the four string references, the reserved bytes.\<close>

definition artifact_row ::
    "bytes \<Rightarrow> nat \<Rightarrow> (u32 \<times> u32 \<times> u32 \<times> u64 \<times> bytes \<times>
       (u32 \<times> u32) \<times> (u32 \<times> u32) \<times> (u32 \<times> u32) \<times> (u32 \<times> u32) \<times> bytes) option" where
  "artifact_row b record = do {
     node_id \<leftarrow> load_u32 b record;
     kind \<leftarrow> load_u32 b (record + 4);
     flags \<leftarrow> load_u32 b (record + 8);
     content_size \<leftarrow> load_u64 b (record + 16);
     content_digest \<leftarrow> load_bytes b (record + 24) 32;
     reserved_0 \<leftarrow> load_bytes b (record + 12) 4;
     reserved_1 \<leftarrow> load_bytes b (record + 88) 8;
     namespace_offset \<leftarrow> load_u32 b (record + 56);
     namespace_length \<leftarrow> load_u32 b (record + 60);
     init_offset \<leftarrow> load_u32 b (record + 64);
     init_length \<leftarrow> load_u32 b (record + 68);
     quiesce_offset \<leftarrow> load_u32 b (record + 72);
     quiesce_length \<leftarrow> load_u32 b (record + 76);
     cleanup_offset \<leftarrow> load_u32 b (record + 80);
     cleanup_length \<leftarrow> load_u32 b (record + 84);
     Some (node_id, kind, flags, content_size, content_digest,
       (namespace_offset, namespace_length), (init_offset, init_length),
       (quiesce_offset, quiesce_length), (cleanup_offset, cleanup_length), reserved_0 @ reserved_1) }"

definition read_artifact ::
    "kb2_closure_manifest \<Rightarrow> bytes \<Rightarrow> nat \<Rightarrow> (kb2_protocol_status + kb2_closure_manifest_artifact_t) option" where
  "read_artifact manifest b record = do {
     (node_id, kind, flags, content_size, content_digest, namespace, init, quiesce, cleanup, reserved) \<leftarrow>
       artifact_row b record;
     namespace_name \<leftarrow> decoded_string manifest (fst namespace) (snd namespace);
     init_symbol \<leftarrow> decoded_lifecycle manifest flags (fst init) (snd init);
     quiesce_symbol \<leftarrow> decoded_lifecycle manifest flags (fst quiesce) (snd quiesce);
     cleanup_symbol \<leftarrow> decoded_lifecycle manifest flags (fst cleanup) (snd cleanup);
     if node_id = 0 \<or> content_size = 0 \<or> 1 < kind \<or> flags AND NOT 3 \<noteq> 0 \<or> \<not> bytes_are_zero reserved
     then Some (Inl KB2_PROTOCOL_MALFORMED)
     else (case (namespace_name, init_symbol, quiesce_symbol, cleanup_symbol) of
         (Some ns, Some i, Some q, Some c) \<Rightarrow>
           Some (Inr \<lparr>ma_node_id = node_id, ma_kind = kind, ma_flags = flags, ma_content_size = content_size,
             ma_content_digest = content_digest, ma_namespace_name = ns, ma_init_symbol = i,
             ma_quiesce_symbol = q, ma_cleanup_symbol = c\<rparr>)
       | _ \<Rightarrow> Some (Inl KB2_PROTOCOL_MALFORMED)) }"

definition kb2_closure_manifest_artifact ::
    "kb2_closure_manifest option \<Rightarrow> nat \<Rightarrow> bool \<Rightarrow> (kb2_protocol_status + kb2_closure_manifest_artifact_t) option" where
  "kb2_closure_manifest_artifact manifest index out = with_record manifest index out ARTIFACTS 96 read_artifact"

definition read_dependency ::
    "bytes \<Rightarrow> nat \<Rightarrow> (kb2_protocol_status + kb2_closure_manifest_dependency_t) option" where
  "read_dependency b record = do {
     consumer_node_id \<leftarrow> load_u32 b record;
     provider_node_id \<leftarrow> load_u32 b (record + 4);
     Some (if consumer_node_id \<noteq> 0 \<and> provider_node_id \<noteq> 0 \<and> consumer_node_id \<noteq> provider_node_id
       then Inr \<lparr>md_consumer_node_id = consumer_node_id, md_provider_node_id = provider_node_id\<rparr>
       else Inl KB2_PROTOCOL_MALFORMED) }"

definition kb2_closure_manifest_dependency ::
    "kb2_closure_manifest option \<Rightarrow> nat \<Rightarrow> bool \<Rightarrow> (kb2_protocol_status + kb2_closure_manifest_dependency_t) option" where
  "kb2_closure_manifest_dependency manifest index out =
     with_record manifest index out DEPENDENCIES 8 (\<lambda>_. read_dependency)"

definition import_row ::
    "bytes \<Rightarrow> nat \<Rightarrow> (u32 \<times> u32 \<times> u32 \<times> u32 \<times> (u32 \<times> u32) \<times> (u32 \<times> u32)) option" where
  "import_row b record = do {
     consumer_node_id \<leftarrow> load_u32 b record;
     provider_node_id \<leftarrow> load_u32 b (record + 4);
     kind \<leftarrow> load_u32 b (record + 8);
     flags \<leftarrow> load_u32 b (record + 12);
     consumer_offset \<leftarrow> load_u32 b (record + 16);
     consumer_length \<leftarrow> load_u32 b (record + 20);
     provider_offset \<leftarrow> load_u32 b (record + 24);
     provider_length \<leftarrow> load_u32 b (record + 28);
     Some (consumer_node_id, provider_node_id, kind, flags, (consumer_offset, consumer_length),
       (provider_offset, provider_length)) }"

definition read_import ::
    "kb2_closure_manifest \<Rightarrow> bytes \<Rightarrow> nat \<Rightarrow> (kb2_protocol_status + kb2_closure_manifest_import_t) option" where
  "read_import manifest b record = do {
     (consumer_node_id, provider_node_id, kind, flags, consumer, provider) \<leftarrow> import_row b record;
     consumer_name \<leftarrow> decoded_string manifest (fst consumer) (snd consumer);
     provider_name \<leftarrow> decoded_string manifest (fst provider) (snd provider);
     if consumer_node_id = 0 \<or> consumer_node_id = provider_node_id \<or> 1 < kind \<or> flags AND NOT 1 \<noteq> 0
     then Some (Inl KB2_PROTOCOL_MALFORMED)
     else (case (consumer_name, provider_name) of
         (Some c, Some p) \<Rightarrow>
           Some (Inr \<lparr>mi_consumer_node_id = consumer_node_id, mi_provider_node_id = provider_node_id,
             mi_kind = kind, mi_flags = flags, mi_consumer_name = c, mi_provider_name = p\<rparr>)
       | _ \<Rightarrow> Some (Inl KB2_PROTOCOL_MALFORMED)) }"

definition kb2_closure_manifest_import ::
    "kb2_closure_manifest option \<Rightarrow> nat \<Rightarrow> bool \<Rightarrow> (kb2_protocol_status + kb2_closure_manifest_import_t) option" where
  "kb2_closure_manifest_import manifest index out = with_record manifest index out IMPORTS 32 read_import"

definition export_row :: "bytes \<Rightarrow> nat \<Rightarrow> (u32 \<times> u32 \<times> (u32 \<times> u32)) option" where
  "export_row b record = do {
     node_id \<leftarrow> load_u32 b record;
     kind \<leftarrow> load_u32 b (record + 4);
     name_offset \<leftarrow> load_u32 b (record + 8);
     name_length \<leftarrow> load_u32 b (record + 12);
     Some (node_id, kind, (name_offset, name_length)) }"

definition read_export ::
    "kb2_closure_manifest \<Rightarrow> bytes \<Rightarrow> nat \<Rightarrow> (kb2_protocol_status + kb2_closure_manifest_symbol_t) option" where
  "read_export manifest b record = do {
     (node_id, kind, name) \<leftarrow> export_row b record;
     name \<leftarrow> decoded_string manifest (fst name) (snd name);
     if node_id = 0 \<or> 1 < kind then Some (Inl KB2_PROTOCOL_MALFORMED)
     else (case name of
         Some n \<Rightarrow> Some (Inr \<lparr>my_node_id = node_id, my_kind = kind, my_name = n\<rparr>)
       | None \<Rightarrow> Some (Inl KB2_PROTOCOL_MALFORMED)) }"

definition kb2_closure_manifest_export ::
    "kb2_closure_manifest option \<Rightarrow> nat \<Rightarrow> bool \<Rightarrow> (kb2_protocol_status + kb2_closure_manifest_symbol_t) option" where
  "kb2_closure_manifest_export manifest index out = with_record manifest index out EXPORTS 16 read_export"

definition read_resource ::
    "bytes \<Rightarrow> nat \<Rightarrow> (kb2_protocol_status + kb2_closure_manifest_resource_t) option" where
  "read_resource b record = do {
     slot_id \<leftarrow> load_u32 b record;
     type \<leftarrow> load_u32 b (record + 4);
     minimum_count \<leftarrow> load_u32 b (record + 8);
     maximum_count \<leftarrow> load_u32 b (record + 12);
     required_rights \<leftarrow> load_u64 b (record + 16);
     maximum_rights \<leftarrow> load_u64 b (record + 24);
     flags \<leftarrow> load_u32 b (record + 32);
     interface_schema_digest \<leftarrow> load_bytes b (record + 40) 32;
     reserved \<leftarrow> load_bytes b (record + 36) 4;
     Some (if slot_id = 0 \<or> maximum_count < minimum_count \<or> required_rights AND NOT maximum_rights \<noteq> 0 \<or>
         digest_is_zero interface_schema_digest \<or> \<not> bytes_are_zero reserved
       then Inl KB2_PROTOCOL_MALFORMED
       else Inr \<lparr>mr_slot_id = slot_id, mr_type = type, mr_minimum_count = minimum_count,
         mr_maximum_count = maximum_count, mr_required_rights = required_rights,
         mr_maximum_rights = maximum_rights, mr_flags = flags,
         mr_interface_schema_digest = interface_schema_digest\<rparr>) }"

definition kb2_closure_manifest_resource ::
    "kb2_closure_manifest option \<Rightarrow> nat \<Rightarrow> bool \<Rightarrow> (kb2_protocol_status + kb2_closure_manifest_resource_t) option" where
  "kb2_closure_manifest_resource manifest index out =
     with_record manifest index out RESOURCES 72 (\<lambda>_. read_resource)"

definition read_binding ::
    "bytes \<Rightarrow> nat \<Rightarrow> (kb2_protocol_status + kb2_closure_manifest_binding_t) option" where
  "read_binding b record = do {
     slot_id \<leftarrow> load_u32 b record;
     node_id \<leftarrow> load_u32 b (record + 4);
     Some (if slot_id \<noteq> 0 \<and> node_id \<noteq> 0
       then Inr \<lparr>mb_slot_id = slot_id, mb_node_id = node_id\<rparr> else Inl KB2_PROTOCOL_MALFORMED) }"

definition kb2_closure_manifest_binding ::
    "kb2_closure_manifest option \<Rightarrow> nat \<Rightarrow> bool \<Rightarrow> (kb2_protocol_status + kb2_closure_manifest_binding_t) option" where
  "kb2_closure_manifest_binding manifest index out =
     with_record manifest index out BINDINGS 8 (\<lambda>_. read_binding)"

definition manifest_count :: "kb2_closure_manifest option \<Rightarrow> nat \<Rightarrow> nat" where
  "manifest_count manifest table = (case manifest of None \<Rightarrow> 0 | Some m \<Rightarrow> unat (mf_counts m ! table))"

definition kb2_closure_manifest_artifact_count :: "kb2_closure_manifest option \<Rightarrow> nat" where
  "kb2_closure_manifest_artifact_count manifest = manifest_count manifest ARTIFACTS"

definition kb2_closure_manifest_dependency_count :: "kb2_closure_manifest option \<Rightarrow> nat" where
  "kb2_closure_manifest_dependency_count manifest = manifest_count manifest DEPENDENCIES"

definition kb2_closure_manifest_export_count :: "kb2_closure_manifest option \<Rightarrow> nat" where
  "kb2_closure_manifest_export_count manifest = manifest_count manifest EXPORTS"

definition kb2_closure_manifest_import_count :: "kb2_closure_manifest option \<Rightarrow> nat" where
  "kb2_closure_manifest_import_count manifest = manifest_count manifest IMPORTS"

definition kb2_closure_manifest_resource_count :: "kb2_closure_manifest option \<Rightarrow> nat" where
  "kb2_closure_manifest_resource_count manifest = manifest_count manifest RESOURCES"

definition kb2_closure_manifest_binding_count :: "kb2_closure_manifest option \<Rightarrow> nat" where
  "kb2_closure_manifest_binding_count manifest = manifest_count manifest BINDINGS"

section \<open>Decoder\<close>

definition manifest_zero :: kb2_closure_manifest where
  "manifest_zero = \<lparr>mf_bytes = None, mf_size = 0, mf_counts = replicate 6 0, mf_offsets = replicate 7 0,
     mf_string_table_size = 0\<rparr>"

definition manifest_has_node :: "kb2_closure_manifest \<Rightarrow> u32 \<Rightarrow> bool option" where
  "manifest_has_node manifest node_id =
     map_option (\<lambda>found. found \<noteq> None)
       (bsearch_reads (\<lambda>index. map_option (map_sum (\<lambda>e. e) ma_node_id)
          (kb2_closure_manifest_artifact (Some manifest) index True))
          node_id 0 (unat (mf_counts manifest ! ARTIFACTS)))"

text \<open>
  The loop over the counts and offsets of the header, for the tables whose limits and record
  sizes remain. It yields the counts, the offsets and the end of the last table.
\<close>

fun manifest_tables ::
    "bytes \<Rightarrow> nat \<Rightarrow> nat \<Rightarrow> (nat \<times> nat) list \<Rightarrow> (kb2_protocol_status + u32 list \<times> u32 list \<times> nat) option" where
  "manifest_tables b index expected_offset [] = Some (Inr ([], [], expected_offset))"
| "manifest_tables b index expected_offset ((limit, width) # tables) = do {
     count \<leftarrow> load_u32 b (40 + index * 4);
     offset \<leftarrow> load_u32 b (64 + index * 4);
     if limit < unat count \<or> unat offset \<noteq> expected_offset then Some (Inl KB2_PROTOCOL_MALFORMED)
     else let next = expected_offset + unat count * width in
       if length b < next then Some (Inl KB2_PROTOCOL_MALFORMED)
       else check_then (manifest_tables b (Suc index) next tables)
         (\<lambda>(counts, offsets, end_offset). Some (Inr (count # counts, offset # offsets, end_offset))) }"

text \<open>The six loops over the tables. Every failure is \<open>KB2_PROTOCOL_MALFORMED\<close>.\<close>

definition check_artifact ::
    "kb2_closure_manifest \<Rightarrow> nat \<Rightarrow> u32 \<times> nat \<Rightarrow> (kb2_protocol_status + u32 \<times> nat) option" where
  "check_artifact manifest index s = do {
     r \<leftarrow> kb2_closure_manifest_artifact (Some manifest) index True;
     Some (case r of
         Inl _ \<Rightarrow> Inl KB2_PROTOCOL_MALFORMED
       | Inr artifact \<Rightarrow>
           if ma_node_id artifact \<le> fst s then Inl KB2_PROTOCOL_MALFORMED
           else Inr (ma_node_id artifact,
             snd s + (if ma_flags artifact AND KB2_CLOSURE_ARTIFACT_FLAG_ROOT \<noteq> 0 then 1 else 0))) }"

definition check_dependency :: "kb2_closure_manifest \<Rightarrow> nat \<Rightarrow> unit \<Rightarrow> (kb2_protocol_status + unit) option" where
  "check_dependency manifest index s = do {
     r \<leftarrow> kb2_closure_manifest_dependency (Some manifest) index True;
     case r of
       Inl _ \<Rightarrow> Some (Inl KB2_PROTOCOL_MALFORMED)
     | Inr dependency \<Rightarrow> do {
         consumer \<leftarrow> manifest_has_node manifest (md_consumer_node_id dependency);
         provider \<leftarrow> manifest_has_node manifest (md_provider_node_id dependency);
         Some (if \<not> consumer \<or> \<not> provider then Inl KB2_PROTOCOL_MALFORMED else Inr ()) } }"

definition check_export :: "kb2_closure_manifest \<Rightarrow> nat \<Rightarrow> unit \<Rightarrow> (kb2_protocol_status + unit) option" where
  "check_export manifest index s = do {
     r \<leftarrow> kb2_closure_manifest_export (Some manifest) index True;
     case r of
       Inl _ \<Rightarrow> Some (Inl KB2_PROTOCOL_MALFORMED)
     | Inr symbol \<Rightarrow> do {
         node \<leftarrow> manifest_has_node manifest (my_node_id symbol);
         Some (if \<not> node then Inl KB2_PROTOCOL_MALFORMED else Inr ()) } }"

definition check_import :: "kb2_closure_manifest \<Rightarrow> nat \<Rightarrow> unit \<Rightarrow> (kb2_protocol_status + unit) option" where
  "check_import manifest index s = do {
     r \<leftarrow> kb2_closure_manifest_import (Some manifest) index True;
     case r of
       Inl _ \<Rightarrow> Some (Inl KB2_PROTOCOL_MALFORMED)
     | Inr entry \<Rightarrow> do {
         consumer \<leftarrow> manifest_has_node manifest (mi_consumer_node_id entry);
         provider \<leftarrow> manifest_has_node manifest (mi_provider_node_id entry);
         Some (if \<not> consumer \<or> (mi_provider_node_id entry \<noteq> 0 \<and> \<not> provider)
           then Inl KB2_PROTOCOL_MALFORMED else Inr ()) } }"

definition check_resource :: "kb2_closure_manifest \<Rightarrow> nat \<Rightarrow> unit \<Rightarrow> (kb2_protocol_status + unit) option" where
  "check_resource manifest index s = do {
     r \<leftarrow> kb2_closure_manifest_resource (Some manifest) index True;
     Some (case r of Inl _ \<Rightarrow> Inl KB2_PROTOCOL_MALFORMED | Inr resource \<Rightarrow> Inr ()) }"

definition check_binding :: "kb2_closure_manifest \<Rightarrow> nat \<Rightarrow> unit \<Rightarrow> (kb2_protocol_status + unit) option" where
  "check_binding manifest index s = do {
     r \<leftarrow> kb2_closure_manifest_binding (Some manifest) index True;
     case r of
       Inl _ \<Rightarrow> Some (Inl KB2_PROTOCOL_MALFORMED)
     | Inr binding \<Rightarrow> do {
         node \<leftarrow> manifest_has_node manifest (mb_node_id binding);
         Some (if \<not> node then Inl KB2_PROTOCOL_MALFORMED else Inr ()) } }"

definition manifest_content :: "kb2_closure_manifest \<Rightarrow> (kb2_protocol_status + unit) option" where
  "manifest_content m =
     check_then (for_loop (check_artifact m) 0 (unat (mf_counts m ! ARTIFACTS)) (0, 0)) (\<lambda>(_, root_count).
       if root_count = 0 then Some (Inl KB2_PROTOCOL_MALFORMED)
       else check_then (for_loop (check_dependency m) 0 (unat (mf_counts m ! DEPENDENCIES)) ()) (\<lambda>_.
         check_then (for_loop (check_export m) 0 (unat (mf_counts m ! EXPORTS)) ()) (\<lambda>_.
           check_then (for_loop (check_import m) 0 (unat (mf_counts m ! IMPORTS)) ()) (\<lambda>_.
             check_then (for_loop (check_resource m) 0 (unat (mf_counts m ! RESOURCES)) ()) (\<lambda>_.
               for_loop (check_binding m) 0 (unat (mf_counts m ! BINDINGS)) ())))))"

text \<open>Status and \<open>*manifest_out\<close>; \<open>None\<close> for the latter when it was not written.\<close>

definition manifest_view :: "bytes \<Rightarrow> (kb2_protocol_status + kb2_closure_manifest) option" where
  "manifest_view b =
     (if length b < 128 then Some (Inl KB2_PROTOCOL_BUFFER_TOO_SMALL)
      else if UINT32_MAX < length b then Some (Inl KB2_PROTOCOL_OVERFLOW)
      else do {
        abi_identity \<leftarrow> load_bytes b 4 4;
        schema_digest \<leftarrow> load_bytes b 8 32;
        if abi_identity \<noteq> manifest_abi_identity \<or> schema_digest \<noteq> manifest_schema_digest
        then Some (Inl KB2_PROTOCOL_SCHEMA_MISMATCH)
        else do {
          sz \<leftarrow> load_u32 b 0;
          reserved \<leftarrow> load_bytes b 96 32;
          if unat sz \<noteq> length b then Some (Inl KB2_PROTOCOL_MALFORMED)
          else if \<not> bytes_are_zero reserved then Some (Inl KB2_PROTOCOL_MALFORMED)
          else check_then (manifest_tables b 0 128 (zip manifest_limits manifest_sizes))
            (\<lambda>(counts, offsets, expected_offset). do {
              strings \<leftarrow> load_u32 b 88;
              string_table_size \<leftarrow> load_u32 b 92;
              if counts ! ARTIFACTS = 0 \<or> unat strings \<noteq> expected_offset \<or>
                 unat string_table_size \<noteq> length b - expected_offset
              then Some (Inl KB2_PROTOCOL_MALFORMED)
              else Some (Inr \<lparr>mf_bytes = Some b, mf_size = length b, mf_counts = counts,
                mf_offsets = offsets @ [strings], mf_string_table_size = string_table_size\<rparr>) }) } })"

definition kb2_closure_manifest_decode ::
    "bytes option \<Rightarrow> bool \<Rightarrow> (kb2_protocol_status \<times> kb2_closure_manifest option) option" where
  "kb2_closure_manifest_decode buffer manifest_out =
     (case buffer of
        None \<Rightarrow> Some (KB2_PROTOCOL_INVALID_ARGUMENT, None)
      | Some b \<Rightarrow>
          if \<not> manifest_out then Some (KB2_PROTOCOL_INVALID_ARGUMENT, None)
          else map_option (\<lambda>r. case r of
              Inl status \<Rightarrow> (status, Some manifest_zero) | Inr manifest \<Rightarrow> (KB2_PROTOCOL_OK, Some manifest))
            (check_then (manifest_view b) (\<lambda>manifest.
               check_then (manifest_content manifest) (\<lambda>_. Some (Inr manifest)))))"

section \<open>Views\<close>

text \<open>
  What the decoder delivers is a view whose tables and strings lie in the buffer, or the cleared
  view, whose tables are empty.
\<close>

definition view_in :: "kb2_closure_manifest \<Rightarrow> bytes \<Rightarrow> bool" where
  "view_in m b \<longleftrightarrow> mf_bytes m = Some b \<and> mf_size m = length b \<and>
     length (mf_counts m) = 6 \<and> length (mf_offsets m) = 7 \<and>
     (\<forall>t < 6. unat (mf_counts m ! t) \<le> manifest_limits ! t \<and>
        unat (mf_offsets m ! t) + unat (mf_counts m ! t) * manifest_sizes ! t \<le> unat (mf_offsets m ! Suc t)) \<and>
     128 \<le> unat (mf_offsets m ! 0) \<and>
     unat (mf_offsets m ! STRINGS) + unat (mf_string_table_size m) = length b"

definition manifest_typed :: "kb2_closure_manifest \<Rightarrow> bool" where
  "manifest_typed m \<longleftrightarrow> m = manifest_zero \<or> (\<exists>b. view_in m b)"

lemma digest_is_zero_iff: "digest_is_zero d \<longleftrightarrow> bytes_are_zero d"
proof -
  have "fold (\<lambda>byte combined. combined OR byte) d c = 0 \<longleftrightarrow> c = 0 \<and> (\<forall>x \<in> set d. x = 0)" for c
    by (induction d arbitrary: c) (auto simp: or_eq_0_iff)
  then show ?thesis by (simp add: digest_is_zero_def bytes_are_zero_def list_all_iff)
qed

lemma view_table_end:
  assumes "view_in m b" "t < 6"
  shows "unat (mf_offsets m ! t) + unat (mf_counts m ! t) * manifest_sizes ! t \<le> length b"
proof -
  have mono: "unat (mf_offsets m ! Suc t) \<le> unat (mf_offsets m ! (Suc t + k))" if "Suc t + k \<le> 6" for k
    using that
  proof (induction k)
    case (Suc k)
    then have "unat (mf_offsets m ! (Suc t + k)) \<le> unat (mf_offsets m ! Suc (Suc t + k))"
      using assms(1) unfolding view_in_def by (metis Suc_le_lessD add_Suc_right add_leD1)
    then show ?case using Suc by simp
  qed simp
  have "unat (mf_offsets m ! Suc t) \<le> unat (mf_offsets m ! 6)"
    using mono [of "6 - Suc t"] assms(2) by simp
  then show ?thesis using assms unfolding view_in_def by fastforce
qed

lemma with_record_in:
  assumes "view_in m b" "t < 6" "width = manifest_sizes ! t" "i < unat (mf_counts m ! t)"
  shows "with_record (Some m) i True t width rd = rd m b (unat (mf_offsets m ! t) + i * width) \<and>
    unat (mf_offsets m ! t) + i * width + width \<le> length b"
proof -
  have "i * width + width \<le> unat (mf_counts m ! t) * width"
    using assms(4) by (metis Suc_leI add.commute mult_Suc mult_le_mono1)
  then have "unat (mf_offsets m ! t) + i * width + width \<le> length b"
    using view_table_end [OF assms(1,2), folded assms(3)] by linarith
  then show ?thesis using assms(1,4) by (simp add: with_record_def view_in_def)
qed

lemma decoded_string_total:
  assumes "view_in m b"
  shows "decoded_string m offset len \<noteq> None"
proof (cases "mf_string_table_size m < offset \<or> mf_string_table_size m - offset < len")
  case False
  then have "offset \<le> mf_string_table_size m" "len \<le> mf_string_table_size m - offset" by auto
  then have "unat offset + unat len \<le> unat (mf_string_table_size m)"
    by (simp add: word_le_nat_alt unat_sub)
  then have "unat (mf_offsets m ! STRINGS) + unat offset + unat len \<le> length b"
    using assms unfolding view_in_def by linarith
  then show ?thesis using False assms
    by (simp add: decoded_string_def view_in_def load_bytes_def)
qed (simp add: decoded_string_def)

lemma decoded_lifecycle_total: "view_in m b \<Longrightarrow> decoded_lifecycle m flags offset len \<noteq> None"
  using decoded_string_total [of m b] by (simp add: decoded_lifecycle_def)

lemma artifact_row_in: "record + 96 \<le> length b \<Longrightarrow> artifact_row b record \<noteq> None"
  by (simp add: artifact_row_def wire)

lemma import_row_in: "record + 32 \<le> length b \<Longrightarrow> import_row b record \<noteq> None"
  by (simp add: import_row_def wire)

lemma export_row_in: "record + 16 \<le> length b \<Longrightarrow> export_row b record \<noteq> None"
  by (simp add: export_row_def wire)

lemma read_artifact_total:
  assumes "view_in m b" "record + 96 \<le> length b"
  shows "\<exists>r. read_artifact m b record = Some r"
  by (auto simp: read_artifact_def artifact_row_in [OF assms(2)] decoded_string_total [OF assms(1)]
      decoded_lifecycle_total [OF assms(1)]
      split: Option.bind_split option.split)

lemma read_import_total:
  assumes "view_in m b" "record + 32 \<le> length b"
  shows "\<exists>r. read_import m b record = Some r"
  by (auto simp: read_import_def import_row_in [OF assms(2)] decoded_string_total [OF assms(1)]
      split: Option.bind_split option.split)

lemma read_export_total:
  assumes "view_in m b" "record + 16 \<le> length b"
  shows "\<exists>r. read_export m b record = Some r"
  by (auto simp: read_export_def export_row_in [OF assms(2)] decoded_string_total [OF assms(1)]
      split: Option.bind_split option.split)

lemma read_plain_total:
  "record + 8 \<le> length b \<Longrightarrow> \<exists>r. read_dependency b record = Some r"
  "record + 72 \<le> length b \<Longrightarrow> \<exists>r. read_resource b record = Some r"
  "record + 8 \<le> length b \<Longrightarrow> \<exists>r. read_binding b record = Some r"
  by (simp_all add: read_dependency_def read_resource_def read_binding_def wire)

lemma with_record_refused:
  "\<not> i < unat (mf_counts m ! t) \<Longrightarrow> with_record (Some m) i True t width rd = Some (Inl KB2_PROTOCOL_MALFORMED)"
  by (simp add: with_record_def)

lemma with_record_total:
  assumes "manifest_typed m" "t < 6" "width = manifest_sizes ! t"
    and "\<And>b record. view_in m b \<Longrightarrow> record + width \<le> length b \<Longrightarrow> \<exists>r. rd m b record = Some r"
  shows "\<exists>r. with_record (Some m) i True t width rd = Some r"
proof (cases "\<exists>b. view_in m b \<and> i < unat (mf_counts m ! t)")
  case True
  then obtain b where b: "view_in m b" "i < unat (mf_counts m ! t)" by blast
  show ?thesis using with_record_in [OF b(1) assms(2,3) b(2), of rd] assms(4) [OF b(1)] by auto
next
  case False
  have "\<not> i < unat (mf_counts m ! t)"
    using False assms(1,2) by (auto simp: manifest_typed_def manifest_zero_def)
  then show ?thesis by (simp add: with_record_refused)
qed

lemma sizes_nth [simp]:
  "manifest_sizes ! 0 = 96" "manifest_sizes ! Suc 0 = 8" "manifest_sizes ! 2 = 16" "manifest_sizes ! 3 = 32"
  "manifest_sizes ! 4 = 72" "manifest_sizes ! 5 = 8"
  by (simp_all add: manifest_sizes_def)

lemmas accessor_defs = kb2_closure_manifest_artifact_def kb2_closure_manifest_dependency_def
  kb2_closure_manifest_export_def kb2_closure_manifest_import_def kb2_closure_manifest_resource_def
  kb2_closure_manifest_binding_def

lemma accessor_total:
  assumes "manifest_typed m"
  shows "\<exists>r. kb2_closure_manifest_artifact (Some m) i True = Some r"
    "\<exists>r. kb2_closure_manifest_dependency (Some m) i True = Some r"
    "\<exists>r. kb2_closure_manifest_export (Some m) i True = Some r"
    "\<exists>r. kb2_closure_manifest_import (Some m) i True = Some r"
    "\<exists>r. kb2_closure_manifest_resource (Some m) i True = Some r"
    "\<exists>r. kb2_closure_manifest_binding (Some m) i True = Some r"
  unfolding accessor_defs
  by (rule with_record_total [OF assms]; simp add: read_artifact_total read_import_total read_export_total read_plain_total)+

lemma length_table_offsets: "length cs = length ss \<Longrightarrow> length (table_offsets off cs ss) = Suc (length cs)"
  by (induction off cs ss rule: table_offsets.induct) auto

lemma table_offsets_0: "table_offsets off cs ss ! 0 = off"
  by (cases "(off, cs, ss)" rule: table_offsets.cases) auto

lemma table_offsets_Suc:
  "length cs = length ss \<Longrightarrow> t < length cs \<Longrightarrow>
   table_offsets off cs ss ! Suc t = table_offsets off cs ss ! t + cs ! t * ss ! t"
proof (induction off cs ss arbitrary: t rule: table_offsets.induct)
  case (1 off c counts s sizes)
  then show ?case by (cases t) (auto simp: table_offsets_0)
qed auto

lemma manifest_tables_total:
  "128 \<le> length b \<Longrightarrow> index + length tables \<le> 6 \<Longrightarrow> manifest_tables b index expected tables \<noteq> None"
proof (induction b index expected tables rule: manifest_tables.induct)
  case (2 b index expected limit width tables)
  have l: "40 + index * 4 + 4 \<le> length b" "64 + index * 4 + 4 \<le> length b" using 2 by auto
  let ?n = "expected + unat (un32 (slice b (40 + index * 4) 4)) * width"
  have "manifest_tables b (Suc index) ?n tables \<noteq> None"
    if "unat (un32 (slice b (64 + index * 4) 4)) = expected" "unat (un32 (slice b (40 + index * 4) 4)) \<le> limit" "?n \<le> length b"
    using 2 that l by (intro "2.IH" [OF load_u32_in [OF l(1)] load_u32_in [OF l(2)] _ refl]) auto
  then show ?case using l by (auto simp: load_u32_in Let_def check_then_def split: sum.split)
qed simp

lemma manifest_tables_Inr:
  "manifest_tables b index expected tables = Some (Inr (cs, os, e)) \<Longrightarrow> expected \<le> length b \<Longrightarrow>
   map unat os @ [e] = table_offsets expected (map unat cs) (map snd tables) \<and>
   list_all2 (\<lambda>c t. unat c \<le> fst t) cs tables \<and> e \<le> length b"
proof (induction b index expected tables arbitrary: cs os e rule: manifest_tables.induct)
  case (2 b index expected limit width tables)
  obtain c off where l: "load_u32 b (40 + index * 4) = Some c" "load_u32 b (64 + index * 4) = Some off"
    using "2.prems" by (auto split: Option.bind_split_asm)
  let ?n = "expected + unat c * width"
  have ok: "\<not> (limit < unat c \<or> unat off \<noteq> expected)" "\<not> length b < ?n"
    using "2.prems" l by (auto split: if_split_asm simp: Let_def)
  have chk: "check_then (manifest_tables b (Suc index) ?n tables)
      (\<lambda>(counts, offsets, end_offset). Some (Inr (c # counts, off # offsets, end_offset))) = Some (Inr (cs, os, e))"
    using "2.prems" l ok by (simp add: Let_def)
  then obtain cs' os' e' where rest: "manifest_tables b (Suc index) ?n tables = Some (Inr (cs', os', e'))"
    by (auto simp: check_then_def split: Option.bind_split_asm sum.split_asm)
  then have eqs: "cs = c # cs'" "os = off # os'" "e = e'" using chk by simp_all
  have "map unat os' @ [e'] = table_offsets ?n (map unat cs') (map snd tables) \<and>
     list_all2 (\<lambda>c t. unat c \<le> fst t) cs' tables \<and> e' \<le> length b"
    using "2.IH" [OF l ok(1) refl ok(2) rest] ok by simp
  then show ?case using eqs ok by auto
qed auto

lemma manifest_view_total: "\<exists>r. manifest_view b = Some r"
proof (cases "length b < 128 \<or> UINT32_MAX < length b")
  case False
  then have len: "128 \<le> length b" by simp
  have "manifest_tables b 0 128 (zip manifest_limits manifest_sizes) \<noteq> None"
    by (rule manifest_tables_total [OF len]) (simp add: manifest_limits_def)
  then show ?thesis using False len
    by (auto simp: manifest_view_def wire check_then_def split: sum.split)
qed (auto simp: manifest_view_def)

lemma manifest_view_Inr:
  assumes "manifest_view b = Some (Inr m)"
  shows "view_in m b" "length b \<le> UINT32_MAX" "mf_counts m ! ARTIFACTS \<noteq> 0"
proof -
  let ?tables = "zip manifest_limits manifest_sizes"
  have len: "128 \<le> length b" "length b \<le> UINT32_MAX" using assms by (auto simp: manifest_view_def split: if_split_asm)
  obtain cs os e strings n where
    t: "manifest_tables b 0 128 ?tables = Some (Inr (cs, os, e))"
    and ok: "cs ! ARTIFACTS \<noteq> 0" "unat strings = e" "unat n = length b - e"
    and m: "m = \<lparr>mf_bytes = Some b, mf_size = length b, mf_counts = cs,
       mf_offsets = os @ [strings], mf_string_table_size = n\<rparr>"
    using assms len
    by (auto simp: manifest_view_def check_then_def split: if_split_asm Option.bind_split_asm sum.split_asm)
  have facts: "map unat os @ [e] = table_offsets 128 (map unat cs) manifest_sizes"
    "list_all2 (\<lambda>c t. unat c \<le> fst t) cs ?tables" "e \<le> length b"
    using manifest_tables_Inr [OF t len(1)] by (simp_all add: manifest_limits_def manifest_sizes_def)
  have lens: "length cs = 6" "length manifest_sizes = 6" "length manifest_limits = 6"
    using list_all2_lengthD [OF facts(2)] by (simp_all add: manifest_limits_def manifest_sizes_def)
  have offs: "map unat (os @ [strings]) = table_offsets 128 (map unat cs) manifest_sizes"
    using facts(1) ok(2) by simp
  have l7: "length (os @ [strings]) = 7"
    using arg_cong [OF offs, of length] lens by (simp add: length_table_offsets)
  have nth: "unat ((os @ [strings]) ! t) = table_offsets 128 (map unat cs) manifest_sizes ! t" if "t < 7" for t
    using that l7 by (simp only: nth_map [symmetric] offs)
  have "unat (cs ! t) \<le> manifest_limits ! t" if "t < 6" for t
    using list_all2_nthD [OF facts(2), of t] that lens by simp
  moreover have "unat ((os @ [strings]) ! t) + unat (cs ! t) * manifest_sizes ! t = unat ((os @ [strings]) ! Suc t)" if "t < 6" for t
    using that nth [of t] nth [of "Suc t"] table_offsets_Suc [of "map unat cs" manifest_sizes t 128] lens by simp
  moreover have "unat ((os @ [strings]) ! 6) = e" using l7 ok(2) by (simp add: nth_append)
  ultimately show "view_in m b"
    using l7 lens nth [of 0] ok facts(3) unfolding view_in_def m by (simp add: table_offsets_0)
  show "length b \<le> UINT32_MAX" by fact
  show "mf_counts m ! ARTIFACTS \<noteq> 0" using ok m by simp
qed

section \<open>What the decoder accepts\<close>

text \<open>The records that an accessor delivers for all indices of its table.\<close>

definition table_is :: "(nat \<Rightarrow> (kb2_protocol_status + 'r) option) \<Rightarrow> nat \<Rightarrow> 'r list \<Rightarrow> bool" where
  "table_is acc n xs \<longleftrightarrow> length xs = n \<and> (\<forall>i < n. acc i = Some (Inr (xs ! i)))"

text \<open>
  The six tables as lists of records, and the contract between them: node identifiers ascend,
  some artifact is a root, and every reference names an artifact.
\<close>

record manifest_tables_rec =
  t_artifacts :: "kb2_closure_manifest_artifact_t list"
  t_dependencies :: "kb2_closure_manifest_dependency_t list"
  t_exports :: "kb2_closure_manifest_symbol_t list"
  t_imports :: "kb2_closure_manifest_import_t list"
  t_resources :: "kb2_closure_manifest_resource_t list"
  t_bindings :: "kb2_closure_manifest_binding_t list"

definition nodes_of :: "kb2_closure_manifest_artifact_t list \<Rightarrow> u32 set" where
  "nodes_of artifacts = ma_node_id ` set artifacts"

definition root_artifact :: "kb2_closure_manifest_artifact_t \<Rightarrow> bool" where
  "root_artifact artifact \<longleftrightarrow> ma_flags artifact AND KB2_CLOSURE_ARTIFACT_FLAG_ROOT \<noteq> 0"

definition references_resolve :: "manifest_tables_rec \<Rightarrow> bool" where
  "references_resolve t \<longleftrightarrow>
     sorted_wrt (<) (map ma_node_id (t_artifacts t)) \<and> (\<exists>a \<in> set (t_artifacts t). root_artifact a) \<and>
     (\<forall>d \<in> set (t_dependencies t). md_consumer_node_id d \<in> nodes_of (t_artifacts t) \<and>
        md_provider_node_id d \<in> nodes_of (t_artifacts t)) \<and>
     (\<forall>e \<in> set (t_exports t). my_node_id e \<in> nodes_of (t_artifacts t)) \<and>
     (\<forall>i \<in> set (t_imports t). mi_consumer_node_id i \<in> nodes_of (t_artifacts t) \<and>
        (mi_provider_node_id i \<noteq> 0 \<longrightarrow> mi_provider_node_id i \<in> nodes_of (t_artifacts t))) \<and>
     (\<forall>b \<in> set (t_bindings t). mb_node_id b \<in> nodes_of (t_artifacts t))"

definition has_tables :: "kb2_closure_manifest \<Rightarrow> manifest_tables_rec \<Rightarrow> bool" where
  "has_tables m t \<longleftrightarrow>
     table_is (\<lambda>i. kb2_closure_manifest_artifact (Some m) i True)
       (kb2_closure_manifest_artifact_count (Some m)) (t_artifacts t) \<and>
     table_is (\<lambda>i. kb2_closure_manifest_dependency (Some m) i True)
       (kb2_closure_manifest_dependency_count (Some m)) (t_dependencies t) \<and>
     table_is (\<lambda>i. kb2_closure_manifest_export (Some m) i True)
       (kb2_closure_manifest_export_count (Some m)) (t_exports t) \<and>
     table_is (\<lambda>i. kb2_closure_manifest_import (Some m) i True)
       (kb2_closure_manifest_import_count (Some m)) (t_imports t) \<and>
     table_is (\<lambda>i. kb2_closure_manifest_resource (Some m) i True)
       (kb2_closure_manifest_resource_count (Some m)) (t_resources t) \<and>
     table_is (\<lambda>i. kb2_closure_manifest_binding (Some m) i True)
       (kb2_closure_manifest_binding_count (Some m)) (t_bindings t)"

lemma table_is_unique: "table_is acc n xs \<Longrightarrow> table_is acc n ys \<Longrightarrow> xs = ys"
  by (auto simp: table_is_def intro: nth_equalityI)

lemma has_tables_unique: "has_tables m t \<Longrightarrow> has_tables m t' \<Longrightarrow> t = t'"
  by (rule manifest_tables_rec.equality) (auto simp: has_tables_def dest: table_is_unique)

text \<open>A table is delivered completely exactly when no access fails.\<close>

lemma table_is_iff:
  assumes "\<And>i. i < n \<Longrightarrow> acc i = Some (r i)"
  shows "(\<exists>xs. table_is acc n xs \<and> P xs) \<longleftrightarrow> (\<forall>i < n. \<not> isl (r i)) \<and> P (map (projr \<circ> r) [0..<n])"
proof
  assume "\<exists>xs. table_is acc n xs \<and> P xs"
  then obtain xs where xs: "length xs = n" "\<And>i. i < n \<Longrightarrow> r i = Inr (xs ! i)" "P xs"
    using assms by (auto simp: table_is_def)
  then have "map (projr \<circ> r) [0..<n] = xs" by (intro nth_equalityI) auto
  then show "(\<forall>i < n. \<not> isl (r i)) \<and> P (map (projr \<circ> r) [0..<n])"
    using xs by simp
next
  assume a: "(\<forall>i < n. \<not> isl (r i)) \<and> P (map (projr \<circ> r) [0..<n])"
  then have "table_is acc n (map (projr \<circ> r) [0..<n])"
    using assms by (auto simp: table_is_def)
  then show "\<exists>xs. table_is acc n xs \<and> P xs" using a by blast
qed

text \<open>A loop that reads every record of a table and checks it.\<close>

lemma for_loop_table:
  assumes "\<And>i. i < n \<Longrightarrow> acc i = Some (r i)"
    and "\<And>i. i < n \<Longrightarrow> body i () = Some (case r i of Inl _ \<Rightarrow> Inl e | Inr x \<Rightarrow> if Q x then Inr () else Inl e)"
  shows "for_loop body 0 n () =
    Some (if \<exists>xs. table_is acc n xs \<and> (\<forall>x \<in> set xs. Q x) then Inr () else Inl e)"
proof -
  have "body i () = Some (if \<not> isl (r i) \<and> Q (projr (r i)) then Inr () else Inl e)" if "i < n" for i
    using assms(2) [OF that] by (cases "r i") auto
  then have "for_loop body 0 n () = Some (if \<forall>i < n. \<not> isl (r i) \<and> Q (projr (r i)) then Inr () else Inl e)"
    by (rule for_loop_check)
  moreover have "(\<exists>xs. table_is acc n xs \<and> (\<forall>x \<in> set xs. Q x)) \<longleftrightarrow> (\<forall>i < n. \<not> isl (r i) \<and> Q (projr (r i)))"
    using table_is_iff [of n acc r "\<lambda>xs. \<forall>x \<in> set xs. Q x"] assms(1) by auto
  ultimately show ?thesis by simp
qed

text \<open>The artifact loop keeps the identifier before the current one and counts the roots.\<close>

definition ascending :: "kb2_closure_manifest_artifact_t list \<Rightarrow> bool" where
  "ascending A \<longleftrightarrow> sorted_wrt (<) (map ma_node_id A) \<and> (\<forall>a \<in> set A. ma_node_id a \<noteq> 0)"

lemma for_loop_artifacts:
  assumes "manifest_typed m"
  defines "acc \<equiv> \<lambda>i. kb2_closure_manifest_artifact (Some m) i True" and "n \<equiv> unat (mf_counts m ! ARTIFACTS)"
  shows "table_is acc n A \<Longrightarrow> ascending A \<Longrightarrow>
      \<exists>x. for_loop (check_artifact m) 0 n (0, 0) = Some (Inr (x, length (filter root_artifact A)))"
    and "\<nexists>A. table_is acc n A \<and> ascending A \<Longrightarrow>
      for_loop (check_artifact m) 0 n (0, 0) = Some (Inl KB2_PROTOCOL_MALFORMED)"
proof -
  obtain r where r: "\<And>i. acc i = Some (r i)"
    using accessor_total(1) [OF assms(1)] unfolding acc_def by metis
  let ?A = "map (projr \<circ> r) [0..<n]"
  let ?ids = "map ma_node_id ?A"
  define st where "st i = (prior ?ids i, length (filter root_artifact (take i ?A)))" for i
  have body: "check_artifact m i (st i) =
      Some (if \<not> isl (r i) \<and> prior ?ids i < ?ids ! i then Inr (st (Suc i)) else Inl KB2_PROTOCOL_MALFORMED)" if "i < n" for i
  proof (cases "r i")
    case (Inr a)
    then have "take (Suc i) ?A = take i ?A @ [a]" using that by (simp add: take_Suc_conv_app_nth)
    then show ?thesis
      using r [of i] that Inr unfolding acc_def
      by (auto simp: check_artifact_def st_def root_artifact_def simp del: take_map)
  qed (use r [of i] in \<open>simp add: check_artifact_def acc_def\<close>)
  have loop: "for_loop (check_artifact m) 0 n (0, 0) =
      Some (if \<forall>i < n. \<not> isl (r i) \<and> prior ?ids i < ?ids ! i then Inr (st n) else Inl KB2_PROTOCOL_MALFORMED)"
    using for_loop_decides [of n "check_artifact m" st, OF body] by (simp add: st_def)
  have cond: "(\<exists>A. table_is acc n A \<and> ascending A) \<longleftrightarrow> (\<forall>i < n. \<not> isl (r i) \<and> prior ?ids i < ?ids ! i)"
    unfolding table_is_iff [of n acc r, OF r] ascending_def using prior_strict_iff [of ?ids] by auto
  show "\<exists>x. for_loop (check_artifact m) 0 n (0, 0) = Some (Inr (x, length (filter root_artifact A)))"
    if A: "table_is acc n A" "ascending A"
  proof -
    have "A = ?A" using A r by (intro nth_equalityI) (auto simp: table_is_def)
    then show ?thesis unfolding loop using A cond by (auto simp: st_def)
  qed
  show "for_loop (check_artifact m) 0 n (0, 0) = Some (Inl KB2_PROTOCOL_MALFORMED)"
    if "\<nexists>A. table_is acc n A \<and> ascending A"
    unfolding loop using that cond by auto
qed

lemma manifest_has_node_iff:
  assumes "manifest_typed m" "table_is (\<lambda>i. kb2_closure_manifest_artifact (Some m) i True) (unat (mf_counts m ! ARTIFACTS)) A"
    "ascending A"
  shows "manifest_has_node m node_id = Some (node_id \<in> nodes_of A)"
proof -
  let ?key = "\<lambda>i. map_option (map_sum (\<lambda>e. e) ma_node_id) (kb2_closure_manifest_artifact (Some m) i True)"
  have n: "unat (mf_counts m ! ARTIFACTS) = length A" and
    acc: "\<And>i. i < length A \<Longrightarrow> kb2_closure_manifest_artifact (Some m) i True = Some (Inr (A ! i))"
    using assms(2) by (auto simp: table_is_def)
  have sorted: "sorted_wrt (<) (map ma_node_id A)" using assms(3) by (simp add: ascending_def)
  have key: "?key i = Some (Inr (ma_node_id (A ! i)))" if "i < length A" for i using acc [OF that] by simp
  obtain r where "bsearch_reads ?key node_id 0 (length A) = Some r" "r = None \<longleftrightarrow> node_id \<notin> ma_node_id ` set A"
    by (rule bsearch_reads_sorted [of ma_node_id A ?key node_id, OF sorted key])
  then show ?thesis by (simp add: manifest_has_node_def n nodes_of_def del: not_None_eq)
qed

text \<open>
  The four loops that look nodes up, on a manifest whose artifacts have been read.
\<close>

lemma check_loops:
  assumes m: "manifest_typed m"
    and A: "table_is (\<lambda>i. kb2_closure_manifest_artifact (Some m) i True) (unat (mf_counts m ! ARTIFACTS)) A" "ascending A"
  shows "for_loop (check_dependency m) 0 n () = Some (if \<exists>xs.
        table_is (\<lambda>i. kb2_closure_manifest_dependency (Some m) i True) n xs \<and>
        (\<forall>d \<in> set xs. md_consumer_node_id d \<in> nodes_of A \<and> md_provider_node_id d \<in> nodes_of A)
      then Inr () else Inl KB2_PROTOCOL_MALFORMED)"
    "for_loop (check_export m) 0 n () = Some (if \<exists>xs.
        table_is (\<lambda>i. kb2_closure_manifest_export (Some m) i True) n xs \<and> (\<forall>e \<in> set xs. my_node_id e \<in> nodes_of A)
      then Inr () else Inl KB2_PROTOCOL_MALFORMED)"
    "for_loop (check_import m) 0 n () = Some (if \<exists>xs.
        table_is (\<lambda>i. kb2_closure_manifest_import (Some m) i True) n xs \<and>
        (\<forall>i \<in> set xs. mi_consumer_node_id i \<in> nodes_of A \<and>
           (mi_provider_node_id i \<noteq> 0 \<longrightarrow> mi_provider_node_id i \<in> nodes_of A))
      then Inr () else Inl KB2_PROTOCOL_MALFORMED)"
    "for_loop (check_resource m) 0 n () = Some (if \<exists>xs.
        table_is (\<lambda>i. kb2_closure_manifest_resource (Some m) i True) n xs \<and> (\<forall>x \<in> set xs. True)
      then Inr () else Inl KB2_PROTOCOL_MALFORMED)"
    "for_loop (check_binding m) 0 n () = Some (if \<exists>xs.
        table_is (\<lambda>i. kb2_closure_manifest_binding (Some m) i True) n xs \<and> (\<forall>b \<in> set xs. mb_node_id b \<in> nodes_of A)
      then Inr () else Inl KB2_PROTOCOL_MALFORMED)"
proof -
  note node = manifest_has_node_iff [OF m A]
  obtain rd re ri rr rb where
    r: "\<And>i. kb2_closure_manifest_dependency (Some m) i True = Some (rd i)"
    "\<And>i. kb2_closure_manifest_export (Some m) i True = Some (re i)"
    "\<And>i. kb2_closure_manifest_import (Some m) i True = Some (ri i)"
    "\<And>i. kb2_closure_manifest_resource (Some m) i True = Some (rr i)"
    "\<And>i. kb2_closure_manifest_binding (Some m) i True = Some (rb i)"
    using accessor_total [OF m] by metis
  note loops = for_loop_table [of n, OF r(1)] for_loop_table [of n, OF r(2)] for_loop_table [of n, OF r(3)]
    for_loop_table [of n, OF r(4)] for_loop_table [of n, OF r(5)]
  show "for_loop (check_dependency m) 0 n () = Some (if \<exists>xs.
        table_is (\<lambda>i. kb2_closure_manifest_dependency (Some m) i True) n xs \<and>
        (\<forall>d \<in> set xs. md_consumer_node_id d \<in> nodes_of A \<and> md_provider_node_id d \<in> nodes_of A)
      then Inr () else Inl KB2_PROTOCOL_MALFORMED)"
    by (rule loops(1)) (simp add: check_dependency_def r node split: sum.split)
  show "for_loop (check_export m) 0 n () = Some (if \<exists>xs.
        table_is (\<lambda>i. kb2_closure_manifest_export (Some m) i True) n xs \<and> (\<forall>e \<in> set xs. my_node_id e \<in> nodes_of A)
      then Inr () else Inl KB2_PROTOCOL_MALFORMED)"
    by (rule loops(2)) (simp add: check_export_def r node split: sum.split)
  show "for_loop (check_import m) 0 n () = Some (if \<exists>xs.
        table_is (\<lambda>i. kb2_closure_manifest_import (Some m) i True) n xs \<and>
        (\<forall>i \<in> set xs. mi_consumer_node_id i \<in> nodes_of A \<and>
           (mi_provider_node_id i \<noteq> 0 \<longrightarrow> mi_provider_node_id i \<in> nodes_of A))
      then Inr () else Inl KB2_PROTOCOL_MALFORMED)"
    by (rule loops(3)) (auto simp: check_import_def r node split: sum.split)
  show "for_loop (check_resource m) 0 n () = Some (if \<exists>xs.
        table_is (\<lambda>i. kb2_closure_manifest_resource (Some m) i True) n xs \<and> (\<forall>x \<in> set xs. True)
      then Inr () else Inl KB2_PROTOCOL_MALFORMED)"
    by (rule loops(4)) (simp add: check_resource_def r split: sum.split)
  show "for_loop (check_binding m) 0 n () = Some (if \<exists>xs.
        table_is (\<lambda>i. kb2_closure_manifest_binding (Some m) i True) n xs \<and> (\<forall>b \<in> set xs. mb_node_id b \<in> nodes_of A)
      then Inr () else Inl KB2_PROTOCOL_MALFORMED)"
    by (rule loops(5)) (simp add: check_binding_def r node split: sum.split)
qed

lemma read_artifact_node: "read_artifact m b record = Some (Inr a) \<Longrightarrow> ma_node_id a \<noteq> 0"
  by (auto simp: read_artifact_def split: Option.bind_split_asm if_split_asm option.split_asm)

lemma artifact_node:
  "kb2_closure_manifest_artifact (Some m) i True = Some (Inr a) \<Longrightarrow> ma_node_id a \<noteq> 0"
  by (auto simp: kb2_closure_manifest_artifact_def with_record_def dest: read_artifact_node
      split: if_split_asm Option.bind_split_asm)

lemma ascending_iff:
  assumes "table_is (\<lambda>i. kb2_closure_manifest_artifact (Some m) i True) n A"
  shows "ascending A \<longleftrightarrow> sorted_wrt (<) (map ma_node_id A)"
proof -
  have "ma_node_id a \<noteq> 0" if a: "a \<in> set A" for a
  proof -
    obtain i where "i < length A" "A ! i = a" using a by (auto simp: in_set_conv_nth)
    then show ?thesis using assms artifact_node [of m i a] by (auto simp: table_is_def)
  qed
  then show ?thesis by (auto simp: ascending_def)
qed

lemmas count_defs = manifest_count_def kb2_closure_manifest_artifact_count_def
  kb2_closure_manifest_dependency_count_def kb2_closure_manifest_export_count_def
  kb2_closure_manifest_import_count_def kb2_closure_manifest_resource_count_def
  kb2_closure_manifest_binding_count_def

lemma six_checks:
  "(if \<not> r then Some (Inl x) else if d then if e then if i then if s then Some (if b then Inr () else Inl x)
     else Some (Inl x) else Some (Inl x) else Some (Inl x) else Some (Inl x))
   = Some (if r \<and> d \<and> e \<and> i \<and> s \<and> b then Inr () else Inl x)"
  by simp

lemma manifest_content_iff:
  assumes "manifest_typed m"
  shows "manifest_content m =
    Some (if \<exists>t. has_tables m t \<and> references_resolve t then Inr () else Inl KB2_PROTOCOL_MALFORMED)"
proof (cases "\<exists>A. table_is (\<lambda>i. kb2_closure_manifest_artifact (Some m) i True) (unat (mf_counts m ! ARTIFACTS)) A \<and> ascending A")
  case True
  then obtain A where A: "table_is (\<lambda>i. kb2_closure_manifest_artifact (Some m) i True) (unat (mf_counts m ! ARTIFACTS)) A"
    "ascending A" by blast
  obtain x where art: "for_loop (check_artifact m) 0 (unat (mf_counts m ! ARTIFACTS)) (0, 0) =
      Some (Inr (x, length (filter root_artifact A)))"
    using for_loop_artifacts(1) [OF assms A] by blast
  have roots: "length (filter root_artifact A) = 0 \<longleftrightarrow> \<not> (\<exists>a \<in> set A. root_artifact a)"
    by (simp add: filter_empty_conv)
  have unique: "t_artifacts t = A" if "has_tables m t" for t
    using that A table_is_unique by (auto simp: has_tables_def count_defs)
  let ?D = "\<lambda>xs. table_is (\<lambda>i. kb2_closure_manifest_dependency (Some m) i True) (unat (mf_counts m ! DEPENDENCIES)) xs \<and>
      (\<forall>d \<in> set xs. md_consumer_node_id d \<in> nodes_of A \<and> md_provider_node_id d \<in> nodes_of A)"
  let ?E = "\<lambda>xs. table_is (\<lambda>i. kb2_closure_manifest_export (Some m) i True) (unat (mf_counts m ! EXPORTS)) xs \<and>
      (\<forall>e \<in> set xs. my_node_id e \<in> nodes_of A)"
  let ?I = "\<lambda>xs. table_is (\<lambda>i. kb2_closure_manifest_import (Some m) i True) (unat (mf_counts m ! IMPORTS)) xs \<and>
      (\<forall>i \<in> set xs. mi_consumer_node_id i \<in> nodes_of A \<and>
         (mi_provider_node_id i \<noteq> 0 \<longrightarrow> mi_provider_node_id i \<in> nodes_of A))"
  let ?R = "\<lambda>xs. table_is (\<lambda>i. kb2_closure_manifest_resource (Some m) i True) (unat (mf_counts m ! RESOURCES)) xs \<and>
      (\<forall>x \<in> set xs. True)"
  let ?B = "\<lambda>xs. table_is (\<lambda>i. kb2_closure_manifest_binding (Some m) i True) (unat (mf_counts m ! BINDINGS)) xs \<and>
      (\<forall>b \<in> set xs. mb_node_id b \<in> nodes_of A)"
  have spec: "(\<exists>t. has_tables m t \<and> references_resolve t) \<longleftrightarrow>
      (\<exists>a \<in> set A. root_artifact a) \<and> (\<exists>xs. ?D xs) \<and> (\<exists>xs. ?E xs) \<and> (\<exists>xs. ?I xs) \<and> (\<exists>xs. ?R xs) \<and> (\<exists>xs. ?B xs)"
    (is "?L \<longleftrightarrow> ?P")
  proof
    assume ?L
    then obtain t where t: "has_tables m t" "references_resolve t" by blast
    from unique [OF t(1)] t show ?P unfolding has_tables_def references_resolve_def count_defs by auto
  next
    assume ?P
    then obtain D E I R B where "\<exists>a \<in> set A. root_artifact a" "?D D" "?E E" "?I I" "?R R" "?B B" by blast
    then have "has_tables m \<lparr>t_artifacts = A, t_dependencies = D, t_exports = E, t_imports = I, t_resources = R, t_bindings = B\<rparr>"
      "references_resolve \<lparr>t_artifacts = A, t_dependencies = D, t_exports = E, t_imports = I, t_resources = R, t_bindings = B\<rparr>"
      using A by (simp_all add: has_tables_def references_resolve_def count_defs ascending_def)
    then show ?L by blast
  qed
  show ?thesis
    unfolding manifest_content_def art check_then_simps prod.case roots spec check_loops [OF assms A]
    by (rule six_checks)
next
  case False
  then have "\<not> (\<exists>t. has_tables m t \<and> references_resolve t)"
    using ascending_iff by (auto simp: has_tables_def references_resolve_def count_defs)
  then show ?thesis
    using for_loop_artifacts(2) [OF assms False] by (simp add: manifest_content_def)
qed

section \<open>The header\<close>

text \<open>
  The declarative contract of the header: identity, exact size, zero reserved bytes, counts within
  their limits, and tables and strings that follow each other without gaps up to the end.
\<close>

definition header_counts :: "bytes \<Rightarrow> u32 list" where
  "header_counts b = map (\<lambda>t. un32 (slice b (40 + t * 4) 4)) [0..<6]"

definition header_offsets :: "bytes \<Rightarrow> u32 list" where
  "header_offsets b = map (\<lambda>t. un32 (slice b (64 + t * 4) 4)) [0..<7]"

definition header_spec :: "bytes \<Rightarrow> bool" where
  "header_spec b \<longleftrightarrow> 128 \<le> length b \<and> length b \<le> UINT32_MAX \<and>
     slice b 4 4 = manifest_abi_identity \<and> slice b 8 32 = manifest_schema_digest \<and>
     unat (un32 (slice b 0 4)) = length b \<and> bytes_are_zero (slice b 96 32) \<and>
     (\<forall>t < 6. unat (header_counts b ! t) \<le> manifest_limits ! t) \<and>
     map unat (header_offsets b) = table_offsets 128 (map unat (header_counts b)) manifest_sizes \<and>
     header_counts b ! ARTIFACTS \<noteq> 0 \<and>
     unat (header_offsets b ! STRINGS) + unat (un32 (slice b 92 4)) = length b"

definition view_of :: "bytes \<Rightarrow> kb2_closure_manifest" where
  "view_of b = \<lparr>mf_bytes = Some b, mf_size = length b, mf_counts = header_counts b,
     mf_offsets = header_offsets b, mf_string_table_size = un32 (slice b 92 4)\<rparr>"

lemma table_offsets_le: "length cs = length ss \<Longrightarrow> off \<le> last (table_offsets off cs ss)"
proof (induction off cs ss rule: table_offsets.induct)
  case (1 off c counts s sizes)
  then have "off + c * s \<le> last (table_offsets (off + c * s) counts sizes)" by simp
  moreover have "table_offsets (off + c * s) counts sizes \<noteq> []"
    using 1 by (metis length_Cons length_table_offsets list.size(3) nat.distinct(1) Suc_inject)
  ultimately show ?case by simp
qed auto

text \<open>The loop over the header accepts exactly the consecutive tables that end in the buffer.\<close>

lemma manifest_tables_iff:
  assumes "128 \<le> length b"
  shows "index + length tables \<le> 6 \<Longrightarrow> expected \<le> length b \<Longrightarrow>
   manifest_tables b index expected tables = Some (
     let cs = map (\<lambda>t. un32 (slice b (40 + t * 4) 4)) [index..<index + length tables];
         os = map (\<lambda>t. un32 (slice b (64 + t * 4) 4)) [index..<index + length tables];
         e = last (table_offsets expected (map unat cs) (map snd tables)) in
     if list_all2 (\<lambda>c t. unat c \<le> fst t) cs tables \<and> e \<le> length b \<and>
        map unat os @ [e] = table_offsets expected (map unat cs) (map snd tables)
     then Inr (cs, os, e) else Inl KB2_PROTOCOL_MALFORMED)"
proof (induction tables arbitrary: index expected)
  case (Cons lw tables)
  note [simp del] = upt_Suc
  obtain limit width where lw: "lw = (limit, width)" by fastforce
  define c where "c = un32 (slice b (40 + index * 4) 4)"
  define off where "off = un32 (slice b (64 + index * 4) 4)"
  define n where "n = expected + unat c * width"
  have loads: "load_u32 b (40 + index * 4) = Some c" "load_u32 b (64 + index * 4) = Some off"
    using Cons.prems assms by (simp_all add: load_u32_in c_def off_def)
  have upt: "[index..<index + length (lw # tables)] = index # [Suc index..<Suc index + length tables]"
    by (simp add: upt_conv_Cons del: upt_Suc)
  let ?cs = "map (\<lambda>t. un32 (slice b (40 + t * 4) 4)) [Suc index..<Suc index + length tables]"
  let ?os = "map (\<lambda>t. un32 (slice b (64 + t * 4) 4)) [Suc index..<Suc index + length tables]"
  let ?T = "table_offsets n (map unat ?cs) (map snd tables)"
  have T: "?T \<noteq> []" using length_table_offsets [of "map unat ?cs" "map snd tables" n] by auto
  have le: "n \<le> last ?T" by (rule table_offsets_le) simp
  have step: "manifest_tables b index expected (lw # tables) =
      (if limit < unat c \<or> unat off \<noteq> expected then Some (Inl KB2_PROTOCOL_MALFORMED)
       else if length b < n then Some (Inl KB2_PROTOCOL_MALFORMED)
       else check_then (manifest_tables b (Suc index) n tables)
         (\<lambda>(counts, offsets, end_offset). Some (Inr (c # counts, off # offsets, end_offset))))"
    by (simp add: lw loads n_def Let_def)
  show ?case
  proof (cases "n \<le> length b")
    case True
    have IH: "manifest_tables b (Suc index) n tables = Some (
      if list_all2 (\<lambda>c t. unat c \<le> fst t) ?cs tables \<and> last ?T \<le> length b \<and> map unat ?os @ [last ?T] = ?T
      then Inr (?cs, ?os, last ?T) else Inl KB2_PROTOCOL_MALFORMED)"
      using Cons.IH [of "Suc index" n] Cons.prems True by (simp add: Let_def)
    show ?thesis unfolding step IH upt using T True
      by (auto simp: lw Let_def n_def [symmetric] c_def [symmetric] off_def [symmetric])
  next
    case False
    then show ?thesis unfolding step upt using T le
      by (auto simp: lw Let_def n_def [symmetric] c_def [symmetric] off_def [symmetric])
  qed
qed simp

lemma map_upt_snoc: "map f [0..<7] = map f [0..<6] @ [f 6]"
proof -
  have "[0..<7] = [0..<6] @ [6::nat]" by (simp add: upt_rec)
  then show ?thesis by simp
qed

lemma manifest_view_iff: "manifest_view b = Some (Inr m) \<longleftrightarrow> header_spec b \<and> m = view_of b"
proof (cases "128 \<le> length b \<and> length b \<le> UINT32_MAX")
  case True
  then have len: "128 \<le> length b" "length b \<le> UINT32_MAX" by auto
  let ?tables = "zip manifest_limits manifest_sizes"
  let ?cs = "header_counts b"
  let ?os = "map (\<lambda>t. un32 (slice b (64 + t * 4) 4)) [0..<6]"
  let ?T = "table_offsets 128 (map unat ?cs) manifest_sizes"
  have lens: "length manifest_limits = 6" "length manifest_sizes = 6" "length ?tables = 6" "length ?cs = 6"
    by (simp_all add: manifest_limits_def manifest_sizes_def header_counts_def)
  have sizes: "map snd ?tables = manifest_sizes" using lens by simp
  have tables: "manifest_tables b 0 128 ?tables = Some (
      if list_all2 (\<lambda>c t. unat c \<le> fst t) ?cs ?tables \<and> last ?T \<le> length b \<and> map unat ?os @ [last ?T] = ?T
      then Inr (?cs, ?os, last ?T) else Inl KB2_PROTOCOL_MALFORMED)"
    using manifest_tables_iff [OF len(1), of 0 ?tables 128] len(1)
    unfolding sizes lens add_0 by (simp only: header_counts_def Let_def)
  have limits: "list_all2 (\<lambda>c t. unat c \<le> fst t) ?cs ?tables \<longleftrightarrow> (\<forall>t < 6. unat (?cs ! t) \<le> manifest_limits ! t)"
    using lens by (simp add: list_all2_conv_all_nth)
  have offsets: "header_offsets b = ?os @ [un32 (slice b 88 4)]"
    unfolding header_offsets_def map_upt_snoc by simp
  have strings: "header_offsets b ! 6 = un32 (slice b 88 4)"
    unfolding offsets by (simp add: nth_append)
  have lastT: "last (map unat (header_offsets b)) = unat (un32 (slice b 88 4))" unfolding offsets by simp
  have eq: "map unat ?os @ [last ?T] = ?T \<and> unat (un32 (slice b 88 4)) = last ?T \<longleftrightarrow> map unat (header_offsets b) = ?T"
    unfolding offsets map_append list.map by (metis last_snoc)
  define e where "e = last ?T"
  define L where "L \<longleftrightarrow> (\<forall>t < 6. unat (?cs ! t) \<le> manifest_limits ! t)"
  define Q where "Q \<longleftrightarrow> map unat ?os @ [e] = ?T"
  have view: "view_of b = \<lparr>mf_bytes = Some b, mf_size = length b, mf_counts = ?cs,
      mf_offsets = ?os @ [un32 (slice b 88 4)], mf_string_table_size = un32 (slice b 92 4)\<rparr>"
    by (simp add: view_of_def offsets)
  have tables': "manifest_tables b 0 128 ?tables =
      Some (if L \<and> e \<le> length b \<and> Q then Inr (?cs, ?os, e) else Inl KB2_PROTOCOL_MALFORMED)"
    unfolding tables limits L_def Q_def e_def ..
  have "manifest_view b = Some (Inr m) \<longleftrightarrow>
      slice b 4 4 = manifest_abi_identity \<and> slice b 8 32 = manifest_schema_digest \<and>
      unat (un32 (slice b 0 4)) = length b \<and> bytes_are_zero (slice b 96 32) \<and>
      (L \<and> e \<le> length b \<and> Q) \<and> ?cs ! ARTIFACTS \<noteq> 0 \<and> unat (un32 (slice b 88 4)) = e \<and>
      unat (un32 (slice b 92 4)) = length b - e \<and> m = view_of b"
    using len unfolding view by (simp add: manifest_view_def wire tables') (auto split: if_split_asm)
  also have "\<dots> \<longleftrightarrow> header_spec b \<and> m = view_of b"
    unfolding header_spec_def strings L_def [symmetric] eq [symmetric, folded e_def Q_def, unfolded Q_def [symmetric]]
    using len by auto
  finally show ?thesis .
next
  case False
  then show ?thesis by (auto simp: manifest_view_def header_spec_def)
qed

lemma view_typed: "header_spec b \<Longrightarrow> view_in (view_of b) b"
  using manifest_view_iff [of b "view_of b"] manifest_view_Inr(1) by blast

lemma decode_cases:
  assumes "kb2_closure_manifest_decode (Some b) True = r"
  obtains (refused) status where "manifest_view b = Some (Inl status)" "r = Some (status, Some manifest_zero)"
  | (malformed) "header_spec b" "\<not> (\<exists>t. has_tables (view_of b) t \<and> references_resolve t)"
      "r = Some (KB2_PROTOCOL_MALFORMED, Some manifest_zero)"
  | (accepted) "header_spec b" "\<exists>t. has_tables (view_of b) t \<and> references_resolve t"
      "r = Some (KB2_PROTOCOL_OK, Some (view_of b))"
proof -
  obtain v where v: "manifest_view b = Some v" using manifest_view_total by blast
  show ?thesis
  proof (cases v)
    case (Inl status)
    then show ?thesis using that(1) v assms by (simp add: kb2_closure_manifest_decode_def)
  next
    case (Inr m)
    then have m: "header_spec b" "m = view_of b" using v manifest_view_iff by auto
    then have "manifest_typed m" using view_typed by (auto simp: manifest_typed_def)
    note content = manifest_content_iff [OF this, unfolded m(2)]
    show ?thesis
    proof (cases "\<exists>t. has_tables (view_of b) t \<and> references_resolve t")
      case True
      then show ?thesis using that(3) m v Inr assms content by (simp add: kb2_closure_manifest_decode_def)
    next
      case False
      then have "manifest_content (view_of b) = Some (Inl KB2_PROTOCOL_MALFORMED)" using content by (simp only: if_False)
      then have "r = Some (KB2_PROTOCOL_MALFORMED, Some manifest_zero)"
        using m v Inr assms by (simp add: kb2_closure_manifest_decode_def)
      then show ?thesis using that(2) m(1) False by blast
    qed
  qed
qed

lemma manifest_view_Inl: "manifest_view b = Some (Inl status) \<Longrightarrow> status \<noteq> KB2_PROTOCOL_OK"
proof -
  assume v: "manifest_view b = Some (Inl status)"
  have "r \<noteq> KB2_PROTOCOL_OK" if "manifest_tables b i e ts = Some (Inl r)" for i e ts r
    using that
    by (induction b i e ts rule: manifest_tables.induct)
      (auto simp: Let_def check_then_def split: if_split_asm Option.bind_split_asm sum.split_asm)
  then show ?thesis using v
    by (auto simp: manifest_view_def check_then_def split: if_split_asm Option.bind_split_asm sum.split_asm)
qed

text \<open>C24. The manifest decoder decides the manifest contract. It answers OK for a buffer exactly when
  the header is right (identity, exact size, zero reserved bytes, counts within their limits, tables
  and strings that follow each other without a gap up to the end), every record of the six tables
  is acceptable with valid strings, node identifiers strictly ascend, some artifact is a root, and
  every dependency, export, import and binding names an artifact of the manifest; then it delivers
  the view of the header.\<close>

theorem kb2_closure_manifest_decode_correct:
  "kb2_closure_manifest_decode (Some b) True = Some (KB2_PROTOCOL_OK, out) \<longleftrightarrow>
     header_spec b \<and> out = Some (view_of b) \<and> (\<exists>t. has_tables (view_of b) t \<and> references_resolve t)"
proof (cases rule: decode_cases [of b, OF refl])
  case (1 status)
  then show ?thesis
    using manifest_view_Inl [OF 1(1)] manifest_view_iff [of b "view_of b"] by auto
next
  case 2
  then show ?thesis by simp
next
  case 3
  then show ?thesis by auto
qed

text \<open>C25. Views are typed. Whatever bytes arrive, the decoder stays inside them and writes either
  nothing, the cleared view, or a view whose tables and strings lie in the buffer; and on every view
  it can write, each of the six accessors stays inside the buffer for every index.\<close>

theorem kb2_closure_manifest_typed:
  "\<exists>status out. kb2_closure_manifest_decode buffer outs = Some (status, out) \<and>
     pred_option manifest_typed out \<and>
     pred_option (\<lambda>m. \<forall>i. kb2_closure_manifest_artifact (Some m) i True \<noteq> None \<and>
       kb2_closure_manifest_dependency (Some m) i True \<noteq> None \<and>
       kb2_closure_manifest_export (Some m) i True \<noteq> None \<and>
       kb2_closure_manifest_import (Some m) i True \<noteq> None \<and>
       kb2_closure_manifest_resource (Some m) i True \<noteq> None \<and>
       kb2_closure_manifest_binding (Some m) i True \<noteq> None) out"
proof -
  have typed: "\<exists>status out. kb2_closure_manifest_decode buffer outs = Some (status, out) \<and> pred_option manifest_typed out"
  proof (cases "\<exists>b. buffer = Some b \<and> outs")
    case True
    then obtain b where b: "buffer = Some b" "outs" by blast
    show ?thesis unfolding b(1) using b(2) view_typed [of b]
      by (cases rule: decode_cases [of b, OF refl]) (auto simp: manifest_typed_def)
  next
    case False
    then show ?thesis by (auto simp: kb2_closure_manifest_decode_def split: option.split)
  qed
  then obtain status out where d: "kb2_closure_manifest_decode buffer outs = Some (status, out)" "pred_option manifest_typed out"
    by blast
  then show ?thesis using accessor_total by (cases out) (auto simp del: not_None_eq; metis option.discI)+
qed

end
