(* ===== verification/Manifest_Encode.thy ===== *)
theory Manifest_Encode
  imports Closure_Manifest
begin

text \<open>
  The manifest encoder: it stays inside the buffer, writes exactly the size it announces, and what it
  writes for a source that satisfies the manifest contract is decoded to the records of the source.

  The encoder interleaves the records of a table with the strings they refer to. The proof separates
  them: \<open>pooled_codec\<close> is the contract of a record codec with strings, and gives a table of rows whose
  string references are resolved, followed by one pool of string bytes.
\<close>

section \<open>Records with strings\<close>

text \<open>The stores \<open>ws\<close> amount to the record stores \<open>rows\<close> and one string at the cursor.\<close>

definition splits :: "nat \<Rightarrow> nat \<Rightarrow> nat \<Rightarrow> writes \<Rightarrow> writes \<Rightarrow> bytes \<Rightarrow> bool" where
  "splits S hi cursor ws rows str \<longleftrightarrow> writes_in 0 hi ws \<and>
     (\<forall>b. hi \<le> length b \<longrightarrow> apply_writes b ws = put (apply_writes b rows) (S + cursor) str)"

lemma splits_append:
  assumes "splits S hi cursor ws rows str" "splits S hi (cursor + length str) ws' rows' str'"
    and rows: "writes_in 0 S rows" "writes_in 0 S rows'" and hi: "S + cursor + length str + length str' \<le> hi"
  shows "splits S hi cursor (ws @ ws') (rows @ rows') (str @ str')"
proof -
  have "apply_writes b (ws @ ws') = put (apply_writes b (rows @ rows')) (S + cursor) (str @ str')"
    if b: "hi \<le> length b" for b
  proof -
    let ?b = "apply_writes b rows" and ?b' = "apply_writes (apply_writes b rows) rows'"
    have len: "length ?b = length b" "length ?b' = length b"
      using b hi length_apply_writes [OF rows(1), of b] length_apply_writes [OF rows(2), of ?b] by auto
    have "apply_writes b (ws @ ws') = put (apply_writes (put ?b (S + cursor) str) rows') (S + (cursor + length str)) str'"
      using assms(1,2) b hi len by (simp add: splits_def)
    also have "apply_writes (put ?b (S + cursor) str) rows' = put ?b' (S + cursor) str"
      using b hi len by (intro apply_writes_put_commute [OF rows(2)]) auto
    also have "put (put ?b' (S + cursor) str) (S + (cursor + length str)) str' = put ?b' (S + cursor) (str @ str')"
      using put_put_append [of "S + cursor" str str' ?b'] b hi len by (simp add: add.assoc)
    finally show ?thesis by simp
  qed
  then show ?thesis using assms(1,2) by (simp add: splits_def)
qed

lemma splits_rows: "writes_in 0 S ws \<Longrightarrow> S + cursor \<le> hi \<Longrightarrow> splits S hi cursor ws ws []"
  using length_apply_writes [of 0 S ws] by (auto simp: splits_def elim: writes_in_mono)

locale pooled_codec = row_codec width wr rd row ok
  for width :: nat and wr :: "nat \<Rightarrow> 'v \<Rightarrow> writes" and rd :: "bytes \<Rightarrow> nat \<Rightarrow> 'r option"
    and row :: "'v \<Rightarrow> 'r" and ok :: "'v \<Rightarrow> bool" +
  fixes enc :: "nat \<Rightarrow> nat \<Rightarrow> nat \<Rightarrow> 'a \<Rightarrow> (writes \<times> nat) option"
    and resolve :: "nat \<Rightarrow> 'a \<Rightarrow> 'v"
    and strings :: "'a \<Rightarrow> bytes"
    and good :: "'a \<Rightarrow> bool"
  assumes resolve_ok: "good a \<Longrightarrow> ok (resolve cursor a)"
    and enc_splits: "good a \<Longrightarrow> \<exists>ws. enc S base cursor a = Some (ws, cursor + length (strings a)) \<and>
      (base + width \<le> S \<longrightarrow> S + cursor + length (strings a) \<le> hi \<longrightarrow>
        splits S hi cursor ws (wr base (resolve cursor a)) (strings a))"
begin

definition pool :: "'a list \<Rightarrow> bytes" where
  "pool as = concat (map strings as)"

fun resolved :: "nat \<Rightarrow> 'a list \<Rightarrow> 'v list" where
  "resolved cursor [] = []"
| "resolved cursor (a # as) = resolve cursor a # resolved (cursor + length (strings a)) as"

lemma length_resolved [simp]: "length (resolved cursor as) = length as"
  by (induction cursor as rule: resolved.induct) auto

lemma resolved_ok: "list_all good as \<Longrightarrow> list_all ok (resolved cursor as)"
  by (induction cursor as rule: resolved.induct) (auto simp: resolve_ok)

lemma nth_resolved: "i < length as \<Longrightarrow> resolved cursor as ! i = resolve (cursor + length (pool (take i as))) (as ! i)"
proof (induction cursor as arbitrary: i rule: resolved.induct)
  case (2 cursor a as)
  then show ?case by (cases i) (auto simp: pool_def add.assoc)
qed simp

lemma slice_pool:
  "i < length as \<Longrightarrow> slice (pool as) (length (pool (take i as))) (length (strings (as ! i))) = strings (as ! i)"
proof -
  assume i: "i < length as"
  have "as = take i as @ as ! i # drop (Suc i) as" using i by (rule id_take_nth_drop)
  then have "pool as = pool (take i as) @ strings (as ! i) @ pool (drop (Suc i) as)"
    unfolding pool_def by (metis concat.simps(2) concat_append list.map(2) map_append)
  then show ?thesis by (simp add: slice_def)
qed

lemma pool_bound: "i < length as \<Longrightarrow> length (pool (take i as)) + length (strings (as ! i)) \<le> length (pool as)"
proof -
  assume i: "i < length as"
  have "as = take i as @ as ! i # drop (Suc i) as" using i by (rule id_take_nth_drop)
  then have "pool as = pool (take i as) @ strings (as ! i) @ pool (drop (Suc i) as)"
    unfolding pool_def by (metis concat.simps(2) concat_append list.map(2) map_append)
  then show ?thesis by simp
qed

lemma encode_records_splits:
  "list_all good as \<Longrightarrow> \<exists>ws. encode_records (enc S) width base cursor as = Some (ws, cursor + length (pool as)) \<and>
     (base + length as * width \<le> S \<longrightarrow> S + cursor + length (pool as) \<le> hi \<longrightarrow>
       splits S hi cursor ws (table_writes wr width base (resolved cursor as)) (pool as))"
proof (induction as arbitrary: base cursor)
  case Nil
  then show ?case by (auto simp: pool_def intro: splits_rows)
next
  case (Cons a as)
  let ?c = "cursor + length (strings a)"
  let ?T = "table_writes wr width (base + width) (resolved ?c as)"
  have good: "good a" "list_all good as" using Cons.prems by auto
  obtain ws where ws: "enc S base cursor a = Some (ws, ?c)"
    "base + width \<le> S \<Longrightarrow> S + ?c \<le> hi \<Longrightarrow> splits S hi cursor ws (wr base (resolve cursor a)) (strings a)"
    using enc_splits [OF good(1), of S base cursor hi] by (auto simp: add.assoc)
  obtain rest where rest: "encode_records (enc S) width (base + width) ?c as = Some (rest, ?c + length (pool as))"
    "base + width + length as * width \<le> S \<Longrightarrow> S + ?c + length (pool as) \<le> hi \<Longrightarrow> splits S hi ?c rest ?T (pool as)"
    using Cons.IH [OF good(2), of "base + width" ?c] by auto
  have pool: "pool (a # as) = strings a @ pool as" by (simp add: pool_def)
  have "splits S hi cursor (ws @ rest) (wr base (resolve cursor a) @ ?T) (strings a @ pool as)"
    if "base + length (a # as) * width \<le> S" "S + cursor + length (pool (a # as)) \<le> hi"
    using ws(2) rest(2) that writes_in_mono [OF wr_in [OF resolve_ok [OF good(1), of cursor], of base]]
      writes_in_mono [OF rows_in [OF resolved_ok [OF good(2)], of "base + width" ?c]]
    by (intro splits_append) (auto simp: pool)
  then show ?case using ws(1) rest(1) by (auto simp: pool add.assoc)
qed

end

section \<open>String references\<close>

text \<open>Strings of length zero are stored as the reference \<open>(0, 0)\<close>.\<close>

definition storable :: "kb2_closure_string \<Rightarrow> bool" where
  "storable string \<longleftrightarrow> carray_count string = length (carray_list string)"

definition place :: "nat \<Rightarrow> kb2_closure_string \<Rightarrow> u32 \<times> u32" where
  "place cursor string = (if carray_count string = 0 then 0 else of_nat cursor, of_nat (carray_count string))"

definition reference_writes :: "nat \<Rightarrow> nat \<Rightarrow> nat \<Rightarrow> u32 \<times> u32 \<Rightarrow> writes" where
  "reference_writes base offset_field length_field ref =
     [(base + offset_field, le32 (fst ref)), (base + length_field, le32 (snd ref))]"

lemma store_string_reference_splits:
  assumes "storable string"
  shows "\<exists>ws. store_string_reference base f g S cursor string = Some (ws, cursor + length (carray_list string)) \<and>
    (base + f + 4 \<le> S \<longrightarrow> base + g + 4 \<le> S \<longrightarrow> S + cursor + length (carray_list string) \<le> hi \<longrightarrow>
      splits S hi cursor ws (reference_writes base f g (place cursor string)) (carray_list string))"
proof (cases "carray_count string = 0")
  case True
  then show ?thesis using assms
    by (auto simp: store_string_reference_def reference_writes_def place_def storable_def intro!: splits_rows)
next
  case False
  then obtain data where data: "string = Arr data" "data \<noteq> []"
    using assms by (cases string) (auto simp: storable_def carray_list_def)
  let ?r = "reference_writes base f g (place cursor string)"
  have *: "store_string_reference base f g S cursor string = Some ((S + cursor, data) # ?r, cursor + length data)"
    using data by (simp add: store_string_reference_def append_string_def reference_writes_def place_def)
  have "splits S hi cursor ((S + cursor, data) # ?r) ?r data"
    if "base + f + 4 \<le> S" "base + g + 4 \<le> S" "S + cursor + length data \<le> hi"
  proof -
    have "writes_in 0 S ?r" using that by (simp add: reference_writes_def)
    then show ?thesis using that apply_writes_put_commute [of 0 S ?r "S + cursor" data]
      by (auto simp: splits_def apply_writes.simps elim: writes_in_mono)
  qed
  then show ?thesis unfolding * by (simp add: data carray_list_def)
qed

lemma splits_prepend:
  assumes "writes_in 0 S fs" "splits S hi cursor ws rows str" "writes_in 0 S rows" "S + cursor + length str \<le> hi"
  shows "splits S hi cursor (fs @ ws) (fs @ rows) str"
  using splits_append [OF splits_rows [OF assms(1)], of cursor hi ws rows str] assms by simp

type_synonym string_ref = "u32 \<times> u32"

definition artifact_writes ::
    "nat \<Rightarrow> kb2_closure_manifest_artifact_t \<times> string_ref \<times> string_ref \<times> string_ref \<times> string_ref \<Rightarrow> writes" where
  "artifact_writes base v = (case v of (artifact, ns, i, q, c) \<Rightarrow>
     [(base, le32 (ma_node_id artifact)), (base + 4, le32 (ma_kind artifact)), (base + 8, le32 (ma_flags artifact)),
      (base + 16, le64 (ma_content_size artifact)), (base + 24, ma_content_digest artifact)] @
     reference_writes base 56 60 ns @ reference_writes base 64 68 i @ reference_writes base 72 76 q @
     reference_writes base 80 84 c)"

definition artifact_resolve ::
    "nat \<Rightarrow> kb2_closure_manifest_artifact_t \<Rightarrow>
     kb2_closure_manifest_artifact_t \<times> string_ref \<times> string_ref \<times> string_ref \<times> string_ref" where
  "artifact_resolve cursor artifact =
     (let c1 = cursor + length (carray_list (ma_namespace_name artifact));
          c2 = c1 + length (carray_list (ma_init_symbol artifact));
          c3 = c2 + length (carray_list (ma_quiesce_symbol artifact)) in
      (artifact, place cursor (ma_namespace_name artifact), place c1 (ma_init_symbol artifact),
       place c2 (ma_quiesce_symbol artifact), place c3 (ma_cleanup_symbol artifact)))"

definition artifact_strings :: "kb2_closure_manifest_artifact_t \<Rightarrow> bytes" where
  "artifact_strings artifact =
     carray_list (ma_namespace_name artifact) @ carray_list (ma_init_symbol artifact) @
     carray_list (ma_quiesce_symbol artifact) @ carray_list (ma_cleanup_symbol artifact)"

definition artifact_good :: "kb2_closure_manifest_artifact_t \<Rightarrow> bool" where
  "artifact_good artifact \<longleftrightarrow> length (ma_content_digest artifact) = 32 \<and> storable (ma_namespace_name artifact) \<and>
     storable (ma_init_symbol artifact) \<and> storable (ma_quiesce_symbol artifact) \<and> storable (ma_cleanup_symbol artifact)"

lemma artifact_writes_layout:
  "length (ma_content_digest (fst v)) = 32 \<Longrightarrow> layout base (base + 96) (artifact_writes base v)"
  by (cases v) (auto simp: layout_def artifact_writes_def reference_writes_def le32_def le64_def)

lemma encode_artifact_splits:
  assumes "artifact_good a"
  shows "\<exists>ws. encode_artifact S base cursor a = Some (ws, cursor + length (artifact_strings a)) \<and>
    (base + 96 \<le> S \<longrightarrow> S + cursor + length (artifact_strings a) \<le> hi \<longrightarrow>
      splits S hi cursor ws (artifact_writes base (artifact_resolve cursor a)) (artifact_strings a))"
proof -
  let ?s1 = "carray_list (ma_namespace_name a)" and ?s2 = "carray_list (ma_init_symbol a)"
    and ?s3 = "carray_list (ma_quiesce_symbol a)" and ?s4 = "carray_list (ma_cleanup_symbol a)"
  let ?c1 = "cursor + length ?s1" let ?c2 = "?c1 + length ?s2" let ?c3 = "?c2 + length ?s3"
  let ?f = "[(base, le32 (ma_node_id a)), (base + 4, le32 (ma_kind a)), (base + 8, le32 (ma_flags a)),
      (base + 16, le64 (ma_content_size a)), (base + 24, ma_content_digest a)]"
  let ?r1 = "reference_writes base 56 60 (place cursor (ma_namespace_name a))"
    and ?r2 = "reference_writes base 64 68 (place ?c1 (ma_init_symbol a))"
    and ?r3 = "reference_writes base 72 76 (place ?c2 (ma_quiesce_symbol a))"
    and ?r4 = "reference_writes base 80 84 (place ?c3 (ma_cleanup_symbol a))"
  have st: "storable (ma_namespace_name a)" "storable (ma_init_symbol a)" "storable (ma_quiesce_symbol a)"
    "storable (ma_cleanup_symbol a)" and d: "length (ma_content_digest a) = 32"
    using assms by (auto simp: artifact_good_def)
  obtain w1 w2 w3 w4 where e: "store_string_reference base 56 60 S cursor (ma_namespace_name a) = Some (w1, ?c1)"
      "store_string_reference base 64 68 S ?c1 (ma_init_symbol a) = Some (w2, ?c2)"
      "store_string_reference base 72 76 S ?c2 (ma_quiesce_symbol a) = Some (w3, ?c3)"
      "store_string_reference base 80 84 S ?c3 (ma_cleanup_symbol a) = Some (w4, ?c3 + length ?s4)"
    and sp: "base + 96 \<le> S \<Longrightarrow> S + ?c1 \<le> hi \<Longrightarrow> splits S hi cursor w1 ?r1 ?s1"
      "base + 96 \<le> S \<Longrightarrow> S + ?c2 \<le> hi \<Longrightarrow> splits S hi ?c1 w2 ?r2 ?s2"
      "base + 96 \<le> S \<Longrightarrow> S + ?c3 \<le> hi \<Longrightarrow> splits S hi ?c2 w3 ?r3 ?s3"
      "base + 96 \<le> S \<Longrightarrow> S + ?c3 + length ?s4 \<le> hi \<Longrightarrow> splits S hi ?c3 w4 ?r4 ?s4"
    using store_string_reference_splits [OF st(1), of base 56 60 S cursor hi]
      store_string_reference_splits [OF st(2), of base 64 68 S ?c1 hi]
      store_string_reference_splits [OF st(3), of base 72 76 S ?c2 hi]
      store_string_reference_splits [OF st(4), of base 80 84 S ?c3 hi] by (auto simp: add.assoc)
  have "encode_artifact S base cursor a = Some (?f @ w1 @ w2 @ w3 @ w4, ?c3 + length ?s4)"
    by (simp add: encode_artifact_def e)
  moreover have "splits S hi cursor (?f @ w1 @ w2 @ w3 @ w4) (?f @ ?r1 @ ?r2 @ ?r3 @ ?r4) (?s1 @ ?s2 @ ?s3 @ ?s4)"
    if fits: "base + 96 \<le> S" "S + ?c3 + length ?s4 \<le> hi"
  proof -
    have r: "writes_in 0 S ?f" "writes_in 0 S ?r1" "writes_in 0 S ?r2" "writes_in 0 S ?r3" "writes_in 0 S ?r4"
      using fits(1) d by (auto simp: reference_writes_def)
    have sp': "splits S hi cursor w1 ?r1 ?s1" "splits S hi ?c1 w2 ?r2 ?s2" "splits S hi ?c2 w3 ?r3 ?s3"
      "splits S hi ?c3 w4 ?r4 ?s4"
      using fits by (intro sp; linarith)+
    have "splits S hi ?c2 (w3 @ w4) (?r3 @ ?r4) (?s3 @ ?s4)"
      using fits(2) r by (intro splits_append [OF sp'(3,4)]) auto
    then have "splits S hi ?c1 (w2 @ w3 @ w4) (?r2 @ ?r3 @ ?r4) (?s2 @ ?s3 @ ?s4)"
      by (rule splits_append [OF sp'(2)]) (use fits(2) r in auto)
    then have "splits S hi cursor (w1 @ w2 @ w3 @ w4) (?r1 @ ?r2 @ ?r3 @ ?r4) (?s1 @ ?s2 @ ?s3 @ ?s4)"
      by (rule splits_append [OF sp'(1)]) (use fits(2) r in auto)
    then show ?thesis using fits(2) r by (intro splits_prepend) auto
  qed
  ultimately show ?thesis
    by (simp add: artifact_strings_def artifact_writes_def artifact_resolve_def Let_def add.assoc)
qed

type_synonym artifact_value = "kb2_closure_manifest_artifact_t \<times> string_ref \<times> string_ref \<times> string_ref \<times> string_ref"

definition artifact_fields ::
    "artifact_value \<Rightarrow> u32 \<times> u32 \<times> u32 \<times> u64 \<times> bytes \<times> string_ref \<times> string_ref \<times> string_ref \<times> string_ref \<times> bytes" where
  "artifact_fields v = (case v of (a, ns, i, q, c) \<Rightarrow>
     (ma_node_id a, ma_kind a, ma_flags a, ma_content_size a, ma_content_digest a, ns, i, q, c, zeros 12))"

lemma artifact_row_writes:
  assumes v: "length (ma_content_digest (fst v)) = 32" and b: "off + 96 \<le> length b" "slice b off 96 = zeros 96"
  shows "artifact_row (apply_writes b (artifact_writes off v)) off = Some (artifact_fields v)"
proof -
  obtain a n1 n2 i1 i2 q1 q2 c1 c2 where vs: "v = (a, (n1, n2), (i1, i2), (q1, q2), (c1, c2))"
    by (metis prod.exhaust)
  note lay = artifact_writes_layout [OF v, of off]
  have z: "zeros 4 @ zeros 8 = zeros 12" by (simp add: zeros_def flip: replicate_add)
  show ?thesis
    using slice_of_zeros [OF b(2), of 12 4] slice_of_zeros [OF b(2), of 88 8] v b(1)
      load_layout [OF lay, of b] load_gap [OF lay, of b]
    by (simp add: artifact_row_def artifact_writes_def artifact_fields_def reference_writes_def vs load_bytes_in z)
qed

interpretation artifact_codec: pooled_codec 96 artifact_writes artifact_row artifact_fields
  "\<lambda>v. length (ma_content_digest (fst v)) = 32" encode_artifact artifact_resolve artifact_strings artifact_good
proof unfold_locales
  fix off :: nat and b b' :: bytes
  assume "off + 96 \<le> length b" "off + 96 \<le> length b'" "slice b off 96 = slice b' off 96"
  then show "artifact_row b off = artifact_row b' off"
    by (simp add: artifact_row_def wire slice_eq_inside slice_eq_inside0 [of b off 96 b'])
next
  fix a cursor assume "artifact_good a"
  then show "length (ma_content_digest (fst (artifact_resolve cursor a))) = 32"
    by (simp add: artifact_good_def artifact_resolve_def Let_def)
next
  fix a S base cursor hi assume "artifact_good a"
  then show "\<exists>ws. encode_artifact S base cursor a = Some (ws, cursor + length (artifact_strings a)) \<and>
    (base + 96 \<le> S \<longrightarrow> S + cursor + length (artifact_strings a) \<le> hi \<longrightarrow>
      splits S hi cursor ws (artifact_writes base (artifact_resolve cursor a)) (artifact_strings a))"
    by (rule encode_artifact_splits)
qed (intro layout_in artifact_writes_layout artifact_row_writes artifact_row_in; assumption)+

definition export_writes :: "nat \<Rightarrow> kb2_closure_manifest_symbol_t \<times> string_ref \<Rightarrow> writes" where
  "export_writes base v = (case v of (symbol, name) \<Rightarrow>
     [(base, le32 (my_node_id symbol)), (base + 4, le32 (my_kind symbol))] @ reference_writes base 8 12 name)"

definition export_fields :: "kb2_closure_manifest_symbol_t \<times> string_ref \<Rightarrow> u32 \<times> u32 \<times> string_ref" where
  "export_fields v = (my_node_id (fst v), my_kind (fst v), snd v)"

definition export_resolve :: "nat \<Rightarrow> kb2_closure_manifest_symbol_t \<Rightarrow> kb2_closure_manifest_symbol_t \<times> string_ref" where
  "export_resolve cursor symbol = (symbol, place cursor (my_name symbol))"

lemma export_writes_layout: "layout base (base + 16) (export_writes base v)"
  by (cases v) (auto simp: layout_def export_writes_def reference_writes_def le32_def)

interpretation export_codec: pooled_codec 16 export_writes export_row export_fields "\<lambda>_. True"
  encode_export export_resolve "\<lambda>symbol. carray_list (my_name symbol)" "\<lambda>symbol. storable (my_name symbol)"
proof unfold_locales
  fix off :: nat and v :: "kb2_closure_manifest_symbol_t \<times> string_ref" and b :: bytes
  assume b: "off + 16 \<le> length b" "slice b off 16 = zeros 16"
  obtain a n1 n2 where vs: "v = (a, (n1, n2))" by (metis prod.exhaust)
  show "export_row (apply_writes b (export_writes off v)) off = Some (export_fields v)"
    using b(1) load_layout [OF export_writes_layout [of off v], of b]
    by (simp add: export_row_def export_writes_def export_fields_def reference_writes_def vs)
next
  fix off :: nat and b b' :: bytes
  assume "off + 16 \<le> length b" "off + 16 \<le> length b'" "slice b off 16 = slice b' off 16"
  then show "export_row b off = export_row b' off"
    by (simp add: export_row_def wire slice_eq_inside slice_eq_inside0 [of b off 16 b'])
next
  fix S base cursor hi :: nat and a :: kb2_closure_manifest_symbol_t
  assume st: "storable (my_name a)"
  let ?f = "[(base, le32 (my_node_id a)), (base + 4, le32 (my_kind a))]"
  obtain ws where ws: "store_string_reference base 8 12 S cursor (my_name a) = Some (ws, cursor + length (carray_list (my_name a)))"
    "base + 16 \<le> S \<Longrightarrow> S + cursor + length (carray_list (my_name a)) \<le> hi \<Longrightarrow>
      splits S hi cursor ws (reference_writes base 8 12 (place cursor (my_name a))) (carray_list (my_name a))"
    using store_string_reference_splits [OF st, of base 8 12 S cursor hi] by auto
  have "splits S hi cursor (?f @ ws) (?f @ reference_writes base 8 12 (place cursor (my_name a))) (carray_list (my_name a))"
    if fits: "base + 16 \<le> S" "S + cursor + length (carray_list (my_name a)) \<le> hi"
    by (rule splits_prepend [OF _ ws(2) [OF fits]]) (use fits in \<open>auto simp: reference_writes_def\<close>)
  then show "\<exists>ws. encode_export S base cursor a = Some (ws, cursor + length (carray_list (my_name a))) \<and>
    (base + 16 \<le> S \<longrightarrow> S + cursor + length (carray_list (my_name a)) \<le> hi \<longrightarrow>
      splits S hi cursor ws (export_writes base (export_resolve cursor a)) (carray_list (my_name a)))"
    using ws(1) by (simp add: encode_export_def export_writes_def export_resolve_def)
qed (intro TrueI layout_in export_writes_layout export_row_in; assumption?)+

definition import_writes :: "nat \<Rightarrow> kb2_closure_manifest_import_t \<times> string_ref \<times> string_ref \<Rightarrow> writes" where
  "import_writes base v = (case v of (entry, consumer, provider) \<Rightarrow>
     [(base, le32 (mi_consumer_node_id entry)), (base + 4, le32 (mi_provider_node_id entry)),
      (base + 8, le32 (mi_kind entry)), (base + 12, le32 (mi_flags entry))] @
     reference_writes base 16 20 consumer @ reference_writes base 24 28 provider)"

definition import_fields ::
    "kb2_closure_manifest_import_t \<times> string_ref \<times> string_ref \<Rightarrow> u32 \<times> u32 \<times> u32 \<times> u32 \<times> string_ref \<times> string_ref" where
  "import_fields v = (case v of (entry, consumer, provider) \<Rightarrow>
     (mi_consumer_node_id entry, mi_provider_node_id entry, mi_kind entry, mi_flags entry, consumer, provider))"

definition import_resolve ::
    "nat \<Rightarrow> kb2_closure_manifest_import_t \<Rightarrow> kb2_closure_manifest_import_t \<times> string_ref \<times> string_ref" where
  "import_resolve cursor entry = (entry, place cursor (mi_consumer_name entry),
     place (cursor + length (carray_list (mi_consumer_name entry))) (mi_provider_name entry))"

definition import_strings :: "kb2_closure_manifest_import_t \<Rightarrow> bytes" where
  "import_strings entry = carray_list (mi_consumer_name entry) @ carray_list (mi_provider_name entry)"

lemma import_writes_layout: "layout base (base + 32) (import_writes base v)"
  by (cases v) (auto simp: layout_def import_writes_def reference_writes_def le32_def)

lemma encode_import_splits:
  assumes st: "storable (mi_consumer_name a)" "storable (mi_provider_name a)"
  shows "\<exists>ws. encode_import S base cursor a = Some (ws, cursor + length (import_strings a)) \<and>
    (base + 32 \<le> S \<longrightarrow> S + cursor + length (import_strings a) \<le> hi \<longrightarrow>
      splits S hi cursor ws (import_writes base (import_resolve cursor a)) (import_strings a))"
proof -
  let ?s1 = "carray_list (mi_consumer_name a)" and ?s2 = "carray_list (mi_provider_name a)"
  let ?c1 = "cursor + length ?s1"
  let ?f = "[(base, le32 (mi_consumer_node_id a)), (base + 4, le32 (mi_provider_node_id a)),
      (base + 8, le32 (mi_kind a)), (base + 12, le32 (mi_flags a))]"
  let ?r1 = "reference_writes base 16 20 (place cursor (mi_consumer_name a))"
    and ?r2 = "reference_writes base 24 28 (place ?c1 (mi_provider_name a))"
  obtain w1 w2 where e: "store_string_reference base 16 20 S cursor (mi_consumer_name a) = Some (w1, ?c1)"
      "store_string_reference base 24 28 S ?c1 (mi_provider_name a) = Some (w2, ?c1 + length ?s2)"
    and sp: "base + 32 \<le> S \<Longrightarrow> S + ?c1 \<le> hi \<Longrightarrow> splits S hi cursor w1 ?r1 ?s1"
      "base + 32 \<le> S \<Longrightarrow> S + ?c1 + length ?s2 \<le> hi \<Longrightarrow> splits S hi ?c1 w2 ?r2 ?s2"
    using store_string_reference_splits [OF st(1), of base 16 20 S cursor hi]
      store_string_reference_splits [OF st(2), of base 24 28 S ?c1 hi] by (auto simp: add.assoc)
  have "splits S hi cursor (?f @ w1 @ w2) (?f @ ?r1 @ ?r2) (?s1 @ ?s2)"
    if fits: "base + 32 \<le> S" "S + ?c1 + length ?s2 \<le> hi"
  proof -
    have r: "writes_in 0 S ?f" "writes_in 0 S ?r1" "writes_in 0 S ?r2"
      using fits(1) by (auto simp: reference_writes_def)
    have sp': "splits S hi cursor w1 ?r1 ?s1" "splits S hi ?c1 w2 ?r2 ?s2" using fits by (intro sp; linarith)+
    have "splits S hi cursor (w1 @ w2) (?r1 @ ?r2) (?s1 @ ?s2)"
      using fits(2) r by (intro splits_append [OF sp']) auto
    then show ?thesis using fits(2) r by (intro splits_prepend) auto
  qed
  then show ?thesis using e
    by (simp add: encode_import_def import_strings_def import_writes_def import_resolve_def add.assoc)
qed

interpretation import_codec: pooled_codec 32 import_writes import_row import_fields "\<lambda>_. True"
  encode_import import_resolve import_strings "\<lambda>entry. storable (mi_consumer_name entry) \<and> storable (mi_provider_name entry)"
proof unfold_locales
  fix off :: nat and v :: "kb2_closure_manifest_import_t \<times> string_ref \<times> string_ref" and b :: bytes
  assume b: "off + 32 \<le> length b" "slice b off 32 = zeros 32"
  obtain a c1 c2 p1 p2 where vs: "v = (a, (c1, c2), (p1, p2))" by (metis prod.exhaust)
  show "import_row (apply_writes b (import_writes off v)) off = Some (import_fields v)"
    using b(1) load_layout [OF import_writes_layout [of off v], of b]
    by (simp add: import_row_def import_writes_def import_fields_def reference_writes_def vs)
next
  fix off :: nat and b b' :: bytes
  assume "off + 32 \<le> length b" "off + 32 \<le> length b'" "slice b off 32 = slice b' off 32"
  then show "import_row b off = import_row b' off"
    by (simp add: import_row_def wire slice_eq_inside slice_eq_inside0 [of b off 32 b'])
qed (auto intro: encode_import_splits layout_in [OF import_writes_layout] simp: import_row_in simp del: not_None_eq)

section \<open>Records without strings\<close>

text \<open>What the accessors check of a record beyond its strings.\<close>

definition dependency_ok :: "kb2_closure_manifest_dependency_t \<Rightarrow> bool" where
  "dependency_ok d \<longleftrightarrow> md_consumer_node_id d \<noteq> 0 \<and> md_provider_node_id d \<noteq> 0 \<and>
     md_consumer_node_id d \<noteq> md_provider_node_id d"

definition resource_ok :: "kb2_closure_manifest_resource_t \<Rightarrow> bool" where
  "resource_ok r \<longleftrightarrow> mr_slot_id r \<noteq> 0 \<and> \<not> mr_maximum_count r < mr_minimum_count r \<and>
     mr_required_rights r AND NOT (mr_maximum_rights r) = 0 \<and> \<not> bytes_are_zero (mr_interface_schema_digest r)"

definition binding_ok :: "kb2_closure_manifest_binding_t \<Rightarrow> bool" where
  "binding_ok x \<longleftrightarrow> mb_slot_id x \<noteq> 0 \<and> mb_node_id x \<noteq> 0"

definition answer :: "('v \<Rightarrow> bool) \<Rightarrow> 'v \<Rightarrow> kb2_protocol_status + 'v" where
  "answer ok v = (if ok v then Inr v else Inl KB2_PROTOCOL_MALFORMED)"

lemma encode_dependency_layout: "layout base (base + 8) (encode_dependency base d)"
  by (auto simp: layout_def encode_dependency_def le32_def)

lemma encode_binding_layout: "layout base (base + 8) (encode_binding base x)"
  by (auto simp: layout_def encode_binding_def le32_def)

lemma encode_resource_layout:
  "length (mr_interface_schema_digest r) = 32 \<Longrightarrow> layout base (base + 72) (encode_resource base r)"
  by (auto simp: layout_def encode_resource_def le32_def le64_def)

interpretation dependency_codec: row_codec 8 encode_dependency read_dependency "answer dependency_ok" "\<lambda>_. True"
proof unfold_locales
  fix off :: nat and v :: kb2_closure_manifest_dependency_t and b :: bytes
  assume "off + 8 \<le> length b"
  then show "read_dependency (apply_writes b (encode_dependency off v)) off = Some (answer dependency_ok v)"
    using load_layout [OF encode_dependency_layout [of off v], of b]
    by (simp add: read_dependency_def encode_dependency_def answer_def dependency_ok_def)
next
  fix off :: nat and b b' :: bytes
  assume "off + 8 \<le> length b" "off + 8 \<le> length b'" "slice b off 8 = slice b' off 8"
  then show "read_dependency b off = read_dependency b' off"
    by (simp add: read_dependency_def wire slice_eq_inside slice_eq_inside0 [of b off 8 b'])
qed (auto intro: layout_in [OF encode_dependency_layout] simp: read_plain_total)

interpretation binding_codec: row_codec 8 encode_binding read_binding "answer binding_ok" "\<lambda>_. True"
proof unfold_locales
  fix off :: nat and v :: kb2_closure_manifest_binding_t and b :: bytes
  assume "off + 8 \<le> length b"
  then show "read_binding (apply_writes b (encode_binding off v)) off = Some (answer binding_ok v)"
    using load_layout [OF encode_binding_layout [of off v], of b]
    by (simp add: read_binding_def encode_binding_def answer_def binding_ok_def)
next
  fix off :: nat and b b' :: bytes
  assume "off + 8 \<le> length b" "off + 8 \<le> length b'" "slice b off 8 = slice b' off 8"
  then show "read_binding b off = read_binding b' off"
    by (simp add: read_binding_def wire slice_eq_inside slice_eq_inside0 [of b off 8 b'])
qed (auto intro: layout_in [OF encode_binding_layout] simp: read_plain_total)

interpretation resource_codec: row_codec 72 encode_resource read_resource "answer resource_ok"
  "\<lambda>r. length (mr_interface_schema_digest r) = 32"
proof unfold_locales
  fix off :: nat and v :: kb2_closure_manifest_resource_t and b :: bytes
  assume v: "length (mr_interface_schema_digest v) = 32" and b: "off + 72 \<le> length b" "slice b off 72 = zeros 72"
  then show "read_resource (apply_writes b (encode_resource off v)) off = Some (answer resource_ok v)"
    using load_layout [OF encode_resource_layout [OF v, of off], of b]
      load_gap [OF encode_resource_layout [OF v, of off], of b] slice_of_zeros [OF b(2), of 36 4]
    by (simp add: read_resource_def encode_resource_def answer_def resource_ok_def load_bytes_in digest_is_zero_iff)
next
  fix off :: nat and b b' :: bytes
  assume "off + 72 \<le> length b" "off + 72 \<le> length b'" "slice b off 72 = slice b' off 72"
  then show "read_resource b off = read_resource b' off"
    by (simp add: read_resource_def wire slice_eq_inside slice_eq_inside0 [of b off 72 b'])
qed (auto intro: layout_in [OF encode_resource_layout] simp: read_plain_total)

section \<open>Sizes\<close>

definition artifact_names_ok :: "kb2_closure_manifest_artifact_t \<Rightarrow> bool" where
  "artifact_names_ok a \<longleftrightarrow> string_valid (ma_namespace_name a) \<and>
     (if native_artifact a
      then carray_count (ma_init_symbol a) = 0 \<and> carray_count (ma_quiesce_symbol a) = 0 \<and> carray_count (ma_cleanup_symbol a) = 0
      else string_valid (ma_init_symbol a) \<and> string_valid (ma_quiesce_symbol a) \<and> string_valid (ma_cleanup_symbol a))"

definition import_names_ok :: "kb2_closure_manifest_import_t \<Rightarrow> bool" where
  "import_names_ok i \<longleftrightarrow> string_valid (mi_consumer_name i) \<and> string_valid (mi_provider_name i)"

lemma storable_valid: "string_valid s \<Longrightarrow> storable s"
  by (cases s) (auto simp: string_valid_def storable_def carray_list_def)

lemma storable_empty: "carray_count s = 0 \<Longrightarrow> storable s"
  by (cases s) (auto simp: storable_def carray_list_def)

lemma artifact_names_storable:
  assumes "artifact_names_ok a"
  shows "storable (ma_namespace_name a)" "storable (ma_init_symbol a)" "storable (ma_quiesce_symbol a)"
    "storable (ma_cleanup_symbol a)"
  using assms by (auto simp: artifact_names_ok_def split: if_split_asm intro: storable_valid storable_empty)

lemma artifact_string_sizes_Some:
  "artifact_string_sizes as sz = Some n \<Longrightarrow> sz \<le> SIZE_MAX \<Longrightarrow>
   list_all artifact_names_ok as \<and> n = sz + length (artifact_codec.pool as) \<and> n \<le> SIZE_MAX"
proof (induction as arbitrary: sz)
  case (Cons a as)
  have ok: "artifact_names_ok a"
    using Cons.prems by (auto simp: artifact_names_ok_def split: if_split_asm)
  note st = artifact_names_storable [OF ok]
  have "artifact_string_sizes as (sz + length (artifact_strings a)) = Some n" "sz + length (artifact_strings a) \<le> SIZE_MAX"
    using Cons.prems st
    by (auto simp: add_size_exact storable_def artifact_strings_def add.assoc split: if_split_asm Option.bind_split_asm)
  from Cons.IH [OF this] show ?case using ok by (simp add: artifact_codec.pool_def add.assoc)
qed (simp add: artifact_codec.pool_def)

lemma export_string_sizes_Some:
  "export_string_sizes es sz = Some n \<Longrightarrow> sz \<le> SIZE_MAX \<Longrightarrow>
   list_all (\<lambda>e. string_valid (my_name e)) es \<and> n = sz + length (export_codec.pool es) \<and> n \<le> SIZE_MAX"
proof (induction es arbitrary: sz)
  case (Cons e es)
  have ok: "string_valid (my_name e)" using Cons.prems by (auto split: if_split_asm)
  have "export_string_sizes es (sz + length (carray_list (my_name e))) = Some n" "sz + length (carray_list (my_name e)) \<le> SIZE_MAX"
    using Cons.prems storable_valid [OF ok]
    by (auto simp: add_size_exact storable_def split: if_split_asm Option.bind_split_asm)
  from Cons.IH [OF this] show ?case using ok by (simp add: export_codec.pool_def add.assoc)
qed (simp add: export_codec.pool_def)

lemma import_string_sizes_Some:
  "import_string_sizes es sz = Some n \<Longrightarrow> sz \<le> SIZE_MAX \<Longrightarrow>
   list_all import_names_ok es \<and> n = sz + length (import_codec.pool es) \<and> n \<le> SIZE_MAX"
proof (induction es arbitrary: sz)
  case (Cons e es)
  have ok: "import_names_ok e" using Cons.prems by (auto simp: import_names_ok_def split: if_split_asm)
  then have st: "storable (mi_consumer_name e)" "storable (mi_provider_name e)"
    by (auto simp: import_names_ok_def intro: storable_valid)
  have "import_string_sizes es (sz + length (import_strings e)) = Some n" "sz + length (import_strings e) \<le> SIZE_MAX"
    using Cons.prems st
    by (auto simp: add_size_exact storable_def import_strings_def add.assoc split: if_split_asm Option.bind_split_asm)
  from Cons.IH [OF this] show ?case using ok by (simp add: import_codec.pool_def add.assoc)
qed (simp add: import_codec.pool_def)

text \<open>The three pools of a source, the tables as lists, and where everything lies.\<close>

definition source_tables :: "kb2_closure_manifest_source \<Rightarrow> manifest_tables_rec" where
  "source_tables src = \<lparr>t_artifacts = carray_list (ms_artifacts src), t_dependencies = carray_list (ms_dependencies src),
     t_exports = carray_list (ms_exports src), t_imports = carray_list (ms_imports src),
     t_resources = carray_list (ms_resources src), t_bindings = carray_list (ms_bindings src)\<rparr>"

definition names_ok :: "manifest_tables_rec \<Rightarrow> bool" where
  "names_ok t \<longleftrightarrow> list_all artifact_names_ok (t_artifacts t) \<and> list_all (\<lambda>e. string_valid (my_name e)) (t_exports t) \<and>
     list_all import_names_ok (t_imports t)"

definition table_lengths :: "manifest_tables_rec \<Rightarrow> nat list" where
  "table_lengths t = [length (t_artifacts t), length (t_dependencies t), length (t_exports t),
     length (t_imports t), length (t_resources t), length (t_bindings t)]"

definition toff :: "manifest_tables_rec \<Rightarrow> nat \<Rightarrow> nat" where
  "toff t k = table_offsets 128 (table_lengths t) manifest_sizes ! k"

definition pool_size :: "manifest_tables_rec \<Rightarrow> nat" where
  "pool_size t = length (artifact_codec.pool (t_artifacts t)) + length (export_codec.pool (t_exports t)) +
     length (import_codec.pool (t_imports t))"

definition image_size :: "manifest_tables_rec \<Rightarrow> nat" where
  "image_size t = toff t STRINGS + pool_size t"

lemma toff_simps:
  "toff t 0 = 128" "toff t (Suc 0) = 128 + length (t_artifacts t) * 96"
  "toff t 2 = 128 + length (t_artifacts t) * 96 + length (t_dependencies t) * 8"
  "toff t 3 = 128 + length (t_artifacts t) * 96 + length (t_dependencies t) * 8 + length (t_exports t) * 16"
  "toff t 4 = 128 + length (t_artifacts t) * 96 + length (t_dependencies t) * 8 + length (t_exports t) * 16 +
     length (t_imports t) * 32"
  "toff t 5 = 128 + length (t_artifacts t) * 96 + length (t_dependencies t) * 8 + length (t_exports t) * 16 +
     length (t_imports t) * 32 + length (t_resources t) * 72"
  "toff t 6 = 128 + length (t_artifacts t) * 96 + length (t_dependencies t) * 8 + length (t_exports t) * 16 +
     length (t_imports t) * 32 + length (t_resources t) * 72 + length (t_bindings t) * 8"
  by (simp_all add: toff_def table_lengths_def manifest_sizes_def)

definition lengths_ok :: "manifest_tables_rec \<Rightarrow> bool" where
  "lengths_ok t \<longleftrightarrow> t_artifacts t \<noteq> [] \<and> (\<forall>k < 6. table_lengths t ! k \<le> manifest_limits ! k)"

lemma all_less_6: "(\<forall>k < 6. P k) \<longleftrightarrow> P 0 \<and> P (Suc 0) \<and> P 2 \<and> P 3 \<and> P 4 \<and> P (5 :: nat)"
proof -
  have "k < 6 \<longleftrightarrow> k = 0 \<or> k = Suc 0 \<or> k = 2 \<or> k = 3 \<or> k = 4 \<or> k = 5" for k :: nat by linarith
  then show ?thesis by auto
qed

lemma source_valid_tables:
  assumes "manifest_source_valid (Some src)"
  shows "source_counts src = table_lengths (source_tables src)" "lengths_ok (source_tables src)"
    "list_all (\<lambda>r. \<not> bytes_are_zero (mr_interface_schema_digest r)) (t_resources (source_tables src))"
proof -
  have c: "carray_count x = length (carray_list x)" if "\<not> (carray_count x \<noteq> 0 \<and> is_null x)" for x :: "'a carray"
    using that by (cases x) (auto simp: carray_list_def is_null_def)
  have c': "carray_count x = length (carray_list x)" if "\<not> is_null x" for x :: "'a carray"
    using that by (cases x) (auto simp: carray_list_def is_null_def)
  have a: "\<not> is_null (ms_artifacts src)" "carray_count (ms_artifacts src) \<noteq> 0" "carray_count (ms_artifacts src) \<le> 4096"
    "carray_count (ms_dependencies src) \<le> 65536" "carray_count (ms_exports src) \<le> 65536"
    "carray_count (ms_imports src) \<le> 65536" "carray_count (ms_resources src) \<le> 16384"
    "carray_count (ms_bindings src) \<le> 65536"
    using assms by (auto simp: manifest_source_valid_def)
  have e: "carray_count (ms_artifacts src) = length (carray_list (ms_artifacts src))"
    "carray_count (ms_dependencies src) = length (carray_list (ms_dependencies src))"
    "carray_count (ms_exports src) = length (carray_list (ms_exports src))"
    "carray_count (ms_imports src) = length (carray_list (ms_imports src))"
    "carray_count (ms_resources src) = length (carray_list (ms_resources src))"
    "carray_count (ms_bindings src) = length (carray_list (ms_bindings src))"
    by (rule c'; fact a(1)) (rule c; use assms in \<open>unfold manifest_source_valid_def option.case, blast\<close>)+
  show "source_counts src = table_lengths (source_tables src)"
    by (simp add: source_counts_def table_lengths_def source_tables_def e)
  show "lengths_ok (source_tables src)"
    using a e by (auto simp: lengths_ok_def table_lengths_def source_tables_def manifest_limits_def all_less_6)
  show "list_all (\<lambda>r. \<not> bytes_are_zero (mr_interface_schema_digest r)) (t_resources (source_tables src))"
    using assms by (simp add: manifest_source_valid_def source_tables_def digest_is_zero_iff)
qed

lemma encoded_size_Inr:
  assumes "kb2_closure_manifest_encoded_size (Some src) True = Inr n"
  shows "manifest_source_valid (Some src)" "n = image_size (source_tables src)" "n \<le> UINT32_MAX"
    "names_ok (source_tables src)"
proof -
  show valid: "manifest_source_valid (Some src)"
    using assms by (auto simp: kb2_closure_manifest_encoded_size_def Let_def split: if_split_asm)
  have sum: "manifest_size_sum src = Some n"
    using assms by (auto simp: kb2_closure_manifest_encoded_size_def Let_def split: if_split_asm option.split_asm)
  then obtain total where total: "source_string_size src = Some total"
    by (auto simp: manifest_size_sum_def split: Option.bind_split_asm)
  obtain n1 n2 n3 where s: "artifact_string_sizes (carray_list (ms_artifacts src)) 0 = Some n1"
    "export_string_sizes (carray_list (ms_exports src)) n1 = Some n2"
    "import_string_sizes (carray_list (ms_imports src)) n2 = Some n3" "total = n3" "n3 \<le> UINT32_MAX"
    using total by (auto simp: source_string_size_def split: Option.bind_split_asm if_split_asm)
  note s1 = artifact_string_sizes_Some [OF s(1)]
  have s1': "n1 \<le> SIZE_MAX" using s1 by simp
  note s2 = export_string_sizes_Some [OF s(2) s1']
  have s2': "n2 \<le> SIZE_MAX" using s2 by simp
  note s3 = import_string_sizes_Some [OF s(3) s2']
  show "names_ok (source_tables src)" using s1 s2 s3 by (simp add: names_ok_def source_tables_def)
  have total': "total = pool_size (source_tables src)"
    using s1 s2 s3 s(4) by (simp add: pool_size_def source_tables_def)
  note cnt = source_valid_tables(1) [OF valid, unfolded source_counts_def table_lengths_def]
  show "n = image_size (source_tables src)" "n \<le> UINT32_MAX"
    using sum total cnt
    by (auto simp: manifest_size_sum_def add_size_exact SIZE_MAX_def image_size_def toff_simps total'
        split: Option.bind_split_asm if_split_asm)
qed

section \<open>The image of a source\<close>

definition tables_typed :: "manifest_tables_rec \<Rightarrow> bool" where
  "tables_typed t \<longleftrightarrow> list_all (\<lambda>a. length (ma_content_digest a) = 32) (t_artifacts t) \<and>
     list_all (\<lambda>r. length (mr_interface_schema_digest r) = 32) (t_resources t)"

definition header_writes :: "manifest_tables_rec \<Rightarrow> writes" where
  "header_writes t = manifest_header_writes (image_size t) (table_lengths t)
     (table_offsets 128 (table_lengths t) manifest_sizes)"

definition manifest_segments :: "manifest_tables_rec \<Rightarrow> (nat \<times> nat \<times> writes) list" where
  "manifest_segments t =
     (let S = toff t STRINGS; c1 = length (artifact_codec.pool (t_artifacts t));
          c2 = c1 + length (export_codec.pool (t_exports t)) in
      [(0, 128, header_writes t),
       (toff t ARTIFACTS, toff t DEPENDENCIES,
         table_writes artifact_writes 96 (toff t ARTIFACTS) (artifact_codec.resolved 0 (t_artifacts t))),
       (S, S + c1, [(S, artifact_codec.pool (t_artifacts t))]),
       (toff t DEPENDENCIES, toff t EXPORTS, table_writes encode_dependency 8 (toff t DEPENDENCIES) (t_dependencies t)),
       (toff t EXPORTS, toff t IMPORTS,
         table_writes export_writes 16 (toff t EXPORTS) (export_codec.resolved c1 (t_exports t))),
       (S + c1, S + c2, [(S + c1, export_codec.pool (t_exports t))]),
       (toff t IMPORTS, toff t RESOURCES,
         table_writes import_writes 32 (toff t IMPORTS) (import_codec.resolved c2 (t_imports t))),
       (S + c2, image_size t, [(S + c2, import_codec.pool (t_imports t))]),
       (toff t RESOURCES, toff t BINDINGS, table_writes encode_resource 72 (toff t RESOURCES) (t_resources t)),
       (toff t BINDINGS, S, table_writes encode_binding 8 (toff t BINDINGS) (t_bindings t))])"

lemma length_manifest_identity [simp]:
  "length manifest_abi_identity = 4" "length manifest_schema_digest = 32"
  by (simp_all add: manifest_abi_identity_def manifest_schema_digest_def)

lemma upt_6: "[0..<6] = [0, Suc 0, 2, 3, 4, 5]"
  by (simp add: upt_rec numeral_eq_Suc)

lemma header_writes_in: "writes_in 0 128 (header_writes t)"
  by (simp add: header_writes_def manifest_header_writes_def upt_6)

lemma names_good:
  assumes "names_ok t" "tables_typed t"
  shows "list_all artifact_good (t_artifacts t)" "list_all (\<lambda>e. storable (my_name e)) (t_exports t)"
    "list_all (\<lambda>i. storable (mi_consumer_name i) \<and> storable (mi_provider_name i)) (t_imports t)"
  using assms artifact_names_storable storable_valid
  by (auto simp: names_ok_def tables_typed_def list_all_iff artifact_good_def import_names_ok_def)

lemma manifest_segments_ok:
  assumes "names_ok t" "tables_typed t"
  shows "segments (image_size t) (manifest_segments t)"
proof -
  note good = names_good [OF assms]
  have res: "list_all (\<lambda>r. length (mr_interface_schema_digest r) = 32) (t_resources t)"
    using assms(2) by (simp add: tables_typed_def)
  let ?c1 = "length (artifact_codec.pool (t_artifacts t))"
  let ?c2 = "?c1 + length (export_codec.pool (t_exports t))"
  note w = artifact_codec.rows_in [OF artifact_codec.resolved_ok [OF good(1)], of "toff t 0" 0]
    export_codec.rows_in [OF export_codec.resolved_ok [OF good(2)], of "toff t 2" ?c1]
    import_codec.rows_in [OF import_codec.resolved_ok [OF good(3)], of "toff t 3" ?c2]
    dependency_codec.rows_in [OF list_all_True, of "toff t (Suc 0)" "t_dependencies t"]
    resource_codec.rows_in [OF res, of "toff t 4"]
    binding_codec.rows_in [OF list_all_True, of "toff t 5" "t_bindings t"]
  have w': "writes_in (toff t 0) (toff t (Suc 0)) (table_writes artifact_writes 96 (toff t 0) (artifact_codec.resolved 0 (t_artifacts t)))"
    "writes_in (toff t 2) (toff t 3) (table_writes export_writes 16 (toff t 2) (export_codec.resolved ?c1 (t_exports t)))"
    "writes_in (toff t 3) (toff t 4) (table_writes import_writes 32 (toff t 3) (import_codec.resolved ?c2 (t_imports t)))"
    "writes_in (toff t (Suc 0)) (toff t 2) (table_writes encode_dependency 8 (toff t (Suc 0)) (t_dependencies t))"
    "writes_in (toff t 4) (toff t 5) (table_writes encode_resource 72 (toff t 4) (t_resources t))"
    "writes_in (toff t 5) (toff t 6) (table_writes encode_binding 8 (toff t 5) (t_bindings t))"
    using w by (simp_all add: toff_simps)
  have mono: "128 \<le> toff t 0" "toff t 0 \<le> toff t (Suc 0)" "toff t (Suc 0) \<le> toff t 2" "toff t 2 \<le> toff t 3"
    "toff t 3 \<le> toff t 4" "toff t 4 \<le> toff t 5" "toff t 5 \<le> toff t 6"
    by (simp_all add: toff_simps)
  have n: "image_size t = toff t 6 + ?c2 + length (import_codec.pool (t_imports t))"
    by (simp add: image_size_def pool_size_def)
  show ?thesis
    unfolding manifest_segments_def Let_def segments_Cons
    using w' mono header_writes_in [of t] by (simp add: n segments_def One_nat_def [symmetric] del: One_nat_def)
qed

lemma splits_apply:
  "splits S hi cursor ws rows str \<Longrightarrow> hi \<le> length b \<Longrightarrow> apply_writes b ws = apply_writes b (rows @ [(S + cursor, str)])"
  by (simp add: splits_def apply_writes.simps)

lemma splits_in: "splits S hi cursor ws rows str \<Longrightarrow> writes_in 0 hi ws"
  by (simp add: splits_def)

text \<open>
  The encoder of a source with valid names stores the segments of its tables, up to the order of
  stores to different segments.
\<close>

lemma manifest_writes_image:
  fixes src
  defines "t \<equiv> source_tables src"
  assumes "names_ok t" "tables_typed t" "source_counts src = table_lengths t"
  shows "\<exists>ws. manifest_writes (image_size t) src = Some ((0, zeros (image_size t)) # ws) \<and> writes_in 0 (image_size t) ws \<and>
    (\<forall>b. image_size t \<le> length b \<longrightarrow> apply_writes b ws = apply_writes b (segment_writes (manifest_segments t)))"
proof -
  note good = names_good [OF assms(2,3)]
  let ?S = "toff t 6" and ?n = "image_size t"
  let ?c1 = "length (artifact_codec.pool (t_artifacts t))"
  let ?c2 = "?c1 + length (export_codec.pool (t_exports t))"
  have n: "?n = ?S + ?c2 + length (import_codec.pool (t_imports t))" by (simp add: image_size_def pool_size_def)
  have A: "toff t 0 + length (t_artifacts t) * 96 \<le> ?S" and E: "toff t 2 + length (t_exports t) * 16 \<le> ?S"
    and I: "toff t 3 + length (t_imports t) * 32 \<le> ?S" by (simp_all add: toff_simps)
  obtain wa where wa: "encode_records (encode_artifact ?S) 96 (toff t 0) 0 (t_artifacts t) = Some (wa, ?c1)"
    and sa: "splits ?S ?n 0 wa (table_writes artifact_writes 96 (toff t 0) (artifact_codec.resolved 0 (t_artifacts t)))
      (artifact_codec.pool (t_artifacts t))"
    using artifact_codec.encode_records_splits [OF good(1), of ?S "toff t 0" 0 ?n] A n by auto
  obtain we where we: "encode_records (encode_export ?S) 16 (toff t 2) ?c1 (t_exports t) = Some (we, ?c2)"
    and se: "splits ?S ?n ?c1 we (table_writes export_writes 16 (toff t 2) (export_codec.resolved ?c1 (t_exports t)))
      (export_codec.pool (t_exports t))"
    using export_codec.encode_records_splits [OF good(2), of ?S "toff t 2" ?c1 ?n] E n by auto
  obtain wi c3 where wi: "encode_records (encode_import ?S) 32 (toff t 3) ?c2 (t_imports t) = Some (wi, c3)"
    and si: "splits ?S ?n ?c2 wi (table_writes import_writes 32 (toff t 3) (import_codec.resolved ?c2 (t_imports t)))
      (import_codec.pool (t_imports t))"
    using import_codec.encode_records_splits [OF good(3), of ?S "toff t 3" ?c2 ?n] I n by auto
  let ?D = "table_writes encode_dependency 8 (toff t (Suc 0)) (t_dependencies t)"
  let ?R = "table_writes encode_resource 72 (toff t 4) (t_resources t)"
  let ?B = "table_writes encode_binding 8 (toff t 5) (t_bindings t)"
  let ?ws = "header_writes t @ wa @ ?D @ we @ wi @ ?R @ ?B"
  have eq: "manifest_writes ?n src = Some ((0, zeros ?n) # ?ws)"
    using wa we wi unfolding manifest_writes_def Let_def assms(4) header_writes_def toff_def t_def
    by (simp add: source_tables_def)
  have seg: "segments ?n (manifest_segments t)" by (rule manifest_segments_ok [OF assms(2,3)])
  have sub: "(toff t (Suc 0), toff t 2, ?D) \<in> set (manifest_segments t)" "(toff t 4, toff t 5, ?R) \<in> set (manifest_segments t)"
    "(toff t 5, ?S, ?B) \<in> set (manifest_segments t)" "(0, 128, header_writes t) \<in> set (manifest_segments t)"
    by (simp_all add: manifest_segments_def Let_def)
  have segin: "writes_in 0 ?n ws" if "(lo, hi, ws) \<in> set (manifest_segments t)" for lo hi ws
    using seg that by (auto simp: segments_def elim: writes_in_mono)
  have ins: "writes_in 0 ?n ?D" "writes_in 0 ?n ?R" "writes_in 0 ?n ?B" "writes_in 0 ?n (header_writes t)"
    using segin [OF sub(1)] segin [OF sub(2)] segin [OF sub(3)] segin [OF sub(4)] by auto
  have wsin: "writes_in 0 ?n ?ws"
    using ins splits_in [OF sa] splits_in [OF se] splits_in [OF si] by simp
  have "apply_writes b ?ws = apply_writes b (segment_writes (manifest_segments t))" if b: "?n \<le> length b" for b
  proof -
    have len: "length (apply_writes b ws) = length b" if "writes_in 0 ?n ws" for ws
      by (rule length_apply_writes [OF that b])
    let ?b1 = "apply_writes b (header_writes t)"
    have 1: "apply_writes ?b1 wa = apply_writes ?b1 (table_writes artifact_writes 96 (toff t 0)
        (artifact_codec.resolved 0 (t_artifacts t)) @ [(?S + 0, artifact_codec.pool (t_artifacts t))])"
      by (rule splits_apply [OF sa]) (use b len ins in simp)
    let ?b2 = "apply_writes b (header_writes t @ wa @ ?D)"
    have 2: "apply_writes ?b2 we = apply_writes ?b2 (table_writes export_writes 16 (toff t 2)
        (export_codec.resolved ?c1 (t_exports t)) @ [(?S + ?c1, export_codec.pool (t_exports t))])"
      by (rule splits_apply [OF se]) (use b len [of "header_writes t @ wa @ ?D"] ins splits_in [OF sa] in simp)
    let ?b3 = "apply_writes b (header_writes t @ wa @ ?D @ we)"
    have 3: "apply_writes ?b3 wi = apply_writes ?b3 (table_writes import_writes 32 (toff t 3)
        (import_codec.resolved ?c2 (t_imports t)) @ [(?S + ?c2, import_codec.pool (t_imports t))])"
      by (rule splits_apply [OF si])
        (use b len [of "header_writes t @ wa @ ?D @ we"] ins splits_in [OF sa] splits_in [OF se] in simp)
    show ?thesis
      using 1 2 3 by (simp add: segment_writes_def manifest_segments_def Let_def apply_writes.simps)
  qed
  then show ?thesis using eq wsin by blast
qed

lemma manifest_encode_image:
  assumes size: "kb2_closure_manifest_encoded_size (Some src) True = Inr n" and typed: "tables_typed (source_tables src)"
    and len: "n \<le> length b"
  shows "kb2_closure_manifest_encode (Some b) True (Some src) =
      Some (KB2_PROTOCOL_OK, Some n,
        Some (apply_writes (put b 0 (zeros n)) (segment_writes (manifest_segments (source_tables src)))))"
proof -
  note facts = encoded_size_Inr [OF size]
  obtain ws where ws: "manifest_writes n src = Some ((0, zeros n) # ws)" "writes_in 0 n ws"
    "\<And>b. n \<le> length b \<Longrightarrow> apply_writes b ws = apply_writes b (segment_writes (manifest_segments (source_tables src)))"
    using manifest_writes_image [OF facts(4) typed source_valid_tables(1) [OF facts(1)]] facts(2) by auto
  have "store_all b ((0, zeros n) # ws) = Some (apply_writes b ((0, zeros n) # ws))"
    using ws(2) len by (intro store_all_in [of 0 n]) auto
  then show ?thesis
    using ws len size by (simp add: kb2_closure_manifest_encode_def apply_writes.simps)
qed

section \<open>Reading the image\<close>

definition manifest_image :: "bytes \<Rightarrow> manifest_tables_rec \<Rightarrow> bytes" where
  "manifest_image b t = take (image_size t)
     (apply_writes (put b 0 (zeros (image_size t))) (segment_writes (manifest_segments t)))"

lemma slice_take: "off + k \<le> n \<Longrightarrow> slice (take n b) off k = slice b off k"
  by (simp add: slice_def drop_take min_def)

lemma image_facts:
  assumes "names_ok t" "tables_typed t" "image_size t \<le> length b"
  defines "z \<equiv> put b 0 (zeros (image_size t))"
  shows "length (manifest_image b t) = image_size t" "image_size t \<le> length z"
    and "off + k \<le> image_size t \<Longrightarrow> slice z off k = zeros k"
    and "(lo, hi, ws) \<in> set (manifest_segments t) \<Longrightarrow>
      slice (manifest_image b t) lo (hi - lo) = slice (apply_writes z ws) lo (hi - lo)"
proof -
  note seg = manifest_segments_ok [OF assms(1,2)]
  show z: "image_size t \<le> length z" using assms(3) by (simp add: z_def)
  show "length (manifest_image b t) = image_size t"
    using length_apply_writes [OF segments_in [OF seg], of z] z by (simp add: manifest_image_def z_def)
  show "off + k \<le> image_size t \<Longrightarrow> slice z off k = zeros k"
    using assms(3) by (simp add: z_def slice_put_inside slice_zeros)
  show "slice (manifest_image b t) lo (hi - lo) = slice (apply_writes z ws) lo (hi - lo)"
    if s: "(lo, hi, ws) \<in> set (manifest_segments t)"
  proof -
    have "lo \<le> hi" "hi \<le> image_size t" using seg s by (auto simp: segments_def)
    then show ?thesis
      using slice_segment [OF seg z s] by (simp add: manifest_image_def z_def [symmetric] slice_take)
  qed
qed

lemma header_writes_disjoint:
  "sorted_wrt (\<lambda>(p, xs) (q, ys). p + length xs \<le> q \<or> q + length ys \<le> p) (header_writes t)"
  by (simp add: header_writes_def manifest_header_writes_def upt_6)

lemma image_header:
  assumes "names_ok t" "tables_typed t" "image_size t \<le> length b"
  shows "(off, xs) \<in> set (header_writes t) \<Longrightarrow> slice (manifest_image b t) off (length xs) = xs"
    and "slice (manifest_image b t) 96 32 = zeros 32"
proof -
  note facts = image_facts [OF assms]
  let ?z = "put b 0 (zeros (image_size t))"
  have n: "128 \<le> image_size t" by (simp add: image_size_def toff_simps)
  have eq: "slice (manifest_image b t) 0 128 = slice (apply_writes ?z (header_writes t)) 0 128"
    using facts(4) [of 0 128 "header_writes t"] by (simp add: manifest_segments_def Let_def)
  show "slice (manifest_image b t) off (length xs) = xs" if x: "(off, xs) \<in> set (header_writes t)"
  proof -
    have "off + length xs \<le> 128" using header_writes_in [of t] x by (fastforce simp: writes_in_def)
    then have "slice (manifest_image b t) off (length xs) = slice (apply_writes ?z (header_writes t)) off (length xs)"
      using slice_eq_inside [OF eq, of off "length xs"] by simp
    also have "\<dots> = xs"
      using header_writes_disjoint header_writes_in facts(2) n x by (intro slice_writes [of _ 128]) auto
    finally show ?thesis .
  qed
  have "slice (manifest_image b t) 96 32 = slice (apply_writes ?z (header_writes t)) 96 32"
    using slice_eq_inside [OF eq, of 96 32] by simp
  also have "\<dots> = slice ?z 96 32"
    using header_writes_in [of t] facts(2) n
    by (intro slice_gap [of _ _ _ 0 128]) (auto simp: header_writes_def manifest_header_writes_def upt_6)
  also have "\<dots> = zeros 32" using facts(3) n by simp
  finally show "slice (manifest_image b t) 96 32 = zeros 32" .
qed

lemma header_entries:
  "(0, le32 (of_nat (image_size t))) \<in> set (header_writes t)"
  "(4, manifest_abi_identity) \<in> set (header_writes t)"
  "(8, manifest_schema_digest) \<in> set (header_writes t)"
  "k < 6 \<Longrightarrow> (40 + k * 4, le32 (of_nat (table_lengths t ! k))) \<in> set (header_writes t)"
  "k < 7 \<Longrightarrow> (64 + k * 4, le32 (of_nat (toff t k))) \<in> set (header_writes t)"
  "(92, le32 (of_nat (pool_size t))) \<in> set (header_writes t)"
proof -
  show "k < 7 \<Longrightarrow> (64 + k * 4, le32 (of_nat (toff t k))) \<in> set (header_writes t)"
    by (cases "k < 6") (auto simp: header_writes_def manifest_header_writes_def toff_def image_iff
        simp del: upt_rec_numeral dest: less_Suc_eq [THEN iffD1, of k 6, simplified])
  show "(92, le32 (of_nat (pool_size t))) \<in> set (header_writes t)"
    by (simp add: header_writes_def manifest_header_writes_def image_size_def toff_def)
qed (auto simp: header_writes_def manifest_header_writes_def)

lemma toff_le: "k < 7 \<Longrightarrow> toff t k \<le> image_size t"
proof -
  assume "k < 7"
  then have "k = 0 \<or> k = Suc 0 \<or> k = 2 \<or> k = 3 \<or> k = 4 \<or> k = 5 \<or> k = 6" by linarith
  then show ?thesis by (auto simp: image_size_def toff_simps)
qed

lemma length_toff: "map (toff t) [0..<7] = table_offsets 128 (table_lengths t) manifest_sizes"
proof -
  have "length (table_offsets 128 (table_lengths t) manifest_sizes) = 7"
    by (subst length_table_offsets) (simp_all add: table_lengths_def manifest_sizes_def)
  then show ?thesis by (intro nth_equalityI) (simp_all add: toff_def)
qed

lemma unat_small: "n \<le> UINT32_MAX \<Longrightarrow> unat (of_nat n :: u32) = n"
  by (rule unat_of_nat_u32) (simp add: UINT32_MAX_def)

lemma image_view:
  assumes t: "names_ok t" "tables_typed t" "image_size t \<le> length b" and ok: "lengths_ok t" "image_size t \<le> UINT32_MAX"
  shows "header_spec (manifest_image b t)"
    and "k < 6 \<Longrightarrow> unat (mf_counts (view_of (manifest_image b t)) ! k) = table_lengths t ! k"
    and "k < 7 \<Longrightarrow> unat (mf_offsets (view_of (manifest_image b t)) ! k) = toff t k"
    and "unat (mf_string_table_size (view_of (manifest_image b t))) = pool_size t"
proof -
  let ?b = "manifest_image b t"
  note len = image_facts(1) [OF t]
  have entry: "un32 (slice ?b off 4) = v" if "(off, le32 v) \<in> set (header_writes t)" for off v
    using image_header(1) [OF t that] by simp
  have small: "table_lengths t ! k \<le> UINT32_MAX" if "k < 6" for k
  proof -
    have "table_lengths t ! k \<le> manifest_limits ! k" using ok(1) that by (auto simp: lengths_ok_def)
    moreover have "\<forall>k < 6. manifest_limits ! k \<le> UINT32_MAX" by (simp add: all_less_6 manifest_limits_def UINT32_MAX_def)
    ultimately show ?thesis using that order_trans by blast
  qed
  have c: "unat (header_counts ?b ! k) = table_lengths t ! k" if "k < 6" for k
    using entry [OF header_entries(4) [OF that]] that small unat_small by (simp add: header_counts_def)
  have o: "unat (header_offsets ?b ! k) = toff t k" if "k < 7" for k
    using entry [OF header_entries(5) [OF that, of t]] that toff_le [OF that, of t] ok(2) unat_small
    by (simp add: header_offsets_def)
  have p: "unat (un32 (slice ?b 92 4)) = pool_size t"
    using entry [OF header_entries(6)] ok(2) by (simp add: unat_small image_size_def)
  have lens: "length (table_lengths t) = 6" by (simp add: table_lengths_def)
  have counts: "map unat (header_counts ?b) = table_lengths t"
    using c lens by (intro nth_equalityI) (auto simp: header_counts_def)
  have offs: "map unat (header_offsets ?b) = table_offsets 128 (table_lengths t) manifest_sizes"
    unfolding length_toff [symmetric] using o by (intro nth_equalityI) (auto simp: header_offsets_def simp del: upt_rec_numeral)
  have "unat (header_counts ?b ! 0) \<noteq> 0"
    using c [of 0] ok(1) by (simp add: table_lengths_def lengths_ok_def)
  then have "header_counts ?b ! 0 \<noteq> 0" by auto
  moreover have "128 \<le> image_size t" by (simp add: image_size_def toff_simps)
  moreover have "unat (un32 (slice ?b 0 4)) = image_size t"
    using entry [OF header_entries(1)] ok(2) by (simp add: unat_small)
  moreover have "slice ?b 4 4 = manifest_abi_identity" "slice ?b 8 32 = manifest_schema_digest"
    using image_header(1) [OF t header_entries(2)] image_header(1) [OF t header_entries(3)] by simp_all
  ultimately show "header_spec ?b"
    using ok image_header(2) [OF t] c o [of 6] p offs
    unfolding header_spec_def len counts by (simp add: lengths_ok_def image_size_def)
  show "k < 6 \<Longrightarrow> unat (mf_counts (view_of ?b) ! k) = table_lengths t ! k" using c by (simp add: view_of_def)
  show "k < 7 \<Longrightarrow> unat (mf_offsets (view_of ?b) ! k) = toff t k" using o by (simp add: view_of_def)
  show "unat (mf_string_table_size (view_of ?b)) = pool_size t" using p by (simp add: view_of_def)
qed

text \<open>A string that lies in the string table is found through its reference.\<close>

lemma decoded_string_place:
  assumes m: "mf_bytes m = Some b" "unat (mf_offsets m ! STRINGS) = S" "unat (mf_string_table_size m) = P" "S + P \<le> length b"
    and s: "string_valid string" "slice b (S + c) (length (carray_list string)) = carray_list string"
      "c + length (carray_list string) \<le> P"
  shows "decoded_string m (fst (place c string)) (snd (place c string)) = Some (Some string)"
proof -
  obtain data where data: "string = Arr data" "data \<noteq> []"
    using s(1) by (cases string) (auto simp: string_valid_def)
  have P: "P < 2 ^ 32" using unat_u32_lt [of "mf_string_table_size m"] m(3) by simp
  have u: "unat (of_nat c :: u32) = c" "unat (of_nat (length data) :: u32) = length data"
    using s(3) P data by (auto intro!: unat_of_nat_u32 simp: carray_list_def)
  have le: "of_nat c \<le> mf_string_table_size m" using s(3) data u m(3) by (simp add: word_le_nat_alt carray_list_def)
  then have "\<not> mf_string_table_size m < of_nat c" by simp
  moreover have "unat (mf_string_table_size m - of_nat c) = P - c" using le u m(3) by (simp add: unat_sub)
  then have "\<not> mf_string_table_size m - of_nat c < of_nat (length data)"
    using s(3) data u by (simp add: word_less_nat_alt carray_list_def)
  moreover have "S + c + length data \<le> length b" using s(3) m(4) data by (simp add: carray_list_def)
  ultimately show ?thesis
    using s m u data by (simp add: decoded_string_def place_def load_bytes_def carray_list_def)
qed

section \<open>Round trip\<close>

definition artifact_ok :: "kb2_closure_manifest_artifact_t \<Rightarrow> bool" where
  "artifact_ok a \<longleftrightarrow> ma_node_id a \<noteq> 0 \<and> ma_content_size a \<noteq> 0 \<and> \<not> 1 < ma_kind a \<and> ma_flags a AND NOT 3 = 0"

definition export_ok :: "kb2_closure_manifest_symbol_t \<Rightarrow> bool" where
  "export_ok e \<longleftrightarrow> my_node_id e \<noteq> 0 \<and> \<not> 1 < my_kind e"

definition import_ok :: "kb2_closure_manifest_import_t \<Rightarrow> bool" where
  "import_ok i \<longleftrightarrow> mi_consumer_node_id i \<noteq> 0 \<and> mi_consumer_node_id i \<noteq> mi_provider_node_id i \<and>
     \<not> 1 < mi_kind i \<and> mi_flags i AND NOT 1 = 0"

definition records_ok :: "manifest_tables_rec \<Rightarrow> bool" where
  "records_ok t \<longleftrightarrow> list_all artifact_ok (t_artifacts t) \<and> list_all dependency_ok (t_dependencies t) \<and>
     list_all export_ok (t_exports t) \<and> list_all import_ok (t_imports t) \<and>
     list_all resource_ok (t_resources t) \<and> list_all binding_ok (t_bindings t)"

text \<open>The decoder delivers the empty life-cycle names of a native artifact as NULL strings.\<close>

definition canonical_artifact :: "kb2_closure_manifest_artifact_t \<Rightarrow> kb2_closure_manifest_artifact_t" where
  "canonical_artifact a = (if native_artifact a
     then a\<lparr>ma_init_symbol := Null 0, ma_quiesce_symbol := Null 0, ma_cleanup_symbol := Null 0\<rparr> else a)"

definition canonical :: "manifest_tables_rec \<Rightarrow> manifest_tables_rec" where
  "canonical t = t\<lparr>t_artifacts := map canonical_artifact (t_artifacts t)\<rparr>"

lemma slice_append_parts:
  assumes "slice b off (length (xs @ ys)) = xs @ ys" "off + length (xs @ ys) \<le> length b"
  shows "slice b off (length xs) = xs" "slice b (off + length xs) (length ys) = ys"
proof -
  have "slice (slice b off (length (xs @ ys))) 0 (length xs) = slice b (off + 0) (length xs)"
    by (rule slice_slice) simp
  then show "slice b off (length xs) = xs" unfolding assms(1) by (simp add: slice_def)
  have "slice (slice b off (length (xs @ ys))) (length xs) (length ys) = slice b (off + length xs) (length ys)"
    by (rule slice_slice) simp
  then show "slice b (off + length xs) (length ys) = ys" unfolding assms(1) by (simp add: slice_def)
qed

lemma read_artifact_image:
  assumes m: "mf_bytes m = Some b" "unat (mf_offsets m ! STRINGS) = S" "unat (mf_string_table_size m) = P" "S + P \<le> length b"
    and row: "artifact_row b base = Some (artifact_fields (artifact_resolve c a))"
    and str: "slice b (S + c) (length (artifact_strings a)) = artifact_strings a" "c + length (artifact_strings a) \<le> P"
    and ok: "artifact_ok a" "artifact_names_ok a"
  shows "read_artifact m b base = Some (Inr (canonical_artifact a))"
proof -
  let ?s1 = "carray_list (ma_namespace_name a)" and ?s2 = "carray_list (ma_init_symbol a)"
    and ?s3 = "carray_list (ma_quiesce_symbol a)" and ?s4 = "carray_list (ma_cleanup_symbol a)"
  let ?c1 = "c + length ?s1" let ?c2 = "?c1 + length ?s2" let ?c3 = "?c2 + length ?s3"
  have bound: "S + c + length (?s1 @ ?s2 @ ?s3 @ ?s4) \<le> length b" using str(2) m(4) by (simp add: artifact_strings_def)
  note p1 = slice_append_parts [OF str(1) [unfolded artifact_strings_def] bound]
  have b2: "S + c + length ?s1 + length (?s2 @ ?s3 @ ?s4) \<le> length b" using bound by simp
  note p2 = slice_append_parts [OF p1(2) b2]
  have b3: "S + c + length ?s1 + length ?s2 + length (?s3 @ ?s4) \<le> length b" using bound by simp
  note p3 = slice_append_parts [OF p2(2) b3]
  note place = decoded_string_place [OF m]
  have ns: "decoded_string m (fst (place c (ma_namespace_name a))) (snd (place c (ma_namespace_name a))) = Some (Some (ma_namespace_name a))"
    using p1(1) ok(2) str(2) by (intro place) (auto simp: artifact_names_ok_def artifact_strings_def)
  have life: "decoded_lifecycle m (ma_flags a) (fst (place d s)) (snd (place d s)) = Some (Some (if native_artifact a then Null 0 else s))"
    if "if native_artifact a then carray_count s = 0 else string_valid s"
      "slice b (S + d) (length (carray_list s)) = carray_list s" "d + length (carray_list s) \<le> P" for d s
    using that place [of s d] by (auto simp: decoded_lifecycle_def native_artifact_def place_def split: if_split_asm)
  have life': "decoded_lifecycle m (ma_flags a) (fst (place ?c1 (ma_init_symbol a))) (snd (place ?c1 (ma_init_symbol a)))
        = Some (Some (if native_artifact a then Null 0 else ma_init_symbol a))"
      "decoded_lifecycle m (ma_flags a) (fst (place ?c2 (ma_quiesce_symbol a))) (snd (place ?c2 (ma_quiesce_symbol a)))
        = Some (Some (if native_artifact a then Null 0 else ma_quiesce_symbol a))"
      "decoded_lifecycle m (ma_flags a) (fst (place ?c3 (ma_cleanup_symbol a))) (snd (place ?c3 (ma_cleanup_symbol a)))
        = Some (Some (if native_artifact a then Null 0 else ma_cleanup_symbol a))"
    by (rule life; use p2(1) p3 str(2) ok(2) in \<open>auto simp: artifact_names_ok_def artifact_strings_def add.assoc\<close>)+
  show ?thesis
    using ok(1) by (simp add: read_artifact_def row artifact_fields_def artifact_resolve_def Let_def ns life' artifact_ok_def
        canonical_artifact_def)
qed

lemma read_export_image:
  assumes m: "mf_bytes m = Some b" "unat (mf_offsets m ! STRINGS) = S" "unat (mf_string_table_size m) = P" "S + P \<le> length b"
    and row: "export_row b base = Some (export_fields (export_resolve c e))"
    and str: "slice b (S + c) (length (carray_list (my_name e))) = carray_list (my_name e)" "c + length (carray_list (my_name e)) \<le> P"
    and ok: "export_ok e" "string_valid (my_name e)"
  shows "read_export m b base = Some (Inr e)"
  using ok decoded_string_place [OF m ok(2) str]
  by (simp add: read_export_def row export_fields_def export_resolve_def export_ok_def)

lemma read_import_image:
  assumes m: "mf_bytes m = Some b" "unat (mf_offsets m ! STRINGS) = S" "unat (mf_string_table_size m) = P" "S + P \<le> length b"
    and row: "import_row b base = Some (import_fields (import_resolve c i))"
    and str: "slice b (S + c) (length (import_strings i)) = import_strings i" "c + length (import_strings i) \<le> P"
    and ok: "import_ok i" "import_names_ok i"
  shows "read_import m b base = Some (Inr i)"
proof -
  let ?s1 = "carray_list (mi_consumer_name i)" and ?s2 = "carray_list (mi_provider_name i)"
  have "S + c + length (?s1 @ ?s2) \<le> length b" using str(2) m(4) by (simp add: import_strings_def)
  note p = slice_append_parts [OF str(1) [unfolded import_strings_def] this]
  have "decoded_string m (fst (place c (mi_consumer_name i))) (snd (place c (mi_consumer_name i))) = Some (Some (mi_consumer_name i))"
    "decoded_string m (fst (place (c + length ?s1) (mi_provider_name i))) (snd (place (c + length ?s1) (mi_provider_name i)))
      = Some (Some (mi_provider_name i))"
    by (rule decoded_string_place [OF m]; use p str(2) ok(2) in \<open>auto simp: import_names_ok_def import_strings_def add.assoc\<close>)+
  then show ?thesis
    using ok(1) by (simp add: read_import_def row import_fields_def import_resolve_def import_ok_def)
qed

lemma image_pool:
  assumes t: "names_ok t" "tables_typed t" "image_size t \<le> length b"
    and seg: "(lo, hi, [(lo, xs)]) \<in> set (manifest_segments t)" "hi = lo + length xs" and k: "k + l \<le> length xs"
  shows "slice (manifest_image b t) (lo + k) l = slice xs k l"
proof -
  note facts = image_facts [OF t]
  have "lo + length xs \<le> image_size t"
    using manifest_segments_ok [OF t(1,2)] seg by (auto simp: segments_def)
  then have "slice (manifest_image b t) lo (length xs) = xs"
    using facts(4) [OF seg(1)] facts(2) by (simp add: seg(2) apply_writes.simps slice_put_same)
  then show ?thesis using slice_slice [OF k, of "manifest_image b t" lo] by simp
qed

lemma image_rows:
  assumes t: "names_ok t" "tables_typed t" "image_size t \<le> length b"
  shows "i < length (t_artifacts t) \<Longrightarrow> artifact_row (manifest_image b t) (toff t 0 + i * 96) =
      Some (artifact_fields (artifact_codec.resolved 0 (t_artifacts t) ! i))"
    "i < length (t_dependencies t) \<Longrightarrow> read_dependency (manifest_image b t) (toff t (Suc 0) + i * 8) =
      Some (answer dependency_ok (t_dependencies t ! i))"
    "i < length (t_exports t) \<Longrightarrow> export_row (manifest_image b t) (toff t 2 + i * 16) =
      Some (export_fields (export_codec.resolved (length (artifact_codec.pool (t_artifacts t))) (t_exports t) ! i))"
    "i < length (t_imports t) \<Longrightarrow> import_row (manifest_image b t) (toff t 3 + i * 32) =
      Some (import_fields (import_codec.resolved (length (artifact_codec.pool (t_artifacts t)) +
        length (export_codec.pool (t_exports t))) (t_imports t) ! i))"
    "i < length (t_resources t) \<Longrightarrow> read_resource (manifest_image b t) (toff t 4 + i * 72) =
      Some (answer resource_ok (t_resources t ! i))"
    "i < length (t_bindings t) \<Longrightarrow> read_binding (manifest_image b t) (toff t 5 + i * 8) =
      Some (answer binding_ok (t_bindings t ! i))"
proof -
  note facts = image_facts [OF t]
  note good = names_good [OF t(1,2)]
  let ?z = "put b 0 (zeros (image_size t))" and ?b = "manifest_image b t"
  have fit: "toff t k + len * w \<le> length ?z \<and> toff t k + len * w \<le> length ?b \<and>
      slice ?z (toff t k) (len * w) = zeros (len * w) \<and> 
      slice ?b (toff t k) (len * w) = slice (apply_writes ?z ws) (toff t k) (len * w)"
    if "toff t (Suc k) = toff t k + len * w" "k < 6" "(toff t k, toff t (Suc k), ws) \<in> set (manifest_segments t)" for k len w ws
    using that facts(1,2) facts(3) [of "toff t k" "len * w"] facts(4) [OF that(3)] toff_le [of "Suc k" t] by auto
  have segs: "(toff t 0, toff t (Suc 0), table_writes artifact_writes 96 (toff t 0) (artifact_codec.resolved 0 (t_artifacts t))) \<in> set (manifest_segments t)"
    "(toff t 1, toff t (Suc 1), table_writes encode_dependency 8 (toff t 1) (t_dependencies t)) \<in> set (manifest_segments t)"
    "(toff t 2, toff t (Suc 2), table_writes export_writes 16 (toff t 2)
       (export_codec.resolved (length (artifact_codec.pool (t_artifacts t))) (t_exports t))) \<in> set (manifest_segments t)"
    "(toff t 3, toff t (Suc 3), table_writes import_writes 32 (toff t 3) (import_codec.resolved
       (length (artifact_codec.pool (t_artifacts t)) + length (export_codec.pool (t_exports t))) (t_imports t))) \<in> set (manifest_segments t)"
    "(toff t 4, toff t (Suc 4), table_writes encode_resource 72 (toff t 4) (t_resources t)) \<in> set (manifest_segments t)"
    "(toff t 5, toff t (Suc 5), table_writes encode_binding 8 (toff t 5) (t_bindings t)) \<in> set (manifest_segments t)"
    by (simp_all add: manifest_segments_def Let_def numeral_eq_Suc)
  have next_off: "toff t (Suc 0) = toff t 0 + length (t_artifacts t) * 96" "toff t (Suc 1) = toff t 1 + length (t_dependencies t) * 8"
    "toff t (Suc 2) = toff t 2 + length (t_exports t) * 16" "toff t (Suc 3) = toff t 3 + length (t_imports t) * 32"
    "toff t (Suc 4) = toff t 4 + length (t_resources t) * 72" "toff t (Suc 5) = toff t 5 + length (t_bindings t) * 8"
    using toff_simps [of t] by (simp_all add: numeral_2_eq_2 [symmetric])
  show "i < length (t_artifacts t) \<Longrightarrow> artifact_row ?b (toff t 0 + i * 96) =
      Some (artifact_fields (artifact_codec.resolved 0 (t_artifacts t) ! i))"
    using fit [OF next_off(1) _ segs(1)] by (intro artifact_codec.rd_rows_image [OF artifact_codec.resolved_ok [OF good(1)]]) auto
  show "i < length (t_exports t) \<Longrightarrow> export_row ?b (toff t 2 + i * 16) =
      Some (export_fields (export_codec.resolved (length (artifact_codec.pool (t_artifacts t))) (t_exports t) ! i))"
    using fit [OF next_off(3) _ segs(3)] by (intro export_codec.rd_rows_image [OF export_codec.resolved_ok [OF good(2)]]) auto
  show "i < length (t_imports t) \<Longrightarrow> import_row ?b (toff t 3 + i * 32) =
      Some (import_fields (import_codec.resolved (length (artifact_codec.pool (t_artifacts t)) +
        length (export_codec.pool (t_exports t))) (t_imports t) ! i))"
    using fit [OF next_off(4) _ segs(4)] by (intro import_codec.rd_rows_image [OF import_codec.resolved_ok [OF good(3)]]) auto
  show "i < length (t_dependencies t) \<Longrightarrow> read_dependency ?b (toff t (Suc 0) + i * 8) =
      Some (answer dependency_ok (t_dependencies t ! i))"
    using fit [OF next_off(2) _ segs(2)] by (intro dependency_codec.rd_rows_image [OF list_all_True]) auto
  show "i < length (t_resources t) \<Longrightarrow> read_resource ?b (toff t 4 + i * 72) =
      Some (answer resource_ok (t_resources t ! i))"
    using fit [OF next_off(5) _ segs(5)] t(2) by (intro resource_codec.rd_rows_image) (auto simp: tables_typed_def)
  show "i < length (t_bindings t) \<Longrightarrow> read_binding ?b (toff t 5 + i * 8) =
      Some (answer binding_ok (t_bindings t ! i))"
    using fit [OF next_off(6) _ segs(6)] by (intro binding_codec.rd_rows_image [OF list_all_True]) auto
qed

lemma image_strings:
  assumes t: "names_ok t" "tables_typed t" "image_size t \<le> length b"
  defines "S \<equiv> toff t 6" and "c1 \<equiv> length (artifact_codec.pool (t_artifacts t))"
    and "c2 \<equiv> length (artifact_codec.pool (t_artifacts t)) + length (export_codec.pool (t_exports t))"
  shows "k + l \<le> length (artifact_codec.pool (t_artifacts t)) \<Longrightarrow>
      slice (manifest_image b t) (S + k) l = slice (artifact_codec.pool (t_artifacts t)) k l"
    "k + l \<le> length (export_codec.pool (t_exports t)) \<Longrightarrow>
      slice (manifest_image b t) (S + c1 + k) l = slice (export_codec.pool (t_exports t)) k l"
    "k + l \<le> length (import_codec.pool (t_imports t)) \<Longrightarrow>
      slice (manifest_image b t) (S + c2 + k) l = slice (import_codec.pool (t_imports t)) k l"
proof -
  show "k + l \<le> length (artifact_codec.pool (t_artifacts t)) \<Longrightarrow>
      slice (manifest_image b t) (S + k) l = slice (artifact_codec.pool (t_artifacts t)) k l"
    by (rule image_pool [OF t, of _ "S + c1"]) (simp_all add: manifest_segments_def Let_def S_def c1_def)
  show "k + l \<le> length (export_codec.pool (t_exports t)) \<Longrightarrow>
      slice (manifest_image b t) (S + c1 + k) l = slice (export_codec.pool (t_exports t)) k l"
    by (rule image_pool [OF t, of _ "S + c2"]) (simp_all add: manifest_segments_def Let_def S_def c1_def c2_def)
  show "k + l \<le> length (import_codec.pool (t_imports t)) \<Longrightarrow>
      slice (manifest_image b t) (S + c2 + k) l = slice (import_codec.pool (t_imports t)) k l"
    by (rule image_pool [OF t, of _ "image_size t"])
      (simp_all add: manifest_segments_def Let_def S_def c2_def image_size_def pool_size_def)
qed

lemma image_tables:
  assumes t: "names_ok t" "tables_typed t" "image_size t \<le> length b" and ok: "lengths_ok t" "image_size t \<le> UINT32_MAX" "records_ok t"
  shows "has_tables (view_of (manifest_image b t)) (canonical t)"
proof -
  let ?b = "manifest_image b t" let ?m = "view_of ?b"
  let ?c1 = "length (artifact_codec.pool (t_artifacts t))" let ?c2 = "?c1 + length (export_codec.pool (t_exports t))"
  note view = image_view [OF t ok(1,2)]
  note rows = image_rows [OF t]
  note strs = image_strings [OF t]
  have vin: "view_in ?m ?b" by (rule view_typed [OF view(1)])
  have m: "mf_bytes ?m = Some ?b" "unat (mf_offsets ?m ! 6) = toff t 6" "unat (mf_string_table_size ?m) = pool_size t"
    "toff t 6 + pool_size t \<le> length ?b"
    using view(3) [of 6] view(4) image_facts(1) [OF t] by (simp_all add: view_of_def image_size_def)
  have names: "list_all artifact_names_ok (t_artifacts t)" "list_all (\<lambda>e. string_valid (my_name e)) (t_exports t)"
    "list_all import_names_ok (t_imports t)" using t(1) by (auto simp: names_ok_def)
  have rec: "list_all artifact_ok (t_artifacts t)" "list_all dependency_ok (t_dependencies t)" "list_all export_ok (t_exports t)"
    "list_all import_ok (t_imports t)" "list_all resource_ok (t_resources t)" "list_all binding_ok (t_bindings t)"
    using ok(3) by (auto simp: records_ok_def)
  have cnt: "unat (mf_counts ?m ! 0) = length (t_artifacts t)" "unat (mf_counts ?m ! Suc 0) = length (t_dependencies t)"
    "unat (mf_counts ?m ! 2) = length (t_exports t)" "unat (mf_counts ?m ! 3) = length (t_imports t)"
    "unat (mf_counts ?m ! 4) = length (t_resources t)" "unat (mf_counts ?m ! 5) = length (t_bindings t)"
    using view(2) by (simp_all add: table_lengths_def)
  have off: "unat (mf_offsets ?m ! k) = toff t k" if "k < 7" for k using view(3) [OF that] .
  have "kb2_closure_manifest_artifact (Some ?m) i True = Some (Inr (canonical_artifact (t_artifacts t ! i)))"
    if i: "i < length (t_artifacts t)" for i
  proof -
    let ?k = "length (artifact_codec.pool (take i (t_artifacts t)))"
    have "slice ?b (toff t 6 + ?k) (length (artifact_strings (t_artifacts t ! i))) = artifact_strings (t_artifacts t ! i)"
      using strs(1) [OF artifact_codec.pool_bound [OF i]] artifact_codec.slice_pool [OF i] by simp
    then have "read_artifact ?m ?b (toff t 0 + i * 96) = Some (Inr (canonical_artifact (t_artifacts t ! i)))"
      using artifact_codec.pool_bound [OF i] rows(1) [OF i] names(1) rec(1) i
      by (intro read_artifact_image [OF m, of _ ?k]) (auto simp: artifact_codec.nth_resolved pool_size_def list_all_length)
    then show ?thesis
      using with_record_in [OF vin, of 0 96 i read_artifact] i cnt(1) off [of 0] by (simp add: kb2_closure_manifest_artifact_def)
  qed
  moreover have "kb2_closure_manifest_export (Some ?m) i True = Some (Inr (t_exports t ! i))"
    if i: "i < length (t_exports t)" for i
  proof -
    let ?k = "length (export_codec.pool (take i (t_exports t)))"
    have "slice ?b (toff t 6 + (?c1 + ?k)) (length (carray_list (my_name (t_exports t ! i)))) = carray_list (my_name (t_exports t ! i))"
      using strs(2) [OF export_codec.pool_bound [OF i]] export_codec.slice_pool [OF i] by (simp add: add.assoc)
    then have "read_export ?m ?b (toff t 2 + i * 16) = Some (Inr (t_exports t ! i))"
      using export_codec.pool_bound [OF i] rows(3) [OF i] names(2) rec(3) i
      by (intro read_export_image [OF m, of _ "?c1 + ?k"]) (auto simp: export_codec.nth_resolved pool_size_def list_all_length)
    then show ?thesis
      using with_record_in [OF vin, of 2 16 i read_export] i cnt(3) off [of 2] by (simp add: kb2_closure_manifest_export_def)
  qed
  moreover have "kb2_closure_manifest_import (Some ?m) i True = Some (Inr (t_imports t ! i))"
    if i: "i < length (t_imports t)" for i
  proof -
    let ?k = "length (import_codec.pool (take i (t_imports t)))"
    have "slice ?b (toff t 6 + (?c2 + ?k)) (length (import_strings (t_imports t ! i))) = import_strings (t_imports t ! i)"
      using strs(3) [OF import_codec.pool_bound [OF i]] import_codec.slice_pool [OF i] by (simp add: add.assoc)
    then have "read_import ?m ?b (toff t 3 + i * 32) = Some (Inr (t_imports t ! i))"
      using import_codec.pool_bound [OF i] rows(4) [OF i] names(3) rec(4) i
      by (intro read_import_image [OF m, of _ "?c2 + ?k"]) (auto simp: import_codec.nth_resolved pool_size_def list_all_length)
    then show ?thesis
      using with_record_in [OF vin, of 3 32 i read_import] i cnt(4) off [of 3] by (simp add: kb2_closure_manifest_import_def)
  qed
  moreover have "kb2_closure_manifest_dependency (Some ?m) i True = Some (Inr (t_dependencies t ! i))"
    if i: "i < length (t_dependencies t)" for i
    using with_record_in [OF vin, of 1 8 i "\<lambda>_. read_dependency"] i cnt(2) off [of 1] rows(2) [OF i] rec(2)
    by (simp add: kb2_closure_manifest_dependency_def answer_def list_all_length)
  moreover have "kb2_closure_manifest_resource (Some ?m) i True = Some (Inr (t_resources t ! i))"
    if i: "i < length (t_resources t)" for i
    using with_record_in [OF vin, of 4 72 i "\<lambda>_. read_resource"] i cnt(5) off [of 4] rows(5) [OF i] rec(5)
    by (simp add: kb2_closure_manifest_resource_def answer_def list_all_length)
  moreover have "kb2_closure_manifest_binding (Some ?m) i True = Some (Inr (t_bindings t ! i))"
    if i: "i < length (t_bindings t)" for i
    using with_record_in [OF vin, of 5 8 i "\<lambda>_. read_binding"] i cnt(6) off [of 5] rows(6) [OF i] rec(6)
    by (simp add: kb2_closure_manifest_binding_def answer_def list_all_length)
  ultimately show ?thesis
    by (simp add: has_tables_def table_is_def count_defs cnt canonical_def)
qed

lemma references_canonical: "references_resolve (canonical t) \<longleftrightarrow> references_resolve t"
proof -
  have id: "ma_node_id (canonical_artifact a) = ma_node_id a" "root_artifact (canonical_artifact a) \<longleftrightarrow> root_artifact a" for a
    by (simp_all add: canonical_artifact_def root_artifact_def)
  then have "map ma_node_id (map canonical_artifact xs) = map ma_node_id xs" "nodes_of (map canonical_artifact xs) = nodes_of xs" for xs
    by (auto simp: nodes_of_def image_image)
  then show ?thesis by (simp add: references_resolve_def canonical_def id del: map_map)
qed

lemma manifest_image_decodes:
  assumes "kb2_closure_manifest_encoded_size (Some src) True = Inr n" "n \<le> length b"
    and "tables_typed (source_tables src)" "records_ok (source_tables src)" "references_resolve (source_tables src)"
  defines "i \<equiv> manifest_image b (source_tables src)"
  shows "has_tables (view_of i) (canonical (source_tables src))"
    "kb2_closure_manifest_decode (Some i) True = Some (KB2_PROTOCOL_OK, Some (view_of i))"
proof -
  let ?t = "source_tables src"
  note size = encoded_size_Inr [OF assms(1)]
  have len: "image_size ?t \<le> length b" using assms(2) size(2) by simp
  have lens: "lengths_ok ?t" by (rule source_valid_tables(2) [OF size(1)])
  have max: "image_size ?t \<le> UINT32_MAX" using size(2,3) by simp
  show tabs: "has_tables (view_of i) (canonical ?t)"
    unfolding i_def by (rule image_tables [OF size(4) assms(3) len lens max assms(4)])
  show "kb2_closure_manifest_decode (Some i) True = Some (KB2_PROTOCOL_OK, Some (view_of i))"
  proof (cases rule: decode_cases [of i, OF refl])
    case (1 status)
    then show ?thesis
      using image_view(1) [OF size(4) assms(3) len lens max] manifest_view_iff [of i "view_of i"]
      unfolding i_def by simp
  next
    case 2
    then show ?thesis using tabs assms(5) references_canonical by blast
  next
    case 3
    then show ?thesis by simp
  qed
qed

text \<open>C23. Manifests survive the wire. When the encoder succeeds on a source whose digests are 32 bytes
  long, it has written exactly the announced size and nothing behind it; and when the records are
  acceptable and their references resolve, decoding those bytes succeeds and the accessors deliver,
  record by record and string by string, the tables of the source, except that the empty life-cycle
  names of native artifacts come back as NULL strings.\<close>

theorem kb2_closure_manifest_roundtrip:
  assumes "kb2_closure_manifest_encode (Some b) True (Some src) = Some (KB2_PROTOCOL_OK, Some n, Some b')"
    and "tables_typed (source_tables src)" "records_ok (source_tables src)" "references_resolve (source_tables src)"
  shows "length b' = length b \<and> drop n b' = drop n b \<and>
    kb2_closure_manifest_decode (Some (take n b')) True = Some (KB2_PROTOCOL_OK, Some (view_of (take n b'))) \<and>
    has_tables (view_of (take n b')) (canonical (source_tables src))"
proof -
  let ?t = "source_tables src"
  obtain k where k: "kb2_closure_manifest_encoded_size (Some src) True = Inr k" "k \<le> length b"
    using assms(1) by (auto simp: kb2_closure_manifest_encode_def split: sum.split_asm if_split_asm)
  note enc = manifest_encode_image [OF k(1) assms(2) k(2)]
  note size = encoded_size_Inr [OF k(1)]
  have n: "n = image_size ?t" and b': "b' = apply_writes (put b 0 (zeros n)) (segment_writes (manifest_segments ?t))"
    using enc assms(1) size(2) by auto
  have len: "image_size ?t \<le> length b" using k(2) size(2) by simp
  have image: "take n b' = manifest_image b ?t" by (simp add: manifest_image_def b' n)
  note dec = manifest_image_decodes [OF k assms(2-4), folded image]
  have win: "writes_in 0 n ((0, zeros n) # segment_writes (manifest_segments ?t))"
    using segments_in [OF manifest_segments_ok [OF size(4) assms(2)]] n by simp
  have "length b' = length b \<and> drop n b' = drop n b"
    using length_apply_writes [OF win, of b] drop_apply_writes [OF win, of b] len n
    by (simp add: b' apply_writes.simps)
  then show ?thesis using dec by blast
qed

definition sample_name :: "bytes \<Rightarrow> kb2_closure_string" where
  "sample_name s = Arr s"

definition sample_source :: kb2_closure_manifest_source where
  "sample_source = \<lparr>
     ms_artifacts = Arr [
       \<lparr>ma_node_id = 1, ma_kind = 0, ma_flags = 2, ma_content_size = 64, ma_content_digest = replicate 32 7,
         ma_namespace_name = sample_name [0x6c], ma_init_symbol = Null 0, ma_quiesce_symbol = Null 0,
         ma_cleanup_symbol = Arr []\<rparr>,
       \<lparr>ma_node_id = 2, ma_kind = 1, ma_flags = 1, ma_content_size = 32, ma_content_digest = replicate 32 9,
         ma_namespace_name = sample_name [0x6d], ma_init_symbol = sample_name [0x69, 0x6e],
         ma_quiesce_symbol = sample_name [0x71], ma_cleanup_symbol = sample_name [0x63]\<rparr>],
     ms_dependencies = Arr [\<lparr>md_consumer_node_id = 2, md_provider_node_id = 1\<rparr>],
     ms_exports = Arr [\<lparr>my_node_id = 1, my_kind = 0, my_name = sample_name [0x66]\<rparr>],
     ms_imports = Arr [\<lparr>mi_consumer_node_id = 2, mi_provider_node_id = 1, mi_kind = 0, mi_flags = 0,
       mi_consumer_name = sample_name [0x66], mi_provider_name = sample_name [0x67]\<rparr>],
     ms_resources = Arr [\<lparr>mr_slot_id = 1, mr_type = 0, mr_minimum_count = 1, mr_maximum_count = 2, mr_required_rights = 1,
       mr_maximum_rights = 3, mr_flags = 1, mr_interface_schema_digest = replicate 32 5\<rparr>],
     ms_bindings = Arr [\<lparr>mb_slot_id = 1, mb_node_id = 2\<rparr>]\<rparr>"

lemma sample_encoded_size: "kb2_closure_manifest_encoded_size (Some sample_source) True = Inr 465"
  by (simp add: kb2_closure_manifest_encoded_size_def manifest_source_valid_def sample_source_def is_null_def carray_list_def
      digest_is_zero_iff bytes_are_zero_def manifest_size_sum_def source_string_size_def string_valid_def sample_name_def
      native_artifact_def add_size_exact SIZE_MAX_def UINT32_MAX_def Let_def list_all_iff)

lemma sample_tables:
  "tables_typed (source_tables sample_source)" "records_ok (source_tables sample_source)"
  "references_resolve (source_tables sample_source)"
  by (simp_all add: tables_typed_def records_ok_def references_resolve_def source_tables_def sample_source_def carray_list_def
      artifact_ok_def dependency_ok_def export_ok_def import_ok_def resource_ok_def binding_ok_def bytes_are_zero_def
      root_artifact_def nodes_of_def list_all_iff)

theorem kb2_closure_manifest_roundtrip_witness:
  "\<exists>b'. kb2_closure_manifest_encode (Some (zeros 500)) True (Some sample_source) = Some (KB2_PROTOCOL_OK, Some 465, Some b') \<and>
     kb2_closure_manifest_decode (Some (take 465 b')) True = Some (KB2_PROTOCOL_OK, Some (view_of (take 465 b'))) \<and>
     kb2_closure_manifest_export (Some (view_of (take 465 b'))) 0 True =
       Some (Inr \<lparr>my_node_id = 1, my_kind = 0, my_name = Arr [0x66]\<rparr>)"
proof -
  have len: "465 \<le> length (zeros 500)" by simp
  note enc = manifest_encode_image [OF sample_encoded_size sample_tables(1) len]
  note rt = kb2_closure_manifest_roundtrip [OF enc sample_tables]
  show ?thesis
    using rt enc by (auto simp: has_tables_def table_is_def canonical_def source_tables_def sample_source_def carray_list_def sample_name_def)
qed

text \<open>C26. The manifest encoder is safe. For a source whose digests are 32 bytes long it never stores
  outside the buffer and never dereferences a NULL string, and unless it answers OK the buffer is
  unchanged.\<close>

theorem kb2_closure_manifest_encode_safe:
  assumes "tables_typed (source_tables src)"
  shows "\<exists>status n out. kb2_closure_manifest_encode buffer outs (Some src) = Some (status, n, out) \<and>
    (status = KB2_PROTOCOL_OK \<or> n = None \<and> out = buffer)"
proof (cases buffer)
  case (Some b)
  show ?thesis
  proof (cases "kb2_closure_manifest_encoded_size (Some src) True")
    case (Inr k)
    then show ?thesis
      using manifest_encode_image [OF Inr assms, of b] Some
      by (cases "outs \<and> k \<le> length b") (auto simp: kb2_closure_manifest_encode_def)
  qed (auto simp: kb2_closure_manifest_encode_def Some)
qed (simp add: kb2_closure_manifest_encode_def)

theorem kb2_closure_manifest_encode_safe_witness:
  "kb2_closure_manifest_encode (Some (zeros 10)) True (Some sample_source) = Some (KB2_PROTOCOL_BUFFER_TOO_SMALL, None, Some (zeros 10))"
proof -
  have "kb2_closure_manifest_encode (Some (zeros 10)) True (Some sample_source) \<noteq> None"
    using kb2_closure_manifest_encode_safe [OF sample_tables(1), of "Some (zeros 10)" True] by auto
  then show ?thesis by (simp add: kb2_closure_manifest_encode_def sample_encoded_size)
qed

end
