(* ===== verification/Sha256.thy ===== *)
theory Sha256
  imports Prelude
begin

text \<open>
  SHA-256, \<open>protocol/src/sha256.c\<close>, and its specification after FIPS 180-4. The context of the
  code buffers a partial block; the specification pads the whole message and folds the
  compression function over its blocks.
\<close>

unbundle bit_operations_syntax

section \<open>The code\<close>

record kb2_sha256_context =
  cx_state :: "u32 list"
  cx_byte_count :: u64
  cx_block :: bytes
  cx_block_size :: nat

definition rotate_right :: "u32 \<Rightarrow> nat \<Rightarrow> u32" where
  "rotate_right v shift = drop_bit shift v OR push_bit (32 - shift) v"

definition load_be32 :: "bytes \<Rightarrow> u32" where
  "load_be32 b = push_bit 24 (ucast (b ! 0)) OR push_bit 16 (ucast (b ! 1)) OR push_bit 8 (ucast (b ! 2)) OR ucast (b ! 3)"

definition store_be32 :: "u32 \<Rightarrow> bytes" where
  "store_be32 v = [ucast (drop_bit 24 v), ucast (drop_bit 16 v), ucast (drop_bit 8 v), ucast v]"

text \<open>
  The array \<open>constants\<close>. Its 64 entries are the first 32 bits of the fractional parts of the cube
  roots of the first 64 primes, and that is how they are written here: the root is extracted
  digit by digit, three bits of the radicand at a time, with the root \<open>r\<close>, its square \<open>s\<close> and the
  remainder \<open>m\<close>. \<open>sha256_constant_first\<close> and \<open>sha256_constant_last\<close> show the ends of the array
  as the source spells them; the test vector below depends on every entry.
\<close>

definition first_primes :: "int list" where
  "first_primes = [2, 3, 5, 7, 11, 13, 17, 19, 23, 29, 31, 37, 41, 43, 47, 53, 59, 61, 67, 71, 73, 79, 83, 89, 97,
     101, 103, 107, 109, 113, 127, 131, 137, 139, 149, 151, 157, 163, 167, 173, 179, 181, 191, 193, 197, 199,
     211, 223, 227, 229, 233, 239, 241, 251, 257, 263, 269, 271, 277, 281, 283, 293, 307, 311]"

fun cube_root_step :: "int \<Rightarrow> int \<times> int \<times> int \<Rightarrow> int \<times> int \<times> int" where
  "cube_root_step d (r, s, m) =
     (let r = 2 * r; s = 4 * s; m = 8 * m + d; y = 3 * s + 3 * r + 1 in
      if y \<le> m then (r + 1, s + 2 * r + 1, m - y) else (r, s, m))"

definition cube_root_32 :: "int \<Rightarrow> int" where
  "cube_root_32 p = fst (fold cube_root_step ([p div 64, p div 8 mod 8, p mod 8] @ replicate 32 0) (0, 0, 0))"

definition sha256_constants :: "nat \<Rightarrow> u32" where
  "sha256_constants index = word_of_int (cube_root_32 (first_primes ! index))"

definition sha256_initial :: "u32 list" where
  "sha256_initial = [0x6a09e667, 0xbb67ae85, 0x3c6ef372, 0xa54ff53a, 0x510e527f, 0x9b05688c, 0x1f83d9ab, 0x5be0cd19]"

text \<open>The message schedule: the array \<open>words\<close> as far as it is filled.\<close>

definition schedule_word :: "u32 list \<Rightarrow> nat \<Rightarrow> u32" where
  "schedule_word words index =
     (let w15 = words ! (index - 15); w2 = words ! (index - 2);
          s0 = rotate_right w15 7 XOR rotate_right w15 18 XOR drop_bit 3 w15;
          s1 = rotate_right w2 17 XOR rotate_right w2 19 XOR drop_bit 10 w2 in
      words ! (index - 16) + s0 + words ! (index - 7) + s1)"

definition schedule :: "bytes \<Rightarrow> u32 list" where
  "schedule block = fold (\<lambda>index words. words @ [schedule_word words index]) [16..<64]
     (map (\<lambda>index. load_be32 (drop (index * 4) block)) [0..<16])"

type_synonym registers = "u32 \<times> u32 \<times> u32 \<times> u32 \<times> u32 \<times> u32 \<times> u32 \<times> u32"

fun sha256_round :: "u32 list \<Rightarrow> nat \<Rightarrow> registers \<Rightarrow> registers" where
  "sha256_round words index (a, b, c, d, e, f, g, h) =
     (let sum1 = rotate_right e 6 XOR rotate_right e 11 XOR rotate_right e 25;
          choice = (e AND f) XOR (NOT e AND g);
          temporary1 = h + sum1 + choice + sha256_constants index + words ! index;
          sum0 = rotate_right a 2 XOR rotate_right a 13 XOR rotate_right a 22;
          majority = (a AND b) XOR (a AND c) XOR (b AND c);
          temporary2 = sum0 + majority in
      (temporary1 + temporary2, a, b, c, d + temporary1, e, f, g))"

definition registers_of :: "u32 list \<Rightarrow> registers" where
  "registers_of s = (s ! 0, s ! 1, s ! 2, s ! 3, s ! 4, s ! 5, s ! 6, s ! 7)"

fun add_registers :: "u32 list \<Rightarrow> registers \<Rightarrow> u32 list" where
  "add_registers s (a, b, c, d, e, f, g, h) =
     [s ! 0 + a, s ! 1 + b, s ! 2 + c, s ! 3 + d, s ! 4 + e, s ! 5 + f, s ! 6 + g, s ! 7 + h]"

definition sha256_transform :: "kb2_sha256_context \<Rightarrow> bytes \<Rightarrow> kb2_sha256_context" where
  "sha256_transform context block =
     context\<lparr>cx_state := add_registers (cx_state context)
       (fold (sha256_round (schedule block)) [0..<64] (registers_of (cx_state context)))\<rparr>"

definition kb2_sha256_initialize :: "kb2_sha256_context option \<Rightarrow> kb2_sha256_context option" where
  "kb2_sha256_initialize context = map_option (\<lambda>_. \<lparr>cx_state = sha256_initial, cx_byte_count = 0,
     cx_block = zeros 64, cx_block_size = 0\<rparr>) context"

text \<open>
  The loop of \<open>kb2_sha256_update\<close>. It is undefined for a fill level above the block size, where
  \<open>available\<close> would wrap around.
\<close>

function update_loop :: "kb2_sha256_context \<Rightarrow> bytes \<Rightarrow> kb2_sha256_context option" where
  "update_loop context bytes =
     (if bytes = [] then Some context
      else if 64 < cx_block_size context then None
      else
        let available = 64 - cx_block_size context;
            count = (if length bytes < available then length bytes else available);
            context = context\<lparr>cx_block := put (cx_block context) (cx_block_size context) (take count bytes),
              cx_block_size := cx_block_size context + count\<rparr> in
        update_loop
          (if cx_block_size context = 64
           then (sha256_transform context (cx_block context))\<lparr>cx_block_size := 0\<rparr> else context)
          (drop count bytes))"
  by pat_completeness auto
termination
  by (relation "measures [\<lambda>(context, bytes). length bytes, \<lambda>(context, bytes). cx_block_size context]")
    (auto simp: sha256_transform_def)

declare update_loop.simps [simp del]

text \<open>The outer \<open>option\<close> is undefined behaviour, the inner one a NULL context.\<close>

definition kb2_sha256_update :: "kb2_sha256_context option \<Rightarrow> u8 carray \<Rightarrow> kb2_sha256_context option option" where
  "kb2_sha256_update context data =
     (case (context, data) of
        (Some cx, Arr bytes) \<Rightarrow>
          if (-1) - cx_byte_count cx < of_nat (length bytes) then Some context
          else map_option Some (update_loop (cx\<lparr>cx_byte_count := cx_byte_count cx + of_nat (length bytes)\<rparr>) bytes)
      | _ \<Rightarrow> Some context)"

definition zero_context :: kb2_sha256_context where
  "zero_context = \<lparr>cx_state = replicate 8 0, cx_byte_count = 0, cx_block = zeros 64, cx_block_size = 0\<rparr>"

definition finish_blocks :: "kb2_sha256_context \<Rightarrow> kb2_sha256_context" where
  "finish_blocks cx =
     (let bit_count = cx_byte_count cx * 8;
          cx = cx\<lparr>cx_block := put (cx_block cx) (cx_block_size cx) [0x80], cx_block_size := cx_block_size cx + 1\<rparr>;
          cx = (if 56 < cx_block_size cx
                then (sha256_transform cx (put (cx_block cx) (cx_block_size cx) (zeros (64 - cx_block_size cx))))
                       \<lparr>cx_block := put (cx_block cx) (cx_block_size cx) (zeros (64 - cx_block_size cx)), cx_block_size := 0\<rparr>
                else cx);
          block = put (cx_block cx) (cx_block_size cx) (zeros (56 - cx_block_size cx));
          block = put block 56 (map (\<lambda>index. ucast (drop_bit ((7 - index) * 8) bit_count)) [0..<8]) in
      sha256_transform (cx\<lparr>cx_block := block\<rparr>) block)"

definition kb2_sha256_finish ::
    "kb2_sha256_context option \<Rightarrow> bool \<Rightarrow> bytes option \<times> kb2_sha256_context option" where
  "kb2_sha256_finish context digest =
     (case context of
        None \<Rightarrow> (None, context)
      | Some cx \<Rightarrow> if \<not> digest then (None, context)
          else (Some (concat (map store_be32 (cx_state (finish_blocks cx)))), Some zero_context))"

definition kb2_sha256 :: "u8 carray \<Rightarrow> bool \<Rightarrow> bytes option option" where
  "kb2_sha256 data digest =
     (if \<not> digest \<or> (case data of Null n \<Rightarrow> n \<noteq> 0 | Arr _ \<Rightarrow> False) then Some None
      else map_option (\<lambda>cx. fst (kb2_sha256_finish cx digest))
        (kb2_sha256_update (kb2_sha256_initialize (Some zero_context)) data))"


section \<open>The standard\<close>

definition Ch :: "u32 \<Rightarrow> u32 \<Rightarrow> u32 \<Rightarrow> u32" where
  "Ch x y z = (x AND y) XOR (NOT x AND z)"

definition Maj :: "u32 \<Rightarrow> u32 \<Rightarrow> u32 \<Rightarrow> u32" where
  "Maj x y z = (x AND y) XOR (x AND z) XOR (y AND z)"

definition Sigma0 :: "u32 \<Rightarrow> u32" where "Sigma0 x = word_rotr 2 x XOR word_rotr 13 x XOR word_rotr 22 x"
definition Sigma1 :: "u32 \<Rightarrow> u32" where "Sigma1 x = word_rotr 6 x XOR word_rotr 11 x XOR word_rotr 25 x"
definition sigma0 :: "u32 \<Rightarrow> u32" where "sigma0 x = word_rotr 7 x XOR word_rotr 18 x XOR drop_bit 3 x"
definition sigma1 :: "u32 \<Rightarrow> u32" where "sigma1 x = word_rotr 17 x XOR word_rotr 19 x XOR drop_bit 10 x"

text \<open>Words are big-endian: the reversal of a little-endian image.\<close>

fun message_word :: "bytes \<Rightarrow> nat \<Rightarrow> u32" where
  "message_word block t =
     (if t < 16 then un32 (rev (take 4 (drop (4 * t) block)))
      else sigma1 (message_word block (t - 2)) + message_word block (t - 7) +
        sigma0 (message_word block (t - 15)) + message_word block (t - 16))"

declare message_word.simps [simp del]

fun compress_step :: "bytes \<Rightarrow> nat \<Rightarrow> registers \<Rightarrow> registers" where
  "compress_step block t (a, b, c, d, e, f, g, h) =
     (let T1 = h + Sigma1 e + Ch e f g + sha256_constants t + message_word block t;
          T2 = Sigma0 a + Maj a b c in
      (T1 + T2, a, b, c, d + T1, e, f, g))"

definition compress :: "bytes \<Rightarrow> u32 list \<Rightarrow> u32 list" where
  "compress block H = add_registers H (fold (compress_step block) [0..<64] (registers_of H))"

function blocks :: "bytes \<Rightarrow> bytes list" where
  "blocks m = (if m = [] then [] else take 64 m # blocks (drop 64 m))"
  by pat_completeness auto
termination
  by (relation "measure length") (auto simp: length_greater_0_conv [symmetric] simp del: length_greater_0_conv)

declare blocks.simps [simp del]

text \<open>
  The padding of the standard, whose length field has 64 bits. The standard defines digests of
  messages of fewer than \<open>2 ^ 64\<close> bits; for longer ones the field holds the length modulo
  \<open>2 ^ 64\<close>, as the code computes it.
\<close>

definition pad :: "bytes \<Rightarrow> bytes" where
  "pad m = m @ [0x80] @ zeros ((119 - length m mod 64) mod 64) @ rev (le64 (8 * of_nat (length m)))"

definition sha256_of :: "bytes \<Rightarrow> bytes" where
  "sha256_of m = concat (map (\<lambda>v. rev (le32 v)) (fold compress (blocks (pad m)) sha256_initial))"

section \<open>The constants\<close>

lemma sha256_constant_first: "sha256_constants 0 = 0x428a2f98"
  by code_simp

lemma sha256_constant_last: "sha256_constants 63 = 0xc67178f2"
  by code_simp

text \<open>\<open>(r, s, m)\<close> is the root of \<open>n\<close> rounded down, its square and the remainder.\<close>

definition cube_rooted :: "int \<Rightarrow> int \<times> int \<times> int \<Rightarrow> bool" where
  "cube_rooted n x = (case x of (r, s, m) \<Rightarrow> 0 \<le> r \<and> s = r * r \<and> m = n - r ^ 3 \<and> 0 \<le> m \<and> n < (r + 1) ^ 3)"

lemma cube_root_step_rooted:
  assumes "cube_rooted n x" "0 \<le> d" "d < 8"
  shows "cube_rooted (8 * n + d) (cube_root_step d x)"
proof (cases x)
  case (fields r s m)
  have r: "0 \<le> r" and s: "s = r * r" and m: "m = n - r ^ 3" "0 \<le> m" "n + 1 \<le> (r + 1) ^ 3"
    using assms fields by (auto simp: cube_rooted_def)
  have up: "8 * n + d < (2 * r + 2) ^ 3"
    using m(3) assms by (simp add: power3_eq_cube algebra_simps)
  have y: "3 * (4 * s) + 3 * (2 * r) + 1 = (2 * r + 1) ^ 3 - 8 * r ^ 3"
    by (simp add: s power3_eq_cube algebra_simps)
  show ?thesis
    using r up m assms y
    by (simp add: fields cube_rooted_def Let_def s m power3_eq_cube algebra_simps)
qed

lemma cube_root_fold:
  "cube_rooted n x \<Longrightarrow> \<forall>d \<in> set ds. 0 \<le> d \<and> d < 8 \<Longrightarrow>
   cube_rooted (foldl (\<lambda>n d. 8 * n + d) n ds) (fold cube_root_step ds x)"
  by (induction ds arbitrary: n x) (auto simp: cube_root_step_rooted)

lemma foldl_zeros: "foldl (\<lambda>n d. 8 * n + d) n (replicate k 0) = n * 8 ^ k" for n :: int
  by (induction k arbitrary: n) auto

lemma cube_root_digits:
  assumes "0 \<le> p" "p < 512"
  shows "cube_rooted (p * 8 ^ k) (fold cube_root_step ([p div 64, p div 8 mod 8, p mod 8] @ replicate k 0) (0, 0, 0))"
proof -
  let ?ds = "[p div 64, p div 8 mod 8, p mod 8] @ replicate k 0"
  have "cube_rooted 0 (0, 0, 0)" by (simp add: cube_rooted_def)
  moreover have "\<forall>d \<in> set ?ds. 0 \<le> d \<and> d < 8" using assms by auto
  ultimately have "cube_rooted (foldl (\<lambda>n d. 8 * n + d) 0 ?ds) (fold cube_root_step ?ds (0, 0, 0))"
    by (rule cube_root_fold)
  moreover have "p div 64 = p div 8 div 8" using zdiv_zmult2_eq [of 8 p 8] by simp
  then have "8 * (8 * (p div 64) + p div 8 mod 8) + p mod 8 = p" by (simp only: mult_div_mod_eq)
  then have "foldl (\<lambda>n d. 8 * n + d) 0 ?ds = p * 8 ^ k" by (simp add: foldl_zeros)
  ultimately show ?thesis by (simp only:)
qed

text \<open>Every entry is the cube root of its prime, scaled by \<open>2 ^ 32\<close> and rounded down.\<close>

lemma cube_root_32_correct:
  assumes "0 \<le> p" "p < 512"
  shows "cube_root_32 p ^ 3 \<le> p * 2 ^ 96 \<and> p * 2 ^ 96 < (cube_root_32 p + 1) ^ 3"
proof -
  obtain r s m where x: "fold cube_root_step ([p div 64, p div 8 mod 8, p mod 8] @ replicate 32 0) (0, 0, 0) = (r, s, m)"
    by (metis prod_cases3)
  then have "cube_rooted (p * 8 ^ 32) (r, s, m)" and "cube_root_32 p = r"
    using cube_root_digits [OF assms, of 32] by (simp_all only: cube_root_32_def x fst_conv)
  then show ?thesis by (simp add: cube_rooted_def)
qed

text \<open>The initial state: the fractional parts of the square roots of the first eight primes.\<close>

lemma sha256_initial_roots:
  "list_all2 (\<lambda>(p, k) v. (k * 2 ^ 32 + uint v) ^ 2 \<le> p * 2 ^ 64 \<and> p * 2 ^ 64 < (k * 2 ^ 32 + uint v + 1) ^ 2)
     (zip (take 8 first_primes) [1, 1, 2, 2, 3, 3, 4, 4]) sha256_initial"
  by (simp add: first_primes_def sha256_initial_def)

section \<open>One block\<close>

lemma rotate_right_rotr:
  assumes "0 < n" "n < 32"
  shows "rotate_right v n = word_rotr n v"
proof (rule bit_word_eqI)
  fix i assume "i < LENGTH(32)"
  then show "bit (rotate_right v n) i = bit (word_rotr n v) i"
    using assms
    by (cases "i + n < 32") (auto simp: rotate_right_def bit_simps bit_word_rotr_iff mod_if add.commute [of n i] dest: bit_imp_le_length)
qed

lemma load_be32_eq: "4 \<le> length b \<Longrightarrow> load_be32 b = un32 (rev (take 4 b))"
  by (simp add: load_be32_def un32_def rev_nth or.commute or.left_commute or.assoc)

lemma store_be32_eq: "store_be32 v = rev (le32 v)"
  by (simp add: store_be32_def le32_def)


lemma upt_16_Suc: "[m..<m + Suc n] = [m..<m + n] @ [m + n]"
  by (subst add_Suc_right, subst upt_Suc_append) simp_all

lemma schedule_prefix:
  assumes "length block = 64"
  shows "fold (\<lambda>index words. words @ [schedule_word words index]) [16..<16 + n]
     (map (\<lambda>index. load_be32 (drop (index * 4) block)) [0..<16]) = map (message_word block) [0..<16 + n]"
proof (induction n)
  case 0
  have "load_be32 (drop (i * 4) block) = message_word block i" if "i < 16" for i
    using that assms by (subst message_word.simps) (simp add: load_be32_eq mult.commute)
  then show ?case by simp
next
  case (Suc n)
  let ?ws = "map (message_word block) [0..<16 + n]"
  have "schedule_word ?ws (16 + n) = message_word block (16 + n)"
    by (subst message_word.simps) (simp add: schedule_word_def sigma0_def sigma1_def rotate_right_rotr Let_def add_ac)
  then show ?case unfolding upt_16_Suc [of 16 n] upt_16_Suc [of 0 "16 + n", simplified] fold_append comp_def Suc
    by (simp add: Suc upt_16_Suc [of 0 "16 + n", simplified])
qed

lemma schedule_upto:
  assumes "length block = 64" "16 \<le> k"
  shows "fold (\<lambda>index words. words @ [schedule_word words index]) [16..<k]
     (map (\<lambda>index. load_be32 (drop (index * 4) block)) [0..<16]) = map (message_word block) [0..<k]"
  using schedule_prefix [OF assms(1), of "k - 16"] assms(2) by (simp only: le_add_diff_inverse)

lemma schedule_eq: "length block = 64 \<Longrightarrow> schedule block = map (message_word block) [0..<64]"
  unfolding schedule_def by (rule schedule_upto) simp_all

lemma round_eq:
  "length block = 64 \<Longrightarrow> t < 64 \<Longrightarrow> sha256_round (schedule block) t r = compress_step block t r"
  by (cases "(block, t, r)" rule: compress_step.cases) (simp add: schedule_eq del: upt_rec_numeral add: Sigma0_def Sigma1_def Ch_def Maj_def rotate_right_rotr Let_def)

lemma fold_eq_on: "(\<And>x s. x \<in> set xs \<Longrightarrow> f x s = g x s) \<Longrightarrow> fold f xs s = fold g xs s"
  by (induction xs arbitrary: s) simp_all

lemma transform_compress:
  "length block = 64 \<Longrightarrow> sha256_transform cx block = cx\<lparr>cx_state := compress block (cx_state cx)\<rparr>"
  unfolding sha256_transform_def compress_def
  by (subst fold_eq_on [where g = "compress_step block"]) (simp_all add: round_eq)

section \<open>Whole messages\<close>

text \<open>
  The context has absorbed the message \<open>A @ B\<close>: \<open>A\<close> consists of whole blocks and went into the
  state, \<open>B\<close> waits in the buffer.
\<close>

definition absorbed :: "kb2_sha256_context \<Rightarrow> bytes \<Rightarrow> bool" where
  "absorbed cx m \<longleftrightarrow> (\<exists>A B. m = A @ B \<and> length A mod 64 = 0 \<and> length B < 64 \<and>
     length (cx_block cx) = 64 \<and> cx_block_size cx = length B \<and> take (length B) (cx_block cx) = B \<and>
     cx_state cx = fold compress (blocks A) sha256_initial)"

lemma blocks_append:
  "length a mod 64 = 0 \<Longrightarrow> blocks (a @ b) = blocks a @ blocks b"
proof (induction a rule: blocks.induct)
  case (1 a)
  show ?case
  proof (cases "a = []")
    case False
    then have "64 \<le> length a" using 1(2) by (metis dvd_imp_le length_greater_0_conv mod_0_imp_dvd)
    moreover from this have "length (drop 64 a) mod 64 = 0" using 1(2) by (simp add: le_mod_geq)
    ultimately show ?thesis using 1 False by (subst (1 2) blocks.simps) simp
  qed (simp add: blocks.simps [of "[]"])
qed

lemma blocks_one: "length b = 64 \<Longrightarrow> blocks b = [b]"
  by (subst blocks.simps) (auto simp: blocks.simps [of "[]"])


lemma take_put: "off \<le> length b \<Longrightarrow> take (off + length xs) (put b off xs) = take off b @ xs"
  by (simp add: put_def)

lemma absorbed_step:
  assumes ab: "absorbed cx m" and t: "t \<noteq> []" "cx_block_size cx + length t \<le> 64"
  defines "cx1 \<equiv> cx\<lparr>cx_block := put (cx_block cx) (cx_block_size cx) t, cx_block_size := cx_block_size cx + length t\<rparr>"
  shows "absorbed (if cx_block_size cx1 = 64 then (sha256_transform cx1 (cx_block cx1))\<lparr>cx_block_size := 0\<rparr> else cx1) (m @ t)"
proof -
  obtain A B where m: "m = A @ B" "length A mod 64 = 0" "length B < 64" and blk: "length (cx_block cx) = 64"
    "cx_block_size cx = length B" "take (length B) (cx_block cx) = B"
    and st: "cx_state cx = fold compress (blocks A) sha256_initial"
    using ab by (auto simp: absorbed_def)
  have len: "length (cx_block cx1) = 64" using blk t by (simp add: cx1_def)
  have pre: "take (length (B @ t)) (cx_block cx1) = B @ t"
    using take_put [of "length B" "cx_block cx" t] blk m(3) by (simp add: cx1_def)
  show ?thesis
  proof (cases "length (B @ t) = 64")
    case True
    then have "cx_block cx1 = B @ t" using pre len by simp
    moreover have "blocks (A @ B @ t) = blocks A @ [B @ t]" using blocks_append [OF m(2)] blocks_one [OF True] by simp
    ultimately show ?thesis unfolding absorbed_def using True m blk st len
      by (intro exI [of _ "A @ B @ t"] exI [of _ "[]"]) (simp add: cx1_def transform_compress)
  next
    case False
    then show ?thesis unfolding absorbed_def using m blk st t len pre
      by (intro exI [of _ A] exI [of _ "B @ t"]) (simp add: cx1_def)
  qed
qed

lemma update_loop_absorbs:
  "absorbed cx m \<Longrightarrow> \<exists>cx'. update_loop cx bytes = Some cx' \<and> absorbed cx' (m @ bytes) \<and> cx_byte_count cx' = cx_byte_count cx"
proof (induction cx bytes arbitrary: m rule: update_loop.induct)
  case (1 cx bytes)
  show ?case
  proof (cases "bytes = []")
    case True
    then show ?thesis using 1(2) by (simp add: update_loop.simps)
  next
    case False
    let ?avail = "64 - cx_block_size cx"
    define count where "count = (if length bytes < ?avail then length bytes else ?avail)"
    let ?t = "take count bytes"
    define cx1 where "cx1 = cx\<lparr>cx_block := put (cx_block cx) (cx_block_size cx) ?t, cx_block_size := cx_block_size cx + count\<rparr>"
    define cx2 where "cx2 = (if cx_block_size cx1 = 64 then (sha256_transform cx1 (cx_block cx1))\<lparr>cx_block_size := 0\<rparr> else cx1)"
    have size: "cx_block_size cx < 64" using 1(2) by (auto simp: absorbed_def)
    have len: "length ?t = count" and room: "cx_block_size cx + count \<le> 64" and ne: "?t \<noteq> []"
      using False size by (auto simp: count_def)
    have ab: "absorbed cx2 (m @ ?t)"
      using absorbed_step [OF 1(2) ne] room unfolding len cx2_def cx1_def by blast
    have eq: "update_loop cx bytes = update_loop cx2 (drop count bytes)"
      using False size by (subst update_loop.simps) (simp add: Let_def count_def cx1_def cx2_def del: if_split cong: if_cong)
    have "cx_byte_count cx2 = cx_byte_count cx" by (simp add: cx2_def cx1_def sha256_transform_def)
    moreover have "\<exists>cx'. update_loop cx2 (drop count bytes) = Some cx' \<and> absorbed cx' ((m @ ?t) @ drop count bytes) \<and>
        cx_byte_count cx' = cx_byte_count cx2"
      by (rule 1(1) [OF False _ refl count_def cx1_def, folded cx2_def, OF _ ab]) (use size in simp)
    ultimately show ?thesis unfolding eq by (simp add: append_assoc)
  qed
qed


lemma be64_bytes: "map (\<lambda>i. ucast (drop_bit ((7 - i) * 8) (v :: u64))) [0..<8] = rev (le64 v)"
proof -
  have *: "(ucast (drop_bit k (ucast x :: u32)) :: u8) = ucast (drop_bit k x)" if "k \<le> 24" for k and x :: u64
    using that by (intro bit_word_eqI) (simp add: bit_simps)
  show ?thesis using * [of 0] by (simp add: le64_def le32_def upt_rec * drop_bit_drop_bit)
qed

lemma put_append: "n = length X \<Longrightarrow> put (X @ Y) n Z = X @ Z @ drop (length Z) Y"
  by (simp add: put_def)

lemma finish_blocks_absorbed:
  assumes ab: "absorbed cx m" and n: "cx_byte_count cx = of_nat (length m)"
  shows "cx_state (finish_blocks cx) = fold compress (blocks (pad m)) sha256_initial"
proof -
  obtain A B where m: "m = A @ B" "length A mod 64 = 0" "length B < 64" and blk: "length (cx_block cx) = 64"
    "cx_block_size cx = length B" "take (length B) (cx_block cx) = B"
    and st: "cx_state cx = fold compress (blocks A) sha256_initial"
    using ab by (auto simp: absorbed_def)
  let ?len = "rev (le64 (8 * of_nat (length m)))"
  have be: "map (\<lambda>index. ucast (drop_bit ((7 - index) * 8) (cx_byte_count cx * 8))) [0..<8] = ?len"
    unfolding n be64_bytes by (simp add: mult.commute)
  have mod: "length m mod 64 = length B"
  proof -
    have "length m mod 64 = (length A mod 64 + length B) mod 64" unfolding m(1) length_append by (simp only: mod_add_left_eq)
    then show ?thesis using m(2,3) by simp
  qed
  have put80: "put (cx_block cx) (length B) [0x80] = B @ [0x80] @ drop (length B + 1) (cx_block cx)"
    using blk by (simp add: put_def)
  have put0: "put (B @ [0x80] @ drop (length B + 1) (cx_block cx)) (length B + 1) (zeros n) =
      B @ [0x80] @ zeros n @ drop (length B + 1 + n) (cx_block cx)" for n
    using put_append [of "length B + 1" "B @ [0x80]" "drop (length B + 1) (cx_block cx)" "zeros n"] by (simp add: add_ac)
  show ?thesis
  proof (cases "length B + 1 \<le> 56")
    case True
    let ?last = "B @ [0x80] @ zeros (55 - length B) @ ?len"
    have k: "(119 - length m mod 64) mod 64 = 55 - length B" using True unfolding mod by (simp add: mod_if)
    have one: "put (put (put (cx_block cx) (length B) [0x80]) (length B + 1) (zeros (56 - (length B + 1)))) 56 ?len = ?last"
      using True blk put_append [of 56 "B @ [0x80] @ zeros (55 - length B)" "drop 56 (cx_block cx)" ?len]
      unfolding put80 put0 by simp
    have "blocks (pad m) = blocks A @ [?last]"
      using blocks_append [OF m(2), of ?last] blocks_one [of ?last] True unfolding pad_def k by (simp add: m(1))
    then show ?thesis using True blk st one be
      by (simp add: finish_blocks_def Let_def transform_compress)
  next
    case False
    let ?last = "zeros 56 @ ?len" and ?mid = "B @ [0x80] @ zeros (63 - length B)"
    have k: "(119 - length m mod 64) mod 64 = 63 - length B + 56" using False m(3) unfolding mod by (simp add: mod_if)
    have one: "put (put (cx_block cx) (length B) [0x80]) (length B + 1) (zeros (64 - (length B + 1))) = ?mid"
      using False m(3) blk unfolding put80 put0 by simp
    have two: "put (put ?mid 0 (zeros 56)) 56 ?len = ?last"
      using False m(3) put_append [of 0 "[]" ?mid "zeros 56"] put_append [of 56 "zeros 56" "drop 56 ?mid" ?len] by simp
    have "pad m = A @ ?mid @ ?last" unfolding pad_def k by (simp add: m(1) zeros_def replicate_add)
    then have "blocks (pad m) = blocks A @ [?mid, ?last]"
      using blocks_append [OF m(2), of "?mid @ ?last"] blocks_append [of ?mid ?last] blocks_one [of ?mid] blocks_one [of ?last]
        False m(3) by simp
    then show ?thesis using False m(3) blk st one two be
      by (simp add: finish_blocks_def Let_def transform_compress)
  qed
qed


section \<open>Properties\<close>

lemma initialize_absorbed: "kb2_sha256_initialize (Some cx) = Some cx' \<Longrightarrow> absorbed cx' [] \<and> cx_byte_count cx' = of_nat (length [])"
  by (auto simp: kb2_sha256_initialize_def absorbed_def blocks.simps [of "[]"])

lemma update_absorbed:
  assumes "absorbed cx m" "cx_byte_count cx = of_nat (length m)" "length m + length d < 2 ^ 64"
  shows "\<exists>cx'. kb2_sha256_update (Some cx) (Arr d) = Some (Some cx') \<and> absorbed cx' (m @ d) \<and>
    cx_byte_count cx' = of_nat (length (m @ d))"
proof -
  let ?cx = "cx\<lparr>cx_byte_count := cx_byte_count cx + of_nat (length d)\<rparr>"
  have "unat ((-1 :: u64) - of_nat (length m)) = 2 ^ 64 - 1 - length m"
  proof -
    have "unat ((-1 :: u64) - of_nat (length m)) = unat (-1 :: u64) - unat (of_nat (length m) :: u64)" by (rule unat_sub) simp
    then show ?thesis using assms(3) by (simp add: unsigned_minus_1_eq_mask mask_eq_exp_minus_1 unat_of_nat take_bit_nat_eq_self)
  qed
  then have "\<not> (-1) - cx_byte_count cx < of_nat (length d)"
    using assms(2,3) by (simp add: word_less_nat_alt unat_of_nat take_bit_nat_eq_self)
  moreover have "absorbed ?cx m" using assms(1) by (simp add: absorbed_def)
  from update_loop_absorbs [OF this, of d] obtain cx' where "update_loop ?cx d = Some cx'" "absorbed cx' (m @ d)"
    "cx_byte_count cx' = cx_byte_count ?cx" by blast
  ultimately show ?thesis using assms(2) by (simp add: kb2_sha256_update_def)
qed

lemma finish_absorbed:
  assumes "absorbed cx m" "cx_byte_count cx = of_nat (length m)"
  shows "kb2_sha256_finish (Some cx) True = (Some (sha256_of m), Some zero_context)"
  using finish_blocks_absorbed [OF assms] by (simp add: kb2_sha256_finish_def sha256_of_def store_be32_eq [abs_def])

text \<open>Feeding a message in pieces.\<close>

fun feed :: "kb2_sha256_context option \<Rightarrow> bytes list \<Rightarrow> kb2_sha256_context option option" where
  "feed cx [] = Some cx"
| "feed cx (d # ds) = (case kb2_sha256_update cx (Arr d) of None \<Rightarrow> None | Some cx \<Rightarrow> feed cx ds)"

lemma feed_absorbed:
  "absorbed cx m \<Longrightarrow> cx_byte_count cx = of_nat (length m) \<Longrightarrow> length m + length (concat ds) < 2 ^ 64 \<Longrightarrow>
   \<exists>cx'. feed (Some cx) ds = Some (Some cx') \<and> absorbed cx' (m @ concat ds) \<and> cx_byte_count cx' = of_nat (length (m @ concat ds))"
proof (induction ds arbitrary: cx m)
  case (Cons d ds)
  obtain cx1 where cx1: "kb2_sha256_update (Some cx) (Arr d) = Some (Some cx1)" "absorbed cx1 (m @ d)"
    "cx_byte_count cx1 = of_nat (length (m @ d))"
    using update_absorbed [OF Cons.prems(1,2), of d] Cons.prems(3) by auto
  show ?case using Cons.IH [OF cx1(2,3)] Cons.prems(3) cx1(1) by simp
qed simp

text \<open>C21. The hash is SHA-256. However a message of fewer than \<open>2 ^ 64\<close> bytes is cut into pieces,
  initialising, updating with each piece and finishing never leaves the block buffer and yields
  the digest of the whole message (padding, message schedule and compression of every block), and
  the context is wiped. Up to the limit of the standard, \<open>2 ^ 64\<close> bits, this is the digest that
  FIPS 180-4 defines; above it the length field of the padding is the bit length modulo \<open>2 ^ 64\<close>.\<close>

theorem kb2_sha256_streaming_correct:
  "length (concat pieces) < 2 ^ 64 \<Longrightarrow>
   \<exists>cx. feed (kb2_sha256_initialize (Some garbage)) pieces = Some (Some cx) \<and>
     kb2_sha256_finish (Some cx) True = (Some (sha256_of (concat pieces)), Some zero_context)"
proof -
  assume n: "length (concat pieces) < 2 ^ 64"
  obtain cx where init: "kb2_sha256_initialize (Some garbage) = Some cx" by (simp add: kb2_sha256_initialize_def)
  obtain cx' where "feed (Some cx) pieces = Some (Some cx')" "absorbed cx' (concat pieces)"
    "cx_byte_count cx' = of_nat (length (concat pieces))"
    using feed_absorbed [of cx "[]" pieces] initialize_absorbed [OF init] n by auto
  then show ?thesis unfolding init using finish_absorbed by blast
qed

lemma kb2_sha256_feed:
  "kb2_sha256 (Arr d) True = map_option (\<lambda>cx. fst (kb2_sha256_finish cx True)) (feed (kb2_sha256_initialize (Some zero_context)) [d])"
  by (simp add: kb2_sha256_def split: option.split)

lemma sha256_abc: "kb2_sha256 (Arr [0x61, 0x62, 0x63]) True = Some (Some
  [0xba, 0x78, 0x16, 0xbf, 0x8f, 0x01, 0xcf, 0xea, 0x41, 0x41, 0x40, 0xde, 0x5d, 0xae, 0x22, 0x23,
   0xb0, 0x03, 0x61, 0xa3, 0x96, 0x17, 0x7a, 0x9c, 0xb4, 0x10, 0xff, 0x61, 0xf2, 0x00, 0x15, 0xad])"
  by code_simp

text \<open>The test vector \<open>abc\<close> of the standard.\<close>

theorem kb2_sha256_streaming_correct_witness:
  "sha256_of [0x61, 0x62, 0x63] =
    [0xba, 0x78, 0x16, 0xbf, 0x8f, 0x01, 0xcf, 0xea, 0x41, 0x41, 0x40, 0xde, 0x5d, 0xae, 0x22, 0x23,
     0xb0, 0x03, 0x61, 0xa3, 0x96, 0x17, 0x7a, 0x9c, 0xb4, 0x10, 0xff, 0x61, 0xf2, 0x00, 0x15, 0xad]"
proof -
  have "length (concat [[0x61, 0x62, 0x63 :: u8]]) < 2 ^ 64" by simp
  from kb2_sha256_streaming_correct [OF this, of zero_context] show ?thesis
    using sha256_abc by (auto simp: kb2_sha256_feed simp del: feed.simps)
qed

lemma update_loop_total:
  "length (cx_block cx) = 64 \<Longrightarrow> cx_block_size cx \<le> 64 \<Longrightarrow>
   \<exists>cx'. update_loop cx bytes = Some cx' \<and> length (cx_block cx') = 64 \<and> cx_byte_count cx' = cx_byte_count cx \<and>
     (if bytes = [] then cx' = cx else cx_block_size cx' < 64)"
proof (induction cx bytes rule: update_loop.induct)
  case (1 cx bytes)
  show ?case
  proof (cases "bytes = []")
    case True
    then show ?thesis using 1(2) by (simp add: update_loop.simps)
  next
    case False
    let ?avail = "64 - cx_block_size cx"
    define count where "count = (if length bytes < ?avail then length bytes else ?avail)"
    define cx1 where "cx1 = cx\<lparr>cx_block := put (cx_block cx) (cx_block_size cx) (take count bytes), cx_block_size := cx_block_size cx + count\<rparr>"
    define cx2 where "cx2 = (if cx_block_size cx1 = 64 then (sha256_transform cx1 (cx_block cx1))\<lparr>cx_block_size := 0\<rparr> else cx1)"
    have cx2: "length (cx_block cx2) = 64" "cx_block_size cx2 < 64" "cx_byte_count cx2 = cx_byte_count cx"
      using 1(2,3) by (auto simp: cx2_def cx1_def count_def sha256_transform_def)
    have eq: "update_loop cx bytes = update_loop cx2 (drop count bytes)"
      using False 1(3) by (subst update_loop.simps) (simp add: Let_def count_def cx1_def cx2_def del: if_split cong: if_cong)
    show ?thesis
      unfolding eq using 1(1) [OF False _ refl count_def cx1_def, folded cx2_def] 1(3) cx2 False by (auto split: if_split_asm)
  qed
qed

text \<open>C22. Hashing always ends. For every context whose fill level is at most the block size, which is
  every context the functions produce, the loop of \<open>kb2_sha256_update\<close> finishes on any data. If there
  is data and the byte count has room for it, the count grows by its length and the fill level is
  below the block size; NULL, empty or overlong input leaves the context alone.\<close>

theorem kb2_sha256_update_total:
  assumes "length (cx_block cx) = 64" "cx_block_size cx \<le> 64"
  shows "\<exists>cx'. kb2_sha256_update (Some cx) data = Some (Some cx') \<and> length (cx_block cx') = 64 \<and>
     (if data \<in> {Null (carray_count data), Arr []} \<or> (-1) - cx_byte_count cx < of_nat (carray_count data) then cx' = cx
      else cx_block_size cx' < 64 \<and> cx_byte_count cx' = cx_byte_count cx + of_nat (carray_count data))"
proof (cases data)
  case (Arr bytes)
  let ?cx = "cx\<lparr>cx_byte_count := cx_byte_count cx + of_nat (length bytes)\<rparr>"
  obtain cx' where "update_loop ?cx bytes = Some cx'" "length (cx_block cx') = 64" "cx_byte_count cx' = cx_byte_count ?cx"
    "if bytes = [] then cx' = ?cx else cx_block_size cx' < 64"
    using update_loop_total [of ?cx bytes] assms by auto
  then show ?thesis using assms by (auto simp: kb2_sha256_update_def Arr split: if_split_asm)
qed (simp add: kb2_sha256_update_def assms)

theorem kb2_sha256_update_total_witness:
  "\<exists>cx. kb2_sha256_update (Some zero_context) (Arr [1, 2, 3]) = Some (Some cx) \<and> cx_block_size cx < 64 \<and> cx_byte_count cx = 3"
  using kb2_sha256_update_total [of zero_context "Arr [1, 2, 3]"] by (auto simp: zero_context_def)

end
