(* ===== verification/Resource_Grant.thy ===== *)
theory Resource_Grant
  imports Closure_Manifest Sha256
begin

unbundle bit_operations_syntax

text \<open>
  Resource grants, \<open>protocol/src/resource_grant.c\<close> with the layout constants of
  \<open>protocol/generated/include/kobox2/resource_grant_layout.h\<close>: validation and encoding of a grant
  source, decoding, the accessors of the three tables (slots, objects, handle bindings), and the
  check of a grant against the closure manifest whose digest it names.

  As for manifests, a grant is a view of a buffer, an accessor answers \<open>Inl status\<close> or \<open>Inr record\<close>,
  and the outer \<open>None\<close> is an access outside the buffer.
\<close>

section \<open>Data\<close>

record kb2_resource_grant_slot_source =
  ss_slot_id :: u32
  ss_resource_type :: u32
  ss_state :: u32
  ss_interface_schema_digest :: bytes

record kb2_resource_grant_object_source =
  os_slot_id :: u32
  os_object_id :: u64
  os_granted_rights :: u64

record kb2_resource_grant_handle_binding_t =
  hb_object_id :: u64
  hb_role :: u32
  hb_transfer_handle_index :: u32

record kb2_resource_grant_source =
  gs_generation :: u64
  gs_closure_manifest_digest :: bytes
  gs_slots :: "kb2_resource_grant_slot_source carray"
  gs_objects :: "kb2_resource_grant_object_source carray"
  gs_handle_bindings :: "kb2_resource_grant_handle_binding_t carray"

record kb2_resource_grant_slot_t =
  sl_slot_id :: u32
  sl_resource_type :: u32
  sl_state :: u32
  sl_object_start :: u32
  sl_object_count :: u32
  sl_interface_schema_digest :: bytes

record kb2_resource_grant_object_t =
  ob_slot_id :: u32
  ob_object_id :: u64
  ob_granted_rights :: u64
  ob_handle_start :: u32
  ob_handle_count :: u32

record kb2_resource_grant =
  gr_bytes :: "bytes option"
  gr_size :: nat
  gr_generation :: u64
  gr_closure_manifest_digest :: bytes
  gr_counts :: "u32 list"
  gr_offsets :: "u32 list"

abbreviation (input) SLOTS :: nat where "SLOTS \<equiv> 0"
abbreviation (input) OBJECTS :: nat where "OBJECTS \<equiv> 1"
abbreviation (input) HANDLE_BINDINGS :: nat where "HANDLE_BINDINGS \<equiv> 2"
abbreviation (input) KB2_RESOURCE_GRANT_SLOT_ABSENT :: u32 where "KB2_RESOURCE_GRANT_SLOT_ABSENT \<equiv> 0"
abbreviation (input) KB2_RESOURCE_GRANT_SLOT_PRESENT :: u32 where "KB2_RESOURCE_GRANT_SLOT_PRESENT \<equiv> 1"
abbreviation (input) KB2_CLOSURE_RESOURCE_CHANNEL :: u32 where "KB2_CLOSURE_RESOURCE_CHANNEL \<equiv> 4"
abbreviation (input) KB2_CLOSURE_RESOURCE_FLAG_REQUIRED :: u32 where "KB2_CLOSURE_RESOURCE_FLAG_REQUIRED \<equiv> 1"

definition grant_limits :: "nat list" where
  "grant_limits = [16384, 65536, 65536]"

definition grant_sizes :: "nat list" where
  "grant_sizes = [64, 32, 16]"

definition grant_schema_digest :: bytes where
  "grant_schema_digest =
    [0x37, 0x36, 0x59, 0xa5, 0x69, 0x0b, 0x62, 0x27,
     0x97, 0x79, 0x93, 0x59, 0x3e, 0x81, 0x6c, 0x9c,
     0x8b, 0x3b, 0x9f, 0xca, 0xb5, 0x04, 0x29, 0xa3,
     0x76, 0x5d, 0xff, 0xc6, 0xb2, 0xb5, 0xeb, 0xe2]"

definition grant_abi_identity :: bytes where
  "grant_abi_identity = [0x64, 0x65, 0x76, 0x00]"

definition known_rights :: "u32 \<Rightarrow> u64" where
  "known_rights type =
     (if type = 0 then 1 OR 2 OR 4 OR 8
      else if type = 1 then 1 OR 2 OR 4
      else if type = 2 then 1 OR 2 OR 4 OR 8
      else if type = 3 then 1 OR 2
      else if type = 4 then 1 OR 2
      else 0)"

section \<open>Sources\<close>

definition source_slot_index :: "kb2_resource_grant_slot_source list \<Rightarrow> u32 \<Rightarrow> nat option" where
  "source_slot_index slots slot_id = bsearch (\<lambda>i. Some (ss_slot_id (slots ! i))) slot_id 0 (length slots)"

definition source_object_index :: "kb2_resource_grant_object_source list \<Rightarrow> u64 \<Rightarrow> nat option" where
  "source_object_index objects object_id = bsearch (\<lambda>i. Some (os_object_id (objects ! i))) object_id 0 (length objects)"

text \<open>The four loops of \<open>source_valid\<close>; \<open>Inl ()\<close> is its \<open>return 0\<close>.\<close>

definition source_slot_step :: "kb2_resource_grant_slot_source list \<Rightarrow> nat \<Rightarrow> u32 \<Rightarrow> (unit + u32) option" where
  "source_slot_step slots index prior_slot_id =
     (let slot = slots ! index in
      Some (if ss_slot_id slot \<le> prior_slot_id \<or> KB2_CLOSURE_RESOURCE_CHANNEL < ss_resource_type slot \<or>
          KB2_RESOURCE_GRANT_SLOT_PRESENT < ss_state slot \<or> bytes_are_zero (ss_interface_schema_digest slot)
        then Inl () else Inr (ss_slot_id slot)))"

definition source_object_step ::
    "kb2_resource_grant_slot_source list \<Rightarrow> kb2_resource_grant_object_source list \<Rightarrow> nat \<Rightarrow> u32 \<times> u64 \<Rightarrow> (unit + u32 \<times> u64) option" where
  "source_object_step slots objects index prev =
     (let object = objects ! index in
      Some (case source_slot_index slots (os_slot_id object) of
          None \<Rightarrow> Inl ()
        | Some slot_index \<Rightarrow>
            if os_slot_id object < fst prev \<or> os_object_id object \<le> snd prev \<or> os_granted_rights object = 0 \<or>
               ss_state (slots ! slot_index) \<noteq> KB2_RESOURCE_GRANT_SLOT_PRESENT
            then Inl ()
            else let rights = known_rights (ss_resource_type (slots ! slot_index)) in
              if rights = 0 \<or> os_granted_rights object AND NOT rights \<noteq> 0 then Inl ()
              else Inr (os_slot_id object, os_object_id object)))"

definition source_run_step ::
    "kb2_resource_grant_slot_source list \<Rightarrow> kb2_resource_grant_object_source list \<Rightarrow> nat \<Rightarrow> nat \<Rightarrow> (unit + nat) option" where
  "source_run_step slots objects index object_start =
     (let slot = slots ! index;
          object_cursor = skip_while (\<lambda>object. os_slot_id object = ss_slot_id slot) objects object_start in
      Some (if (ss_state slot = KB2_RESOURCE_GRANT_SLOT_ABSENT \<and> object_cursor \<noteq> object_start) \<or>
          (ss_state slot = KB2_RESOURCE_GRANT_SLOT_PRESENT \<and> object_cursor = object_start)
        then Inl () else Inr object_cursor))"

definition source_binding_step ::
    "kb2_resource_grant_object_source list \<Rightarrow> kb2_resource_grant_handle_binding_t list \<Rightarrow> nat \<Rightarrow> u64 \<times> u32 \<Rightarrow> (unit + u64 \<times> u32) option" where
  "source_binding_step objects bindings index prev =
     (let binding = bindings ! index in
      Some (if source_object_index objects (hb_object_id binding) = None \<or>
          unat (hb_transfer_handle_index binding) \<noteq> index \<or> hb_object_id binding < fst prev \<or>
          (hb_object_id binding = fst prev \<and> (index = 0 \<or> hb_role binding \<le> snd prev))
        then Inl () else Inr (hb_object_id binding, hb_role binding)))"

definition source_tables_valid ::
    "kb2_resource_grant_slot_source list \<Rightarrow> kb2_resource_grant_object_source list \<Rightarrow> kb2_resource_grant_handle_binding_t list \<Rightarrow> bool" where
  "source_tables_valid slots objects bindings =
     (check_then (for_loop (source_slot_step slots) 0 (length slots) 0) (\<lambda>_.
        check_then (for_loop (source_object_step slots objects) 0 (length objects) (0, 0)) (\<lambda>_.
          check_then (for_loop (source_run_step slots objects) 0 (length slots) 0) (\<lambda>object_cursor.
            if object_cursor \<noteq> length objects then Some (Inl ())
            else check_then (for_loop (source_binding_step objects bindings) 0 (length bindings) (0, 0)) (\<lambda>_.
              Some (Inr ()))))) = Some (Inr ()))"

definition grant_source_valid :: "kb2_resource_grant_source option \<Rightarrow> bool" where
  "grant_source_valid source =
     (case source of
        None \<Rightarrow> False
      | Some src \<Rightarrow>
          \<not> (gs_generation src = 0 \<or> bytes_are_zero (gs_closure_manifest_digest src) \<or>
             16384 < carray_count (gs_slots src) \<or> 65536 < carray_count (gs_objects src) \<or>
             65536 < carray_count (gs_handle_bindings src) \<or>
             (carray_count (gs_slots src) \<noteq> 0 \<and> is_null (gs_slots src)) \<or>
             (carray_count (gs_objects src) \<noteq> 0 \<and> is_null (gs_objects src)) \<or>
             (carray_count (gs_handle_bindings src) \<noteq> 0 \<and> is_null (gs_handle_bindings src))) \<and>
          source_tables_valid (carray_list (gs_slots src)) (carray_list (gs_objects src)) (carray_list (gs_handle_bindings src)))"

definition kb2_resource_grant_copy_schema_digest :: "bytes option \<Rightarrow> kb2_protocol_status \<times> bytes option" where
  "kb2_resource_grant_copy_schema_digest digest_out =
     (case digest_out of
        None \<Rightarrow> (KB2_PROTOCOL_INVALID_ARGUMENT, None)
      | Some d \<Rightarrow> if length d \<noteq> 32 then (KB2_PROTOCOL_INVALID_ARGUMENT, Some d)
          else (KB2_PROTOCOL_OK, Some grant_schema_digest))"

definition grant_size_sum :: "kb2_resource_grant_source \<Rightarrow> nat option" where
  "grant_size_sum src = do {
     sz \<leftarrow> add_size 128 (carray_count (gs_slots src)) 64;
     sz \<leftarrow> add_size sz (carray_count (gs_objects src)) 32;
     sz \<leftarrow> add_size sz (carray_count (gs_handle_bindings src)) 16;
     if UINT32_MAX < sz then None else Some sz }"

definition kb2_resource_grant_encoded_size ::
    "kb2_resource_grant_source option \<Rightarrow> bool \<Rightarrow> kb2_protocol_status + nat" where
  "kb2_resource_grant_encoded_size source size_out =
     (let refused = Inl (if source = None \<or> \<not> size_out then KB2_PROTOCOL_INVALID_ARGUMENT else KB2_PROTOCOL_MALFORMED) in
      if \<not> size_out \<or> \<not> grant_source_valid source then refused
      else (case Option.bind source grant_size_sum of None \<Rightarrow> refused | Some sz \<Rightarrow> Inr sz))"

section \<open>Encoder\<close>

definition encode_slot :: "nat \<Rightarrow> kb2_resource_grant_slot_t \<Rightarrow> writes" where
  "encode_slot base slot =
     [(base, le32 (sl_slot_id slot)), (base + 4, le32 (sl_resource_type slot)), (base + 8, le32 (sl_state slot)),
      (base + 12, le32 (sl_object_start slot)), (base + 16, le32 (sl_object_count slot)),
      (base + 32, sl_interface_schema_digest slot)]"

definition encode_object :: "nat \<Rightarrow> kb2_resource_grant_object_t \<Rightarrow> writes" where
  "encode_object base object =
     [(base, le32 (ob_slot_id object)), (base + 8, le64 (ob_object_id object)),
      (base + 16, le64 (ob_granted_rights object)), (base + 24, le32 (ob_handle_start object)),
      (base + 28, le32 (ob_handle_count object))]"

definition encode_handle_binding :: "nat \<Rightarrow> kb2_resource_grant_handle_binding_t \<Rightarrow> writes" where
  "encode_handle_binding base binding =
     [(base, le64 (hb_object_id binding)), (base + 8, le32 (hb_role binding)),
      (base + 12, le32 (hb_transfer_handle_index binding))]"

text \<open>The loops that attach to every slot its run of objects and to every object its run of handles.\<close>

fun slots_with_runs ::
    "kb2_resource_grant_object_source list \<Rightarrow> nat \<Rightarrow> kb2_resource_grant_slot_source list \<Rightarrow> kb2_resource_grant_slot_t list" where
  "slots_with_runs objects start [] = []"
| "slots_with_runs objects start (slot # slots) =
     (let object_cursor = skip_while (\<lambda>object. os_slot_id object = ss_slot_id slot) objects start in
      \<lparr>sl_slot_id = ss_slot_id slot, sl_resource_type = ss_resource_type slot, sl_state = ss_state slot,
       sl_object_start = of_nat start, sl_object_count = of_nat (object_cursor - start),
       sl_interface_schema_digest = ss_interface_schema_digest slot\<rparr> # slots_with_runs objects object_cursor slots)"

fun objects_with_runs ::
    "kb2_resource_grant_handle_binding_t list \<Rightarrow> nat \<Rightarrow> kb2_resource_grant_object_source list \<Rightarrow> kb2_resource_grant_object_t list" where
  "objects_with_runs bindings start [] = []"
| "objects_with_runs bindings start (object # objects) =
     (let handle_cursor = skip_while (\<lambda>binding. hb_object_id binding = os_object_id object) bindings start in
      \<lparr>ob_slot_id = os_slot_id object, ob_object_id = os_object_id object,
       ob_granted_rights = os_granted_rights object, ob_handle_start = of_nat start,
       ob_handle_count = of_nat (handle_cursor - start)\<rparr> # objects_with_runs bindings handle_cursor objects)"

definition grant_header_writes :: "nat \<Rightarrow> u64 \<Rightarrow> bytes \<Rightarrow> nat \<Rightarrow> nat \<Rightarrow> nat \<Rightarrow> nat \<Rightarrow> nat \<Rightarrow> writes" where
  "grant_header_writes encoded_size generation digest slots objects handles object_offset handle_offset =
     [(0, le32 (of_nat encoded_size)), (4, grant_abi_identity), (8, grant_schema_digest), (40, le64 generation),
      (48, digest), (80, le32 (of_nat slots)), (84, le32 (of_nat objects)), (88, le32 (of_nat handles)),
      (92, le32 128), (96, le32 (of_nat object_offset)), (100, le32 (of_nat handle_offset))]"

definition grant_writes :: "nat \<Rightarrow> kb2_resource_grant_source \<Rightarrow> writes" where
  "grant_writes encoded_size src =
     (let slots = carray_list (gs_slots src); objects = carray_list (gs_objects src);
          bindings = carray_list (gs_handle_bindings src);
          object_offset = 128 + carray_count (gs_slots src) * 64;
          handle_offset = object_offset + carray_count (gs_objects src) * 32 in
      (0, zeros encoded_size) #
      grant_header_writes encoded_size (gs_generation src) (gs_closure_manifest_digest src) (carray_count (gs_slots src))
        (carray_count (gs_objects src)) (carray_count (gs_handle_bindings src)) object_offset handle_offset @
      table_writes encode_slot 64 128 (slots_with_runs objects 0 slots) @
      table_writes encode_object 32 object_offset (objects_with_runs bindings 0 objects) @
      table_writes encode_handle_binding 16 handle_offset bindings)"

definition kb2_resource_grant_encode ::
    "bytes option \<Rightarrow> bool \<Rightarrow> kb2_resource_grant_source option
     \<Rightarrow> (kb2_protocol_status \<times> nat option \<times> bytes option) option" where
  "kb2_resource_grant_encode buffer encoded_size_out source =
     (case (buffer, source) of
        (Some b, Some src) \<Rightarrow>
          if \<not> encoded_size_out then Some (KB2_PROTOCOL_INVALID_ARGUMENT, None, buffer)
          else (case kb2_resource_grant_encoded_size source True of
            Inl _ \<Rightarrow> Some (KB2_PROTOCOL_MALFORMED, None, buffer)
          | Inr encoded_size \<Rightarrow>
              if length b < encoded_size then Some (KB2_PROTOCOL_BUFFER_TOO_SMALL, None, buffer)
              else do {
                b' \<leftarrow> store_all b (grant_writes encoded_size src);
                Some (KB2_PROTOCOL_OK, Some encoded_size, Some b') })
      | _ \<Rightarrow> Some (KB2_PROTOCOL_INVALID_ARGUMENT, None, buffer))"

section \<open>Accessors\<close>

definition with_grant_record ::
    "kb2_resource_grant option \<Rightarrow> nat \<Rightarrow> bool \<Rightarrow> nat \<Rightarrow> nat \<Rightarrow>
     (bytes \<Rightarrow> nat \<Rightarrow> (kb2_protocol_status + 'r) option) \<Rightarrow> (kb2_protocol_status + 'r) option" where
  "with_grant_record grant index out table width read =
     (case grant of
        None \<Rightarrow> Some (Inl KB2_PROTOCOL_INVALID_ARGUMENT)
      | Some g \<Rightarrow>
          if \<not> out then Some (Inl KB2_PROTOCOL_INVALID_ARGUMENT)
          else if unat (gr_counts g ! table) \<le> index then Some (Inl KB2_PROTOCOL_MALFORMED)
          else do { b \<leftarrow> gr_bytes g; read b (unat (gr_offsets g ! table) + index * width) })"

definition read_slot :: "bytes \<Rightarrow> nat \<Rightarrow> (kb2_protocol_status + kb2_resource_grant_slot_t) option" where
  "read_slot b base = do {
     slot_id \<leftarrow> load_u32 b base;
     resource_type \<leftarrow> load_u32 b (base + 4);
     state \<leftarrow> load_u32 b (base + 8);
     object_start \<leftarrow> load_u32 b (base + 12);
     object_count \<leftarrow> load_u32 b (base + 16);
     interface_schema_digest \<leftarrow> load_bytes b (base + 32) 32;
     reserved \<leftarrow> load_bytes b (base + 20) 12;
     Some (if slot_id = 0 \<or> KB2_CLOSURE_RESOURCE_CHANNEL < resource_type \<or> KB2_RESOURCE_GRANT_SLOT_PRESENT < state \<or>
         bytes_are_zero interface_schema_digest \<or> \<not> bytes_are_zero reserved
       then Inl KB2_PROTOCOL_MALFORMED
       else Inr \<lparr>sl_slot_id = slot_id, sl_resource_type = resource_type, sl_state = state,
         sl_object_start = object_start, sl_object_count = object_count,
         sl_interface_schema_digest = interface_schema_digest\<rparr>) }"

definition kb2_resource_grant_slot ::
    "kb2_resource_grant option \<Rightarrow> nat \<Rightarrow> bool \<Rightarrow> (kb2_protocol_status + kb2_resource_grant_slot_t) option" where
  "kb2_resource_grant_slot grant index out = with_grant_record grant index out SLOTS 64 read_slot"

definition read_object :: "bytes \<Rightarrow> nat \<Rightarrow> (kb2_protocol_status + kb2_resource_grant_object_t) option" where
  "read_object b base = do {
     slot_id \<leftarrow> load_u32 b base;
     object_id \<leftarrow> load_u64 b (base + 8);
     granted_rights \<leftarrow> load_u64 b (base + 16);
     handle_start \<leftarrow> load_u32 b (base + 24);
     handle_count \<leftarrow> load_u32 b (base + 28);
     reserved \<leftarrow> load_bytes b (base + 4) 4;
     Some (if slot_id = 0 \<or> object_id = 0 \<or> granted_rights = 0 \<or> \<not> bytes_are_zero reserved
       then Inl KB2_PROTOCOL_MALFORMED
       else Inr \<lparr>ob_slot_id = slot_id, ob_object_id = object_id, ob_granted_rights = granted_rights,
         ob_handle_start = handle_start, ob_handle_count = handle_count\<rparr>) }"

definition kb2_resource_grant_object ::
    "kb2_resource_grant option \<Rightarrow> nat \<Rightarrow> bool \<Rightarrow> (kb2_protocol_status + kb2_resource_grant_object_t) option" where
  "kb2_resource_grant_object grant index out = with_grant_record grant index out OBJECTS 32 read_object"

definition read_handle_binding ::
    "bytes \<Rightarrow> nat \<Rightarrow> (kb2_protocol_status + kb2_resource_grant_handle_binding_t) option" where
  "read_handle_binding b base = do {
     object_id \<leftarrow> load_u64 b base;
     role \<leftarrow> load_u32 b (base + 8);
     transfer_handle_index \<leftarrow> load_u32 b (base + 12);
     Some (if object_id = 0 then Inl KB2_PROTOCOL_MALFORMED
       else Inr \<lparr>hb_object_id = object_id, hb_role = role, hb_transfer_handle_index = transfer_handle_index\<rparr>) }"

definition kb2_resource_grant_handle_binding ::
    "kb2_resource_grant option \<Rightarrow> nat \<Rightarrow> bool \<Rightarrow> (kb2_protocol_status + kb2_resource_grant_handle_binding_t) option" where
  "kb2_resource_grant_handle_binding grant index out = with_grant_record grant index out HANDLE_BINDINGS 16 read_handle_binding"

definition kb2_resource_grant_slot_count :: "kb2_resource_grant option \<Rightarrow> nat" where
  "kb2_resource_grant_slot_count grant = (case grant of None \<Rightarrow> 0 | Some g \<Rightarrow> unat (gr_counts g ! SLOTS))"

definition kb2_resource_grant_object_count :: "kb2_resource_grant option \<Rightarrow> nat" where
  "kb2_resource_grant_object_count grant = (case grant of None \<Rightarrow> 0 | Some g \<Rightarrow> unat (gr_counts g ! OBJECTS))"

definition kb2_resource_grant_handle_binding_count :: "kb2_resource_grant option \<Rightarrow> nat" where
  "kb2_resource_grant_handle_binding_count grant = (case grant of None \<Rightarrow> 0 | Some g \<Rightarrow> unat (gr_counts g ! HANDLE_BINDINGS))"

section \<open>Decoder\<close>

definition grant_zero :: kb2_resource_grant where
  "grant_zero = \<lparr>gr_bytes = None, gr_size = 0, gr_generation = 0, gr_closure_manifest_digest = zeros 32,
     gr_counts = replicate 3 0, gr_offsets = replicate 3 0\<rparr>"

definition decoded_slot_index :: "kb2_resource_grant \<Rightarrow> u32 \<Rightarrow> nat option option" where
  "decoded_slot_index grant slot_id =
     bsearch_reads (\<lambda>index. map_option (map_sum (\<lambda>e. e) sl_slot_id) (kb2_resource_grant_slot (Some grant) index True))
       slot_id 0 (unat (gr_counts grant ! SLOTS))"

definition decoded_object_index :: "kb2_resource_grant \<Rightarrow> u64 \<Rightarrow> nat option option" where
  "decoded_object_index grant object_id =
     bsearch_reads (\<lambda>index. map_option (map_sum (\<lambda>e. e) ob_object_id) (kb2_resource_grant_object (Some grant) index True))
       object_id 0 (unat (gr_counts grant ! OBJECTS))"

text \<open>The loop over the header: for every table its count, where its offset is stored, limit and width.\<close>

fun grant_tables ::
    "bytes \<Rightarrow> nat \<Rightarrow> (u32 \<times> nat \<times> nat \<times> nat) list \<Rightarrow> (kb2_protocol_status + u32 list \<times> nat) option" where
  "grant_tables b expected_offset [] = Some (Inr ([], expected_offset))"
| "grant_tables b expected_offset ((count, field, limit, width) # tables) = do {
     offset \<leftarrow> load_u32 b field;
     if limit < unat count \<or> unat offset \<noteq> expected_offset then Some (Inl KB2_PROTOCOL_MALFORMED)
     else let next = expected_offset + unat count * width in
       if length b < next then Some (Inl KB2_PROTOCOL_MALFORMED)
       else check_then (grant_tables b next tables) (\<lambda>(offsets, end_offset). Some (Inr (offset # offsets, end_offset))) }"

definition slot_objects_step ::
    "kb2_resource_grant \<Rightarrow> nat \<Rightarrow> u32 \<Rightarrow> nat \<Rightarrow> unit \<Rightarrow> (kb2_protocol_status + unit) option" where
  "slot_objects_step grant object_cursor slot_id slot_object_index s = do {
     r \<leftarrow> kb2_resource_grant_object (Some grant) (object_cursor + slot_object_index) True;
     Some (case r of
         Inl _ \<Rightarrow> Inl KB2_PROTOCOL_MALFORMED
       | Inr object \<Rightarrow> if ob_slot_id object \<noteq> slot_id then Inl KB2_PROTOCOL_MALFORMED else Inr ()) }"

definition slot_step ::
    "kb2_resource_grant \<Rightarrow> nat \<Rightarrow> nat \<times> u32 \<Rightarrow> (kb2_protocol_status + nat \<times> u32) option" where
  "slot_step grant index s = do {
     r \<leftarrow> kb2_resource_grant_slot (Some grant) index True;
     case r of
       Inl _ \<Rightarrow> Some (Inl KB2_PROTOCOL_MALFORMED)
     | Inr slot \<Rightarrow>
         if sl_slot_id slot \<le> snd s \<or> unat (sl_object_start slot) \<noteq> fst s \<or>
            unat (gr_counts grant ! OBJECTS) - fst s < unat (sl_object_count slot) \<or>
            (sl_state slot = KB2_RESOURCE_GRANT_SLOT_ABSENT \<and> sl_object_count slot \<noteq> 0) \<or>
            (sl_state slot = KB2_RESOURCE_GRANT_SLOT_PRESENT \<and> sl_object_count slot = 0)
         then Some (Inl KB2_PROTOCOL_MALFORMED)
         else check_then (for_loop (slot_objects_step grant (fst s) (sl_slot_id slot)) 0 (unat (sl_object_count slot)) ())
           (\<lambda>_. Some (Inr (fst s + unat (sl_object_count slot), sl_slot_id slot))) }"

definition object_handles_step ::
    "kb2_resource_grant \<Rightarrow> nat \<Rightarrow> u64 \<Rightarrow> nat \<Rightarrow> unit \<Rightarrow> (kb2_protocol_status + unit) option" where
  "object_handles_step grant handle_cursor object_id object_handle_index s = do {
     r \<leftarrow> kb2_resource_grant_handle_binding (Some grant) (handle_cursor + object_handle_index) True;
     Some (case r of
         Inl _ \<Rightarrow> Inl KB2_PROTOCOL_MALFORMED
       | Inr binding \<Rightarrow> if hb_object_id binding \<noteq> object_id then Inl KB2_PROTOCOL_MALFORMED else Inr ()) }"

definition object_slot_allows :: "kb2_resource_grant \<Rightarrow> kb2_resource_grant_object_t \<Rightarrow> bool option" where
  "object_slot_allows grant object = do {
     slot_index \<leftarrow> decoded_slot_index grant (ob_slot_id object);
     case slot_index of
       None \<Rightarrow> Some False
     | Some i \<Rightarrow> do {
         r \<leftarrow> kb2_resource_grant_slot (Some grant) i True;
         Some (case r of
             Inl _ \<Rightarrow> False
           | Inr slot \<Rightarrow> sl_state slot = KB2_RESOURCE_GRANT_SLOT_PRESENT \<and>
               \<not> (let rights = known_rights (sl_resource_type slot) in
                  rights = 0 \<or> ob_granted_rights object AND NOT rights \<noteq> 0)) } }"

definition object_step ::
    "kb2_resource_grant \<Rightarrow> nat \<Rightarrow> nat \<times> u32 \<times> u64 \<Rightarrow> (kb2_protocol_status + nat \<times> u32 \<times> u64) option" where
  "object_step grant index s = (case s of (handle_cursor, prior_object_slot, prior_object_id) \<Rightarrow> do {
     r \<leftarrow> kb2_resource_grant_object (Some grant) index True;
     case r of
       Inl _ \<Rightarrow> Some (Inl KB2_PROTOCOL_MALFORMED)
     | Inr object \<Rightarrow>
         if ob_slot_id object < prior_object_slot \<or> ob_object_id object \<le> prior_object_id \<or>
            unat (ob_handle_start object) \<noteq> handle_cursor \<or>
            unat (gr_counts grant ! HANDLE_BINDINGS) - handle_cursor < unat (ob_handle_count object)
         then Some (Inl KB2_PROTOCOL_MALFORMED)
         else do {
           allowed \<leftarrow> object_slot_allows grant object;
           if \<not> allowed then Some (Inl KB2_PROTOCOL_MALFORMED)
           else check_then (for_loop (object_handles_step grant handle_cursor (ob_object_id object)) 0
               (unat (ob_handle_count object)) ())
             (\<lambda>_. Some (Inr (handle_cursor + unat (ob_handle_count object), ob_slot_id object, ob_object_id object))) } })"

definition binding_step ::
    "kb2_resource_grant \<Rightarrow> nat \<Rightarrow> u64 \<times> u32 \<Rightarrow> (kb2_protocol_status + u64 \<times> u32) option" where
  "binding_step grant index s = do {
     r \<leftarrow> kb2_resource_grant_handle_binding (Some grant) index True;
     case r of
       Inl _ \<Rightarrow> Some (Inl KB2_PROTOCOL_MALFORMED)
     | Inr binding \<Rightarrow> do {
         object_index \<leftarrow> decoded_object_index grant (hb_object_id binding);
         Some (if object_index = None \<or> unat (hb_transfer_handle_index binding) \<noteq> index \<or>
             hb_object_id binding < fst s \<or>
             (hb_object_id binding = fst s \<and> (index = 0 \<or> hb_role binding \<le> snd s))
           then Inl KB2_PROTOCOL_MALFORMED else Inr (hb_object_id binding, hb_role binding)) } }"

definition grant_content :: "kb2_resource_grant \<Rightarrow> (kb2_protocol_status + unit) option" where
  "grant_content g =
     check_then (for_loop (slot_step g) 0 (unat (gr_counts g ! SLOTS)) (0, 0)) (\<lambda>(object_cursor, _).
       if object_cursor \<noteq> unat (gr_counts g ! OBJECTS) then Some (Inl KB2_PROTOCOL_MALFORMED)
       else check_then (for_loop (object_step g) 0 (unat (gr_counts g ! OBJECTS)) (0, 0, 0)) (\<lambda>(handle_cursor, _).
         if handle_cursor \<noteq> unat (gr_counts g ! HANDLE_BINDINGS) then Some (Inl KB2_PROTOCOL_MALFORMED)
         else check_then (for_loop (binding_step g) 0 (unat (gr_counts g ! HANDLE_BINDINGS)) (0, 0)) (\<lambda>_. Some (Inr ()))))"

definition grant_view :: "bytes \<Rightarrow> (kb2_protocol_status + kb2_resource_grant) option" where
  "grant_view b =
     (if length b < 128 then Some (Inl KB2_PROTOCOL_BUFFER_TOO_SMALL)
      else if UINT32_MAX < length b then Some (Inl KB2_PROTOCOL_OVERFLOW)
      else do {
        abi_identity \<leftarrow> load_bytes b 4 4;
        schema_digest \<leftarrow> load_bytes b 8 32;
        if abi_identity \<noteq> grant_abi_identity \<or> schema_digest \<noteq> grant_schema_digest
        then Some (Inl KB2_PROTOCOL_SCHEMA_MISMATCH)
        else do {
          sz \<leftarrow> load_u32 b 0;
          reserved \<leftarrow> load_bytes b 104 24;
          if unat sz \<noteq> length b \<or> \<not> bytes_are_zero reserved then Some (Inl KB2_PROTOCOL_MALFORMED)
          else do {
            generation \<leftarrow> load_u64 b 40;
            digest \<leftarrow> load_bytes b 48 32;
            slots \<leftarrow> load_u32 b 80;
            objects \<leftarrow> load_u32 b 84;
            handles \<leftarrow> load_u32 b 88;
            check_then (grant_tables b 128
                [(slots, 92, grant_limits ! 0, grant_sizes ! 0), (objects, 96, grant_limits ! 1, grant_sizes ! 1),
                 (handles, 100, grant_limits ! 2, grant_sizes ! 2)])
              (\<lambda>(offsets, expected_offset).
                if expected_offset \<noteq> length b \<or> generation = 0 \<or> bytes_are_zero digest
                then Some (Inl KB2_PROTOCOL_MALFORMED)
                else Some (Inr \<lparr>gr_bytes = Some b, gr_size = length b, gr_generation = generation,
                  gr_closure_manifest_digest = digest, gr_counts = [slots, objects, handles], gr_offsets = offsets\<rparr>)) } } })"

definition kb2_resource_grant_decode ::
    "bytes option \<Rightarrow> bool \<Rightarrow> (kb2_protocol_status \<times> kb2_resource_grant option) option" where
  "kb2_resource_grant_decode buffer grant_out =
     (case buffer of
        None \<Rightarrow> Some (KB2_PROTOCOL_INVALID_ARGUMENT, None)
      | Some b \<Rightarrow>
          if \<not> grant_out then Some (KB2_PROTOCOL_INVALID_ARGUMENT, None)
          else map_option (\<lambda>r. case r of
              Inl status \<Rightarrow> (status, Some grant_zero) | Inr grant \<Rightarrow> (KB2_PROTOCOL_OK, Some grant))
            (check_then (grant_view b) (\<lambda>grant.
               check_then (grant_content grant) (\<lambda>_. Some (Inr grant)))))"

section \<open>The manifest of a grant\<close>

definition granted_object_step ::
    "kb2_resource_grant \<Rightarrow> kb2_closure_manifest_resource_t \<Rightarrow> nat \<Rightarrow> nat \<Rightarrow> unit \<Rightarrow> (kb2_protocol_status + unit) option" where
  "granted_object_step grant requirement start object_index s = do {
     r \<leftarrow> kb2_resource_grant_object (Some grant) (start + object_index) True;
     Some (case r of
         Inl _ \<Rightarrow> Inl KB2_PROTOCOL_MALFORMED
       | Inr object \<Rightarrow>
           if ob_granted_rights object AND mr_required_rights requirement \<noteq> mr_required_rights requirement \<or>
              ob_granted_rights object AND NOT (mr_maximum_rights requirement) \<noteq> 0
           then Inl KB2_PROTOCOL_MALFORMED else Inr ()) }"

definition requirement_step ::
    "kb2_resource_grant \<Rightarrow> kb2_closure_manifest \<Rightarrow> nat \<Rightarrow> unit \<Rightarrow> (kb2_protocol_status + unit) option" where
  "requirement_step grant manifest index s = do {
     q \<leftarrow> kb2_closure_manifest_resource (Some manifest) index True;
     case q of
       Inl _ \<Rightarrow> Some (Inl KB2_PROTOCOL_MALFORMED)
     | Inr requirement \<Rightarrow> do {
         r \<leftarrow> kb2_resource_grant_slot (Some grant) index True;
         case r of
           Inl _ \<Rightarrow> Some (Inl KB2_PROTOCOL_MALFORMED)
         | Inr slot \<Rightarrow>
             if sl_slot_id slot \<noteq> mr_slot_id requirement \<or> sl_resource_type slot \<noteq> mr_type requirement \<or>
                sl_interface_schema_digest slot \<noteq> mr_interface_schema_digest requirement
             then Some (Inl KB2_PROTOCOL_SCHEMA_MISMATCH)
             else if sl_state slot = KB2_RESOURCE_GRANT_SLOT_ABSENT
             then Some (if mr_flags requirement AND KB2_CLOSURE_RESOURCE_FLAG_REQUIRED \<noteq> 0
               then Inl KB2_PROTOCOL_MALFORMED else Inr ())
             else if sl_object_count slot < mr_minimum_count requirement \<or> mr_maximum_count requirement < sl_object_count slot
             then Some (Inl KB2_PROTOCOL_MALFORMED)
             else for_loop (granted_object_step grant requirement (unat (sl_object_start slot))) 0
               (unat (sl_object_count slot)) () } }"

text \<open>Hashing a manifest view whose size exceeds its buffer is undefined behaviour.\<close>

definition kb2_resource_grant_validate_manifest ::
    "kb2_resource_grant option \<Rightarrow> kb2_closure_manifest option \<Rightarrow> kb2_protocol_status option" where
  "kb2_resource_grant_validate_manifest grant manifest =
     (case (grant, manifest) of
        (Some g, Some m) \<Rightarrow>
          (case (gr_bytes g, mf_bytes m) of
             (Some _, Some mb) \<Rightarrow> if length mb < mf_size m then None else do {
               digest \<leftarrow> kb2_sha256 (Arr (take (mf_size m) mb)) True;
               manifest_digest \<leftarrow> digest;
               if gr_closure_manifest_digest g \<noteq> manifest_digest then Some KB2_PROTOCOL_SCHEMA_MISMATCH
               else if unat (gr_counts g ! SLOTS) \<noteq> kb2_closure_manifest_resource_count manifest
               then Some KB2_PROTOCOL_MALFORMED
               else map_option (\<lambda>r. case r of Inl status \<Rightarrow> status | Inr _ \<Rightarrow> KB2_PROTOCOL_OK)
                 (for_loop (requirement_step g m) 0 (unat (gr_counts g ! SLOTS)) ()) }
           | _ \<Rightarrow> Some KB2_PROTOCOL_INVALID_ARGUMENT)
      | _ \<Rightarrow> Some KB2_PROTOCOL_INVALID_ARGUMENT)"

section \<open>Views and totality\<close>

definition grant_in :: "kb2_resource_grant \<Rightarrow> bytes \<Rightarrow> bool" where
  "grant_in g b \<longleftrightarrow> gr_bytes g = Some b \<and> gr_size g = length b \<and> length b \<le> UINT32_MAX \<and>
     length (gr_counts g) = 3 \<and> length (gr_offsets g) = 3 \<and>
     (\<forall>t < 3. unat (gr_counts g ! t) \<le> grant_limits ! t \<and>
        unat (gr_offsets g ! t) + unat (gr_counts g ! t) * grant_sizes ! t \<le> length b)"

definition grant_typed :: "kb2_resource_grant \<Rightarrow> bool" where
  "grant_typed g \<longleftrightarrow> g = grant_zero \<or> (\<exists>b. grant_in g b)"

lemma grant_sizes_nth [simp]: "grant_sizes ! 0 = 64" "grant_sizes ! 1 = 32" "grant_sizes ! Suc 0 = 32" "grant_sizes ! 2 = 16"
  by (simp_all add: grant_sizes_def)

lemma with_grant_record_in:
  assumes "grant_in g b" "t < 3" "width = grant_sizes ! t" "i < unat (gr_counts g ! t)"
  shows "with_grant_record (Some g) i True t width rd = rd b (unat (gr_offsets g ! t) + i * width) \<and>
    unat (gr_offsets g ! t) + i * width + width \<le> length b"
proof -
  have "i * width + width \<le> unat (gr_counts g ! t) * width"
    using assms(4) by (metis Suc_leI add.commute mult_Suc mult_le_mono1)
  then have "unat (gr_offsets g ! t) + i * width + width \<le> length b"
    using assms(1-3) unfolding grant_in_def by (metis (no_types, lifting) add.assoc add_le_cancel_left le_trans)
  then show ?thesis using assms(1,4) by (simp add: with_grant_record_def grant_in_def)
qed

lemma read_grant_total:
  "base + 64 \<le> length b \<Longrightarrow> read_slot b base \<noteq> None"
  "base + 32 \<le> length b \<Longrightarrow> read_object b base \<noteq> None"
  "base + 16 \<le> length b \<Longrightarrow> read_handle_binding b base \<noteq> None"
  by (simp_all add: read_slot_def read_object_def read_handle_binding_def wire)

lemma with_grant_record_total:
  assumes "grant_typed g" "t < 3" "width = grant_sizes ! t" "\<And>b base. base + width \<le> length b \<Longrightarrow> rd b base \<noteq> None"
  shows "\<exists>r. with_grant_record (Some g) i True t width rd = Some r"
proof (cases "\<exists>b. grant_in g b \<and> i < unat (gr_counts g ! t)")
  case True
  then obtain b where b: "grant_in g b" "i < unat (gr_counts g ! t)" by blast
  show ?thesis using with_grant_record_in [OF b(1) assms(2,3) b(2), of rd] assms(4) by auto
next
  case False
  have "\<not> i < unat (gr_counts g ! t)"
    using False assms(1,2) by (auto simp: grant_typed_def grant_zero_def)
  then show ?thesis by (simp add: with_grant_record_def)
qed

lemmas grant_accessor_defs = kb2_resource_grant_slot_def kb2_resource_grant_object_def kb2_resource_grant_handle_binding_def

lemma grant_accessor_total:
  assumes "grant_typed g"
  shows "\<exists>r. kb2_resource_grant_slot (Some g) i True = Some r"
    "\<exists>r. kb2_resource_grant_object (Some g) i True = Some r"
    "\<exists>r. kb2_resource_grant_handle_binding (Some g) i True = Some r"
  unfolding grant_accessor_defs
  by (rule with_grant_record_total [OF assms]; simp add: read_grant_total)+

section \<open>The steps of the decoder\<close>

lemma grant_bsearch_total:
  assumes "grant_typed g"
  shows "\<exists>r. decoded_slot_index g k = Some r" "\<exists>r. decoded_object_index g k' = Some r"
proof -
  have "map_option f (kb2_resource_grant_slot (Some g) i True) \<noteq> None" for f :: "_ \<Rightarrow> kb2_protocol_status + u32" and i
    using grant_accessor_total(1) [OF assms, of i] by auto
  from bsearch_reads_eq [of _ "\<lambda>i. map_option (map_sum (\<lambda>e. e) sl_slot_id) (kb2_resource_grant_slot (Some g) i True)", OF this order_refl]
  show "\<exists>r. decoded_slot_index g k = Some r" by (simp add: decoded_slot_index_def)
  have "map_option f (kb2_resource_grant_object (Some g) i True) \<noteq> None" for f :: "_ \<Rightarrow> kb2_protocol_status + u64" and i
    using grant_accessor_total(2) [OF assms, of i] by auto
  from bsearch_reads_eq [of _ "\<lambda>i. map_option (map_sum (\<lambda>e. e) ob_object_id) (kb2_resource_grant_object (Some g) i True)", OF this order_refl]
  show "\<exists>r. decoded_object_index g k' = Some r" by (simp add: decoded_object_index_def)
qed

lemma slot_step_decides:
  assumes "grant_typed g"
  shows "decides KB2_PROTOCOL_MALFORMED (slot_step g i s)"
proof -
  obtain r where r: "kb2_resource_grant_slot (Some g) i True = Some r" using grant_accessor_total(1) [OF assms] by blast
  have inner: "decides KB2_PROTOCOL_MALFORMED (slot_objects_step g c k j u)" for c k j u
    using grant_accessor_total(2) [OF assms, of "c + j"] by (auto simp: slot_objects_step_def split: sum.split)
  show ?thesis
    by (auto simp: slot_step_def r split: sum.split intro!: decides_check_then decides_for_loop inner)
qed

lemma object_slot_allows_total:
  assumes "grant_typed g"
  shows "\<exists>a. object_slot_allows g ob = Some a"
proof -
  obtain x where x: "decoded_slot_index g (ob_slot_id ob) = Some x" using grant_bsearch_total(1) [OF assms] by blast
  have "\<exists>r. kb2_resource_grant_slot (Some g) i True = Some r" for i by (rule grant_accessor_total(1) [OF assms])
  then show ?thesis by (cases x) (auto simp: object_slot_allows_def x, metis bind.bind_lunit)
qed

lemma object_step_decides:
  assumes "grant_typed g"
  shows "decides KB2_PROTOCOL_MALFORMED (object_step g i s)"
proof -
  obtain r where r: "kb2_resource_grant_object (Some g) i True = Some r" using grant_accessor_total(2) [OF assms] by blast
  have inner: "decides KB2_PROTOCOL_MALFORMED (object_handles_step g c k j u)" for c k j u
    using grant_accessor_total(3) [OF assms, of "c + j"] by (auto simp: object_handles_step_def split: sum.split)
  have allows: "\<exists>a. object_slot_allows g ob = Some a" for ob by (rule object_slot_allows_total [OF assms])
  show ?thesis
  proof (cases r)
    case (Inr ob)
    obtain a where a: "object_slot_allows g ob = Some a" using allows by blast
    show ?thesis using r Inr a
      by (auto simp: object_step_def split: prod.split intro!: decides_check_then decides_for_loop inner)
  qed (simp add: object_step_def r split: prod.split)
qed

lemma binding_step_decides:
  assumes "grant_typed g"
  shows "decides KB2_PROTOCOL_MALFORMED (binding_step g i s)"
proof -
  obtain r where r: "kb2_resource_grant_handle_binding (Some g) i True = Some r" using grant_accessor_total(3) [OF assms] by blast
  show ?thesis
  proof (cases r)
    case (Inr hb)
    obtain x where "decoded_object_index g (hb_object_id hb) = Some x" using grant_bsearch_total(2) [OF assms] by blast
    then show ?thesis using r Inr by (simp add: binding_step_def)
  qed (simp add: binding_step_def r)
qed

lemma grant_content_decides:
  assumes "grant_typed g"
  shows "decides KB2_PROTOCOL_MALFORMED (grant_content g)"
  unfolding grant_content_def
  by (auto intro!: decides_check_then decides_for_loop slot_step_decides object_step_decides binding_step_decides assms
      simp: split_def)

text \<open>A step that succeeds has read its record.\<close>

lemma slot_step_read: "slot_step g i s = Some (Inr s') \<Longrightarrow> \<exists>x. kb2_resource_grant_slot (Some g) i True = Some (Inr x)"
  by (auto simp: slot_step_def split: Option.bind_split_asm sum.split_asm)

lemma object_step_read: "object_step g i s = Some (Inr s') \<Longrightarrow> \<exists>x. kb2_resource_grant_object (Some g) i True = Some (Inr x)"
  by (auto simp: object_step_def split: Option.bind_split_asm sum.split_asm prod.split_asm)

lemma binding_step_read: "binding_step g i s = Some (Inr s') \<Longrightarrow> \<exists>x. kb2_resource_grant_handle_binding (Some g) i True = Some (Inr x)"
  by (auto simp: binding_step_def split: Option.bind_split_asm sum.split_asm)

lemma table_is_ex: "(\<And>i. i < n \<Longrightarrow> \<exists>x. acc i = Some (Inr x)) \<Longrightarrow> \<exists>xs. table_is acc n xs"
proof -
  assume "\<And>i. i < n \<Longrightarrow> \<exists>x. acc i = Some (Inr x)"
  then obtain f where "\<And>i. i < n \<Longrightarrow> acc i = Some (Inr (f i))" by metis
  then have "table_is acc n (map f [0..<n])" by (simp add: table_is_def)
  then show ?thesis ..
qed

text \<open>The three tables of a grant as lists of records.\<close>

definition grant_has_tables :: "kb2_resource_grant \<Rightarrow> kb2_resource_grant_slot_t list \<Rightarrow> kb2_resource_grant_object_t list \<Rightarrow>
    kb2_resource_grant_handle_binding_t list \<Rightarrow> bool" where
  "grant_has_tables g S Os H \<longleftrightarrow>
     table_is (\<lambda>i. kb2_resource_grant_slot (Some g) i True) (kb2_resource_grant_slot_count (Some g)) S \<and>
     table_is (\<lambda>i. kb2_resource_grant_object (Some g) i True) (kb2_resource_grant_object_count (Some g)) Os \<and>
     table_is (\<lambda>i. kb2_resource_grant_handle_binding (Some g) i True) (kb2_resource_grant_handle_binding_count (Some g)) H"

lemmas grant_count_defs = kb2_resource_grant_slot_count_def kb2_resource_grant_object_count_def
  kb2_resource_grant_handle_binding_count_def

lemma grant_content_tables:
  assumes "grant_content g = Some (Inr ())"
  shows "\<exists>S Os H. grant_has_tables g S Os H"
proof -
  obtain s o' h where
    loops: "for_loop (slot_step g) 0 (unat (gr_counts g ! SLOTS)) (0, 0) = Some (Inr s)"
      "for_loop (object_step g) 0 (unat (gr_counts g ! OBJECTS)) (0, 0, 0) = Some (Inr o')"
      "for_loop (binding_step g) 0 (unat (gr_counts g ! HANDLE_BINDINGS)) (0, 0) = Some (Inr h)"
    using assms by (auto simp: grant_content_def check_then_Inr split: if_split_asm prod.split_asm)
  have "\<exists>S. table_is (\<lambda>i. kb2_resource_grant_slot (Some g) i True) (unat (gr_counts g ! SLOTS)) S"
    using for_loop_Inr_step [OF loops(1)] slot_step_read by (intro table_is_ex) (metis add_0 le0)
  moreover have "\<exists>S. table_is (\<lambda>i. kb2_resource_grant_object (Some g) i True) (unat (gr_counts g ! OBJECTS)) S"
    using for_loop_Inr_step [OF loops(2)] object_step_read by (intro table_is_ex) (metis add_0 le0)
  moreover have "\<exists>S. table_is (\<lambda>i. kb2_resource_grant_handle_binding (Some g) i True) (unat (gr_counts g ! HANDLE_BINDINGS)) S"
    using for_loop_Inr_step [OF loops(3)] binding_step_read by (intro table_is_ex) (metis add_0 le0)
  ultimately show ?thesis by (auto simp: grant_has_tables_def grant_count_defs)
qed

section \<open>The contract of the tables\<close>

definition slot_ids :: "kb2_resource_grant_slot_t list \<Rightarrow> u32 list" where
  "slot_ids S = map sl_slot_id S"

definition object_counts :: "kb2_resource_grant_slot_t list \<Rightarrow> nat list" where
  "object_counts S = map (\<lambda>s. unat (sl_object_count s)) S"

definition object_ids :: "kb2_resource_grant_object_t list \<Rightarrow> u64 list" where
  "object_ids Os = map ob_object_id Os"

definition handle_counts :: "kb2_resource_grant_object_t list \<Rightarrow> nat list" where
  "handle_counts Os = map (\<lambda>ob. unat (ob_handle_count ob)) Os"

text \<open>Rights that the slot of an object allows.\<close>

definition rights_allowed :: "kb2_resource_grant_slot_t list \<Rightarrow> kb2_resource_grant_object_t \<Rightarrow> bool" where
  "rights_allowed S ob \<longleftrightarrow>
     (\<exists>s \<in> set S. sl_slot_id s = ob_slot_id ob \<and> ob_granted_rights ob AND NOT (known_rights (sl_resource_type s)) = 0)"

definition role_before :: "kb2_resource_grant_handle_binding_t \<Rightarrow> kb2_resource_grant_handle_binding_t \<Rightarrow> bool" where
  "role_before h h' \<longleftrightarrow> hb_object_id h < hb_object_id h' \<or> hb_object_id h = hb_object_id h' \<and> hb_role h < hb_role h'"

definition slots_contract :: "kb2_resource_grant_slot_t list \<Rightarrow> kb2_resource_grant_object_t list \<Rightarrow> bool" where
  "slots_contract S Os \<longleftrightarrow>
     sorted_wrt (<) (slot_ids S) \<and> map ob_slot_id Os = runs (object_counts S) (slot_ids S) \<and>
     (\<forall>i < length S. unat (sl_object_start (S ! i)) = run_start (object_counts S) i) \<and>
     (\<forall>s \<in> set S. sl_state s = KB2_RESOURCE_GRANT_SLOT_ABSENT \<longleftrightarrow> sl_object_count s = 0)"

definition objects_contract :: "kb2_resource_grant_slot_t list \<Rightarrow> kb2_resource_grant_object_t list \<Rightarrow>
    kb2_resource_grant_handle_binding_t list \<Rightarrow> bool" where
  "objects_contract S Os H \<longleftrightarrow>
     sorted_wrt (<) (object_ids Os) \<and> map hb_object_id H = runs (handle_counts Os) (object_ids Os) \<and>
     (\<forall>i < length Os. unat (ob_handle_start (Os ! i)) = run_start (handle_counts Os) i) \<and>
     (\<forall>ob \<in> set Os. rights_allowed S ob)"

definition bindings_contract :: "kb2_resource_grant_handle_binding_t list \<Rightarrow> bool" where
  "bindings_contract H \<longleftrightarrow> sorted_wrt role_before H \<and> (\<forall>i < length H. unat (hb_transfer_handle_index (H ! i)) = i)"

lemmas columns = slot_ids_def object_counts_def object_ids_def handle_counts_def

text \<open>What every record that an accessor delivers satisfies by itself.\<close>

definition slot_row_ok :: "kb2_resource_grant_slot_t \<Rightarrow> bool" where
  "slot_row_ok s \<longleftrightarrow> sl_slot_id s \<noteq> 0 \<and> sl_resource_type s \<le> 4 \<and> sl_state s \<le> 1 \<and>
     \<not> bytes_are_zero (sl_interface_schema_digest s)"

definition object_row_ok :: "kb2_resource_grant_object_t \<Rightarrow> bool" where
  "object_row_ok ob \<longleftrightarrow> ob_slot_id ob \<noteq> 0 \<and> ob_object_id ob \<noteq> 0 \<and> ob_granted_rights ob \<noteq> 0"

lemma table_record_read:
  assumes "table_is (\<lambda>i. with_grant_record (Some g) i True t width rd) n xs" "x \<in> set xs"
  shows "\<exists>b base. rd b base = Some (Inr x)"
proof -
  obtain i where "with_grant_record (Some g) i True t width rd = Some (Inr x)"
    using assms by (auto simp: table_is_def in_set_conv_nth)
  then show ?thesis
    by (auto simp: with_grant_record_def split: if_split_asm Option.bind_split_asm)
qed

lemma grant_rows_ok:
  assumes "grant_has_tables g S Os H"
  shows "s \<in> set S \<Longrightarrow> slot_row_ok s" "ob \<in> set Os \<Longrightarrow> object_row_ok ob" "h \<in> set H \<Longrightarrow> hb_object_id h \<noteq> 0"
proof -
  have read: "read_slot b x = Some (Inr s) \<Longrightarrow> slot_row_ok s" "read_object b x = Some (Inr ob) \<Longrightarrow> object_row_ok ob"
    "read_handle_binding b x = Some (Inr h) \<Longrightarrow> hb_object_id h \<noteq> 0" for b x s ob h
    by (auto simp: read_slot_def read_object_def read_handle_binding_def slot_row_ok_def object_row_ok_def not_less
        split: Option.bind_split_asm if_split_asm)
  show "s \<in> set S \<Longrightarrow> slot_row_ok s" "ob \<in> set Os \<Longrightarrow> object_row_ok ob" "h \<in> set H \<Longrightarrow> hb_object_id h \<noteq> 0"
    using assms read unfolding grant_has_tables_def grant_accessor_defs by (metis table_record_read)+
qed

lemma known_rights_nonzero: "slot_row_ok s \<Longrightarrow> known_rights (sl_resource_type s) \<noteq> 0"
proof -
  assume "slot_row_ok s"
  then have "unat (sl_resource_type s) \<le> 4" by (simp add: slot_row_ok_def word_le_nat_alt)
  moreover have "known_rights (of_nat n) \<noteq> 0" if n: "n \<le> 4" for n
  proof -
    consider "n = 0" | "n = 1" | "n = 2" | "n = 3" | "n = 4" using n by linarith
    then show ?thesis by cases (simp_all add: known_rights_def)
  qed
  ultimately show ?thesis by (metis unat_eq_nat_uint word_of_int_uint of_nat_unat ucast_id)
qed

text \<open>The three loops on tables that are read completely.\<close>

lemma slot_loop:
  assumes "grant_has_tables g S Os H"
  shows "\<exists>x. for_loop (slot_step g) 0 (length S) (0, 0) = Some (
    if (\<forall>i < length S. prior (slot_ids S) i < slot_ids S ! i \<and>
         unat (sl_object_start (S ! i)) = run_start (object_counts S) i \<and>
         object_counts S ! i \<le> length Os - run_start (object_counts S) i \<and>
         (sl_state (S ! i) = 0 \<longrightarrow> sl_object_count (S ! i) = 0) \<and> (sl_state (S ! i) = 1 \<longrightarrow> sl_object_count (S ! i) \<noteq> 0) \<and>
         (\<forall>j < object_counts S ! i. map ob_slot_id Os ! (run_start (object_counts S) i + j) = slot_ids S ! i))
    then Inr (sum_list (object_counts S), x) else Inl KB2_PROTOCOL_MALFORMED)"
    (is "\<exists>x. _ = Some (if \<forall>i < length S. ?P i then _ else _)")
proof -
  let ?cs = "object_counts S"
  define st where "st i = (run_start ?cs i, prior (slot_ids S) i)" for i
  have n: "unat (gr_counts g ! OBJECTS) = length Os"
    and S: "\<And>i. i < length S \<Longrightarrow> kb2_resource_grant_slot (Some g) i True = Some (Inr (S ! i))"
    and Os: "\<And>i. i < length Os \<Longrightarrow> kb2_resource_grant_object (Some g) i True = Some (Inr (Os ! i))"
    using assms by (auto simp: grant_has_tables_def table_is_def grant_count_defs)
  have "slot_step g i (st i) = Some (if ?P i then Inr (st (Suc i)) else Inl KB2_PROTOCOL_MALFORMED)" if i: "i < length S" for i
  proof (cases "?cs ! i \<le> length Os - run_start ?cs i")
    case True
    have "for_loop (slot_objects_step g (run_start ?cs i) (sl_slot_id (S ! i))) 0 (?cs ! i) () =
        Some (if \<forall>j < ?cs ! i. ob_slot_id (Os ! (run_start ?cs i + j)) = sl_slot_id (S ! i) then Inr () else Inl KB2_PROTOCOL_MALFORMED)"
      using True by (intro for_loop_check) (simp add: slot_objects_step_def Os)
    moreover have "(\<forall>j < ?cs ! i. map ob_slot_id Os ! (run_start ?cs i + j) = slot_ids S ! i) \<longleftrightarrow>
        (\<forall>j < ?cs ! i. ob_slot_id (Os ! (run_start ?cs i + j)) = sl_slot_id (S ! i))"
      using True i by (auto simp: slot_ids_def)
    moreover have "?cs ! i = unat (sl_object_count (S ! i))" using i by (simp add: object_counts_def)
    moreover have "st (Suc i) = (run_start ?cs i + ?cs ! i, sl_slot_id (S ! i))"
      using i by (simp add: st_def run_start_Suc columns)
    ultimately show ?thesis using i True S [OF i]
      by (auto simp: slot_step_def n [simplified] st_def not_le slot_ids_def)
  next
    case False
    moreover have "?cs ! i = unat (sl_object_count (S ! i))" using i by (simp add: object_counts_def)
    ultimately show ?thesis using S [OF i] by (simp add: slot_step_def n [simplified] st_def)
  qed
  from for_loop_decides [of "length S" "slot_step g" st ?P, OF this] show ?thesis
    unfolding st_def using run_start_all [of ?cs] by (auto simp: object_counts_def simp del: sum_list_mono)
qed

lemma slots_contract_iff:
  assumes "\<And>s. s \<in> set S \<Longrightarrow> slot_row_ok s"
  shows "slots_contract S Os \<longleftrightarrow> sum_list (object_counts S) = length Os \<and>
    (\<forall>i < length S. prior (slot_ids S) i < slot_ids S ! i \<and>
         unat (sl_object_start (S ! i)) = run_start (object_counts S) i \<and>
         object_counts S ! i \<le> length Os - run_start (object_counts S) i \<and>
         (sl_state (S ! i) = 0 \<longrightarrow> sl_object_count (S ! i) = 0) \<and> (sl_state (S ! i) = 1 \<longrightarrow> sl_object_count (S ! i) \<noteq> 0) \<and>
         (\<forall>j < object_counts S ! i. map ob_slot_id Os ! (run_start (object_counts S) i + j) = slot_ids S ! i))"
proof -
  let ?cs = "object_counts S"
  have len: "length ?cs = length (slot_ids S)" "length (slot_ids S) = length S" by (simp_all add: columns)
  have ids: "sorted_wrt (<) (slot_ids S) \<longleftrightarrow> (\<forall>i < length S. prior (slot_ids S) i < slot_ids S ! i)"
    using prior_strict_iff [of "slot_ids S"] assms len(2) by (auto simp: slot_ids_def slot_row_ok_def)
  have state: "(\<forall>s \<in> set S. sl_state s = 0 \<longleftrightarrow> sl_object_count s = 0) \<longleftrightarrow>
      (\<forall>i < length S. (sl_state (S ! i) = 0 \<longrightarrow> sl_object_count (S ! i) = 0) \<and> (sl_state (S ! i) = 1 \<longrightarrow> sl_object_count (S ! i) \<noteq> 0))"
  proof -
    have "sl_state s = 0 \<or> sl_state s = 1" if "s \<in> set S" for s
      using assms [OF that] by (auto simp: slot_row_ok_def order.order_iff_strict)
    then have "(\<forall>s \<in> set S. sl_state s = 0 \<longleftrightarrow> sl_object_count s = 0) \<longleftrightarrow>
      (\<forall>s \<in> set S. (sl_state s = 0 \<longrightarrow> sl_object_count s = 0) \<and> (sl_state s = 1 \<longrightarrow> sl_object_count s \<noteq> 0))"
      by (metis zero_neq_one)
    then show ?thesis by (simp add: all_set_conv_all_nth)
  qed
  have fits: "?cs ! i \<le> length Os - run_start ?cs i" if "sum_list ?cs = length Os" "i < length S" for i
    using that run_start_Suc [of i ?cs] run_start_le [of ?cs "Suc i"] len by simp
  show ?thesis
    unfolding slots_contract_def runs_nth_iff [OF len(1), of "map ob_slot_id Os"] ids state length_map len
    using fits by blast
qed

lemma object_slot_allows_eq:
  assumes "grant_has_tables g S Os H" "sorted_wrt (<) (slot_ids S)"
  shows "object_slot_allows g ob = Some (\<exists>s \<in> set S. sl_slot_id s = ob_slot_id ob \<and> sl_state s = 1 \<and>
    ob_granted_rights ob AND NOT (known_rights (sl_resource_type s)) = 0)"
proof -
  have n: "unat (gr_counts g ! SLOTS) = length S"
    and S: "\<And>i. i < length S \<Longrightarrow> kb2_resource_grant_slot (Some g) i True = Some (Inr (S ! i))"
    using assms by (auto simp: grant_has_tables_def table_is_def grant_count_defs)
  obtain r where r: "decoded_slot_index g (ob_slot_id ob) = Some r"
    "\<And>i. r = Some i \<longleftrightarrow> i < length S \<and> sl_slot_id (S ! i) = ob_slot_id ob" "r = None \<longleftrightarrow> ob_slot_id ob \<notin> sl_slot_id ` set S"
    unfolding decoded_slot_index_def n
    by (rule bsearch_reads_sorted [OF assms(2) [unfolded slot_ids_def],
      of "\<lambda>i. map_option (map_sum (\<lambda>e. e) sl_slot_id) (kb2_resource_grant_slot (Some g) i True)" "ob_slot_id ob"]) (simp_all add: S)
  show ?thesis
  proof (cases r)
    case None
    then have "sl_slot_id s \<noteq> ob_slot_id ob" if "s \<in> set S" for s using r(3) that by (metis image_eqI)
    then show ?thesis using r(1) None by (simp add: object_slot_allows_def)
  next
    case (Some i)
    then have i: "i < length S" "sl_slot_id (S ! i) = ob_slot_id ob" using r(2) by auto
    have inj: "s = S ! i" if "s \<in> set S" "sl_slot_id s = ob_slot_id ob" for s
      using that i strict_sorted_iff [THEN iffD1, OF assms(2)] unfolding slot_ids_def by (metis distinct_map inj_onD nth_mem)
    have "known_rights (sl_resource_type (S ! i)) \<noteq> 0"
      using grant_rows_ok(1) [OF assms(1)] i(1) known_rights_nonzero nth_mem by blast
    moreover have "(\<exists>s \<in> set S. sl_slot_id s = ob_slot_id ob \<and> Q s) \<longleftrightarrow> Q (S ! i)" for Q
      using inj i nth_mem by blast
    ultimately show ?thesis using r(1) Some S [OF i(1)] by (simp add: object_slot_allows_def Let_def)
  qed
qed

lemma object_loop:
  assumes "grant_has_tables g S Os H" "sorted_wrt (<) (slot_ids S)"
  shows "\<exists>x. for_loop (object_step g) 0 (length Os) (0, 0, 0) = Some (
    if (\<forall>i < length Os. prior (map ob_slot_id Os) i \<le> map ob_slot_id Os ! i \<and> prior (object_ids Os) i < object_ids Os ! i \<and>
         unat (ob_handle_start (Os ! i)) = run_start (handle_counts Os) i \<and>
         handle_counts Os ! i \<le> length H - run_start (handle_counts Os) i \<and>
         (\<exists>s \<in> set S. sl_slot_id s = ob_slot_id (Os ! i) \<and> sl_state s = 1 \<and>
            ob_granted_rights (Os ! i) AND NOT (known_rights (sl_resource_type s)) = 0) \<and>
         (\<forall>j < handle_counts Os ! i. map hb_object_id H ! (run_start (handle_counts Os) i + j) = object_ids Os ! i))
    then Inr (sum_list (handle_counts Os), x) else Inl KB2_PROTOCOL_MALFORMED)"
    (is "\<exists>x. _ = Some (if \<forall>i < length Os. ?P i then _ else _)")
proof -
  let ?cs = "handle_counts Os"
  define st where "st i = (run_start ?cs i, prior (map ob_slot_id Os) i, prior (object_ids Os) i)" for i
  have n: "unat (gr_counts g ! HANDLE_BINDINGS) = length H"
    and Os: "\<And>i. i < length Os \<Longrightarrow> kb2_resource_grant_object (Some g) i True = Some (Inr (Os ! i))"
    and H: "\<And>i. i < length H \<Longrightarrow> kb2_resource_grant_handle_binding (Some g) i True = Some (Inr (H ! i))"
    using assms by (auto simp: grant_has_tables_def table_is_def grant_count_defs)
  have "object_step g i (st i) = Some (if ?P i then Inr (st (Suc i)) else Inl KB2_PROTOCOL_MALFORMED)" if i: "i < length Os" for i
  proof (cases "?cs ! i \<le> length H - run_start ?cs i")
    case True
    define A where "A \<longleftrightarrow> (\<exists>s \<in> set S. sl_slot_id s = ob_slot_id (Os ! i) \<and> sl_state s = 1 \<and>
        ob_granted_rights (Os ! i) AND NOT (known_rights (sl_resource_type s)) = 0)"
    define J where "J \<longleftrightarrow> (\<forall>j < ?cs ! i. map hb_object_id H ! (run_start ?cs i + j) = object_ids Os ! i)"
    have J: "J \<longleftrightarrow> (\<forall>j < ?cs ! i. hb_object_id (H ! (run_start ?cs i + j)) = ob_object_id (Os ! i))"
      unfolding J_def using True i by (auto simp: object_ids_def)
    have inner: "for_loop (object_handles_step g (run_start ?cs i) (ob_object_id (Os ! i))) 0 (?cs ! i) () =
        Some (if J then Inr () else Inl KB2_PROTOCOL_MALFORMED)"
      unfolding J using True by (intro for_loop_check) (simp add: object_handles_step_def H)
    have c: "unat (ob_handle_count (Os ! i)) = ?cs ! i" using i by (simp add: handle_counts_def)
    have next_st: "st (Suc i) = (run_start ?cs i + ?cs ! i, ob_slot_id (Os ! i), ob_object_id (Os ! i))"
      using i by (simp add: st_def run_start_Suc columns)
    have allows: "object_slot_allows g (Os ! i) = Some A" unfolding A_def by (rule object_slot_allows_eq [OF assms])
    show ?thesis unfolding A_def [symmetric] J_def [symmetric] next_st using True i
      by (simp add: object_step_def Os [OF i] allows st_def n c inner object_ids_def not_less not_le)
  next
    case False
    moreover have "?cs ! i = unat (ob_handle_count (Os ! i))" using i by (simp add: handle_counts_def)
    ultimately show ?thesis using Os [OF i] by (simp add: object_step_def n st_def)
  qed
  from for_loop_decides [of "length Os" "object_step g" st ?P, OF this] show ?thesis
    unfolding st_def using run_start_all [of ?cs] by (auto simp: handle_counts_def)
qed

lemma objects_contract_iff:
  assumes "slots_contract S Os" "\<And>s. s \<in> set S \<Longrightarrow> slot_row_ok s" "\<And>ob. ob \<in> set Os \<Longrightarrow> object_row_ok ob"
  shows "objects_contract S Os H \<longleftrightarrow> sum_list (handle_counts Os) = length H \<and>
    (\<forall>i < length Os. prior (map ob_slot_id Os) i \<le> map ob_slot_id Os ! i \<and> prior (object_ids Os) i < object_ids Os ! i \<and>
         unat (ob_handle_start (Os ! i)) = run_start (handle_counts Os) i \<and>
         handle_counts Os ! i \<le> length H - run_start (handle_counts Os) i \<and>
         (\<exists>s \<in> set S. sl_slot_id s = ob_slot_id (Os ! i) \<and> sl_state s = 1 \<and>
            ob_granted_rights (Os ! i) AND NOT (known_rights (sl_resource_type s)) = 0) \<and>
         (\<forall>j < handle_counts Os ! i. map hb_object_id H ! (run_start (handle_counts Os) i + j) = object_ids Os ! i))"
proof -
  let ?cs = "handle_counts Os"
  have len: "length ?cs = length (object_ids Os)" "length (object_ids Os) = length Os" by (simp_all add: columns)
  have ids: "sorted_wrt (<) (object_ids Os) \<longleftrightarrow> (\<forall>i < length Os. prior (object_ids Os) i < object_ids Os ! i)"
    using prior_strict_iff [of "object_ids Os"] assms(3) len(2) by (auto simp: object_ids_def object_row_ok_def)
  have "sorted (map ob_slot_id Os)"
    using assms(1) sorted_runs by (metis slots_contract_def)
  then have slots: "\<forall>i < length Os. prior (map ob_slot_id Os) i \<le> map ob_slot_id Os ! i"
    using prior_weak_iff [of "map ob_slot_id Os"] by simp
  have state: "sl_state s = 1" if s: "s \<in> set S" "sl_slot_id s = ob_slot_id ob" "ob \<in> set Os" for s ob
  proof -
    have "ob_slot_id ob \<in> set (runs (object_counts S) (slot_ids S))"
      using s(3) assms(1) by (metis slots_contract_def image_eqI list.set_map)
    then obtain i where i: "i < length S" "object_counts S ! i \<noteq> 0" "slot_ids S ! i = ob_slot_id ob"
      using set_runs_nth by (metis length_map slot_ids_def)
    have "distinct (slot_ids S)" using assms(1) by (auto simp: slots_contract_def simp: strict_sorted_iff)
    then have "s = S ! i" using s i unfolding slot_ids_def by (metis distinct_map inj_onD nth_map nth_mem)
    then have "sl_object_count s \<noteq> 0" using i by (auto simp: object_counts_def)
    then have "sl_state s \<noteq> 0" using assms(1) s(1) by (simp add: slots_contract_def)
    then show ?thesis using assms(2) [OF s(1)] by (auto simp: slot_row_ok_def order.order_iff_strict)
  qed
  have allowed: "(\<forall>ob \<in> set Os. rights_allowed S ob) \<longleftrightarrow>
      (\<forall>i < length Os. \<exists>s \<in> set S. sl_slot_id s = ob_slot_id (Os ! i) \<and> sl_state s = 1 \<and>
            ob_granted_rights (Os ! i) AND NOT (known_rights (sl_resource_type s)) = 0)"
    unfolding all_set_conv_all_nth rights_allowed_def using state by (metis nth_mem)
  have fits: "?cs ! i \<le> length H - run_start ?cs i" if "sum_list ?cs = length H" "i < length Os" for i
    using that run_start_Suc [of i ?cs] run_start_le [of ?cs "Suc i"] len by simp
  show ?thesis
    unfolding objects_contract_def runs_nth_iff [OF len(1), of "map hb_object_id H"] ids allowed length_map len
    using fits slots by blast
qed

lemma binding_loop:
  assumes "grant_has_tables g S Os H" "sorted_wrt (<) (object_ids Os)"
  shows "\<exists>x. for_loop (binding_step g) 0 (length H) (0, 0) = Some (
    if (\<forall>i < length H. hb_object_id (H ! i) \<in> set (object_ids Os) \<and> unat (hb_transfer_handle_index (H ! i)) = i \<and>
         prior (map hb_object_id H) i \<le> hb_object_id (H ! i) \<and>
         (hb_object_id (H ! i) = prior (map hb_object_id H) i \<longrightarrow> i \<noteq> 0 \<and> prior (map hb_role H) i < hb_role (H ! i)))
    then Inr x else Inl KB2_PROTOCOL_MALFORMED)"
    (is "\<exists>x. _ = Some (if \<forall>i < length H. ?P i then _ else _)")
proof -
  define st where "st i = (prior (map hb_object_id H) i, prior (map hb_role H) i)" for i
  have n: "unat (gr_counts g ! OBJECTS) = length Os"
    and Os: "\<And>i. i < length Os \<Longrightarrow> kb2_resource_grant_object (Some g) i True = Some (Inr (Os ! i))"
    and H: "\<And>i. i < length H \<Longrightarrow> kb2_resource_grant_handle_binding (Some g) i True = Some (Inr (H ! i))"
    using assms by (auto simp: grant_has_tables_def table_is_def grant_count_defs)
  have "binding_step g i (st i) = Some (if ?P i then Inr (st (Suc i)) else Inl KB2_PROTOCOL_MALFORMED)" if i: "i < length H" for i
  proof -
    obtain r where r: "decoded_object_index g (hb_object_id (H ! i)) = Some r"
      "\<And>j. r = Some j \<longleftrightarrow> j < length Os \<and> ob_object_id (Os ! j) = hb_object_id (H ! i)"
      "r = None \<longleftrightarrow> hb_object_id (H ! i) \<notin> ob_object_id ` set Os"
      unfolding decoded_object_index_def n
      by (rule bsearch_reads_sorted [OF assms(2) [unfolded object_ids_def],
        of "\<lambda>i. map_option (map_sum (\<lambda>e. e) ob_object_id) (kb2_resource_grant_object (Some g) i True)"
           "hb_object_id (H ! i)"]) (simp_all add: Os)
    have "r = None \<longleftrightarrow> hb_object_id (H ! i) \<notin> set (object_ids Os)" using r(3) by (simp add: object_ids_def)
    then show ?thesis using i H [OF i] r(1)
      by (auto simp: binding_step_def st_def not_less not_le)
  qed
  from for_loop_decides [of "length H" "binding_step g" st ?P, OF this] show ?thesis
    unfolding st_def by auto
qed

lemma transp_role_before: "transp role_before"
  by (auto simp: transp_def role_before_def)

lemma bindings_contract_iff:
  assumes "map hb_object_id H = runs cs (object_ids Os)" "\<And>h. h \<in> set H \<Longrightarrow> hb_object_id h \<noteq> 0"
  shows "bindings_contract H \<longleftrightarrow>
    (\<forall>i < length H. hb_object_id (H ! i) \<in> set (object_ids Os) \<and> unat (hb_transfer_handle_index (H ! i)) = i \<and>
         prior (map hb_object_id H) i \<le> hb_object_id (H ! i) \<and>
         (hb_object_id (H ! i) = prior (map hb_object_id H) i \<longrightarrow> i \<noteq> 0 \<and> prior (map hb_role H) i < hb_role (H ! i)))"
proof -
  have mem: "hb_object_id (H ! i) \<in> set (object_ids Os)" if "i < length H" for i
    using that assms(1) set_runs by (metis length_map nth_map nth_mem subsetD)
  have nz: "hb_object_id (H ! i) \<noteq> 0" if "i < length H" for i using that assms(2) by simp
  have all: "(\<forall>i < length H. P i) \<longleftrightarrow> (0 < length H \<longrightarrow> P 0) \<and> (\<forall>i. Suc i < length H \<longrightarrow> P (Suc i))" for P
    by (metis not0_implies_Suc zero_less_iff_neq_zero)
  have step: "role_before (H ! i) (H ! Suc i) \<longleftrightarrow>
      hb_object_id (H ! i) \<le> hb_object_id (H ! Suc i) \<and> (hb_object_id (H ! Suc i) = hb_object_id (H ! i) \<longrightarrow> hb_role (H ! i) < hb_role (H ! Suc i))" for i
    by (auto simp: role_before_def)
  have "sorted_wrt role_before H \<longleftrightarrow> (\<forall>i < length H. prior (map hb_object_id H) i \<le> hb_object_id (H ! i) \<and>
         (hb_object_id (H ! i) = prior (map hb_object_id H) i \<longrightarrow> i \<noteq> 0 \<and> prior (map hb_role H) i < hb_role (H ! i)))"
    unfolding sorted_wrt_steps [OF transp_role_before] all step using nz by auto
  then show ?thesis unfolding bindings_contract_def using mem by auto
qed

definition grant_contract :: "kb2_resource_grant_slot_t list \<Rightarrow> kb2_resource_grant_object_t list \<Rightarrow>
    kb2_resource_grant_handle_binding_t list \<Rightarrow> bool" where
  "grant_contract S Os H \<longleftrightarrow> slots_contract S Os \<and> objects_contract S Os H \<and> bindings_contract H"

lemma grant_content_on_tables:
  assumes "grant_has_tables g S Os H"
  shows "grant_content g = Some (Inr ()) \<longleftrightarrow> grant_contract S Os H"
proof -
  have n: "unat (gr_counts g ! SLOTS) = length S" "unat (gr_counts g ! OBJECTS) = length Os"
    "unat (gr_counts g ! HANDLE_BINDINGS) = length H"
    using assms by (auto simp: grant_has_tables_def table_is_def grant_count_defs)
  note rows = grant_rows_ok [OF assms]
  obtain x P where slots: "for_loop (slot_step g) 0 (length S) (0, 0) =
      Some (if P then Inr (sum_list (object_counts S), x) else Inl KB2_PROTOCOL_MALFORMED)"
    and P: "slots_contract S Os \<longleftrightarrow> sum_list (object_counts S) = length Os \<and> P"
    using slot_loop [OF assms] slots_contract_iff [of S Os, OF rows(1)] by blast
  show ?thesis
  proof (cases "slots_contract S Os")
    case True
    then have ids: "sorted_wrt (<) (slot_ids S)" by (simp add: slots_contract_def)
    obtain y Q where objects: "for_loop (object_step g) 0 (length Os) (0, 0, 0) =
        Some (if Q then Inr (sum_list (handle_counts Os), y) else Inl KB2_PROTOCOL_MALFORMED)"
      and Q: "objects_contract S Os H \<longleftrightarrow> sum_list (handle_counts Os) = length H \<and> Q"
      using object_loop [OF assms ids] objects_contract_iff [OF True rows(1,2), of H] by blast
    show ?thesis
    proof (cases "objects_contract S Os H")
      case o: True
      then have oids: "sorted_wrt (<) (object_ids Os)" and runs: "map hb_object_id H = runs (handle_counts Os) (object_ids Os)"
        by (simp_all add: objects_contract_def)
      obtain z where "for_loop (binding_step g) 0 (length H) (0, 0) =
          Some (if bindings_contract H then Inr z else Inl KB2_PROTOCOL_MALFORMED)"
        using binding_loop [OF assms oids] bindings_contract_iff [OF runs rows(3)] by auto
      then show ?thesis using slots objects True o P Q
        by (simp add: grant_content_def n [simplified] grant_contract_def)
    next
      case o: False
      then show ?thesis using slots objects True P Q
        by (auto simp: grant_content_def n [simplified] grant_contract_def)
    qed
  next
    case False
    then show ?thesis using slots P by (auto simp: grant_content_def n [simplified] grant_contract_def)
  qed
qed

lemma grant_content_iff:
  assumes "grant_typed g"
  shows "grant_content g = Some (if \<exists>S Os H. grant_has_tables g S Os H \<and> grant_contract S Os H
    then Inr () else Inl KB2_PROTOCOL_MALFORMED)"
  by (rule decides_iff [OF grant_content_decides [OF assms]])
    (metis grant_content_on_tables grant_content_tables)

section \<open>The header\<close>

definition grant_counts :: "bytes \<Rightarrow> u32 list" where
  "grant_counts b = [un32 (slice b 80 4), un32 (slice b 84 4), un32 (slice b 88 4)]"

definition grant_offsets :: "bytes \<Rightarrow> u32 list" where
  "grant_offsets b = [un32 (slice b 92 4), un32 (slice b 96 4), un32 (slice b 100 4)]"

definition grant_header :: "bytes \<Rightarrow> bool" where
  "grant_header b \<longleftrightarrow> 128 \<le> length b \<and> length b \<le> UINT32_MAX \<and>
     slice b 4 4 = grant_abi_identity \<and> slice b 8 32 = grant_schema_digest \<and>
     unat (un32 (slice b 0 4)) = length b \<and> bytes_are_zero (slice b 104 24) \<and>
     un64 (slice b 40 8) \<noteq> 0 \<and> \<not> bytes_are_zero (slice b 48 32) \<and>
     (\<forall>t < 3. unat (grant_counts b ! t) \<le> grant_limits ! t) \<and>
     map unat (grant_offsets b) @ [length b] = table_offsets 128 (map unat (grant_counts b)) grant_sizes"

definition grant_view_of :: "bytes \<Rightarrow> kb2_resource_grant" where
  "grant_view_of b = \<lparr>gr_bytes = Some b, gr_size = length b, gr_generation = un64 (slice b 40 8),
     gr_closure_manifest_digest = slice b 48 32, gr_counts = grant_counts b, gr_offsets = grant_offsets b\<rparr>"

lemma grant_view_decides: "\<exists>r. grant_view b = Some r \<and> r \<noteq> Inl KB2_PROTOCOL_OK"
  by (cases "length b < 128") (simp_all add: grant_view_def wire Let_def)

lemma grant_tables_three:
  assumes "128 \<le> length b"
  defines "o0 \<equiv> un32 (slice b 92 4)" and "o1 \<equiv> un32 (slice b 96 4)" and "o2 \<equiv> un32 (slice b 100 4)"
  shows "grant_tables b 128 [(c0, 92, l0, 64), (c1, 96, l1, 32), (c2, 100, l2, 16)] =
    Some (if unat c0 \<le> l0 \<and> unat c1 \<le> l1 \<and> unat c2 \<le> l2 \<and>
        unat o0 = 128 \<and> unat o1 = 128 + unat c0 * 64 \<and> unat o2 = unat o1 + unat c1 * 32 \<and>
        unat o2 + unat c2 * 16 \<le> length b
      then Inr ([o0, o1, o2], unat o2 + unat c2 * 16) else Inl KB2_PROTOCOL_MALFORMED)"
proof -
  have loads: "load_u32 b 92 = Some o0" "load_u32 b 96 = Some o1" "load_u32 b 100 = Some o2"
    using assms(1) by (simp_all add: wire o0_def o1_def o2_def)
  show ?thesis by (auto simp: loads Let_def not_less not_le)
qed

lemma grant_header_layout:
  defines "o0 \<equiv> \<lambda>b. un32 (slice b 92 4)" and "o1 \<equiv> \<lambda>b. un32 (slice b 96 4)" and "o2 \<equiv> \<lambda>b. un32 (slice b 100 4)"
    and "c0 \<equiv> \<lambda>b. un32 (slice b 80 4)" and "c1 \<equiv> \<lambda>b. un32 (slice b 84 4)" and "c2 \<equiv> \<lambda>b. un32 (slice b 88 4)"
  shows "(\<forall>t < 3. unat (grant_counts b ! t) \<le> grant_limits ! t) \<and>
     map unat (grant_offsets b) @ [length b] = table_offsets 128 (map unat (grant_counts b)) grant_sizes \<longleftrightarrow>
    unat (c0 b) \<le> 16384 \<and> unat (c1 b) \<le> 65536 \<and> unat (c2 b) \<le> 65536 \<and>
        unat (o0 b) = 128 \<and> unat (o1 b) = 128 + unat (c0 b) * 64 \<and> unat (o2 b) = unat (o1 b) + unat (c1 b) * 32 \<and>
        unat (o2 b) + unat (c2 b) * 16 = length b"
  unfolding all_less_3
  by (auto simp: grant_counts_def grant_offsets_def grant_sizes_def grant_limits_def o0_def o1_def o2_def c0_def c1_def c2_def)

lemma grant_view_iff: "grant_view b = Some (Inr g) \<longleftrightarrow> grant_header b \<and> g = grant_view_of b"
proof (cases "128 \<le> length b \<and> length b \<le> UINT32_MAX")
  case True
  then have len: "128 \<le> length b" "length b \<le> UINT32_MAX" by auto
  define o0 o1 o2 where "o0 = un32 (slice b 92 4)" and "o1 = un32 (slice b 96 4)" and "o2 = un32 (slice b 100 4)"
  define c0 c1 c2 where "c0 = un32 (slice b 80 4)" and "c1 = un32 (slice b 84 4)" and "c2 = un32 (slice b 88 4)"
  define e where "e = unat o2 + unat c2 * 16"
  define Q where "Q \<longleftrightarrow> unat c0 \<le> 16384 \<and> unat c1 \<le> 65536 \<and> unat c2 \<le> 65536 \<and>
        unat o0 = 128 \<and> unat o1 = 128 + unat c0 * 64 \<and> unat o2 = unat o1 + unat c1 * 32"
  have tables: "grant_tables b 128 [(c0, 92, 16384, 64), (c1, 96, 65536, 32), (c2, 100, 65536, 16)] =
    Some (if Q \<and> e \<le> length b then Inr ([o0, o1, o2], e) else Inl KB2_PROTOCOL_MALFORMED)"
    unfolding grant_tables_three [OF len(1)] Q_def e_def o0_def o1_def o2_def by simp
  have limits: "grant_limits ! 0 = 16384" "grant_limits ! 1 = 65536" "grant_limits ! 2 = 65536" by (simp_all add: grant_limits_def)
  have layout: "(\<forall>t < 3. unat (grant_counts b ! t) \<le> grant_limits ! t) \<and>
     map unat (grant_offsets b) @ [length b] = table_offsets 128 (map unat (grant_counts b)) grant_sizes \<longleftrightarrow> Q \<and> e = length b"
    unfolding grant_header_layout Q_def e_def o0_def o1_def o2_def c0_def c1_def c2_def by (simp add: conj_assoc)
  have view: "grant_view_of b = \<lparr>gr_bytes = Some b, gr_size = length b, gr_generation = un64 (slice b 40 8),
     gr_closure_manifest_digest = slice b 48 32, gr_counts = [c0, c1, c2], gr_offsets = [o0, o1, o2]\<rparr>"
    by (simp add: grant_view_of_def grant_counts_def grant_offsets_def c0_def c1_def c2_def o0_def o1_def o2_def)
  have loads: "load_u32 b 80 = Some c0" "load_u32 b 84 = Some c1" "load_u32 b 88 = Some c2"
    "load_u32 b 0 = Some (un32 (slice b 0 4))" "load_u64 b 40 = Some (un64 (slice b 40 8))"
    "load_bytes b 48 32 = Some (slice b 48 32)" "load_bytes b 4 4 = Some (slice b 4 4)"
    "load_bytes b 8 32 = Some (slice b 8 32)" "load_bytes b 104 24 = Some (slice b 104 24)"
    using len by (simp_all add: wire c0_def c1_def c2_def)
  show ?thesis using len unfolding grant_header_def layout view grant_view_def limits grant_sizes_nth
    by (simp add: loads tables del: grant_tables.simps) (auto split: if_split_asm)
qed (auto simp: grant_view_def grant_header_def)

lemma grant_view_typed: "grant_header b \<Longrightarrow> grant_in (grant_view_of b) b"
proof -
  assume h: "grant_header b"
  have "\<forall>t < 3. unat (grant_counts b ! t) \<le> grant_limits ! t \<and>
        unat (grant_offsets b ! t) + unat (grant_counts b ! t) * grant_sizes ! t \<le> length b"
    using h unfolding grant_header_def all_less_3
    by (simp add: grant_counts_def grant_offsets_def grant_limits_def grant_sizes_def)
  then show ?thesis using h
    by (simp add: grant_in_def grant_view_of_def grant_header_def grant_counts_def grant_offsets_def)
qed

lemma grant_decode_cases:
  assumes "kb2_resource_grant_decode (Some b) True = r"
  obtains (refused) status where "\<not> grant_header b" "status \<noteq> KB2_PROTOCOL_OK" "r = Some (status, Some grant_zero)"
  | (malformed) "grant_header b" "\<not> (\<exists>S Os H. grant_has_tables (grant_view_of b) S Os H \<and> grant_contract S Os H)"
      "r = Some (KB2_PROTOCOL_MALFORMED, Some grant_zero)"
  | (accepted) "grant_header b" "\<exists>S Os H. grant_has_tables (grant_view_of b) S Os H \<and> grant_contract S Os H"
      "r = Some (KB2_PROTOCOL_OK, Some (grant_view_of b))"
proof -
  obtain v where v: "grant_view b = Some v" "v \<noteq> Inl KB2_PROTOCOL_OK" using grant_view_decides by blast
  show ?thesis
  proof (cases v)
    case (Inl status)
    then have "\<not> grant_header b" using v(1) grant_view_iff [of b "grant_view_of b"] by auto
    then show ?thesis using that(1) v Inl assms by (simp add: kb2_resource_grant_decode_def)
  next
    case (Inr g)
    then have g: "grant_header b" "g = grant_view_of b" using v(1) grant_view_iff by auto
    then have "grant_typed g" using grant_view_typed by (auto simp: grant_typed_def)
    note content = grant_content_iff [OF this, unfolded g(2)]
    show ?thesis
    proof (cases "\<exists>S Os H. grant_has_tables (grant_view_of b) S Os H \<and> grant_contract S Os H")
      case True
      then have "grant_content (grant_view_of b) = Some (Inr ())" using content by (simp only: if_True)
      then have "r = Some (KB2_PROTOCOL_OK, Some (grant_view_of b))"
        using g v Inr assms by (simp add: kb2_resource_grant_decode_def)
      then show ?thesis using that(3) g(1) True by blast
    next
      case False
      then have "grant_content (grant_view_of b) = Some (Inl KB2_PROTOCOL_MALFORMED)" using content by (simp only: if_False)
      then have "r = Some (KB2_PROTOCOL_MALFORMED, Some grant_zero)"
        using g v Inr assms by (simp add: kb2_resource_grant_decode_def)
      then show ?thesis using that(2) g(1) False by blast
    qed
  qed
qed

text \<open>C28. The grant decoder decides the grant contract. It answers OK for a buffer exactly when the
  header is right (identity, exact size, zero reserved bytes, a generation, a manifest digest, counts
  within their limits, three tables that follow each other without a gap up to the end), every record
  is acceptable, and the tables fit together: slot identifiers strictly ascend, the objects are
  exactly the runs the slots announce, absent slots own none and present slots some, object
  identifiers strictly ascend and their rights are known rights of the type of their slot, the handle
  bindings are exactly the runs the objects announce, ordered by object and role, and numbered in
  order. Then it delivers the view of the header; otherwise the output is cleared.\<close>

theorem kb2_resource_grant_decode_correct:
  "kb2_resource_grant_decode (Some b) True = Some (KB2_PROTOCOL_OK, out) \<longleftrightarrow>
     grant_header b \<and> out = Some (grant_view_of b) \<and>
     (\<exists>S Os H. grant_has_tables (grant_view_of b) S Os H \<and> grant_contract S Os H)"
  by (cases rule: grant_decode_cases [of b, OF refl]) auto

text \<open>C30. Grant views are typed. Whatever bytes arrive, the decoder stays inside them and writes
  nothing, the cleared view, or a view whose tables lie in the buffer; and on every view it can write,
  each accessor stays inside the buffer for every index.\<close>

theorem kb2_resource_grant_typed:
  "\<exists>status out. kb2_resource_grant_decode buffer outs = Some (status, out) \<and> pred_option grant_typed out \<and>
     pred_option (\<lambda>g. \<forall>i. kb2_resource_grant_slot (Some g) i True \<noteq> None \<and>
       kb2_resource_grant_object (Some g) i True \<noteq> None \<and>
       kb2_resource_grant_handle_binding (Some g) i True \<noteq> None) out"
proof -
  have "\<exists>status out. kb2_resource_grant_decode buffer outs = Some (status, out) \<and> pred_option grant_typed out"
  proof (cases "\<exists>b. buffer = Some b \<and> outs")
    case True
    then obtain b where b: "buffer = Some b" "outs" by blast
    show ?thesis unfolding b(1) using b(2) grant_view_typed [of b]
      by (cases rule: grant_decode_cases [of b, OF refl]) (auto simp: grant_typed_def)
  next
    case False
    then show ?thesis by (auto simp: kb2_resource_grant_decode_def split: option.split)
  qed
  then obtain status out where d: "kb2_resource_grant_decode buffer outs = Some (status, out)" "pred_option grant_typed out"
    by blast
  then show ?thesis using grant_accessor_total by (cases out) (auto simp del: not_None_eq; metis option.discI)+
qed

end
