(* ===== verification/Grant_Encode.thy ===== *)
theory Grant_Encode
  imports Manifest_Encode Resource_Grant
begin

unbundle bit_operations_syntax

text \<open>
  The grant encoder against the grant decoder: a source that the encoder accepts satisfies the
  contract of the decoder once its objects and handles are divided into runs, and the encoding is
  decoded to exactly those tables.
\<close>

section \<open>Accepted sources\<close>

abbreviation (input) source_ids :: "kb2_resource_grant_slot_source list \<Rightarrow> u32 list" where
  "source_ids slots \<equiv> map ss_slot_id slots"

lemma source_slot_loop:
  "\<exists>x. for_loop (source_slot_step slots) 0 (length slots) 0 = Some (
    if (\<forall>i < length slots. prior (source_ids slots) i < source_ids slots ! i \<and> ss_resource_type (slots ! i) \<le> 4 \<and>
      ss_state (slots ! i) \<le> 1 \<and> \<not> bytes_are_zero (ss_interface_schema_digest (slots ! i))) then Inr x else Inl ())"
    (is "\<exists>x. _ = Some (if \<forall>i < length slots. ?P i then _ else _)")
proof -
  have "source_slot_step slots i (prior (source_ids slots) i) =
      Some (if ?P i then Inr (prior (source_ids slots) (Suc i)) else Inl ())" if "i < length slots" for i
    using that by (simp add: source_slot_step_def Let_def not_le not_less)
  from for_loop_decides [of "length slots" "source_slot_step slots" "prior (source_ids slots)" ?P, OF this]
  show ?thesis by auto
qed

definition source_allowed :: "kb2_resource_grant_slot_source list \<Rightarrow> kb2_resource_grant_object_source \<Rightarrow> bool" where
  "source_allowed slots object \<longleftrightarrow> (\<exists>slot \<in> set slots. ss_slot_id slot = os_slot_id object \<and> ss_state slot = 1 \<and>
     os_granted_rights object AND NOT (known_rights (ss_resource_type slot)) = 0)"

lemma source_object_step_Inr:
  assumes "sorted_wrt (<) (source_ids slots)" "source_object_step slots objects i prev = Some (Inr s)"
  shows "os_granted_rights (objects ! i) \<noteq> 0 \<and> fst prev \<le> os_slot_id (objects ! i) \<and> snd prev < os_object_id (objects ! i) \<and>
    source_allowed slots (objects ! i) \<and> s = (os_slot_id (objects ! i), os_object_id (objects ! i))"
proof -
  obtain j where j: "source_slot_index slots (os_slot_id (objects ! i)) = Some j"
    using assms(2) by (auto simp: source_object_step_def Let_def split: option.split_asm)
  then have "j < length slots \<and> ss_slot_id (slots ! j) = os_slot_id (objects ! i)"
    using bsearch_sorted(1) [OF assms(1), of "\<lambda>i. Some (ss_slot_id (slots ! i))"] by (simp add: source_slot_index_def)
  then have "source_allowed slots (objects ! i)"
    if "ss_state (slots ! j) = 1" "os_granted_rights (objects ! i) AND NOT (known_rights (ss_resource_type (slots ! j))) = 0"
    unfolding source_allowed_def using that nth_mem by blast
  then show ?thesis using assms(2) j
    by (auto simp: source_object_step_def Let_def not_le not_less split: if_split_asm)
qed

definition source_contract :: "kb2_resource_grant_slot_source list \<Rightarrow> kb2_resource_grant_object_source list \<Rightarrow>
    kb2_resource_grant_handle_binding_t list \<Rightarrow> bool" where
  "source_contract slots objects bindings \<longleftrightarrow>
     sorted_wrt (<) (source_ids slots) \<and>
     (\<forall>slot \<in> set slots. ss_slot_id slot \<noteq> 0 \<and> ss_resource_type slot \<le> 4 \<and> ss_state slot \<le> 1 \<and>
        \<not> bytes_are_zero (ss_interface_schema_digest slot)) \<and>
     sorted_wrt (<) (map os_object_id objects) \<and>
     (\<forall>object \<in> set objects. os_object_id object \<noteq> 0 \<and> os_granted_rights object \<noteq> 0 \<and> source_allowed slots object) \<and>
     map os_slot_id objects = runs (run_counts (source_ids slots) (map os_slot_id objects)) (source_ids slots) \<and>
     (\<forall>i < length slots. ss_state (slots ! i) = 0 \<longleftrightarrow> run_counts (source_ids slots) (map os_slot_id objects) ! i = 0) \<and>
     map hb_object_id bindings =
       runs (run_counts (map os_object_id objects) (map hb_object_id bindings)) (map os_object_id objects) \<and>
     bindings_contract bindings"

lemma source_runs_loop:
  assumes "for_loop (source_run_step slots objects) 0 (length slots) 0 = Some (Inr (length objects))"
    and "\<forall>slot \<in> set slots. ss_state slot \<le> 1"
  defines "cs \<equiv> run_counts (source_ids slots) (map os_slot_id objects)"
  shows "sum_list cs = length objects \<and> (\<forall>i < length slots. ss_state (slots ! i) = 0 \<longleftrightarrow> cs ! i = 0)"
proof -
  have "(ss_state (slots ! i) = 0 \<longleftrightarrow> cs ! i = 0) \<and> x = run_start cs (Suc i)"
    if i: "i < length slots" and x: "source_run_step slots objects i (run_start cs i) = Some (Inr x)" for i x
  proof -
    have len: "length cs = length slots" by (simp add: cs_def)
    have "skip_while (\<lambda>object. os_slot_id object = ss_slot_id (slots ! i)) objects (run_start cs i) = run_start cs i + cs ! i"
      using skip_while_runs [of i "source_ids slots" os_slot_id objects] run_start_Suc [of i cs] i len by (simp add: cs_def)
    moreover have "ss_state (slots ! i) = 0 \<or> ss_state (slots ! i) = 1"
      using assms(2) i by (auto simp: order.order_iff_strict)
    ultimately show ?thesis using x i len
      by (auto simp: source_run_step_def Let_def run_start_Suc split: if_split_asm)
  qed
  from for_loop_trace0 [of "source_run_step slots objects" "length slots" "run_start cs" "length objects", OF _ this]
  show ?thesis using assms(1) run_start_all [of cs] by (simp add: cs_def)
qed

lemma source_binding_loop:
  assumes "for_loop (source_binding_step objects bindings) 0 (length bindings) (0, 0) = Some (Inr s)"
    and "sorted_wrt (<) (map os_object_id objects)" "\<forall>object \<in> set objects. os_object_id object \<noteq> 0"
  shows "map hb_object_id bindings =
       runs (run_counts (map os_object_id objects) (map hb_object_id bindings)) (map os_object_id objects) \<and>
     bindings_contract bindings"
proof -
  let ?st = "\<lambda>i. (prior (map hb_object_id bindings) i, prior (map hb_role bindings) i)"
  let ?P = "\<lambda>i. hb_object_id (bindings ! i) \<in> os_object_id ` set objects \<and> unat (hb_transfer_handle_index (bindings ! i)) = i \<and>
         prior (map hb_object_id bindings) i \<le> hb_object_id (bindings ! i) \<and>
         (hb_object_id (bindings ! i) = prior (map hb_object_id bindings) i \<longrightarrow> i \<noteq> 0 \<and> prior (map hb_role bindings) i < hb_role (bindings ! i))"
  have found: "source_object_index objects k = None \<longleftrightarrow> k \<notin> os_object_id ` set objects" for k
    using bsearch_sorted(2) [OF assms(2), of "\<lambda>i. Some (os_object_id (objects ! i))"] by (simp add: source_object_index_def)
  have start: "for_loop (source_binding_step objects bindings) 0 (length bindings) (?st 0) = Some (Inr s)"
    using assms(1) by simp
  have step: "?P i \<and> x = ?st (Suc i)" if "i < length bindings" "source_binding_step objects bindings i (?st i) = Some (Inr x)" for i x
    using that unfolding source_binding_step_def Let_def found
    by (auto simp: not_less not_le split: if_split_asm simp del: image_iff)
  have P: "\<forall>i < length bindings. ?P i"
    by (rule conjunct1 [OF for_loop_trace0 [where st = ?st and P = ?P, OF start step]])
  have sorted: "sorted (map hb_object_id bindings)"
    using P prior_weak_iff [of "map hb_object_id bindings"] by simp
  have sub: "set (map hb_object_id bindings) \<subseteq> set (map os_object_id objects)"
    using P by (auto simp: in_set_conv_nth)
  have runs: "map hb_object_id bindings =
       runs (run_counts (map os_object_id objects) (map hb_object_id bindings)) (map os_object_id objects)"
    using run_counts_sorted [OF assms(2) sorted sub] run_counts_cover by blast
  have nz: "hb_object_id h \<noteq> 0" if "h \<in> set bindings" for h
    using sub that assms(3) by auto
  have "bindings_contract bindings"
    using P bindings_contract_iff [of bindings _ "map (\<lambda>ob. \<lparr>ob_slot_id = 0, ob_object_id = os_object_id ob,
       ob_granted_rights = 0, ob_handle_start = 0, ob_handle_count = 0\<rparr>) objects", OF _ nz] runs
    by (simp add: object_ids_def comp_def)
  then show ?thesis using runs by blast
qed

lemma source_tables_valid_contract:
  assumes "source_tables_valid slots objects bindings"
  shows "source_contract slots objects bindings"
proof -
  obtain a b e where
    l1: "for_loop (source_slot_step slots) 0 (length slots) 0 = Some (Inr a)"
    and l2: "for_loop (source_object_step slots objects) 0 (length objects) (0, 0) = Some (Inr b)"
    and l3: "for_loop (source_run_step slots objects) 0 (length slots) 0 = Some (Inr (length objects))"
    and l4: "for_loop (source_binding_step objects bindings) 0 (length bindings) (0, 0) = Some (Inr e)"
    using assms by (auto simp: source_tables_valid_def check_then_Inr split: if_split_asm)
  have s: "\<forall>i < length slots. prior (source_ids slots) i < source_ids slots ! i \<and> ss_resource_type (slots ! i) \<le> 4 \<and>
      ss_state (slots ! i) \<le> 1 \<and> \<not> bytes_are_zero (ss_interface_schema_digest (slots ! i))"
    using source_slot_loop [of slots] l1 by (auto split: if_split_asm)
  then have ids: "sorted_wrt (<) (source_ids slots)" "\<forall>slot \<in> set slots. ss_slot_id slot \<noteq> 0"
    using prior_strict_iff [of "source_ids slots"] by auto
  have slots: "\<forall>slot \<in> set slots. ss_resource_type slot \<le> 4 \<and> ss_state slot \<le> 1 \<and> \<not> bytes_are_zero (ss_interface_schema_digest slot)"
    using s by (simp add: all_set_conv_all_nth)
  let ?st = "\<lambda>i. (prior (map os_slot_id objects) i, prior (map os_object_id objects) i)"
  let ?P = "\<lambda>i. os_granted_rights (objects ! i) \<noteq> 0 \<and> prior (map os_object_id objects) i < os_object_id (objects ! i) \<and>
      source_allowed slots (objects ! i)"
  have start: "for_loop (source_object_step slots objects) 0 (length objects) (?st 0) = Some (Inr b)" using l2 by simp
  have step: "?P i \<and> x = ?st (Suc i)" if "i < length objects" "source_object_step slots objects i (?st i) = Some (Inr x)" for i x
    using source_object_step_Inr [OF ids(1) that(2)] that(1) by simp
  have P: "\<forall>i < length objects. ?P i"
    by (rule conjunct1 [OF for_loop_trace0 [where st = ?st and P = ?P, OF start step]])
  then have oids: "sorted_wrt (<) (map os_object_id objects)" "\<forall>object \<in> set objects. os_object_id object \<noteq> 0"
    using prior_strict_iff [of "map os_object_id objects"] by auto
  have objects: "\<forall>object \<in> set objects. os_granted_rights object \<noteq> 0 \<and> source_allowed slots object"
    using P by (simp add: all_set_conv_all_nth)
  have runs: "map os_slot_id objects = runs (run_counts (source_ids slots) (map os_slot_id objects)) (source_ids slots)"
    "\<forall>i < length slots. ss_state (slots ! i) = 0 \<longleftrightarrow> run_counts (source_ids slots) (map os_slot_id objects) ! i = 0"
    using source_runs_loop [OF l3] slots run_counts_cover [of "source_ids slots" "map os_slot_id objects"] by simp_all
  show ?thesis
    unfolding source_contract_def using ids slots oids objects runs source_binding_loop [OF l4 oids] by blast
qed

section \<open>The tables of the encoding\<close>

definition slot_with_run :: "kb2_resource_grant_slot_source \<Rightarrow> nat \<Rightarrow> nat \<Rightarrow> kb2_resource_grant_slot_t" where
  "slot_with_run slot start count = \<lparr>sl_slot_id = ss_slot_id slot, sl_resource_type = ss_resource_type slot,
     sl_state = ss_state slot, sl_object_start = of_nat start, sl_object_count = of_nat count,
     sl_interface_schema_digest = ss_interface_schema_digest slot\<rparr>"

definition object_with_run :: "kb2_resource_grant_object_source \<Rightarrow> nat \<Rightarrow> nat \<Rightarrow> kb2_resource_grant_object_t" where
  "object_with_run object start count = \<lparr>ob_slot_id = os_slot_id object, ob_object_id = os_object_id object,
     ob_granted_rights = os_granted_rights object, ob_handle_start = of_nat start, ob_handle_count = of_nat count\<rparr>"

lemma slots_with_runs_nth:
  fixes slots :: "kb2_resource_grant_slot_source list"
  assumes "start \<le> length objects"
  defines "cs \<equiv> run_counts (source_ids slots) (drop start (map os_slot_id objects))"
  shows "slots_with_runs objects start slots =
    map (\<lambda>i. slot_with_run (slots ! i) (start + run_start cs i) (cs ! i)) [0..<length slots]"
  using assms(1) unfolding cs_def
proof (induction slots arbitrary: start)
  case (Cons slot slots)
  note [simp del] = upt_Suc
  let ?c = "length (takeWhile (\<lambda>x. x = ss_slot_id slot) (drop start (map os_slot_id objects)))"
  have skip: "skip_while (\<lambda>object. os_slot_id object = ss_slot_id slot) objects start = start + ?c"
    by (rule skip_while_key [OF Cons.prems])
  have le: "start + ?c \<le> length objects"
    using Cons.prems length_takeWhile_le [of "\<lambda>x. x = ss_slot_id slot" "drop start (map os_slot_id objects)"] by simp
  have upt: "[0..<length (slot # slots)] = 0 # map Suc [0..<length slots]" by (simp add: upt_conv_Cons map_Suc_upt)
  show ?case
    using Cons.IH [OF le] unfolding upt
    by (simp add: skip Let_def slot_with_run_def comp_def add.assoc add.commute [of start])
qed simp

lemma objects_with_runs_nth:
  fixes objects :: "kb2_resource_grant_object_source list"
  assumes "start \<le> length bindings"
  defines "cs \<equiv> run_counts (map os_object_id objects) (drop start (map hb_object_id bindings))"
  shows "objects_with_runs bindings start objects =
    map (\<lambda>i. object_with_run (objects ! i) (start + run_start cs i) (cs ! i)) [0..<length objects]"
  using assms(1) unfolding cs_def
proof (induction objects arbitrary: start)
  case (Cons object objects)
  note [simp del] = upt_Suc
  let ?c = "length (takeWhile (\<lambda>x. x = os_object_id object) (drop start (map hb_object_id bindings)))"
  have skip: "skip_while (\<lambda>b. hb_object_id b = os_object_id object) bindings start = start + ?c"
    by (rule skip_while_key [OF Cons.prems])
  have le: "start + ?c \<le> length bindings"
    using Cons.prems length_takeWhile_le [of "\<lambda>x. x = os_object_id object" "drop start (map hb_object_id bindings)"] by simp
  have upt: "[0..<length (object # objects)] = 0 # map Suc [0..<length objects]" by (simp add: upt_conv_Cons map_Suc_upt)
  show ?case
    using Cons.IH [OF le] unfolding upt
    by (simp add: skip Let_def object_with_run_def comp_def add.assoc add.commute [of start])
qed simp

lemma nth_le_sum: "i < length cs \<Longrightarrow> cs ! i \<le> sum_list (cs :: nat list)"
  by (simp add: elem_le_sum_list)

lemma source_tables_contract:
  assumes c: "source_contract slots objects bindings" and len: "length objects \<le> UINT32_MAX" "length bindings \<le> UINT32_MAX"
  defines "S \<equiv> slots_with_runs objects 0 slots" and "Os \<equiv> objects_with_runs bindings 0 objects"
  shows "grant_contract S Os bindings" "\<forall>s \<in> set S. slot_row_ok s" "\<forall>ob \<in> set Os. object_row_ok ob"
    "\<forall>h \<in> set bindings. hb_object_id h \<noteq> 0"
proof -
  define cs where "cs = run_counts (source_ids slots) (map os_slot_id objects)"
  define hs where "hs = run_counts (map os_object_id objects) (map hb_object_id bindings)"
  have S: "S = map (\<lambda>i. slot_with_run (slots ! i) (run_start cs i) (cs ! i)) [0..<length slots]"
    using slots_with_runs_nth [of 0 objects slots] by (simp add: S_def cs_def)
  have Os: "Os = map (\<lambda>i. object_with_run (objects ! i) (run_start hs i) (hs ! i)) [0..<length objects]"
    using objects_with_runs_nth [of 0 bindings objects] by (simp add: Os_def hs_def)
  have lens: "length cs = length slots" "length hs = length objects" by (simp_all add: cs_def hs_def)
  have sums: "sum_list cs \<le> UINT32_MAX" "sum_list hs \<le> UINT32_MAX"
    using sum_run_counts_le [of "source_ids slots" "map os_slot_id objects"]
      sum_run_counts_le [of "map os_object_id objects" "map hb_object_id bindings"] len by (simp_all add: cs_def hs_def)
  have u: "unat (of_nat (run_start cs i) :: u32) = run_start cs i" "unat (of_nat (run_start hs i) :: u32) = run_start hs i" for i
    using run_start_le [of cs i] run_start_le [of hs i] sums by (simp_all add: unat_small)
  have v: "i < length slots \<Longrightarrow> unat (of_nat (cs ! i) :: u32) = cs ! i" "i < length objects \<Longrightarrow> unat (of_nat (hs ! i) :: u32) = hs ! i" for i
    using nth_le_sum [of i cs] nth_le_sum [of i hs] sums lens by (simp_all add: unat_small)
  have nth: "length S = length slots" "length Os = length objects"
    "\<And>i. i < length slots \<Longrightarrow> S ! i = slot_with_run (slots ! i) (run_start cs i) (cs ! i)"
    "\<And>i. i < length objects \<Longrightarrow> Os ! i = object_with_run (objects ! i) (run_start hs i) (hs ! i)"
    by (simp_all add: S Os)
  have cols: "slot_ids S = source_ids slots" "object_counts S = cs" "object_ids Os = map os_object_id objects"
    "handle_counts Os = hs" "map ob_slot_id Os = map os_slot_id objects"
    by (rule nth_equalityI; simp add: columns nth lens slot_with_run_def object_with_run_def v)+
  note spec = c [unfolded source_contract_def, folded cs_def hs_def]
  have zero: "cs ! i = 0 \<longleftrightarrow> (of_nat (cs ! i) :: u32) = 0" if "i < length slots" for i
    unfolding unat_eq_zero [symmetric] v(1) [OF that] ..
  have states: "\<forall>i < length slots. ss_state (slots ! i) = 0 \<longleftrightarrow> cs ! i = 0"
    and row: "\<And>slot. slot \<in> set slots \<Longrightarrow> ss_slot_id slot \<noteq> 0 \<and> ss_resource_type slot \<le> 4 \<and> ss_state slot \<le> 1 \<and>
        \<not> bytes_are_zero (ss_interface_schema_digest slot)"
    and orow: "\<And>object. object \<in> set objects \<Longrightarrow> os_object_id object \<noteq> 0 \<and> os_granted_rights object \<noteq> 0 \<and> source_allowed slots object"
    using spec by blast+
  have "\<forall>s \<in> set S. sl_state s = 0 \<longleftrightarrow> sl_object_count s = 0"
    unfolding all_set_conv_all_nth nth(1) using states zero by (simp add: nth slot_with_run_def)
  moreover have "\<forall>i < length S. unat (sl_object_start (S ! i)) = run_start cs i"
    unfolding nth(1) by (simp add: nth slot_with_run_def u)
  ultimately have "slots_contract S Os"
    unfolding slots_contract_def cols using spec by blast
  have allowed: "rights_allowed S (object_with_run ob a b)" if al: "source_allowed slots ob" for ob a b
  proof -
    obtain i where "i < length slots" "ss_slot_id (slots ! i) = os_slot_id ob"
      "os_granted_rights ob AND NOT (known_rights (ss_resource_type (slots ! i))) = 0"
      using al by (auto simp: source_allowed_def in_set_conv_nth)
    moreover from this have "slot_with_run (slots ! i) (run_start cs i) (cs ! i) \<in> set S"
      using nth by (metis nth_mem)
    ultimately show ?thesis
      unfolding rights_allowed_def by (intro bexI [of _ "slot_with_run (slots ! i) (run_start cs i) (cs ! i)"])
        (simp_all add: slot_with_run_def object_with_run_def)
  qed
  have "\<forall>ob \<in> set Os. rights_allowed S ob"
    unfolding all_set_conv_all_nth nth(2) using orow by (simp add: nth allowed)
  moreover have "\<forall>i < length Os. unat (ob_handle_start (Os ! i)) = run_start hs i"
    unfolding nth(2) by (simp add: nth object_with_run_def u)
  ultimately have "objects_contract S Os bindings"
    unfolding objects_contract_def cols using spec by blast
  then show "grant_contract S Os bindings" using spec \<open>slots_contract S Os\<close> by (simp add: grant_contract_def)
  show "\<forall>s \<in> set S. slot_row_ok s"
    unfolding all_set_conv_all_nth nth(1) using row by (simp add: nth slot_with_run_def slot_row_ok_def)
  have "os_slot_id ob \<noteq> 0" if "ob \<in> set objects" for ob
    using orow [OF that] row by (metis source_allowed_def)
  then show "\<forall>ob \<in> set Os. object_row_ok ob"
    unfolding all_set_conv_all_nth nth(2) using orow by (simp add: nth object_with_run_def object_row_ok_def)
  have "set (map hb_object_id bindings) \<subseteq> set (map os_object_id objects)" using spec set_runs by metis
  then show "\<forall>h \<in> set bindings. hb_object_id h \<noteq> 0" using orow by auto
qed

section \<open>Record codecs\<close>

definition slot_typed :: "kb2_resource_grant_slot_t \<Rightarrow> bool" where
  "slot_typed s \<longleftrightarrow> length (sl_interface_schema_digest s) = 32"

lemma encode_slot_layout: "slot_typed s \<Longrightarrow> layout base (base + 64) (encode_slot base s)"
  by (auto simp: layout_def encode_slot_def le32_def slot_typed_def)

lemma encode_object_layout: "layout base (base + 32) (encode_object base ob)"
  by (auto simp: layout_def encode_object_def le32_def le64_def)

lemma encode_handle_binding_layout: "layout base (base + 16) (encode_handle_binding base h)"
  by (auto simp: layout_def encode_handle_binding_def le32_def le64_def)

interpretation slot_codec: row_codec 64 encode_slot read_slot "answer slot_row_ok" slot_typed
proof unfold_locales
  fix off :: nat and v :: kb2_resource_grant_slot_t and b :: bytes
  assume v: "slot_typed v" and b: "off + 64 \<le> length b" "slice b off 64 = zeros 64"
  then show "read_slot (apply_writes b (encode_slot off v)) off = Some (answer slot_row_ok v)"
    using load_layout [OF encode_slot_layout [OF v, of off], of b]
      load_gap [OF encode_slot_layout [OF v, of off], of b] slice_of_zeros [OF b(2), of 20 12]
    by (auto simp: read_slot_def encode_slot_def answer_def slot_row_ok_def load_bytes_in slot_typed_def not_less not_le)
next
  fix off :: nat and b b' :: bytes
  assume "off + 64 \<le> length b" "off + 64 \<le> length b'" "slice b off 64 = slice b' off 64"
  then show "read_slot b off = read_slot b' off"
    by (simp add: read_slot_def wire slice_eq_inside slice_eq_inside0 [of b off 64 b'])
qed (auto intro: layout_in [OF encode_slot_layout] simp: read_grant_total)

interpretation object_codec: row_codec 32 encode_object read_object "answer object_row_ok" "\<lambda>_. True"
proof unfold_locales
  fix off :: nat and v :: kb2_resource_grant_object_t and b :: bytes
  assume b: "off + 32 \<le> length b" "slice b off 32 = zeros 32"
  then show "read_object (apply_writes b (encode_object off v)) off = Some (answer object_row_ok v)"
    using load_layout [OF encode_object_layout [of off], of b]
      load_gap [OF encode_object_layout [of off], of b] slice_of_zeros [OF b(2), of 4 4]
    by (auto simp: read_object_def encode_object_def answer_def object_row_ok_def load_bytes_in)
next
  fix off :: nat and b b' :: bytes
  assume "off + 32 \<le> length b" "off + 32 \<le> length b'" "slice b off 32 = slice b' off 32"
  then show "read_object b off = read_object b' off"
    by (simp add: read_object_def wire slice_eq_inside slice_eq_inside0 [of b off 32 b'])
qed (auto intro: layout_in [OF encode_object_layout] simp: read_grant_total)

interpretation handle_codec: row_codec 16 encode_handle_binding read_handle_binding "answer (\<lambda>h. hb_object_id h \<noteq> 0)" "\<lambda>_. True"
proof unfold_locales
  fix off :: nat and v :: kb2_resource_grant_handle_binding_t and b :: bytes
  assume b: "off + 16 \<le> length b"
  then show "read_handle_binding (apply_writes b (encode_handle_binding off v)) off = Some (answer (\<lambda>h. hb_object_id h \<noteq> 0) v)"
    using load_layout [OF encode_handle_binding_layout [of off], of b]
    by (auto simp: read_handle_binding_def encode_handle_binding_def answer_def)
next
  fix off :: nat and b b' :: bytes
  assume "off + 16 \<le> length b" "off + 16 \<le> length b'" "slice b off 16 = slice b' off 16"
  then show "read_handle_binding b off = read_handle_binding b' off"
    by (simp add: read_handle_binding_def wire slice_eq_inside slice_eq_inside0 [of b off 16 b'])
qed (auto intro: layout_in [OF encode_handle_binding_layout] simp: read_grant_total)

section \<open>The image\<close>

definition grant_source_typed :: "kb2_resource_grant_source \<Rightarrow> bool" where
  "grant_source_typed src \<longleftrightarrow> length (gs_closure_manifest_digest src) = 32 \<and>
     (\<forall>slot \<in> set (carray_list (gs_slots src)). length (ss_interface_schema_digest slot) = 32)"

definition encoded_slots :: "kb2_resource_grant_source \<Rightarrow> kb2_resource_grant_slot_t list" where
  "encoded_slots src = slots_with_runs (carray_list (gs_objects src)) 0 (carray_list (gs_slots src))"

definition encoded_objects :: "kb2_resource_grant_source \<Rightarrow> kb2_resource_grant_object_t list" where
  "encoded_objects src = objects_with_runs (carray_list (gs_handle_bindings src)) 0 (carray_list (gs_objects src))"

definition grant_header_part :: "kb2_resource_grant_source \<Rightarrow> writes" where
  "grant_header_part src =
     (let s = length (encoded_slots src); k = length (encoded_objects src); h = length (carray_list (gs_handle_bindings src)) in
      grant_header_writes (128 + s * 64 + k * 32 + h * 16) (gs_generation src) (gs_closure_manifest_digest src) s k h
        (128 + s * 64) (128 + s * 64 + k * 32))"

definition grant_segments :: "kb2_resource_grant_source \<Rightarrow> (nat \<times> nat \<times> writes) list" where
  "grant_segments src =
     (let s = length (encoded_slots src); k = length (encoded_objects src); h = length (carray_list (gs_handle_bindings src)) in
      [(0, 128, grant_header_part src),
       (128, 128 + s * 64, table_writes encode_slot 64 128 (encoded_slots src)),
       (128 + s * 64, 128 + s * 64 + k * 32, table_writes encode_object 32 (128 + s * 64) (encoded_objects src)),
       (128 + s * 64 + k * 32, 128 + s * 64 + k * 32 + h * 16,
        table_writes encode_handle_binding 16 (128 + s * 64 + k * 32) (carray_list (gs_handle_bindings src)))])"

definition grant_size :: "kb2_resource_grant_source \<Rightarrow> nat" where
  "grant_size src = 128 + length (encoded_slots src) * 64 + length (encoded_objects src) * 32 +
     length (carray_list (gs_handle_bindings src)) * 16"

lemma length_slots_with_runs [simp]: "length (slots_with_runs objects start slots) = length slots"
  by (induction slots arbitrary: start) (simp_all add: Let_def)

lemma length_objects_with_runs [simp]: "length (objects_with_runs bindings start objects) = length objects"
  by (induction objects arbitrary: start) (simp_all add: Let_def)

lemma encoded_slots_typed: "grant_source_typed src \<Longrightarrow> list_all slot_typed (encoded_slots src)"
proof -
  have "list_all slot_typed (slots_with_runs objects start slots)"
    if "\<forall>slot \<in> set slots. length (ss_interface_schema_digest slot) = 32" for objects start slots
    using that by (induction slots arbitrary: start) (simp_all add: Let_def slot_typed_def)
  then show "grant_source_typed src \<Longrightarrow> list_all slot_typed (encoded_slots src)"
    by (simp add: grant_source_typed_def encoded_slots_def)
qed

lemma grant_header_part_in:
  "grant_source_typed src \<Longrightarrow> writes_in 0 128 (grant_header_part src)"
  by (auto simp: grant_header_part_def grant_header_writes_def writes_in_def Let_def le32_def le64_def
      grant_abi_identity_def grant_schema_digest_def grant_source_typed_def)

lemma grant_header_part_disjoint:
  "grant_source_typed src \<Longrightarrow>
   sorted_wrt (\<lambda>(p, xs) (q, ys). p + length xs \<le> q \<or> q + length ys \<le> p) (grant_header_part src)"
  by (simp add: grant_header_part_def grant_header_writes_def Let_def le32_def le64_def
      grant_abi_identity_def grant_schema_digest_def grant_source_typed_def)

lemma grant_segments_ok: "grant_source_typed src \<Longrightarrow> segments (grant_size src) (grant_segments src)"
  using slot_codec.rows_in [OF encoded_slots_typed, of src 128]
    object_codec.rows_in [OF list_all_True, of _ "encoded_objects src"]
    handle_codec.rows_in [OF list_all_True, of _ "carray_list (gs_handle_bindings src)"]
    grant_header_part_in [of src]
  by (simp add: grant_segments_def Let_def segments_def grant_size_def)

lemma grant_source_counts:
  assumes "grant_source_valid (Some src)"
  shows "carray_count (gs_slots src) = length (encoded_slots src)"
    "carray_count (gs_objects src) = length (encoded_objects src)"
    "carray_count (gs_handle_bindings src) = length (carray_list (gs_handle_bindings src))"
    "length (encoded_slots src) \<le> 16384" "length (encoded_objects src) \<le> 65536"
    "length (carray_list (gs_handle_bindings src)) \<le> 65536"
proof -
  have count: "carray_count xs = length (carray_list xs)" if "\<not> (carray_count xs \<noteq> 0 \<and> is_null xs)" for xs :: "'a carray"
    using that by (cases xs) (auto simp: carray_list_def is_null_def)
  show "carray_count (gs_slots src) = length (encoded_slots src)"
    "carray_count (gs_objects src) = length (encoded_objects src)"
    "carray_count (gs_handle_bindings src) = length (carray_list (gs_handle_bindings src))"
    "length (encoded_slots src) \<le> 16384" "length (encoded_objects src) \<le> 65536"
    "length (carray_list (gs_handle_bindings src)) \<le> 65536"
    using assms count [of "gs_slots src"] count [of "gs_objects src"] count [of "gs_handle_bindings src"]
    by (auto simp: grant_source_valid_def encoded_slots_def encoded_objects_def)
qed

lemma grant_size_bound: "grant_source_valid (Some src) \<Longrightarrow> grant_size src \<le> UINT32_MAX"
  using grant_source_counts [of src] by (simp add: grant_size_def UINT32_MAX_def)

lemma grant_encoded_size_iff:
  "kb2_resource_grant_encoded_size (Some src) True = Inr n \<longleftrightarrow> grant_source_valid (Some src) \<and> n = grant_size src"
proof (cases "grant_source_valid (Some src)")
  case True
  note c = grant_source_counts [OF True]
  have "grant_size_sum src = Some (grant_size src)"
    unfolding grant_size_sum_def c(1-3) using c(4-6) grant_size_bound [OF True]
    by (simp add: add_size_exact SIZE_MAX_def grant_size_def not_less)
  then show ?thesis using True by (auto simp: kb2_resource_grant_encoded_size_def)
qed (simp add: kb2_resource_grant_encoded_size_def)

lemma grant_writes_image:
  assumes "grant_source_valid (Some src)"
  shows "grant_writes (grant_size src) src = (0, zeros (grant_size src)) # segment_writes (grant_segments src)"
  unfolding grant_writes_def grant_source_counts(1-3) [OF assms]
  by (simp add: Let_def segment_writes_def grant_segments_def grant_header_part_def encoded_slots_def [symmetric]
      encoded_objects_def [symmetric] grant_size_def)

lemma grant_encode_image:
  assumes "grant_source_valid (Some src)" "grant_source_typed src" "grant_size src \<le> length b"
  shows "kb2_resource_grant_encode (Some b) True (Some src) =
    Some (KB2_PROTOCOL_OK, Some (grant_size src), Some (apply_writes (put b 0 (zeros (grant_size src))) (segment_writes (grant_segments src))))"
proof -
  have "store_all b (grant_writes (grant_size src) src) = Some (apply_writes b (grant_writes (grant_size src) src))"
    unfolding grant_writes_image [OF assms(1)]
    using segments_in [OF grant_segments_ok [OF assms(2)]] assms(3) by (intro store_all_in [of 0 "grant_size src"]) auto
  moreover have "kb2_resource_grant_encoded_size (Some src) True = Inr (grant_size src)"
    using assms(1) by (simp add: grant_encoded_size_iff)
  ultimately show ?thesis
    using assms by (simp add: kb2_resource_grant_encode_def grant_writes_image apply_writes.simps)
qed

definition grant_image :: "bytes \<Rightarrow> kb2_resource_grant_source \<Rightarrow> bytes" where
  "grant_image b src = take (grant_size src) (apply_writes (put b 0 (zeros (grant_size src))) (segment_writes (grant_segments src)))"

lemma grant_image_facts:
  assumes "grant_source_typed src" "grant_size src \<le> length b"
  defines "z \<equiv> put b 0 (zeros (grant_size src))"
  shows "length (grant_image b src) = grant_size src" "grant_size src \<le> length z"
    and "off + k \<le> grant_size src \<Longrightarrow> slice z off k = zeros k"
    and "(lo, hi, ws) \<in> set (grant_segments src) \<Longrightarrow>
      slice (grant_image b src) lo (hi - lo) = slice (apply_writes z ws) lo (hi - lo)"
proof -
  note seg = grant_segments_ok [OF assms(1)]
  show z: "grant_size src \<le> length z" using assms(2) by (simp add: z_def)
  show "length (grant_image b src) = grant_size src"
    using length_apply_writes [OF segments_in [OF seg], of z] z by (simp add: grant_image_def z_def)
  show "off + k \<le> grant_size src \<Longrightarrow> slice z off k = zeros k"
    using assms(2) by (simp add: z_def slice_put_inside slice_zeros)
  show "slice (grant_image b src) lo (hi - lo) = slice (apply_writes z ws) lo (hi - lo)"
    if s: "(lo, hi, ws) \<in> set (grant_segments src)"
  proof -
    have "lo + (hi - lo) \<le> grant_size src" using seg s by (auto simp: segments_def)
    then show ?thesis
      using slice_segment [OF seg z s] by (simp add: grant_image_def z_def slice_take)
  qed
qed

lemma grant_image_header:
  assumes "grant_source_typed src" "grant_size src \<le> length b"
  shows "(off, xs) \<in> set (grant_header_part src) \<Longrightarrow> slice (grant_image b src) off (length xs) = xs"
    and "slice (grant_image b src) 104 24 = zeros 24"
proof -
  note facts = grant_image_facts [OF assms]
  let ?z = "put b 0 (zeros (grant_size src))"
  have n: "128 \<le> grant_size src" by (simp add: grant_size_def)
  have eq: "slice (grant_image b src) 0 128 = slice (apply_writes ?z (grant_header_part src)) 0 128"
    using facts(4) [of 0 128 "grant_header_part src"] by (simp add: grant_segments_def Let_def)
  show "slice (grant_image b src) off (length xs) = xs" if x: "(off, xs) \<in> set (grant_header_part src)"
  proof -
    have "off + length xs \<le> 128" using grant_header_part_in [OF assms(1)] x by (fastforce simp: writes_in_def)
    then have "slice (grant_image b src) off (length xs) = slice (apply_writes ?z (grant_header_part src)) off (length xs)"
      using slice_eq_inside [OF eq, of off "length xs"] by simp
    also have "\<dots> = xs"
      using n facts(2) by (intro slice_writes [OF grant_header_part_disjoint [OF assms(1)] grant_header_part_in [OF assms(1)] _ x]) simp
    finally show ?thesis .
  qed
  have "slice (apply_writes ?z (grant_header_part src)) 104 24 = slice ?z 104 24"
    using n facts(2) assms(1)
    by (intro slice_gap [OF _ grant_header_part_in [OF assms(1)]])
      (auto simp: grant_header_part_def grant_header_writes_def Let_def le32_def le64_def
        grant_abi_identity_def grant_schema_digest_def grant_source_typed_def)
  then show "slice (grant_image b src) 104 24 = zeros 24"
    using slice_eq_inside [OF eq, of 104 24] facts(3) [of 104 24] n by simp
qed

lemma grant_image_fields:
  assumes valid: "grant_source_valid (Some src)" and t: "grant_source_typed src" "grant_size src \<le> length b"
  defines "i \<equiv> grant_image b src"
    and "s \<equiv> length (encoded_slots src)" and "k \<equiv> length (encoded_objects src)" and "h \<equiv> length (carray_list (gs_handle_bindings src))"
  shows "un64 (slice i 40 8) = gs_generation src" "slice i 48 32 = gs_closure_manifest_digest src"
    "slice i 4 4 = grant_abi_identity" "slice i 8 32 = grant_schema_digest" "unat (un32 (slice i 0 4)) = grant_size src"
    "unat (un32 (slice i 80 4)) = s" "unat (un32 (slice i 84 4)) = k" "unat (un32 (slice i 88 4)) = h"
    "unat (un32 (slice i 92 4)) = 128" "unat (un32 (slice i 96 4)) = 128 + s * 64" "unat (un32 (slice i 100 4)) = 128 + s * 64 + k * 32"
proof -
  note bounds = grant_source_counts(4-6) [OF valid, folded s_def k_def h_def]
  note entry = grant_image_header(1) [OF t, folded i_def]
  have part: "grant_header_part src = grant_header_writes (grant_size src) (gs_generation src) (gs_closure_manifest_digest src)
      s k h (128 + s * 64) (128 + s * 64 + k * 32)"
    by (simp add: grant_header_part_def grant_size_def Let_def s_def k_def h_def)
  have word: "unat (un32 (slice i off 4)) = n" if "(off, le32 (of_nat n)) \<in> set (grant_header_part src)" "n \<le> UINT32_MAX" for off n
    using entry [OF that(1)] that(2) by (simp add: unat_small)
  show "un64 (slice i 40 8) = gs_generation src" using entry [of 40 "le64 (gs_generation src)"] by (simp add: part grant_header_writes_def)
  show "slice i 48 32 = gs_closure_manifest_digest src"
    using entry [of 48 "gs_closure_manifest_digest src"] t(1) by (simp add: part grant_header_writes_def grant_source_typed_def)
  have "length grant_abi_identity = 4" by (simp add: grant_abi_identity_def)
  then show "slice i 4 4 = grant_abi_identity"
    using entry [of 4 grant_abi_identity] by (simp add: part grant_header_writes_def)
  have "length grant_schema_digest = 32" by (simp add: grant_schema_digest_def)
  then show "slice i 8 32 = grant_schema_digest"
    using entry [of 8 grant_schema_digest] by (simp add: part grant_header_writes_def)
  show "unat (un32 (slice i 0 4)) = grant_size src"
    by (rule word) (simp_all add: part grant_header_writes_def grant_size_bound [OF valid])
  show "unat (un32 (slice i 80 4)) = s" "unat (un32 (slice i 84 4)) = k" "unat (un32 (slice i 88 4)) = h"
    "unat (un32 (slice i 96 4)) = 128 + s * 64" "unat (un32 (slice i 100 4)) = 128 + s * 64 + k * 32"
    by (rule word; use bounds in \<open>simp add: part grant_header_writes_def UINT32_MAX_def\<close>)+
  show "unat (un32 (slice i 92 4)) = 128"
    using entry [of 92 "le32 128"] by (simp add: part grant_header_writes_def)
qed

lemma grant_image_header_ok:
  assumes "grant_source_valid (Some src)" "grant_source_typed src" "grant_size src \<le> length b"
  shows "grant_header (grant_image b src)"
proof -
  note f = grant_image_fields [OF assms] and c = grant_source_counts(4-6) [OF assms(1)]
  have "gs_generation src \<noteq> 0" "\<not> bytes_are_zero (gs_closure_manifest_digest src)"
    using assms(1) by (simp_all add: grant_source_valid_def)
  then show ?thesis
    unfolding grant_header_def grant_header_layout
    using f c grant_size_bound [OF assms(1)] grant_image_facts(1) [OF assms(2,3)] grant_image_header(2) [OF assms(2,3)]
    by (simp add: grant_size_def)
qed

lemma grant_image_rows:
  assumes t: "grant_source_typed src" "grant_size src \<le> length b"
  defines "i \<equiv> grant_image b src" and "s \<equiv> length (encoded_slots src)" and "k \<equiv> length (encoded_objects src)"
  shows "j < length (encoded_slots src) \<Longrightarrow> read_slot i (128 + j * 64) = Some (answer slot_row_ok (encoded_slots src ! j))"
    "j < length (encoded_objects src) \<Longrightarrow> read_object i (128 + s * 64 + j * 32) = Some (answer object_row_ok (encoded_objects src ! j))"
    "j < length (carray_list (gs_handle_bindings src)) \<Longrightarrow>
      read_handle_binding i (128 + s * 64 + k * 32 + j * 16) =
        Some (answer (\<lambda>h. hb_object_id h \<noteq> 0) (carray_list (gs_handle_bindings src) ! j))"
proof -
  note facts = grant_image_facts [OF t]
  let ?z = "put b 0 (zeros (grant_size src))" let ?h = "length (carray_list (gs_handle_bindings src))"
  have seg: "(128, 128 + s * 64, table_writes encode_slot 64 128 (encoded_slots src)) \<in> set (grant_segments src)"
    "(128 + s * 64, 128 + s * 64 + k * 32, table_writes encode_object 32 (128 + s * 64) (encoded_objects src)) \<in> set (grant_segments src)"
    "(128 + s * 64 + k * 32, 128 + s * 64 + k * 32 + ?h * 16,
        table_writes encode_handle_binding 16 (128 + s * 64 + k * 32) (carray_list (gs_handle_bindings src))) \<in> set (grant_segments src)"
    by (simp_all add: grant_segments_def Let_def s_def k_def)
  have img: "slice i 128 (length (encoded_slots src) * 64) =
      slice (apply_writes ?z (table_writes encode_slot 64 128 (encoded_slots src))) 128 (length (encoded_slots src) * 64)"
    "slice i (128 + s * 64) (length (encoded_objects src) * 32) =
      slice (apply_writes ?z (table_writes encode_object 32 (128 + s * 64) (encoded_objects src))) (128 + s * 64) (length (encoded_objects src) * 32)"
    "slice i (128 + s * 64 + k * 32) (?h * 16) = slice (apply_writes ?z (table_writes encode_handle_binding 16 (128 + s * 64 + k * 32)
        (carray_list (gs_handle_bindings src)))) (128 + s * 64 + k * 32) (?h * 16)"
    using facts(4) [OF seg(1)] facts(4) [OF seg(2)] facts(4) [OF seg(3)] by (simp_all add: i_def s_def k_def)
  have len: "length i = grant_size src" "grant_size src \<le> length ?z" using facts(1,2) by (simp_all add: i_def)
  have n: "grant_size src = 128 + s * 64 + k * 32 + ?h * 16" by (simp add: grant_size_def s_def k_def)
  show "read_slot i (128 + j * 64) = Some (answer slot_row_ok (encoded_slots src ! j))" if "j < length (encoded_slots src)"
    by (rule slot_codec.rd_rows_image [OF encoded_slots_typed [OF t(1)] _ _ facts(3) img(1) that];
      use len n in \<open>simp add: s_def k_def\<close>)
  show "read_object i (128 + s * 64 + j * 32) = Some (answer object_row_ok (encoded_objects src ! j))" if "j < length (encoded_objects src)"
    by (rule object_codec.rd_rows_image [OF list_all_True _ _ facts(3) img(2) that]; use len n in \<open>simp add: s_def k_def\<close>)
  show "read_handle_binding i (128 + s * 64 + k * 32 + j * 16) =
        Some (answer (\<lambda>h. hb_object_id h \<noteq> 0) (carray_list (gs_handle_bindings src) ! j))" if "j < ?h"
    by (rule handle_codec.rd_rows_image [OF list_all_True _ _ facts(3) img(3) that]; use len n in \<open>simp add: s_def k_def\<close>)
qed

lemma grant_source_lists:
  assumes "grant_source_valid (Some src)"
  shows "source_contract (carray_list (gs_slots src)) (carray_list (gs_objects src)) (carray_list (gs_handle_bindings src))"
    "length (carray_list (gs_objects src)) \<le> UINT32_MAX" "length (carray_list (gs_handle_bindings src)) \<le> UINT32_MAX"
proof -
  show "source_contract (carray_list (gs_slots src)) (carray_list (gs_objects src)) (carray_list (gs_handle_bindings src))"
    using assms by (intro source_tables_valid_contract) (simp add: grant_source_valid_def)
  show "length (carray_list (gs_objects src)) \<le> UINT32_MAX" "length (carray_list (gs_handle_bindings src)) \<le> UINT32_MAX"
    using grant_source_counts(5,6) [OF assms] by (simp_all add: UINT32_MAX_def encoded_objects_def)
qed

lemma grant_source_contract:
  assumes "grant_source_valid (Some src)"
  shows "grant_contract (encoded_slots src) (encoded_objects src) (carray_list (gs_handle_bindings src))"
    "\<forall>s \<in> set (encoded_slots src). slot_row_ok s" "\<forall>ob \<in> set (encoded_objects src). object_row_ok ob"
    "\<forall>h \<in> set (carray_list (gs_handle_bindings src)). hb_object_id h \<noteq> 0"
  unfolding encoded_slots_def encoded_objects_def by (rule source_tables_contract [OF grant_source_lists [OF assms]])+

lemma grant_image_tables:
  assumes valid: "grant_source_valid (Some src)" and t: "grant_source_typed src" "grant_size src \<le> length b"
  shows "grant_has_tables (grant_view_of (grant_image b src)) (encoded_slots src) (encoded_objects src) (carray_list (gs_handle_bindings src))"
proof -
  let ?i = "grant_image b src" let ?g = "grant_view_of ?i"
  note f = grant_image_fields [OF assms] and rows = grant_image_rows [OF t] and ok = grant_source_contract [OF valid]
  have g: "grant_in ?g ?i" by (rule grant_view_typed [OF grant_image_header_ok [OF assms]])
  have c: "unat (gr_counts ?g ! 0) = length (encoded_slots src)" "unat (gr_counts ?g ! 1) = length (encoded_objects src)"
    "unat (gr_counts ?g ! 2) = length (carray_list (gs_handle_bindings src))"
    "unat (gr_offsets ?g ! 0) = 128" "unat (gr_offsets ?g ! 1) = 128 + length (encoded_slots src) * 64"
    "unat (gr_offsets ?g ! 2) = 128 + length (encoded_slots src) * 64 + length (encoded_objects src) * 32"
    using f by (simp_all add: grant_view_of_def grant_counts_def grant_offsets_def)
  have "kb2_resource_grant_slot (Some ?g) j True = Some (Inr (encoded_slots src ! j))" if "j < length (encoded_slots src)" for j
    using with_grant_record_in [OF g, of 0 64 j read_slot] that c rows(1) [OF that] ok(2)
    by (simp add: kb2_resource_grant_slot_def answer_def)
  moreover have "kb2_resource_grant_object (Some ?g) j True = Some (Inr (encoded_objects src ! j))" if "j < length (encoded_objects src)" for j
    using with_grant_record_in [OF g, of 1 32 j read_object] that c [simplified] rows(2) [OF that] ok(3)
    by (simp add: kb2_resource_grant_object_def answer_def)
  moreover have "kb2_resource_grant_handle_binding (Some ?g) j True = Some (Inr (carray_list (gs_handle_bindings src) ! j))"
    if "j < length (carray_list (gs_handle_bindings src))" for j
    using with_grant_record_in [OF g, of 2 16 j read_handle_binding] that c rows(3) [OF that] ok(4)
    by (simp add: kb2_resource_grant_handle_binding_def answer_def)
  ultimately show ?thesis
    using c by (simp add: grant_has_tables_def table_is_def grant_count_defs)
qed

lemma grant_image_decodes:
  assumes "grant_source_valid (Some src)" "grant_source_typed src" "grant_size src \<le> length b"
  shows "kb2_resource_grant_decode (Some (grant_image b src)) True = Some (KB2_PROTOCOL_OK, Some (grant_view_of (grant_image b src)))"
  using grant_image_header_ok [OF assms] grant_image_tables [OF assms] grant_source_contract(1) [OF assms(1)]
  by (cases rule: grant_decode_cases [of "grant_image b src", OF refl]) blast+

section \<open>What a source asks for\<close>

text \<open>
  A decoded slot is the slot of the source, and its run picks the objects of the source that name
  the slot; likewise for objects and handle bindings.
\<close>

definition slot_as_given ::
    "kb2_resource_grant_object_source list \<Rightarrow> kb2_resource_grant_slot_source \<Rightarrow> kb2_resource_grant_slot_t \<Rightarrow> bool" where
  "slot_as_given objects slot s \<longleftrightarrow>
     sl_slot_id s = ss_slot_id slot \<and> sl_resource_type s = ss_resource_type slot \<and> sl_state s = ss_state slot \<and>
     sl_interface_schema_digest s = ss_interface_schema_digest slot \<and>
     unat (sl_object_start s) + unat (sl_object_count s) \<le> length objects \<and>
     take (unat (sl_object_count s)) (drop (unat (sl_object_start s)) objects) =
       filter (\<lambda>object. os_slot_id object = ss_slot_id slot) objects"

definition object_as_given ::
    "kb2_resource_grant_handle_binding_t list \<Rightarrow> kb2_resource_grant_object_source \<Rightarrow> kb2_resource_grant_object_t \<Rightarrow> bool" where
  "object_as_given bindings object ob \<longleftrightarrow>
     ob_slot_id ob = os_slot_id object \<and> ob_object_id ob = os_object_id object \<and>
     ob_granted_rights ob = os_granted_rights object \<and>
     unat (ob_handle_start ob) + unat (ob_handle_count ob) \<le> length bindings \<and>
     take (unat (ob_handle_count ob)) (drop (unat (ob_handle_start ob)) bindings) =
       filter (\<lambda>binding. hb_object_id binding = os_object_id object) bindings"

lemma run_as_given:
  fixes ids :: "'k list"
  assumes "distinct ids" "map key xs = runs (run_counts ids (map key xs)) ids" "length xs \<le> UINT32_MAX" "i < length ids"
  defines "cs \<equiv> run_counts ids (map key xs)"
  shows "unat (of_nat (run_start cs i) :: u32) + unat (of_nat (cs ! i) :: u32) \<le> length xs"
    "take (unat (of_nat (cs ! i) :: u32)) (drop (unat (of_nat (run_start cs i) :: u32)) xs) = filter (\<lambda>x. key x = ids ! i) xs"
proof -
  have len: "length cs = length ids" by (simp add: cs_def)
  have sum: "sum_list cs \<le> length xs" using sum_run_counts_le [of ids "map key xs"] by (simp add: cs_def)
  have "run_start cs i + cs ! i \<le> sum_list cs"
    using run_start_le [of cs "Suc i"] run_start_Suc [of i cs] assms(4) len by simp
  then have u: "unat (of_nat (run_start cs i) :: u32) = run_start cs i" "unat (of_nat (cs ! i) :: u32) = cs ! i"
    "run_start cs i + cs ! i \<le> length xs" using sum assms(3) by (simp_all add: unat_small)
  show "unat (of_nat (run_start cs i) :: u32) + unat (of_nat (cs ! i) :: u32) \<le> length xs" using u by simp
  show "take (unat (of_nat (cs ! i) :: u32)) (drop (unat (of_nat (run_start cs i) :: u32)) xs) = filter (\<lambda>x. key x = ids ! i) xs"
    unfolding u using filter_runs [OF len assms(2) [folded cs_def] assms(1,4)] by simp
qed

lemma tables_as_given:
  assumes "source_contract slots objects bindings" "length objects \<le> UINT32_MAX" "length bindings \<le> UINT32_MAX"
  shows "list_all2 (slot_as_given objects) slots (slots_with_runs objects 0 slots)"
    "list_all2 (object_as_given bindings) objects (objects_with_runs bindings 0 objects)"
proof -
  have d: "distinct (source_ids slots)" "distinct (map os_object_id objects)"
    "map os_slot_id objects = runs (run_counts (source_ids slots) (map os_slot_id objects)) (source_ids slots)"
    "map hb_object_id bindings = runs (run_counts (map os_object_id objects) (map hb_object_id bindings)) (map os_object_id objects)"
    using assms(1) by (auto simp: source_contract_def strict_sorted_iff)
  show "list_all2 (slot_as_given objects) slots (slots_with_runs objects 0 slots)"
    using run_as_given [OF d(1,3) assms(2)] slots_with_runs_nth [of 0 objects slots]
    by (simp add: list_all2_conv_all_nth slot_as_given_def slot_with_run_def)
  show "list_all2 (object_as_given bindings) objects (objects_with_runs bindings 0 objects)"
    using run_as_given [OF d(2,4) assms(3)] objects_with_runs_nth [of 0 bindings objects]
    by (simp add: list_all2_conv_all_nth object_as_given_def object_with_run_def)
qed

lemma grant_source_given:
  assumes "grant_source_valid (Some src)"
  shows "list_all2 (slot_as_given (carray_list (gs_objects src))) (carray_list (gs_slots src)) (encoded_slots src)"
    "list_all2 (object_as_given (carray_list (gs_handle_bindings src))) (carray_list (gs_objects src)) (encoded_objects src)"
  using tables_as_given [OF grant_source_lists [OF assms]] by (simp_all add: encoded_slots_def encoded_objects_def)

text \<open>C29. Grants survive the wire. Whatever source the encoder accepts, it writes its size in bytes at
  the front of the buffer and nothing behind them, and the decoder accepts those bytes. The view has
  the generation and the manifest digest of the source, and its accessors deliver, in the order of
  the source, the slots with their identifier, type, state and interface digest and a run that picks
  exactly the objects naming the slot; the objects with their slot, identifier and rights and a run
  that picks exactly the handle bindings naming the object; and the handle bindings unchanged.\<close>

theorem kb2_resource_grant_roundtrip:
  assumes "kb2_resource_grant_encode (Some b) True (Some src) = Some (KB2_PROTOCOL_OK, Some n, Some b')" "grant_source_typed src"
  shows "length b' = length b \<and> drop n b' = drop n b \<and>
    (\<exists>g slots objects. kb2_resource_grant_decode (Some (take n b')) True = Some (KB2_PROTOCOL_OK, Some g) \<and>
      gr_generation g = gs_generation src \<and> gr_closure_manifest_digest g = gs_closure_manifest_digest src \<and>
      grant_has_tables g slots objects (carray_list (gs_handle_bindings src)) \<and>
      list_all2 (slot_as_given (carray_list (gs_objects src))) (carray_list (gs_slots src)) slots \<and>
      list_all2 (object_as_given (carray_list (gs_handle_bindings src))) (carray_list (gs_objects src)) objects)"
proof -
  obtain k where "kb2_resource_grant_encoded_size (Some src) True = Inr k" "k \<le> length b"
    using assms(1) by (auto simp: kb2_resource_grant_encode_def split: sum.split_asm if_split_asm)
  then have valid: "grant_source_valid (Some src)" "grant_size src \<le> length b"
    using grant_encoded_size_iff by auto
  let ?ws = "(0, zeros (grant_size src)) # segment_writes (grant_segments src)"
  have n: "n = grant_size src" and b': "b' = apply_writes b ?ws"
    using assms(1) grant_encode_image [OF valid(1) assms(2) valid(2)] by (auto simp: apply_writes.simps)
  have image: "take n b' = grant_image b src" by (simp add: grant_image_def b' n apply_writes.simps)
  have "writes_in 0 n ?ws" using segments_in [OF grant_segments_ok [OF assms(2)]] n by simp
  then have "length b' = length b \<and> drop n b' = drop n b"
    using length_apply_writes [of 0 n ?ws b] drop_apply_writes [of 0 n ?ws b] valid(2) n by (simp add: b')
  moreover note grant_image_decodes [OF valid(1) assms(2) valid(2)]
    grant_image_tables [OF valid(1) assms(2) valid(2)] grant_source_given [OF valid(1)]
    grant_image_fields(1,2) [OF valid(1) assms(2) valid(2)]
  ultimately show ?thesis unfolding image by (auto simp: grant_view_of_def)
qed

text \<open>A grant of one memory object with one handle, and an absent slot.\<close>

definition sample_grant :: kb2_resource_grant_source where
  "sample_grant = \<lparr>gs_generation = 1, gs_closure_manifest_digest = replicate 32 7,
     gs_slots = Arr [\<lparr>ss_slot_id = 1, ss_resource_type = 0, ss_state = 1, ss_interface_schema_digest = replicate 32 8\<rparr>,
       \<lparr>ss_slot_id = 4, ss_resource_type = 2, ss_state = 0, ss_interface_schema_digest = replicate 32 9\<rparr>],
     gs_objects = Arr [\<lparr>os_slot_id = 1, os_object_id = 5, os_granted_rights = 3\<rparr>],
     gs_handle_bindings = Arr [\<lparr>hb_object_id = 5, hb_role = 2, hb_transfer_handle_index = 0\<rparr>]\<rparr>"

lemma sample_grant_facts:
  "grant_source_valid (Some sample_grant)" "grant_source_typed sample_grant" "grant_size sample_grant = 304"
proof -
  have "source_tables_valid (carray_list (gs_slots sample_grant)) (carray_list (gs_objects sample_grant))
      (carray_list (gs_handle_bindings sample_grant))" by code_simp
  then show "grant_source_valid (Some sample_grant)"
    by (simp add: grant_source_valid_def) (simp add: sample_grant_def bytes_are_zero_def list_all_iff is_null_def)
  show "grant_source_typed sample_grant" by (simp add: grant_source_typed_def sample_grant_def carray_list_def)
  show "grant_size sample_grant = 304" by (simp add: grant_size_def encoded_slots_def encoded_objects_def sample_grant_def carray_list_def Let_def)
qed

theorem kb2_resource_grant_roundtrip_witness:
  "\<exists>b' g s ob. kb2_resource_grant_encode (Some (zeros 310)) True (Some sample_grant) = Some (KB2_PROTOCOL_OK, Some 304, Some b') \<and>
     kb2_resource_grant_decode (Some (take 304 b')) True = Some (KB2_PROTOCOL_OK, Some g) \<and>
     kb2_resource_grant_slot (Some g) 0 True = Some (Inr s) \<and> sl_slot_id s = 1 \<and>
     sl_interface_schema_digest s = replicate 32 8 \<and> unat (sl_object_count s) = 1 \<and>
     kb2_resource_grant_object (Some g) 0 True = Some (Inr ob) \<and> ob_object_id ob = 5 \<and> ob_granted_rights ob = 3 \<and>
     unat (ob_handle_count ob) = 1"
proof -
  have len: "grant_size sample_grant \<le> length (zeros 310)" by (simp add: sample_grant_facts(3))
  note enc = grant_encode_image [OF sample_grant_facts(1,2) len, unfolded sample_grant_facts(3)]
  from kb2_resource_grant_roundtrip [OF enc sample_grant_facts(2)] obtain b' g slots objects where
    b': "kb2_resource_grant_encode (Some (zeros 310)) True (Some sample_grant) = Some (KB2_PROTOCOL_OK, Some 304, Some b')"
    and g: "kb2_resource_grant_decode (Some (take 304 b')) True = Some (KB2_PROTOCOL_OK, Some g)"
      "grant_has_tables g slots objects (carray_list (gs_handle_bindings sample_grant))"
      "list_all2 (slot_as_given (carray_list (gs_objects sample_grant))) (carray_list (gs_slots sample_grant)) slots"
      "list_all2 (object_as_given (carray_list (gs_handle_bindings sample_grant))) (carray_list (gs_objects sample_grant)) objects"
    using enc by blast
  obtain s rest where s: "slots = s # rest" "slot_as_given [\<lparr>os_slot_id = 1, os_object_id = 5, os_granted_rights = 3\<rparr>]
      \<lparr>ss_slot_id = 1, ss_resource_type = 0, ss_state = 1, ss_interface_schema_digest = replicate 32 8\<rparr> s"
    using g(3) by (auto simp: sample_grant_def carray_list_def list_all2_Cons1)
  obtain ob where ob: "objects = [ob]" "object_as_given [\<lparr>hb_object_id = 5, hb_role = 2, hb_transfer_handle_index = 0\<rparr>]
      \<lparr>os_slot_id = 1, os_object_id = 5, os_granted_rights = 3\<rparr> ob"
    using g(4) by (auto simp: sample_grant_def carray_list_def list_all2_Cons1)
  have one: "c = 1" if "take c (drop k [x]) = [y]" "k + c \<le> 1" for c k :: nat and x y :: 'x
    using that by (cases c) auto
  have "unat (sl_object_count s) = 1" "unat (ob_handle_count ob) = 1"
    using one [of "unat (sl_object_count s)"] one [of "unat (ob_handle_count ob)"] s(2) ob(2)
    by (auto simp: slot_as_given_def object_as_given_def)
  moreover have "kb2_resource_grant_slot (Some g) 0 True = Some (Inr s)" "kb2_resource_grant_object (Some g) 0 True = Some (Inr ob)"
    using g(2) s(1) ob(1) by (auto simp: grant_has_tables_def table_is_def)
  ultimately show ?thesis using b' g(1) s(2) ob(2) by (auto simp: slot_as_given_def object_as_given_def)
qed

text \<open>C31. The grant encoder is safe. For a source whose digests are 32 bytes long it never stores outside
  the buffer, and unless it answers OK the buffer is unchanged.\<close>

theorem kb2_resource_grant_encode_safe:
  assumes "grant_source_typed src"
  shows "\<exists>status n out. kb2_resource_grant_encode buffer outs (Some src) = Some (status, n, out) \<and>
    (status = KB2_PROTOCOL_OK \<or> n = None \<and> out = buffer)"
proof (cases buffer)
  case (Some b)
  show ?thesis
  proof (cases "kb2_resource_grant_encoded_size (Some src) True")
    case (Inr k)
    then have "grant_source_valid (Some src)" "k = grant_size src" using grant_encoded_size_iff by auto
    then show ?thesis
      using grant_encode_image [OF _ assms, of b] Some Inr
      by (cases "outs \<and> k \<le> length b") (auto simp: kb2_resource_grant_encode_def)
  qed (auto simp: kb2_resource_grant_encode_def Some)
qed (simp add: kb2_resource_grant_encode_def)

theorem kb2_resource_grant_encode_safe_witness:
  "kb2_resource_grant_encode (Some (zeros 10)) True (Some sample_grant) = Some (KB2_PROTOCOL_BUFFER_TOO_SMALL, None, Some (zeros 10))"
proof -
  have "kb2_resource_grant_encode (Some (zeros 10)) True (Some sample_grant) \<noteq> None"
    using kb2_resource_grant_encode_safe [OF sample_grant_facts(2), of "Some (zeros 10)" True] by auto
  moreover have "kb2_resource_grant_encoded_size (Some sample_grant) True = Inr 304"
    using grant_encoded_size_iff sample_grant_facts by simp
  ultimately show ?thesis by (simp add: kb2_resource_grant_encode_def)
qed

end
