(* ===== verification/Grant_Policy.thy ===== *)
theory Grant_Policy
  imports Grant_Encode
begin

unbundle bit_operations_syntax

text \<open>
  What \<open>kb2_resource_grant_validate_manifest\<close> promises: a decoded grant is accepted for a decoded
  manifest exactly when it was made for that manifest (SHA-256 of its bytes) and gives every
  resource requirement what it asks for and nothing beyond.
\<close>

section \<open>The policy\<close>

definition objects_of :: "kb2_resource_grant_object_t list \<Rightarrow> kb2_resource_grant_slot_t \<Rightarrow> kb2_resource_grant_object_t list" where
  "objects_of Os s = filter (\<lambda>ob. ob_slot_id ob = sl_slot_id s) Os"

text \<open>The rights of an object contain the required ones and stay within the maximum.\<close>

definition rights_between :: "kb2_closure_manifest_resource_t \<Rightarrow> kb2_resource_grant_object_t \<Rightarrow> bool" where
  "rights_between q ob \<longleftrightarrow> ob_granted_rights ob AND mr_required_rights q = mr_required_rights q \<and>
     ob_granted_rights ob AND NOT (mr_maximum_rights q) = 0"

definition slot_admitted :: "kb2_resource_grant_object_t list \<Rightarrow> kb2_resource_grant_slot_t \<Rightarrow> kb2_closure_manifest_resource_t \<Rightarrow> bool" where
  "slot_admitted Os s q \<longleftrightarrow>
     sl_slot_id s = mr_slot_id q \<and> sl_resource_type s = mr_type q \<and>
     sl_interface_schema_digest s = mr_interface_schema_digest q \<and>
     (if sl_state s = KB2_RESOURCE_GRANT_SLOT_ABSENT then mr_flags q AND KB2_CLOSURE_RESOURCE_FLAG_REQUIRED = 0
      else unat (mr_minimum_count q) \<le> length (objects_of Os s) \<and> length (objects_of Os s) \<le> unat (mr_maximum_count q) \<and>
        (\<forall>ob \<in> set (objects_of Os s). rights_between q ob))"

lemma objects_of_slot:
  assumes "slots_contract S Os" "i < length S"
  shows "objects_of Os (S ! i) = take (unat (sl_object_count (S ! i))) (drop (unat (sl_object_start (S ! i))) Os)"
    "length (objects_of Os (S ! i)) = unat (sl_object_count (S ! i))"
    "unat (sl_object_start (S ! i)) + unat (sl_object_count (S ! i)) \<le> length Os"
proof -
  let ?cs = "object_counts S"
  have len: "length ?cs = length (slot_ids S)" "length (slot_ids S) = length S" by (simp_all add: columns)
  have c: "sorted_wrt (<) (slot_ids S)" "map ob_slot_id Os = runs ?cs (slot_ids S)" "unat (sl_object_start (S ! i)) = run_start ?cs i"
    using assms by (simp_all add: slots_contract_def)
  have count: "?cs ! i = unat (sl_object_count (S ! i))" using assms(2) by (simp add: object_counts_def)
  have "distinct (slot_ids S)" using c(1) by (simp add: strict_sorted_iff)
  from filter_runs [OF len(1) c(2) this, of i]
  show eq: "objects_of Os (S ! i) = take (unat (sl_object_count (S ! i))) (drop (unat (sl_object_start (S ! i))) Os)"
    using assms(2) len by (simp add: objects_of_def c(3) count) (simp add: slot_ids_def)
  have "sum_list ?cs = length Os" using c(2) length_runs [OF len(1)] by (metis length_map)
  then have "run_start ?cs i + ?cs ! i \<le> length Os"
    using run_start_Suc [of i ?cs] run_start_le [of ?cs "Suc i"] assms(2) len by simp
  then show le: "unat (sl_object_start (S ! i)) + unat (sl_object_count (S ! i)) \<le> length Os" by (simp add: c(3) count)
  show "length (objects_of Os (S ! i)) = unat (sl_object_count (S ! i))" using le by (simp add: eq)
qed

section \<open>The loops\<close>

lemma granted_loop:
  assumes "grant_has_tables g S Os H" "slots_contract S Os" "i < length S"
  shows "for_loop (granted_object_step g q (unat (sl_object_start (S ! i)))) 0 (unat (sl_object_count (S ! i))) () =
    Some (if \<forall>ob \<in> set (objects_of Os (S ! i)). rights_between q ob then Inr () else Inl KB2_PROTOCOL_MALFORMED)"
proof -
  let ?st = "unat (sl_object_start (S ! i))" and ?c = "unat (sl_object_count (S ! i))"
  note run = objects_of_slot [OF assms(2,3)]
  have Os: "\<And>j. j < length Os \<Longrightarrow> kb2_resource_grant_object (Some g) j True = Some (Inr (Os ! j))"
    using assms by (auto simp: grant_has_tables_def table_is_def grant_count_defs)
  have all: "(\<forall>ob \<in> set (objects_of Os (S ! i)). rights_between q ob) \<longleftrightarrow> (\<forall>j < ?c. rights_between q (Os ! (?st + j)))"
    unfolding all_set_conv_all_nth run(2) using run(1,3) by simp
  have "granted_object_step g q ?st j () =
      Some (if rights_between q (Os ! (?st + j)) then Inr () else Inl KB2_PROTOCOL_MALFORMED)" if "j < ?c" for j
    using that run(3) by (simp add: granted_object_step_def Os rights_between_def)
  then show ?thesis unfolding all by (rule for_loop_check)
qed

lemma requirement_step_iff:
  assumes "grant_has_tables g S Os H" "slots_contract S Os" "i < length S"
    and "kb2_closure_manifest_resource (Some m) i True = Some (Inr q)"
  shows "requirement_step g m i () = Some (Inr ()) \<longleftrightarrow> slot_admitted Os (S ! i) q"
proof -
  have s: "kb2_resource_grant_slot (Some g) i True = Some (Inr (S ! i))"
    using assms(1,3) by (auto simp: grant_has_tables_def table_is_def grant_count_defs)
  have count: "length (objects_of Os (S ! i)) = unat (sl_object_count (S ! i))" by (rule objects_of_slot(2) [OF assms(2,3)])
  define A where "A \<longleftrightarrow> (\<forall>ob \<in> set (objects_of Os (S ! i)). rights_between q ob)"
  show ?thesis
    unfolding slot_admitted_def count A_def [symmetric] word_le_nat_alt [symmetric] requirement_step_def assms(4) s
    by (simp add: granted_loop [OF assms(1-3)] A_def [symmetric] not_less) (auto simp: not_less)
qed

lemma requirement_step_total:
  assumes "grant_typed g" "manifest_typed m"
  shows "requirement_step g m i s \<noteq> None"
proof -
  obtain q where q: "kb2_closure_manifest_resource (Some m) i True = Some q" using accessor_total(5) [OF assms(2)] by blast
  obtain r where r: "kb2_resource_grant_slot (Some g) i True = Some r" using grant_accessor_total(1) [OF assms(1)] by blast
  have "granted_object_step g q st j u \<noteq> None" for q st j u
    using grant_accessor_total(2) [OF assms(1), of "st + j"] by (auto simp: granted_object_step_def)
  then have "for_loop (granted_object_step g q st) k n u \<noteq> None" for q st k n u by (rule for_loop_total)
  then show ?thesis by (cases q; cases r) (simp_all add: requirement_step_def q r del: not_None_eq)
qed

lemma requirement_step_status: "requirement_step g m i s \<noteq> Some (Inl KB2_PROTOCOL_OK)"
proof -
  have "granted_object_step g q st j u \<noteq> Some (Inl KB2_PROTOCOL_OK)" for q st j u
    by (auto simp: granted_object_step_def split: Option.bind_split_asm sum.split_asm if_split_asm)
  then have "for_loop (granted_object_step g q st) k n u \<noteq> Some (Inl KB2_PROTOCOL_OK)" for q st k n u by (rule for_loop_Inl)
  then show ?thesis
    by (auto simp: requirement_step_def split: Option.bind_split_asm sum.split_asm if_split_asm)
qed

lemma kb2_sha256_correct: "length d < 2 ^ 64 \<Longrightarrow> kb2_sha256 (Arr d) True = Some (Some (sha256_of d))"
proof -
  assume n: "length d < 2 ^ 64"
  obtain cx where init: "kb2_sha256_initialize (Some zero_context) = Some cx" by (simp add: kb2_sha256_initialize_def)
  obtain cx' where "feed (Some cx) [d] = Some (Some cx')" "absorbed cx' d" "cx_byte_count cx' = of_nat (length d)"
    using feed_absorbed [of cx "[]" "[d]"] initialize_absorbed [OF init] n by auto
  then show ?thesis unfolding kb2_sha256_feed init using finish_absorbed by simp
qed

text \<open>C27. Grants are validated against their manifest. For every grant and every manifest that the decoders
  accept, validation reads inside both buffers and answers; it answers OK exactly when the digest in
  the grant is the SHA-256 of the bytes of the manifest, there is one slot per requirement with its
  identifier, type and interface, no required slot is absent, and every present slot owns as many
  objects as the requirement allows, each with the required rights and none beyond the maximum.\<close>

theorem kb2_resource_grant_validate_manifest_correct:
  assumes "kb2_resource_grant_decode (Some gb) True = Some (KB2_PROTOCOL_OK, Some g)"
    and "kb2_closure_manifest_decode (Some mb) True = Some (KB2_PROTOCOL_OK, Some m)"
  shows "\<exists>S Os H t. grant_has_tables g S Os H \<and> has_tables m t \<and>
    kb2_resource_grant_validate_manifest (Some g) (Some m) \<noteq> None \<and>
    (kb2_resource_grant_validate_manifest (Some g) (Some m) = Some KB2_PROTOCOL_OK \<longleftrightarrow>
      gr_closure_manifest_digest g = sha256_of mb \<and> list_all2 (slot_admitted Os) S (t_resources t))"
proof -
  obtain S Os H where g: "grant_header gb" "g = grant_view_of gb" "grant_has_tables g S Os H" "slots_contract S Os"
    using assms(1) by (cases rule: grant_decode_cases [of gb, OF refl]) (auto simp: grant_contract_def)
  obtain t where m: "header_spec mb" "m = view_of mb" "has_tables m t"
    using assms(2) manifest_view_Inl by (cases rule: decode_cases [of mb, OF refl]) auto
  have typed: "grant_typed g" "manifest_typed m"
    using grant_view_typed [OF g(1)] view_typed [OF m(1)] g(2) m(2) by (auto simp: grant_typed_def manifest_typed_def)
  have n: "unat (gr_counts g ! SLOTS) = length S" "kb2_closure_manifest_resource_count (Some m) = length (t_resources t)"
    using g(3) m(3) by (auto simp: grant_has_tables_def has_tables_def table_is_def grant_count_defs)
  have q: "kb2_closure_manifest_resource (Some m) i True = Some (Inr (t_resources t ! i))" if "i < length (t_resources t)" for i
    using m(3) that by (auto simp: has_tables_def table_is_def)
  have sha: "kb2_sha256 (Arr mb) True = Some (Some (sha256_of mb))" "mf_size m = length mb"
    using kb2_sha256_correct [of mb] m(1,2) by (auto simp: view_of_def header_spec_def UINT32_MAX_def)
  obtain r where r: "for_loop (requirement_step g m) 0 (length S) () = Some r"
    using for_loop_total [of "requirement_step g m" 0 "length S" "()"] requirement_step_total [OF typed] by blast
  have status: "r \<noteq> Inl KB2_PROTOCOL_OK"
    using for_loop_Inl [of "requirement_step g m" KB2_PROTOCOL_OK 0 "length S" "()"] requirement_step_status r by auto
  have bytes: "gr_bytes g = Some gb" "mf_bytes m = Some mb" using g(2) m(2) by (simp_all add: grant_view_of_def view_of_def)
  have ok: "r = Inr () \<longleftrightarrow> list_all2 (slot_admitted Os) S (t_resources t)" if "length S = length (t_resources t)"
    using for_loop_unit [of "requirement_step g m" 0 "length S"] r that requirement_step_iff [OF g(3,4) _ q]
    by (auto simp: list_all2_conv_all_nth)
  have val: "kb2_resource_grant_validate_manifest (Some g) (Some m) =
      (if gr_closure_manifest_digest g \<noteq> sha256_of mb then Some KB2_PROTOCOL_SCHEMA_MISMATCH
       else if length S \<noteq> length (t_resources t) then Some KB2_PROTOCOL_MALFORMED
       else Some (case r of Inl status \<Rightarrow> status | Inr _ \<Rightarrow> KB2_PROTOCOL_OK))"
    unfolding kb2_resource_grant_validate_manifest_def n using r by (cases "length S = length (t_resources t)") (simp_all add: bytes sha n)
  have "kb2_resource_grant_validate_manifest (Some g) (Some m) = Some KB2_PROTOCOL_OK \<longleftrightarrow>
      gr_closure_manifest_digest g = sha256_of mb \<and> list_all2 (slot_admitted Os) S (t_resources t)"
    unfolding val using ok status by (cases r) (auto dest: list_all2_lengthD)
  moreover have "kb2_resource_grant_validate_manifest (Some g) (Some m) \<noteq> None" unfolding val by simp
  ultimately show ?thesis using g(3) m(3) by blast
qed

text \<open>The sample grant was made for another manifest: the sample manifest asks for a single resource.\<close>

theorem kb2_resource_grant_validate_manifest_correct_witness:
  "\<exists>g m status. kb2_resource_grant_decode (Some (grant_image (zeros 304) sample_grant)) True = Some (KB2_PROTOCOL_OK, Some g) \<and>
     kb2_closure_manifest_decode (Some (manifest_image (zeros 465) (source_tables sample_source))) True = Some (KB2_PROTOCOL_OK, Some m) \<and>
     kb2_resource_grant_validate_manifest (Some g) (Some m) = Some status \<and> status \<noteq> KB2_PROTOCOL_OK"
proof -
  let ?g = "grant_view_of (grant_image (zeros 304) sample_grant)"
  let ?m = "view_of (manifest_image (zeros 465) (source_tables sample_source))"
  have g: "kb2_resource_grant_decode (Some (grant_image (zeros 304) sample_grant)) True = Some (KB2_PROTOCOL_OK, Some ?g)"
    by (rule grant_image_decodes [OF sample_grant_facts(1,2)]) (simp add: sample_grant_facts(3))
  have "grant_has_tables ?g (encoded_slots sample_grant) (encoded_objects sample_grant) (carray_list (gs_handle_bindings sample_grant))"
    by (rule grant_image_tables [OF sample_grant_facts(1,2)]) (simp add: sample_grant_facts(3))
  moreover have "length (encoded_slots sample_grant) = 2" by (simp add: encoded_slots_def sample_grant_def carray_list_def Let_def)
  ultimately have gt: "length S = 2" if "grant_has_tables ?g S Os H" for S Os H
    using that unfolding grant_has_tables_def table_is_def by metis
  have len: "465 \<le> length (zeros 465)" by simp
  note m = manifest_image_decodes [OF sample_encoded_size len sample_tables]
  have mt: "length (t_resources t) = length (t_resources (canonical (source_tables sample_source)))" if "has_tables ?m t" for t
    using that has_tables_unique [OF m(1)] by simp
  have "length (t_resources (canonical (source_tables sample_source))) \<noteq> 2"
    by (simp add: canonical_def source_tables_def sample_source_def carray_list_def)
  then show ?thesis
    using kb2_resource_grant_validate_manifest_correct [OF g m(2)] g m(2) gt mt
    by (auto dest!: list_all2_lengthD)
qed

end
