(* ===== verification/Message_Fields.thy ===== *)
theory Message_Fields
  imports Tables
begin

unbundle bit_operations_syntax

text \<open>
  Messages as sequences of fields. The codecs of the block device, the GPU sessions and the file system clear a
  message, store its fields and read them back; the image of a message is the concatenation of its
  fields, zero where nothing is stored.
\<close>

section \<open>Words and bytes\<close>

lemma le32_un32: "length xs = 4 \<Longrightarrow> le32 (un32 xs) = xs"
proof -
  assume "length xs = 4"
  then obtain a b c d where xs: "xs = [a, b, c, d]" by (auto simp: numeral_eq_Suc length_Suc_conv)
  show ?thesis unfolding xs le32_def un32_def
    by (auto simp: bit_eq_iff bit_simps dest: bit_imp_le_length)
qed

lemma le64_un64: "length xs = 8 \<Longrightarrow> le64 (un64 xs) = xs"
proof -
  assume len: "length xs = 8"
  have low: "ucast (un64 xs) = un32 xs" and high: "ucast (drop_bit 32 (un64 xs)) = un32 (drop 4 xs)"
    by (auto simp: un64_def bit_eq_iff bit_simps dest: bit_imp_le_length)
  have "un32 xs = un32 (take 4 xs)" by (simp add: un32_def)
  then show ?thesis
    unfolding le64_def low high using len le32_un32 [of "take 4 xs"] le32_un32 [of "drop 4 xs"] by simp
qed

lemma un32_iff: "off + 4 \<le> length b \<Longrightarrow> un32 (slice b off 4) = v \<longleftrightarrow> slice b off 4 = le32 v"
  using le32_un32 [of "slice b off 4"] by auto

lemma un64_iff: "off + 8 \<le> length b \<Longrightarrow> un64 (slice b off 8) = v \<longleftrightarrow> slice b off 8 = le64 v"
  using le64_un64 [of "slice b off 8"] by auto

lemma le32_0: "le32 0 = zeros 4" and le64_0: "le64 0 = zeros 8"
  by (simp_all add: le64_def le32_def zeros_def numeral_eq_Suc)

lemma le_nonempty [simp]: "le32 v \<noteq> []" "le64 v' \<noteq> []"
  by (simp_all add: le32_def le64_def)

section \<open>Fields\<close>

fun fields_match :: "bytes \<Rightarrow> nat \<Rightarrow> bytes list \<Rightarrow> bool" where
  "fields_match b off [] \<longleftrightarrow> True"
| "fields_match b off (f # fs) \<longleftrightarrow> slice b off (length f) = f \<and> fields_match b (off + length f) fs"

lemma slice_append: "slice b off (m + n) = slice b off m @ slice b (off + m) n"
  by (simp add: slice_def take_add add.commute)

lemma fields_match_iff:
  "off + length (concat fs) \<le> length b \<Longrightarrow> fields_match b off fs \<longleftrightarrow> slice b off (length (concat fs)) = concat fs"
proof (induction fs arbitrary: off)
  case (Cons f fs)
  then have "off + length f + length (concat fs) \<le> length b" by simp
  with Cons.IH show ?case using Cons.prems by (simp add: slice_append)
qed (simp add: slice_def)

lemma take_fields: "length (concat fs) = n \<Longrightarrow> n \<le> length b \<Longrightarrow> take n b = concat fs \<longleftrightarrow> fields_match b 0 fs"
  using fields_match_iff [of 0 fs b] by (auto simp: slice_def)

text \<open>
  The stores of a cleared message go to disjoint fields, in any order, and cover it: a field is
  stored, or zero and left alone.
\<close>

definition message_stores :: "nat \<Rightarrow> writes \<Rightarrow> bool" where
  "message_stores n ws \<longleftrightarrow> writes_in 0 n ws \<and> sorted_wrt (\<lambda>(p, xs) (q, ys). p + length xs \<le> q \<or> q + length ys \<le> p) ws"

fun covers :: "nat \<Rightarrow> writes \<Rightarrow> bytes list \<Rightarrow> bool" where
  "covers off ws [] \<longleftrightarrow> True"
| "covers off ws (f # fs) \<longleftrightarrow>
     ((off, f) \<in> set ws \<or>
      f = zeros (length f) \<and> list_all (\<lambda>(p, xs). off + length f \<le> p \<or> p + length xs \<le> off) ws) \<and>
     covers (off + length f) ws fs"

lemma covers_match:
  assumes "message_stores n ws" "n \<le> length b"
  shows "covers off ws fs \<Longrightarrow> off + length (concat fs) \<le> n \<Longrightarrow>
    fields_match (apply_writes (put b 0 (zeros n)) ws) off fs"
proof (induction fs arbitrary: off)
  case (Cons f fs)
  let ?z = "put b 0 (zeros n)"
  have ws: "writes_in 0 n ws" "sorted_wrt (\<lambda>(p, xs) (q, ys). p + length xs \<le> q \<or> q + length ys \<le> p) ws"
    using assms(1) by (auto simp: message_stores_def)
  have len: "n \<le> length ?z" using assms(2) by simp
  have "slice (apply_writes ?z ws) off (length f) = f"
  proof (cases "(off, f) \<in> set ws")
    case True
    then show ?thesis by (rule slice_writes [OF ws(2,1) len])
  next
    case False
    then have gap: "f = zeros (length f)" "list_all (\<lambda>(p, xs). off + length f \<le> p \<or> p + length xs \<le> off) ws"
      using Cons.prems(1) by auto
    have "slice (apply_writes ?z ws) off (length f) = slice ?z off (length f)"
      by (rule slice_gap [OF gap(2) ws(1) len])
    also have "\<dots> = zeros (length f)" using Cons.prems(2) assms(2) by (simp add: slice_put_inside slice_zeros)
    finally show ?thesis using gap(1) by simp
  qed
  then show ?case using Cons by simp
qed simp

lemma message_image:
  assumes "message_stores n ws" "covers 0 ws fs" "length (concat fs) = n" "n \<le> length b"
  shows "store_all b ((0, zeros n) # ws) = Some (concat fs @ drop n b)"
proof -
  let ?r = "apply_writes (put b 0 (zeros n)) ws"
  have win: "writes_in 0 n ws" using assms(1) by (simp add: message_stores_def)
  have len: "length ?r = length b" and tail: "drop n ?r = drop n b"
    using length_apply_writes [OF win, of "put b 0 (zeros n)"] drop_apply_writes [OF win, of "put b 0 (zeros n)"] assms(4)
    by (simp_all add: put_def)
  have "take n ?r = concat fs"
    using covers_match [OF assms(1,4,2)] assms(3,4) len take_fields [of fs n ?r] by simp
  then have "?r = concat fs @ drop n b" using tail append_take_drop_id [of n ?r] by simp
  moreover have "store_all b ((0, zeros n) # ws) = Some (apply_writes b ((0, zeros n) # ws))"
    using win assms(4) by (intro store_all_in [of 0 n]) auto
  ultimately show ?thesis by (simp add: apply_writes.simps)
qed

end
