(* ===== verification/Block_Device.thy ===== *)
theory Block_Device
  imports Message_Fields
begin

unbundle bit_operations_syntax

text \<open>
  The block device messages, \<open>protocol/src/block_device.c\<close> with the layout constants of
  \<open>protocol/generated/include/kobox2/block_device_layout.h\<close>: the codecs of request headers and disk
  descriptions. A result is the returned \<open>int\<close> with the buffer or the decoded value; the outer \<open>None\<close>
  is an access outside the buffer.
\<close>

section \<open>Headers\<close>

record kb2_block_header =
  bh_opcode :: u32
  bh_status :: u32
  bh_count :: u32
  bh_generation :: u64
  bh_sequence :: u64
  bh_diskseq :: u64
  bh_offset :: u64
  bh_major :: u32
  bh_minor :: u32
  bh_length :: u32

definition block_identity :: bytes where
  "block_identity = [0x64, 0x65, 0x76, 0x00]"

definition valid_opcode :: "u32 \<Rightarrow> bool" where
  "valid_opcode opcode \<longleftrightarrow> 1 \<le> opcode \<and> opcode \<le> 4"

definition block_header_refused :: "kb2_block_header \<Rightarrow> bool" where
  "block_header_refused header \<longleftrightarrow> \<not> valid_opcode (bh_opcode header) \<or> 7 < bh_status header \<or> 32 < bh_count header \<or>
     131072 < bh_length header \<or> bh_generation header = 0 \<or> bh_sequence header = 0"

definition block_header_writes :: "kb2_block_header \<Rightarrow> writes" where
  "block_header_writes header =
     [(0, block_identity), (4, le32 (bh_opcode header)), (8, le32 (bh_status header)), (12, le32 (bh_count header)),
      (16, le64 (bh_generation header)), (24, le64 (bh_sequence header)), (32, le64 (bh_diskseq header)),
      (40, le64 (bh_offset header)), (48, le32 (bh_major header)), (52, le32 (bh_minor header)),
      (56, le32 (bh_length header))]"

definition kb2_block_header_encode :: "bytes option \<Rightarrow> kb2_block_header option \<Rightarrow> (int \<times> bytes option) option" where
  "kb2_block_header_encode bytes header =
     (case (bytes, header) of
        (Some b, Some h) \<Rightarrow>
          if length b < 64 \<or> block_header_refused h then Some (-1, bytes)
          else do { b' \<leftarrow> store_all b ((0, zeros 64) # block_header_writes h); Some (0, Some b') }
      | _ \<Rightarrow> Some (-1, bytes))"

text \<open>The output of the decoder is \<open>None\<close> where \<open>*header\<close> is not assigned.\<close>

definition kb2_block_header_decode :: "bytes option \<Rightarrow> bool \<Rightarrow> (int \<times> kb2_block_header option) option" where
  "kb2_block_header_decode bytes header_out =
     (case bytes of
        None \<Rightarrow> Some (-1, None)
      | Some b \<Rightarrow>
          if \<not> header_out \<or> length b < 64 then Some (-1, None)
          else do {
            identity \<leftarrow> load_bytes b 0 4;
            if identity \<noteq> block_identity then Some (-1, None)
            else do {
              reserved \<leftarrow> load_u32 b 60;
              if reserved \<noteq> 0 then Some (-1, None)
              else do {
                opcode \<leftarrow> load_u32 b 4;
                status \<leftarrow> load_u32 b 8;
                count \<leftarrow> load_u32 b 12;
                generation \<leftarrow> load_u64 b 16;
                sequence \<leftarrow> load_u64 b 24;
                diskseq \<leftarrow> load_u64 b 32;
                offset \<leftarrow> load_u64 b 40;
                major \<leftarrow> load_u32 b 48;
                minor \<leftarrow> load_u32 b 52;
                len \<leftarrow> load_u32 b 56;
                let value = \<lparr>bh_opcode = opcode, bh_status = status, bh_count = count, bh_generation = generation,
                  bh_sequence = sequence, bh_diskseq = diskseq, bh_offset = offset, bh_major = major, bh_minor = minor,
                  bh_length = len\<rparr> in
                Some (if block_header_refused value then (-1, None) else (0, Some value)) } } })"

section \<open>Disks\<close>

record kb2_block_disk =
  bd_diskseq :: u64
  bd_bytes :: u64
  bd_major :: u32
  bd_minor :: u32
  bd_logical_block_size :: u32
  bd_physical_block_size :: u32
  bd_removable :: u32
  bd_read_only :: u32
  bd_name :: bytes

definition name_terminated :: "bytes \<Rightarrow> bool" where
  "name_terminated name \<longleftrightarrow> list_ex (\<lambda>c. c = 0) (take 32 name)"

definition block_disk_refused :: "kb2_block_disk \<Rightarrow> bool" where
  "block_disk_refused disk \<longleftrightarrow> bd_diskseq disk = 0 \<or> bd_bytes disk = 0 \<or> bd_logical_block_size disk = 0 \<or>
     bd_physical_block_size disk = 0 \<or> 1 < bd_removable disk \<or> 1 < bd_read_only disk"

definition block_disk_writes :: "kb2_block_disk \<Rightarrow> writes" where
  "block_disk_writes disk =
     [(0, le64 (bd_diskseq disk)), (8, le64 (bd_bytes disk)), (16, le32 (bd_major disk)), (20, le32 (bd_minor disk)),
      (24, le32 (bd_logical_block_size disk)), (28, le32 (bd_physical_block_size disk)), (32, le32 (bd_removable disk)),
      (36, le32 (bd_read_only disk)), (40, bd_name disk)]"

definition kb2_block_disk_encode :: "bytes option \<Rightarrow> kb2_block_disk option \<Rightarrow> (int \<times> bytes option) option" where
  "kb2_block_disk_encode bytes disk =
     (case (bytes, disk) of
        (Some b, Some d) \<Rightarrow>
          if length b < 72 \<or> block_disk_refused d \<or> \<not> name_terminated (bd_name d) then Some (-1, bytes)
          else do { b' \<leftarrow> store_all b ((0, zeros 72) # block_disk_writes d); Some (0, Some b') }
      | _ \<Rightarrow> Some (-1, bytes))"

definition kb2_block_disk_decode :: "bytes option \<Rightarrow> bool \<Rightarrow> (int \<times> kb2_block_disk option) option" where
  "kb2_block_disk_decode bytes disk_out =
     (case bytes of
        None \<Rightarrow> Some (-1, None)
      | Some b \<Rightarrow>
          if \<not> disk_out \<or> length b < 72 then Some (-1, None)
          else do {
            name \<leftarrow> load_bytes b 40 32;
            if \<not> name_terminated name then Some (-1, None)
            else do {
              diskseq \<leftarrow> load_u64 b 0;
              size \<leftarrow> load_u64 b 8;
              major \<leftarrow> load_u32 b 16;
              minor \<leftarrow> load_u32 b 20;
              logical_block_size \<leftarrow> load_u32 b 24;
              physical_block_size \<leftarrow> load_u32 b 28;
              removable \<leftarrow> load_u32 b 32;
              read_only \<leftarrow> load_u32 b 36;
              let value = \<lparr>bd_diskseq = diskseq, bd_bytes = size, bd_major = major, bd_minor = minor,
                bd_logical_block_size = logical_block_size, bd_physical_block_size = physical_block_size,
                bd_removable = removable, bd_read_only = read_only, bd_name = name\<rparr> in
              Some (if block_disk_refused value then (-1, None) else (0, Some value)) } })"

section \<open>Images\<close>

definition block_header_fields :: "kb2_block_header \<Rightarrow> bytes list" where
  "block_header_fields h = [block_identity, le32 (bh_opcode h), le32 (bh_status h), le32 (bh_count h), le64 (bh_generation h),
     le64 (bh_sequence h), le64 (bh_diskseq h), le64 (bh_offset h), le32 (bh_major h), le32 (bh_minor h), le32 (bh_length h), le32 0]"

definition block_disk_fields :: "kb2_block_disk \<Rightarrow> bytes list" where
  "block_disk_fields d = [le64 (bd_diskseq d), le64 (bd_bytes d), le32 (bd_major d), le32 (bd_minor d),
     le32 (bd_logical_block_size d), le32 (bd_physical_block_size d), le32 (bd_removable d), le32 (bd_read_only d), bd_name d]"

lemma length_block_identity [simp]: "length block_identity = 4"
  by (simp add: block_identity_def)

lemma block_identity_nonempty [simp]: "block_identity \<noteq> []"
  by (simp add: block_identity_def)

lemma length_block_header_fields: "length (concat (block_header_fields h)) = 64"
  by (simp add: block_header_fields_def)

lemma length_block_disk_fields: "length (bd_name d) = 32 \<Longrightarrow> length (concat (block_disk_fields d)) = 72"
  by (simp add: block_disk_fields_def)

lemma block_header_image:
  assumes "64 \<le> length b"
  shows "store_all b ((0, zeros 64) # block_header_writes h) = Some (concat (block_header_fields h) @ drop 64 b)"
  by (rule message_image)
    (simp_all add: assms message_stores_def block_header_writes_def block_header_fields_def le32_0)

lemma block_disk_image:
  assumes "72 \<le> length b" "length (bd_name d) = 32"
  shows "store_all b ((0, zeros 72) # block_disk_writes d) = Some (concat (block_disk_fields d) @ drop 72 b)"
proof (rule message_image)
  have "bd_name d \<noteq> []" using assms(2) by auto
  then show "message_stores 72 (block_disk_writes d)" by (simp add: message_stores_def block_disk_writes_def assms(2))
qed (simp_all add: assms block_disk_writes_def block_disk_fields_def)

lemma block_header_decode_iff:
  "kb2_block_header_decode (Some b) True = Some (0, Some h) \<longleftrightarrow>
     64 \<le> length b \<and> \<not> block_header_refused h \<and> take 64 b = concat (block_header_fields h)"
proof (cases "64 \<le> length b")
  case True
  have fields: "take 64 b = concat (block_header_fields h) \<longleftrightarrow> slice b 0 4 = block_identity \<and> un32 (slice b 60 4) = 0 \<and>
      h = \<lparr>bh_opcode = un32 (slice b 4 4), bh_status = un32 (slice b 8 4), bh_count = un32 (slice b 12 4),
        bh_generation = un64 (slice b 16 8), bh_sequence = un64 (slice b 24 8), bh_diskseq = un64 (slice b 32 8),
        bh_offset = un64 (slice b 40 8), bh_major = un32 (slice b 48 4), bh_minor = un32 (slice b 52 4),
        bh_length = un32 (slice b 56 4)\<rparr>"
    unfolding take_fields [OF length_block_header_fields True]
    using True by (cases h) (auto simp: block_header_fields_def un32_iff [symmetric] un64_iff [symmetric])
  show ?thesis unfolding fields using True
    by (auto simp: kb2_block_header_decode_def wire Let_def)
qed (simp add: kb2_block_header_decode_def)

lemma block_disk_decode_iff:
  "kb2_block_disk_decode (Some b) True = Some (0, Some d) \<longleftrightarrow>
     72 \<le> length b \<and> \<not> block_disk_refused d \<and> name_terminated (bd_name d) \<and> length (bd_name d) = 32 \<and>
     take 72 b = concat (block_disk_fields d)"
proof (cases "72 \<le> length b")
  case True
  have fields: "length (bd_name d) = 32 \<and> take 72 b = concat (block_disk_fields d) \<longleftrightarrow>
      d = \<lparr>bd_diskseq = un64 (slice b 0 8), bd_bytes = un64 (slice b 8 8), bd_major = un32 (slice b 16 4),
        bd_minor = un32 (slice b 20 4), bd_logical_block_size = un32 (slice b 24 4), bd_physical_block_size = un32 (slice b 28 4),
        bd_removable = un32 (slice b 32 4), bd_read_only = un32 (slice b 36 4), bd_name = slice b 40 32\<rparr>"
    (is "?n \<and> _ \<longleftrightarrow> ?d")
  proof -
    have "?n \<Longrightarrow> take 72 b = concat (block_disk_fields d) \<longleftrightarrow> fields_match b 0 (block_disk_fields d)"
      by (rule take_fields [OF length_block_disk_fields True])
    moreover have "?n \<and> fields_match b 0 (block_disk_fields d) \<longleftrightarrow> ?d"
      using True by (cases d) (auto simp: block_disk_fields_def un32_iff [symmetric] un64_iff [symmetric])
    ultimately show ?thesis by blast
  qed
  have "kb2_block_disk_decode (Some b) True = Some (0, Some d) \<longleftrightarrow> \<not> block_disk_refused d \<and> name_terminated (bd_name d) \<and>
      (length (bd_name d) = 32 \<and> take 72 b = concat (block_disk_fields d))"
    unfolding fields using True by (auto simp: kb2_block_disk_decode_def wire Let_def)
  then show ?thesis using True by blast
qed (simp add: kb2_block_disk_decode_def)

text \<open>C32. Block device messages are canonical. A header or a disk description that the encoder accepts is
  decoded from the bytes it writes, which change nothing behind the message; and whatever the decoder
  accepts, the encoder would write exactly those bytes again. Refusals leave the buffer alone and no
  access leaves it.\<close>

theorem kb2_block_messages_canonical:
  "(kb2_block_header_encode (Some b) (Some h) = Some (0, Some b') \<longrightarrow>
      kb2_block_header_decode (Some b') True = Some (0, Some h) \<and> length b' = length b \<and> drop 64 b' = drop 64 b) \<and>
   (kb2_block_header_decode (Some b) True = Some (0, Some h) \<longrightarrow> kb2_block_header_encode (Some b) (Some h) = Some (0, Some b)) \<and>
   (length (bd_name d) = 32 \<longrightarrow> kb2_block_disk_encode (Some b) (Some d) = Some (0, Some b') \<longrightarrow>
      kb2_block_disk_decode (Some b') True = Some (0, Some d) \<and> length b' = length b \<and> drop 72 b' = drop 72 b) \<and>
   (kb2_block_disk_decode (Some b) True = Some (0, Some d) \<longrightarrow> kb2_block_disk_encode (Some b) (Some d) = Some (0, Some b))"
proof (intro conjI impI)
  note lens = length_block_header_fields [of h] and lend = length_block_disk_fields [of d]
  {
    assume e: "kb2_block_header_encode (Some b) (Some h) = Some (0, Some b')"
    then have "64 \<le> length b" "\<not> block_header_refused h" by (auto simp: kb2_block_header_encode_def split: if_split_asm)
    moreover from this have "b' = concat (block_header_fields h) @ drop 64 b"
      using e by (simp add: kb2_block_header_encode_def block_header_image del: store_all.simps)
    ultimately show "kb2_block_header_decode (Some b') True = Some (0, Some h)" "length b' = length b" "drop 64 b' = drop 64 b"
      unfolding block_header_decode_iff using lens by simp_all
  next
    assume "kb2_block_header_decode (Some b) True = Some (0, Some h)"
    then show "kb2_block_header_encode (Some b) (Some h) = Some (0, Some b)"
      unfolding block_header_decode_iff using append_take_drop_id [of 64 b]
      by (simp add: kb2_block_header_encode_def block_header_image del: store_all.simps)
  next
    assume n: "length (bd_name d) = 32" and e: "kb2_block_disk_encode (Some b) (Some d) = Some (0, Some b')"
    then have "72 \<le> length b" "\<not> block_disk_refused d" "name_terminated (bd_name d)"
      by (auto simp: kb2_block_disk_encode_def split: if_split_asm)
    moreover from this have "b' = concat (block_disk_fields d) @ drop 72 b"
      using e n by (simp add: kb2_block_disk_encode_def block_disk_image del: store_all.simps)
    ultimately show "kb2_block_disk_decode (Some b') True = Some (0, Some d)" "length b' = length b" "drop 72 b' = drop 72 b"
      unfolding block_disk_decode_iff using lend [OF n] n by simp_all
  next
    assume "kb2_block_disk_decode (Some b) True = Some (0, Some d)"
    then show "kb2_block_disk_encode (Some b) (Some d) = Some (0, Some b)"
      unfolding block_disk_decode_iff using append_take_drop_id [of 72 b]
      by (simp add: kb2_block_disk_encode_def block_disk_image del: store_all.simps)
  }
qed

definition sample_block_header :: kb2_block_header where
  "sample_block_header = \<lparr>bh_opcode = 2, bh_status = 0, bh_count = 1, bh_generation = 3, bh_sequence = 9, bh_diskseq = 4,
     bh_offset = 4096, bh_major = 8, bh_minor = 1, bh_length = 512\<rparr>"

definition sample_disk :: kb2_block_disk where
  "sample_disk = \<lparr>bd_diskseq = 4, bd_bytes = 1048576, bd_major = 8, bd_minor = 0, bd_logical_block_size = 512,
     bd_physical_block_size = 4096, bd_removable = 0, bd_read_only = 1, bd_name = [0x73, 0x64, 0x61] @ replicate 29 0\<rparr>"

theorem kb2_block_messages_canonical_witness:
  "\<exists>b' d'. kb2_block_header_encode (Some (zeros 80)) (Some sample_block_header) = Some (0, Some b') \<and>
     kb2_block_header_decode (Some b') True = Some (0, Some sample_block_header) \<and>
     kb2_block_header_encode (Some b') (Some sample_block_header) = Some (0, Some b') \<and>
     kb2_block_disk_encode (Some (zeros 80)) (Some sample_disk) = Some (0, Some d') \<and>
     kb2_block_disk_decode (Some d') True = Some (0, Some sample_disk) \<and>
     kb2_block_disk_encode (Some d') (Some sample_disk) = Some (0, Some d')"
proof -
  have h: "\<exists>b'. kb2_block_header_encode (Some (zeros 80)) (Some sample_block_header) = Some (0, Some b')"
    by (simp add: kb2_block_header_encode_def block_header_image block_header_refused_def sample_block_header_def valid_opcode_def
        del: store_all.simps)
  have n: "length (bd_name sample_disk) = 32" by (simp add: sample_disk_def)
  have nt: "name_terminated (bd_name sample_disk)" by (simp add: name_terminated_def sample_disk_def list_ex_iff)
  have d: "\<exists>d'. kb2_block_disk_encode (Some (zeros 80)) (Some sample_disk) = Some (0, Some d')"
    using n nt by (simp add: kb2_block_disk_encode_def block_disk_image block_disk_refused_def del: store_all.simps)
      (simp add: sample_disk_def)
  show ?thesis using h d n kb2_block_messages_canonical by blast
qed

end
