(* ===== verification/Gpu_Session.thy ===== *)
theory Gpu_Session
  imports Message_Fields
begin

unbundle bit_operations_syntax

text \<open>
  GPU session messages, \<open>protocol/src/gpu_session.c\<close> with the layout constants of
  \<open>protocol/generated/include/kobox2/gpu_layout.h\<close>: requests to open and to close a session, and
  their completions. A decoder's output is \<open>None\<close> where nothing is assigned; the outer \<open>None\<close> is an
  access outside the buffer.
\<close>

section \<open>Data\<close>

record kb2_gpu_session_open =
  so_node_type :: u32
  so_client_id :: u64

record kb2_gpu_session_completion =
  sc_opcode :: u32
  sc_status :: u32
  sc_session_id :: u64
  sc_topology_epoch :: u64
  sc_capabilities :: u64

definition gpu_abi :: bytes where
  "gpu_abi = [0x64, 0x65, 0x76, 0x00]"

definition gpu_schema :: bytes where
  "gpu_schema =
    [0xd4, 0x09, 0x3c, 0x21, 0xf4, 0x7f, 0xba, 0xa7,
     0x6b, 0x0d, 0x87, 0xe0, 0x19, 0x1e, 0xd9, 0x9e,
     0x1a, 0x85, 0x3e, 0x64, 0x64, 0x6d, 0x61, 0x72,
     0x23, 0xe0, 0xf4, 0x74, 0xa0, 0xc6, 0x40, 0x04]"

abbreviation (input) KB2_GPU_NODE_PRIMARY :: u32 where "KB2_GPU_NODE_PRIMARY \<equiv> 1"
abbreviation (input) KB2_GPU_NODE_RENDER :: u32 where "KB2_GPU_NODE_RENDER \<equiv> 2"
abbreviation (input) KB2_GPU_OPCODE_SESSION_OPEN :: u32 where "KB2_GPU_OPCODE_SESSION_OPEN \<equiv> 2"
abbreviation (input) KB2_GPU_OPCODE_SESSION_CLOSE :: u32 where "KB2_GPU_OPCODE_SESSION_CLOSE \<equiv> 3"
abbreviation (input) KB2_GPU_STATUS_OK :: u32 where "KB2_GPU_STATUS_OK \<equiv> 0"
abbreviation (input) KB2_GPU_STATUS_DEVICE_LOST :: u32 where "KB2_GPU_STATUS_DEVICE_LOST \<equiv> 15"
abbreviation (input) KB2_GPU_DISPOSITION_COMPLETED :: u32 where "KB2_GPU_DISPOSITION_COMPLETED \<equiv> 1"

section \<open>Requests\<close>

definition valid_open :: "kb2_gpu_session_open option \<Rightarrow> bool" where
  "valid_open request \<longleftrightarrow> (case request of None \<Rightarrow> False
     | Some r \<Rightarrow> so_client_id r \<noteq> 0 \<and> (so_node_type r = KB2_GPU_NODE_RENDER \<or> so_node_type r = KB2_GPU_NODE_PRIMARY))"

definition open_writes :: "kb2_gpu_session_open \<Rightarrow> writes" where
  "open_writes request = [(0, le32 (so_node_type request)), (8, le64 (so_client_id request))]"

definition kb2_gpu_session_open_encode ::
    "bytes option \<Rightarrow> kb2_gpu_session_open option \<Rightarrow> (kb2_protocol_status \<times> bytes option) option" where
  "kb2_gpu_session_open_encode bytes request =
     (case (bytes, request) of
        (Some b, Some r) \<Rightarrow>
          if \<not> valid_open request then Some (KB2_PROTOCOL_INVALID_ARGUMENT, bytes)
          else if length b \<noteq> 24 then Some (KB2_PROTOCOL_MALFORMED, bytes)
          else do { b' \<leftarrow> store_all b ((0, zeros 24) # open_writes r); Some (KB2_PROTOCOL_OK, Some b') }
      | _ \<Rightarrow> Some (KB2_PROTOCOL_INVALID_ARGUMENT, bytes))"

definition kb2_gpu_session_open_decode ::
    "bytes option \<Rightarrow> bool \<Rightarrow> (kb2_protocol_status \<times> kb2_gpu_session_open option) option" where
  "kb2_gpu_session_open_decode bytes request_out =
     (case bytes of
        None \<Rightarrow> Some (KB2_PROTOCOL_INVALID_ARGUMENT, None)
      | Some b \<Rightarrow>
          if \<not> request_out then Some (KB2_PROTOCOL_INVALID_ARGUMENT, None)
          else if length b \<noteq> 24 then Some (KB2_PROTOCOL_MALFORMED, None)
          else do {
            node_type \<leftarrow> load_u32 b 0;
            client_id \<leftarrow> load_u64 b 8;
            let request = \<lparr>so_node_type = node_type, so_client_id = client_id\<rparr>;
            flags \<leftarrow> load_u32 b 4;
            reserved \<leftarrow> load_u64 b 16;
            Some (if \<not> valid_open (Some request) \<or> flags \<noteq> 0 \<or> reserved \<noteq> 0 then (KB2_PROTOCOL_MALFORMED, None)
              else (KB2_PROTOCOL_OK, Some request)) })"

definition kb2_gpu_session_close_encode :: "bytes option \<Rightarrow> u64 \<Rightarrow> (kb2_protocol_status \<times> bytes option) option" where
  "kb2_gpu_session_close_encode bytes session_id =
     (case bytes of
        None \<Rightarrow> Some (KB2_PROTOCOL_INVALID_ARGUMENT, bytes)
      | Some b \<Rightarrow>
          if session_id = 0 then Some (KB2_PROTOCOL_INVALID_ARGUMENT, bytes)
          else if length b \<noteq> 16 then Some (KB2_PROTOCOL_MALFORMED, bytes)
          else do { b' \<leftarrow> store_all b ((0, zeros 16) # [(0, le64 session_id)]); Some (KB2_PROTOCOL_OK, Some b') })"

definition kb2_gpu_session_close_decode :: "bytes option \<Rightarrow> bool \<Rightarrow> (kb2_protocol_status \<times> u64 option) option" where
  "kb2_gpu_session_close_decode bytes session_out =
     (case bytes of
        None \<Rightarrow> Some (KB2_PROTOCOL_INVALID_ARGUMENT, None)
      | Some b \<Rightarrow>
          if \<not> session_out then Some (KB2_PROTOCOL_INVALID_ARGUMENT, None)
          else if length b \<noteq> 16 then Some (KB2_PROTOCOL_MALFORMED, None)
          else do {
            session \<leftarrow> load_u64 b 0;
            flags \<leftarrow> load_u32 b 8;
            reserved \<leftarrow> load_u32 b 12;
            Some (if session = 0 \<or> flags \<noteq> 0 \<or> reserved \<noteq> 0 then (KB2_PROTOCOL_MALFORMED, None)
              else (KB2_PROTOCOL_OK, Some session)) })"

section \<open>Completions\<close>

definition valid_completion :: "kb2_gpu_session_completion \<Rightarrow> bool" where
  "valid_completion completion \<longleftrightarrow>
     (if KB2_GPU_STATUS_DEVICE_LOST < sc_status completion then False
      else if sc_opcode completion = KB2_GPU_OPCODE_SESSION_OPEN then
        if sc_status completion = KB2_GPU_STATUS_OK then sc_session_id completion \<noteq> 0 \<and> sc_topology_epoch completion \<noteq> 0
        else sc_session_id completion = 0 \<and> sc_topology_epoch completion = 0 \<and> sc_capabilities completion = 0
      else sc_opcode completion = KB2_GPU_OPCODE_SESSION_CLOSE \<and> sc_session_id completion \<noteq> 0 \<and>
        sc_topology_epoch completion = 0 \<and> sc_capabilities completion = 0)"

definition completion_payload :: "u32 \<Rightarrow> u32 \<Rightarrow> nat" where
  "completion_payload opcode status = (if opcode = KB2_GPU_OPCODE_SESSION_OPEN \<and> status = 0 then 32 else 0)"

definition completion_writes :: "nat \<Rightarrow> nat \<Rightarrow> kb2_gpu_session_completion \<Rightarrow> writes" where
  "completion_writes sz payload completion =
     [(0, le32 (of_nat sz)), (4, gpu_abi), (8, gpu_schema), (40, le64 (sc_session_id completion)),
      (48, le32 (sc_status completion)), (52, le32 KB2_GPU_DISPOSITION_COMPLETED), (68, le32 (of_nat payload)),
      (72, le32 104), (76, le32 104), (80, le32 104), (84, le32 104)] @
     (if payload \<noteq> 0 then
        [(104, le64 (sc_session_id completion)), (112, le64 (sc_topology_epoch completion)),
         (120, le64 (sc_capabilities completion))]
      else [])"

definition kb2_gpu_session_completion_encode ::
    "bytes option \<Rightarrow> bool \<Rightarrow> kb2_gpu_session_completion option \<Rightarrow> (kb2_protocol_status \<times> nat option \<times> bytes option) option" where
  "kb2_gpu_session_completion_encode bytes size_out completion =
     (case (bytes, completion) of
        (Some b, Some c) \<Rightarrow>
          if \<not> size_out then Some (KB2_PROTOCOL_INVALID_ARGUMENT, None, bytes)
          else if \<not> valid_completion c then Some (KB2_PROTOCOL_MALFORMED, None, bytes)
          else
            let payload = completion_payload (sc_opcode c) (sc_status c); sz = 104 + payload in
            if length b < sz then Some (KB2_PROTOCOL_BUFFER_TOO_SMALL, None, bytes)
            else do { b' \<leftarrow> store_all b ((0, zeros sz) # completion_writes sz payload c);
              Some (KB2_PROTOCOL_OK, Some sz, Some b') }
      | _ \<Rightarrow> Some (KB2_PROTOCOL_INVALID_ARGUMENT, None, bytes))"

text \<open>The chain of comparisons of the header, evaluated in order with early exit.\<close>

fun all_words :: "bytes \<Rightarrow> (nat \<times> u32) list \<Rightarrow> bool option" where
  "all_words b [] = Some True"
| "all_words b ((off, value) # rest) = do { v \<leftarrow> load_u32 b off; if v \<noteq> value then Some False else all_words b rest }"

definition completion_header_ok :: "bytes \<Rightarrow> nat \<Rightarrow> bool option" where
  "completion_header_ok b payload =
     (if length b \<noteq> 104 + payload then Some False
      else do {
        total \<leftarrow> load_u32 b 0;
        if unat total \<noteq> length b then Some False
        else do {
          words \<leftarrow> all_words b [(52, KB2_GPU_DISPOSITION_COMPLETED), (56, 0), (60, 0), (64, 0), (68, of_nat payload),
            (72, 104), (76, 104), (80, 104), (84, 104), (88, 0), (92, 0)];
          if \<not> words then Some False
          else do { reserved \<leftarrow> load_u64 b 96; Some (reserved = 0) } } })"

definition kb2_gpu_session_completion_decode ::
    "bytes option \<Rightarrow> u32 \<Rightarrow> bool \<Rightarrow> (kb2_protocol_status \<times> kb2_gpu_session_completion option) option" where
  "kb2_gpu_session_completion_decode bytes opcode completion_out =
     (case bytes of
        None \<Rightarrow> Some (KB2_PROTOCOL_INVALID_ARGUMENT, None)
      | Some b \<Rightarrow>
          if \<not> completion_out then Some (KB2_PROTOCOL_INVALID_ARGUMENT, None)
          else if length b < 104 then Some (KB2_PROTOCOL_BUFFER_TOO_SMALL, None)
          else do {
            abi \<leftarrow> load_bytes b 4 4;
            schema \<leftarrow> load_bytes b 8 32;
            if abi \<noteq> gpu_abi \<or> schema \<noteq> gpu_schema then Some (KB2_PROTOCOL_SCHEMA_MISMATCH, None)
            else do {
              session_id \<leftarrow> load_u64 b 40;
              status \<leftarrow> load_u32 b 48;
              let payload = completion_payload opcode status;
              header \<leftarrow> completion_header_ok b payload;
              if \<not> header then Some (KB2_PROTOCOL_MALFORMED, None)
              else do {
                result \<leftarrow> if payload \<noteq> 0 then do {
                    topology_epoch \<leftarrow> load_u64 b 112;
                    capabilities \<leftarrow> load_u64 b 120;
                    session \<leftarrow> load_u64 b 104;
                    reserved \<leftarrow> load_u64 b 128;
                    Some (if session \<noteq> session_id \<or> reserved \<noteq> 0 then None else Some (topology_epoch, capabilities)) }
                  else Some (Some (0, 0));
                case result of
                  None \<Rightarrow> Some (KB2_PROTOCOL_MALFORMED, None)
                | Some (topology_epoch, capabilities) \<Rightarrow>
                    let completion = \<lparr>sc_opcode = opcode, sc_status = status, sc_session_id = session_id,
                      sc_topology_epoch = topology_epoch, sc_capabilities = capabilities\<rparr> in
                    Some (if \<not> valid_completion completion then (KB2_PROTOCOL_MALFORMED, None)
                      else (KB2_PROTOCOL_OK, Some completion)) } } })"

section \<open>Images\<close>

definition open_fields :: "kb2_gpu_session_open \<Rightarrow> bytes list" where
  "open_fields r = [le32 (so_node_type r), le32 0, le64 (so_client_id r), le64 0]"

definition close_fields :: "u64 \<Rightarrow> bytes list" where
  "close_fields session = [le64 session, le32 0, le32 0]"

definition completion_fields :: "kb2_gpu_session_completion \<Rightarrow> bytes list" where
  "completion_fields c =
     (let payload = completion_payload (sc_opcode c) (sc_status c) in
      [le32 (of_nat (104 + payload)), gpu_abi, gpu_schema, le64 (sc_session_id c), le32 (sc_status c),
       le32 KB2_GPU_DISPOSITION_COMPLETED, le32 0, le32 0, le32 0, le32 (of_nat payload),
       le32 104, le32 104, le32 104, le32 104, le32 0, le32 0, le64 0] @
      (if payload \<noteq> 0 then [le64 (sc_session_id c), le64 (sc_topology_epoch c), le64 (sc_capabilities c), le64 0] else []))"

lemma gpu_field_lengths [simp]: "length gpu_abi = 4" "length gpu_schema = 32" "gpu_abi \<noteq> []" "gpu_schema \<noteq> []"
  by (simp_all add: gpu_abi_def gpu_schema_def)

lemma length_session_fields:
  "length (concat (open_fields r)) = 24" "length (concat (close_fields s)) = 16"
  "length (concat (completion_fields c)) = 104 + completion_payload (sc_opcode c) (sc_status c)"
  by (simp_all add: open_fields_def close_fields_def completion_fields_def completion_payload_def)

lemma open_image: "length b = 24 \<Longrightarrow> store_all b ((0, zeros 24) # open_writes r) = Some (concat (open_fields r))"
  using message_image [of 24 "open_writes r" "open_fields r" b] length_session_fields(1) [of r]
  by (simp add: message_stores_def open_writes_def open_fields_def le32_0 le64_0 del: store_all.simps)

lemma close_image: "length b = 16 \<Longrightarrow> store_all b ((0, zeros 16) # [(0, le64 s)]) = Some (concat (close_fields s))"
  using message_image [of 16 "[(0, le64 s)]" "close_fields s" b] length_session_fields(2) [of s]
  by (simp add: message_stores_def close_fields_def le32_0 del: store_all.simps)

lemma completion_image:
  assumes "p = completion_payload (sc_opcode c) (sc_status c)" "104 + p \<le> length b"
  shows "store_all b ((0, zeros (104 + p)) # completion_writes (104 + p) p c) = Some (concat (completion_fields c) @ drop (104 + p) b)"
proof (rule message_image)
  have "p = 0 \<or> p = 32" by (simp add: assms(1) completion_payload_def)
  then show "message_stores (104 + p) (completion_writes (104 + p) p c)" "covers 0 (completion_writes (104 + p) p c) (completion_fields c)"
    using assms(1) by (auto simp: message_stores_def completion_writes_def completion_fields_def le32_0 le64_0)
qed (use assms length_session_fields(3) [of c] in simp_all)

lemma open_decode_iff:
  "kb2_gpu_session_open_decode (Some b) True = Some (KB2_PROTOCOL_OK, Some r) \<longleftrightarrow>
     valid_open (Some r) \<and> b = concat (open_fields r)"
proof (cases "length b = 24")
  case True
  then have len: "24 \<le> length b" and b: "b = take 24 b" by simp_all
  have "b = concat (open_fields r) \<longleftrightarrow> un32 (slice b 4 4) = 0 \<and> un64 (slice b 16 8) = 0 \<and>
      r = \<lparr>so_node_type = un32 (slice b 0 4), so_client_id = un64 (slice b 8 8)\<rparr>"
    by (subst b, subst take_fields [OF length_session_fields(1) len])
      (use len in \<open>cases r, auto simp: open_fields_def un32_iff [symmetric] un64_iff [symmetric]\<close>)
  then show ?thesis using True by (auto simp: kb2_gpu_session_open_decode_def wire Let_def)
qed (use length_session_fields(1) [of r] in \<open>auto simp: kb2_gpu_session_open_decode_def\<close>)

lemma close_decode_iff:
  "kb2_gpu_session_close_decode (Some b) True = Some (KB2_PROTOCOL_OK, Some s) \<longleftrightarrow> s \<noteq> 0 \<and> b = concat (close_fields s)"
proof (cases "length b = 16")
  case True
  then have len: "16 \<le> length b" and b: "b = take 16 b" by simp_all
  have "b = concat (close_fields s) \<longleftrightarrow> un32 (slice b 8 4) = 0 \<and> un32 (slice b 12 4) = 0 \<and> s = un64 (slice b 0 8)"
    by (subst b, subst take_fields [OF length_session_fields(2) len])
      (use len in \<open>auto simp: close_fields_def un32_iff [symmetric] un64_iff [symmetric]\<close>)
  then show ?thesis using True by (auto simp: kb2_gpu_session_close_decode_def wire Let_def)
qed (use length_session_fields(2) [of s] in \<open>auto simp: kb2_gpu_session_close_decode_def\<close>)

lemma unat_eq_u32: "n < 2 ^ 32 \<Longrightarrow> unat (v :: u32) = n \<longleftrightarrow> v = of_nat n"
  using unat_of_nat_u32 by (metis of_nat_unat ucast_id)

text \<open>The fixed part of a completion and the part that depends on the payload.\<close>

definition completion_frame :: "bytes \<Rightarrow> nat \<Rightarrow> bool" where
  "completion_frame b p \<longleftrightarrow> un32 (slice b 0 4) = of_nat (104 + p) \<and>
    un32 (slice b 52 4) = 1 \<and> un32 (slice b 56 4) = 0 \<and> un32 (slice b 60 4) = 0 \<and> un32 (slice b 64 4) = 0 \<and>
    un32 (slice b 68 4) = of_nat p \<and> un32 (slice b 72 4) = 104 \<and> un32 (slice b 76 4) = 104 \<and> un32 (slice b 80 4) = 104 \<and>
    un32 (slice b 84 4) = 104 \<and> un32 (slice b 88 4) = 0 \<and> un32 (slice b 92 4) = 0 \<and> un64 (slice b 96 8) = 0"

lemma completion_header_iff:
  assumes "p = 0 \<or> p = 32" "104 \<le> length b"
  shows "completion_header_ok b p = Some (length b = 104 + p \<and> completion_frame b p)"
proof (cases "length b = 104 + p")
  case True
  have size: "unat v = 104 + p \<longleftrightarrow> v = 104 + of_nat p" for v :: u32
    using assms(1) unat_eq_u32 [of "104 + p" v] by auto
  show ?thesis using assms(2) True
    by (simp add: completion_header_ok_def wire size completion_frame_def)
qed (simp add: completion_header_ok_def)

lemma completion_fields_iff:
  assumes "p = completion_payload (sc_opcode c) (sc_status c)"
  shows "b = concat (completion_fields c) \<longleftrightarrow> length b = 104 + p \<and> slice b 4 4 = gpu_abi \<and> slice b 8 32 = gpu_schema \<and>
    completion_frame b p \<and> un64 (slice b 40 8) = sc_session_id c \<and> un32 (slice b 48 4) = sc_status c \<and>
    (p \<noteq> 0 \<longrightarrow> un64 (slice b 104 8) = sc_session_id c \<and> un64 (slice b 112 8) = sc_topology_epoch c \<and>
       un64 (slice b 120 8) = sc_capabilities c \<and> un64 (slice b 128 8) = 0)"
proof (cases "length b = 104 + p")
  case True
  then have len: "104 + p \<le> length b" and b: "b = take (104 + p) b" by simp_all
  note fl = length_session_fields(3) [of c, folded assms]
  have p: "p = 0 \<or> p = 32" by (simp add: assms completion_payload_def)
  have eq: "b = concat (completion_fields c) \<longleftrightarrow> fields_match b 0 (completion_fields c)"
    using take_fields [OF fl len] b by metis
  show ?thesis unfolding eq using True p
    by (auto simp: completion_fields_def Let_def assms [symmetric] completion_frame_def un32_iff un64_iff)
qed (use length_session_fields(3) [of c] assms in auto)

lemma completion_decode_iff:
  "kb2_gpu_session_completion_decode (Some b) opcode True = Some (KB2_PROTOCOL_OK, Some c) \<longleftrightarrow>
     sc_opcode c = opcode \<and> valid_completion c \<and> b = concat (completion_fields c)"
proof (cases "104 \<le> length b")
  case True
  define p where "p = completion_payload opcode (un32 (slice b 48 4))"
  have p: "p = 0 \<or> p = 32" by (simp add: p_def completion_payload_def)
  have loads: "load_bytes b 4 4 = Some (slice b 4 4)" "load_bytes b 8 32 = Some (slice b 8 32)"
    "load_u64 b 40 = Some (un64 (slice b 40 8))" "load_u32 b 48 = Some (un32 (slice b 48 4))"
    using True by (simp_all add: wire)
  have payload: "load_u64 b 104 = Some (un64 (slice b 104 8))" "load_u64 b 112 = Some (un64 (slice b 112 8))"
    "load_u64 b 120 = Some (un64 (slice b 120 8))" "load_u64 b 128 = Some (un64 (slice b 128 8))" if "length b = 136"
    using that by (simp_all add: wire)
  have zero: "valid_completion c \<Longrightarrow> completion_payload (sc_opcode c) (sc_status c) = 0 \<Longrightarrow> sc_topology_epoch c = 0 \<and> sc_capabilities c = 0"
    by (auto simp: valid_completion_def completion_payload_def split: if_split_asm)
  have "kb2_gpu_session_completion_decode (Some b) opcode True = Some (KB2_PROTOCOL_OK, Some c) \<longleftrightarrow>
      slice b 4 4 = gpu_abi \<and> slice b 8 32 = gpu_schema \<and> length b = 104 + p \<and> completion_frame b p \<and> valid_completion c \<and>
      (p \<noteq> 0 \<longrightarrow> un64 (slice b 104 8) = un64 (slice b 40 8) \<and> un64 (slice b 128 8) = 0) \<and>
      c = \<lparr>sc_opcode = opcode, sc_status = un32 (slice b 48 4), sc_session_id = un64 (slice b 40 8),
        sc_topology_epoch = (if p \<noteq> 0 then un64 (slice b 112 8) else 0), sc_capabilities = (if p \<noteq> 0 then un64 (slice b 120 8) else 0)\<rparr>"
    using True p payload
    by (auto simp: kb2_gpu_session_completion_decode_def loads Let_def p_def [symmetric] completion_header_iff [OF p]
        split: if_split_asm)
  also have "\<dots> \<longleftrightarrow> sc_opcode c = opcode \<and> valid_completion c \<and> b = concat (completion_fields c)"
    unfolding completion_fields_iff [OF refl] using zero by (cases c) (auto simp: p_def split: if_split_asm)
  finally show ?thesis .
next
  case False
  then show ?thesis using length_session_fields(3) [of c] by (auto simp: kb2_gpu_session_completion_decode_def)
qed

lemma completion_encode_iff:
  "kb2_gpu_session_completion_encode (Some b) True (Some c) = Some (KB2_PROTOCOL_OK, Some n, Some b') \<longleftrightarrow>
     valid_completion c \<and> n = length (concat (completion_fields c)) \<and> n \<le> length b \<and> b' = concat (completion_fields c) @ drop n b"
  using completion_image [OF refl, of c b] length_session_fields(3) [of c]
  by (auto simp: kb2_gpu_session_completion_encode_def Let_def simp del: store_all.simps)

text \<open>C33. GPU session messages are canonical. What the encoders of open requests, close requests and
  completions write is decoded to what they were given, with nothing changed behind it; whatever the
  decoders accept is exactly what the encoders write for it; and an accepted completion belongs to the
  opcode it is decoded for, carries a session exactly where the opcode and the status call for one,
  and a topology epoch only when a session was opened.\<close>

theorem kb2_gpu_session_canonical:
  "(kb2_gpu_session_open_encode (Some b) (Some r) = Some (KB2_PROTOCOL_OK, Some b') \<longrightarrow>
      kb2_gpu_session_open_decode (Some b') True = Some (KB2_PROTOCOL_OK, Some r)) \<and>
   (kb2_gpu_session_open_decode (Some b) True = Some (KB2_PROTOCOL_OK, Some r) \<longrightarrow>
      kb2_gpu_session_open_encode (Some b) (Some r) = Some (KB2_PROTOCOL_OK, Some b)) \<and>
   (kb2_gpu_session_close_encode (Some b) s = Some (KB2_PROTOCOL_OK, Some b') \<longrightarrow>
      kb2_gpu_session_close_decode (Some b') True = Some (KB2_PROTOCOL_OK, Some s)) \<and>
   (kb2_gpu_session_close_decode (Some b) True = Some (KB2_PROTOCOL_OK, Some s) \<longrightarrow>
      kb2_gpu_session_close_encode (Some b) s = Some (KB2_PROTOCOL_OK, Some b)) \<and>
   (kb2_gpu_session_completion_encode (Some b) True (Some c) = Some (KB2_PROTOCOL_OK, Some n, Some b') \<longrightarrow>
      kb2_gpu_session_completion_decode (Some (take n b')) (sc_opcode c) True = Some (KB2_PROTOCOL_OK, Some c) \<and>
      drop n b' = drop n b) \<and>
   (kb2_gpu_session_completion_decode (Some b) opcode True = Some (KB2_PROTOCOL_OK, Some c) \<longrightarrow>
      kb2_gpu_session_completion_encode (Some b) True (Some c) = Some (KB2_PROTOCOL_OK, Some (length b), Some b) \<and>
      sc_opcode c = opcode \<and> (sc_session_id c \<noteq> 0 \<longleftrightarrow> sc_opcode c = KB2_GPU_OPCODE_SESSION_CLOSE \<or> sc_status c = KB2_GPU_STATUS_OK) \<and>
      (sc_topology_epoch c \<noteq> 0 \<longleftrightarrow> sc_opcode c = KB2_GPU_OPCODE_SESSION_OPEN \<and> sc_status c = KB2_GPU_STATUS_OK))"
proof (intro conjI impI)
  show "kb2_gpu_session_open_decode (Some b') True = Some (KB2_PROTOCOL_OK, Some r)"
    if "kb2_gpu_session_open_encode (Some b) (Some r) = Some (KB2_PROTOCOL_OK, Some b')"
    using that unfolding open_decode_iff
    by (auto simp: kb2_gpu_session_open_encode_def open_image simp del: store_all.simps split: if_split_asm)
  show "kb2_gpu_session_open_encode (Some b) (Some r) = Some (KB2_PROTOCOL_OK, Some b)"
    if "kb2_gpu_session_open_decode (Some b) True = Some (KB2_PROTOCOL_OK, Some r)"
    using that length_session_fields(1) [of r] unfolding open_decode_iff
    by (simp add: kb2_gpu_session_open_encode_def open_image del: store_all.simps)
  show "kb2_gpu_session_close_decode (Some b') True = Some (KB2_PROTOCOL_OK, Some s)"
    if "kb2_gpu_session_close_encode (Some b) s = Some (KB2_PROTOCOL_OK, Some b')"
    using that unfolding close_decode_iff
    by (auto simp: kb2_gpu_session_close_encode_def close_image simp del: store_all.simps split: if_split_asm)
  show "kb2_gpu_session_close_encode (Some b) s = Some (KB2_PROTOCOL_OK, Some b)"
    if "kb2_gpu_session_close_decode (Some b) True = Some (KB2_PROTOCOL_OK, Some s)"
    using that length_session_fields(2) [of s] unfolding close_decode_iff
    by (simp add: kb2_gpu_session_close_encode_def close_image del: store_all.simps)
  show "kb2_gpu_session_completion_decode (Some (take n b')) (sc_opcode c) True = Some (KB2_PROTOCOL_OK, Some c)" "drop n b' = drop n b"
    if "kb2_gpu_session_completion_encode (Some b) True (Some c) = Some (KB2_PROTOCOL_OK, Some n, Some b')"
    using that unfolding completion_encode_iff completion_decode_iff by simp_all
  assume "kb2_gpu_session_completion_decode (Some b) opcode True = Some (KB2_PROTOCOL_OK, Some c)"
  then have c: "sc_opcode c = opcode" "valid_completion c" "b = concat (completion_fields c)" unfolding completion_decode_iff by auto
  show "kb2_gpu_session_completion_encode (Some b) True (Some c) = Some (KB2_PROTOCOL_OK, Some (length b), Some b)"
    unfolding completion_encode_iff using c by simp
  show "sc_opcode c = opcode" by fact
  show "sc_session_id c \<noteq> 0 \<longleftrightarrow> sc_opcode c = KB2_GPU_OPCODE_SESSION_CLOSE \<or> sc_status c = KB2_GPU_STATUS_OK"
    "sc_topology_epoch c \<noteq> 0 \<longleftrightarrow> sc_opcode c = KB2_GPU_OPCODE_SESSION_OPEN \<and> sc_status c = KB2_GPU_STATUS_OK"
    using c(2) by (auto simp: valid_completion_def split: if_split_asm)
qed

definition sample_completion :: kb2_gpu_session_completion where
  "sample_completion = \<lparr>sc_opcode = 2, sc_status = 0, sc_session_id = 7, sc_topology_epoch = 1, sc_capabilities = 5\<rparr>"

theorem kb2_gpu_session_canonical_witness:
  "\<exists>b' o' c'. kb2_gpu_session_open_encode (Some (zeros 24)) (Some \<lparr>so_node_type = 2, so_client_id = 3\<rparr>) = Some (KB2_PROTOCOL_OK, Some o') \<and>
     kb2_gpu_session_open_decode (Some o') True = Some (KB2_PROTOCOL_OK, Some \<lparr>so_node_type = 2, so_client_id = 3\<rparr>) \<and>
     kb2_gpu_session_open_encode (Some o') (Some \<lparr>so_node_type = 2, so_client_id = 3\<rparr>) = Some (KB2_PROTOCOL_OK, Some o') \<and>
     kb2_gpu_session_close_encode (Some (zeros 16)) 9 = Some (KB2_PROTOCOL_OK, Some c') \<and>
     kb2_gpu_session_close_decode (Some c') True = Some (KB2_PROTOCOL_OK, Some 9) \<and>
     kb2_gpu_session_close_encode (Some c') 9 = Some (KB2_PROTOCOL_OK, Some c') \<and>
     kb2_gpu_session_completion_encode (Some (zeros 150)) True (Some sample_completion) = Some (KB2_PROTOCOL_OK, Some 136, Some b') \<and>
     kb2_gpu_session_completion_decode (Some (take 136 b')) 2 True = Some (KB2_PROTOCOL_OK, Some sample_completion) \<and>
     kb2_gpu_session_completion_encode (Some (take 136 b')) True (Some sample_completion) =
       Some (KB2_PROTOCOL_OK, Some (length (take 136 b')), Some (take 136 b'))"
proof -
  let ?r = "\<lparr>so_node_type = 2, so_client_id = 3\<rparr>"
  obtain o' where open_ok: "kb2_gpu_session_open_encode (Some (zeros 24)) (Some ?r) = Some (KB2_PROTOCOL_OK, Some o')"
    by (simp add: kb2_gpu_session_open_encode_def open_image valid_open_def del: store_all.simps)
  obtain c' where close_ok: "kb2_gpu_session_close_encode (Some (zeros 16)) 9 = Some (KB2_PROTOCOL_OK, Some c')"
    by (simp add: kb2_gpu_session_close_encode_def close_image del: store_all.simps)
  obtain b' where ok: "kb2_gpu_session_completion_encode (Some (zeros 150)) True (Some sample_completion) = Some (KB2_PROTOCOL_OK, Some 136, Some b')"
    unfolding completion_encode_iff length_session_fields(3)
    by (simp add: valid_completion_def sample_completion_def completion_payload_def)
  have opcode: "sc_opcode sample_completion = 2" by (simp add: sample_completion_def)
  have "kb2_gpu_session_open_decode (Some o') True = Some (KB2_PROTOCOL_OK, Some ?r)"
    using open_ok kb2_gpu_session_canonical [of "zeros 24" ?r o'] by blast
  moreover from this have "kb2_gpu_session_open_encode (Some o') (Some ?r) = Some (KB2_PROTOCOL_OK, Some o')"
    using kb2_gpu_session_canonical [of o' ?r] by blast
  moreover have "kb2_gpu_session_close_decode (Some c') True = Some (KB2_PROTOCOL_OK, Some 9)"
    using close_ok kb2_gpu_session_canonical [where b = "zeros 16" and s = 9 and b' = c'] by blast
  moreover from this have "kb2_gpu_session_close_encode (Some c') 9 = Some (KB2_PROTOCOL_OK, Some c')"
    using kb2_gpu_session_canonical [where b = c' and s = 9] by blast
  moreover have "kb2_gpu_session_completion_decode (Some (take 136 b')) 2 True = Some (KB2_PROTOCOL_OK, Some sample_completion)"
    using ok kb2_gpu_session_canonical [where b = "zeros 150" and c = sample_completion and n = 136 and b' = b'] unfolding opcode by blast
  moreover from this have "kb2_gpu_session_completion_encode (Some (take 136 b')) True (Some sample_completion) =
       Some (KB2_PROTOCOL_OK, Some (length (take 136 b')), Some (take 136 b'))"
    using kb2_gpu_session_canonical [where b = "take 136 b'" and c = sample_completion and opcode = 2] by blast
  ultimately show ?thesis using open_ok close_ok ok by blast
qed

end
