(* ===== verification/Filesystem.thy ===== *)
theory Filesystem
  imports Message_Fields
begin

unbundle bit_operations_syntax

text \<open>
  The file system protocol, \<open>protocol/src/filesystem.c\<close> with the layout constants of
  \<open>protocol/generated/include/kobox2/filesystem_layout.h\<close>: the codecs of requests, responses and
  credentials, the validation of the spans and paths of a request, and the policy that assigns every
  request its class and the rights it needs. An \<open>int64_t\<close> is an \<open>int\<close>; an \<open>int\<close> result is returned with
  the buffer or the decoded value, and the outer \<open>None\<close> is an access outside the buffer.
\<close>

section \<open>Data\<close>

record kb2_fs_span =
  sp_offset :: u64
  sp_length :: u64

record kb2_fs_request =
  fr_opcode :: u32
  fr_generation :: u64
  fr_sequence :: u64
  fr_client :: u64
  fr_credential_generation :: u64
  fr_handle :: u64
  fr_second_handle :: u64
  fr_offset :: int
  fr_length :: u64
  fr_flags :: u64
  fr_mode :: u64
  fr_resolve :: u64
  fr_mask :: u32
  fr_uid :: u32
  fr_gid :: u32
  fr_umask :: u32
  fr_path :: kb2_fs_span
  fr_second_path :: kb2_fs_span
  fr_groups :: kb2_fs_span
  fr_data :: kb2_fs_span
  fr_capabilities :: u64

record kb2_fs_response =
  fp_opcode :: u32
  fp_generation :: u64
  fp_sequence :: u64
  fp_result :: int
  fp_handle :: u64
  fp_data_length :: u64
  fp_service :: u32

record kb2_fs_credentials =
  fc_uid :: u32
  fc_gid :: u32
  fc_euid :: u32
  fc_egid :: u32
  fc_suid :: u32
  fc_sgid :: u32
  fc_fsuid :: u32
  fc_fsgid :: u32
  fc_cap_permitted :: u64
  fc_cap_effective :: u64
  fc_cap_inheritable :: u64
  fc_cap_ambient :: u64
  fc_securebits :: u32
  fc_umask :: u32


definition fs_identity :: bytes where
  "fs_identity = [0x64, 0x65, 0x76, 0x00]"

definition signed64 :: "u64 \<Rightarrow> int" where
  "signed64 value = (if value \<le> 0x7FFFFFFFFFFFFFFF then uint value else -1 - uint (0xFFFFFFFFFFFFFFFF - value))"

text \<open>The opcodes of \<open>filesystem_layout.h\<close>.\<close>

abbreviation (input) OP_HELLO :: u32 where "OP_HELLO \<equiv> 1"
abbreviation (input) OP_OPENAT2 :: u32 where "OP_OPENAT2 \<equiv> 14"
abbreviation (input) OP_MEMFD_CREATE :: u32 where "OP_MEMFD_CREATE \<equiv> 44"

definition opcode_valid :: "u32 \<Rightarrow> bool" where
  "opcode_valid opcode \<longleftrightarrow> OP_HELLO \<le> opcode \<and> opcode \<le> OP_MEMFD_CREATE"

section \<open>Policy\<close>




section \<open>Requests\<close>

definition span_valid :: "kb2_fs_span \<Rightarrow> u64 \<Rightarrow> bool" where
  "span_valid span sz =
     (if sp_length span = 0 then sp_offset span = 0
      else 192 \<le> sp_offset span \<and> sp_offset span \<le> sz \<and> sp_length span \<le> sz - sp_offset span)"

definition spans_overlap :: "kb2_fs_span \<Rightarrow> kb2_fs_span \<Rightarrow> bool" where
  "spans_overlap s t \<longleftrightarrow> sp_length s \<noteq> 0 \<and> sp_length t \<noteq> 0 \<and>
     sp_offset s < sp_offset t + sp_length t \<and> sp_offset t < sp_offset s + sp_length s"

definition request_spans :: "kb2_fs_request \<Rightarrow> kb2_fs_span list" where
  "request_spans request = [fr_path request, fr_second_path request, fr_groups request, fr_data request]"

definition request_valid :: "kb2_fs_request \<Rightarrow> u64 \<Rightarrow> bool" where
  "request_valid request sz \<longleftrightarrow>
     \<not> (\<not> opcode_valid (fr_opcode request) \<or> fr_generation request = 0 \<or> fr_sequence request = 0 \<or>
        fr_umask request AND NOT 0x1FF \<noteq> 0 \<or> sz < 192) \<and>
     list_all (\<lambda>i. span_valid (request_spans request ! i) sz \<and>
       list_all (\<lambda>j. \<not> spans_overlap (request_spans request ! i) (request_spans request ! j)) [0..<i]) [0..<4] \<and>
     sp_offset (fr_groups request) AND 3 = 0 \<and> sp_length (fr_groups request) AND 3 = 0"

definition request_writes :: "kb2_fs_request \<Rightarrow> writes" where
  "request_writes request =
     [(0, fs_identity), (8, le64 (fr_generation request)), (16, le64 (fr_sequence request)),
      (24, le64 (fr_client request)), (32, le64 (fr_credential_generation request)), (40, le64 (fr_handle request)),
      (48, le64 (fr_second_handle request)), (64, le64 (fr_length request)), (72, le64 (fr_flags request)),
      (80, le64 (fr_mode request)), (88, le64 (fr_resolve request)), (176, le64 (fr_capabilities request)),
      (112, le64 (sp_offset (fr_path request))), (120, le64 (sp_length (fr_path request))),
      (128, le64 (sp_offset (fr_second_path request))), (136, le64 (sp_length (fr_second_path request))),
      (144, le64 (sp_offset (fr_groups request))), (152, le64 (sp_length (fr_groups request))),
      (160, le64 (sp_offset (fr_data request))), (168, le64 (sp_length (fr_data request))),
      (4, le32 (fr_opcode request)), (96, le32 (fr_mask request)), (100, le32 (fr_uid request)),
      (104, le32 (fr_gid request)), (108, le32 (fr_umask request)), (56, le64 (word_of_int (fr_offset request)))]"

definition kb2_fs_request_encode :: "bytes option \<Rightarrow> u64 \<Rightarrow> kb2_fs_request option \<Rightarrow> (int \<times> bytes option) option" where
  "kb2_fs_request_encode bytes payload_size request =
     (case (bytes, request) of
        (Some b, Some r) \<Rightarrow>
          if length b < 192 \<or> \<not> request_valid r payload_size then Some (-1, bytes)
          else do { b' \<leftarrow> store_all b ((0, zeros 192) # request_writes r); Some (0, Some b') }
      | _ \<Rightarrow> Some (-1, bytes))"

definition read_request :: "bytes \<Rightarrow> kb2_fs_request option" where
  "read_request b = do {
     generation \<leftarrow> load_u64 b 8;
     sequence \<leftarrow> load_u64 b 16;
     client \<leftarrow> load_u64 b 24;
     credential_generation \<leftarrow> load_u64 b 32;
     handle \<leftarrow> load_u64 b 40;
     second_handle \<leftarrow> load_u64 b 48;
     len \<leftarrow> load_u64 b 64;
     flags \<leftarrow> load_u64 b 72;
     mode \<leftarrow> load_u64 b 80;
     resolve \<leftarrow> load_u64 b 88;
     capabilities \<leftarrow> load_u64 b 176;
     path_offset \<leftarrow> load_u64 b 112;
     path_length \<leftarrow> load_u64 b 120;
     second_path_offset \<leftarrow> load_u64 b 128;
     second_path_length \<leftarrow> load_u64 b 136;
     groups_offset \<leftarrow> load_u64 b 144;
     groups_length \<leftarrow> load_u64 b 152;
     data_offset \<leftarrow> load_u64 b 160;
     data_length \<leftarrow> load_u64 b 168;
     opcode \<leftarrow> load_u32 b 4;
     mask \<leftarrow> load_u32 b 96;
     uid \<leftarrow> load_u32 b 100;
     gid \<leftarrow> load_u32 b 104;
     umask \<leftarrow> load_u32 b 108;
     offset \<leftarrow> load_u64 b 56;
     Some \<lparr>fr_opcode = opcode, fr_generation = generation, fr_sequence = sequence, fr_client = client,
       fr_credential_generation = credential_generation, fr_handle = handle, fr_second_handle = second_handle,
       fr_offset = signed64 offset, fr_length = len, fr_flags = flags, fr_mode = mode, fr_resolve = resolve,
       fr_mask = mask, fr_uid = uid, fr_gid = gid, fr_umask = umask,
       fr_path = \<lparr>sp_offset = path_offset, sp_length = path_length\<rparr>,
       fr_second_path = \<lparr>sp_offset = second_path_offset, sp_length = second_path_length\<rparr>,
       fr_groups = \<lparr>sp_offset = groups_offset, sp_length = groups_length\<rparr>,
       fr_data = \<lparr>sp_offset = data_offset, sp_length = data_length\<rparr>, fr_capabilities = capabilities\<rparr> }"

definition kb2_fs_request_decode :: "bytes option \<Rightarrow> u64 \<Rightarrow> bool \<Rightarrow> (int \<times> kb2_fs_request option) option" where
  "kb2_fs_request_decode bytes payload_size request_out =
     (case bytes of
        None \<Rightarrow> Some (-1, None)
      | Some b \<Rightarrow>
          if \<not> request_out \<or> length b < 192 then Some (-1, None)
          else do {
            identity \<leftarrow> load_bytes b 0 4;
            if identity \<noteq> fs_identity then Some (-1, None)
            else do {
              reserved \<leftarrow> load_u64 b 184;
              if reserved \<noteq> 0 then Some (-1, None)
              else do {
                value \<leftarrow> read_request b;
                Some (if \<not> request_valid value payload_size then (-1, None) else (0, Some value)) } } })"

text \<open>A path is checked at its last byte and then with \<open>memchr\<close> before it.\<close>

definition path_ok :: "bytes \<Rightarrow> kb2_fs_span \<Rightarrow> bool option" where
  "path_ok b path =
     (if sp_length path = 0 then Some True
      else do {
        last \<leftarrow> load_bytes b (unat (sp_offset path) + (unat (sp_length path) - 1)) 1;
        if last \<noteq> [0] then Some False
        else do {
          name \<leftarrow> load_bytes b (unat (sp_offset path)) (unat (sp_length path) - 1);
          Some (0 \<notin> set name) } })"

definition kb2_fs_request_validate_paths :: "bytes option \<Rightarrow> kb2_fs_request option \<Rightarrow> int option" where
  "kb2_fs_request_validate_paths bytes request =
     (case (bytes, request) of
        (Some b, Some r) \<Rightarrow>
          if \<not> request_valid r (of_nat (length b)) then Some (-1)
          else do {
            first \<leftarrow> path_ok b (fr_path r);
            if \<not> first then Some (-1)
            else do { second \<leftarrow> path_ok b (fr_second_path r); Some (if second then 0 else -1) } }
      | _ \<Rightarrow> Some (-1))"

section \<open>Responses\<close>

definition response_valid :: "kb2_fs_response \<Rightarrow> bool" where
  "response_valid response \<longleftrightarrow>
     opcode_valid (fp_opcode response) \<and> fp_generation response \<noteq> 0 \<and> fp_sequence response \<noteq> 0 \<and>
     -4095 \<le> fp_result response \<and> fp_data_length response \<le> 0xFFFFFFFFFFFFFFFF - 64 \<and>
     (0 \<le> fp_result response \<or>
      fp_handle response = 0 \<and> fp_data_length response = 0 \<and> fp_service response = 0)"

definition response_writes :: "kb2_fs_response \<Rightarrow> writes" where
  "response_writes response =
     [(0, fs_identity), (4, le32 (fp_opcode response)), (8, le64 (fp_generation response)),
      (16, le64 (fp_sequence response)), (24, le64 (word_of_int (fp_result response))),
      (32, le64 (fp_handle response)), (40, le64 (fp_data_length response)), (48, le32 (fp_service response))]"

definition kb2_fs_response_encode :: "bytes option \<Rightarrow> kb2_fs_response option \<Rightarrow> (int \<times> bytes option) option" where
  "kb2_fs_response_encode bytes response =
     (case (bytes, response) of
        (Some b, Some r) \<Rightarrow>
          if length b < 64 \<or> \<not> response_valid r then Some (-1, bytes)
          else do { b' \<leftarrow> store_all b ((0, zeros 64) # response_writes r); Some (0, Some b') }
      | _ \<Rightarrow> Some (-1, bytes))"

definition kb2_fs_response_decode :: "bytes option \<Rightarrow> bool \<Rightarrow> (int \<times> kb2_fs_response option) option" where
  "kb2_fs_response_decode bytes response_out =
     (case bytes of
        None \<Rightarrow> Some (-1, None)
      | Some b \<Rightarrow>
          if \<not> response_out \<or> length b < 64 then Some (-1, None)
          else do {
            identity \<leftarrow> load_bytes b 0 4;
            if identity \<noteq> fs_identity then Some (-1, None)
            else do {
            reserved \<leftarrow> load_bytes b 52 12;
            if \<not> bytes_are_zero reserved then Some (-1, None)
            else do {
              opcode \<leftarrow> load_u32 b 4;
              generation \<leftarrow> load_u64 b 8;
              sequence \<leftarrow> load_u64 b 16;
              result \<leftarrow> load_u64 b 24;
              handle \<leftarrow> load_u64 b 32;
              data_length \<leftarrow> load_u64 b 40;
              service \<leftarrow> load_u32 b 48;
              let value = \<lparr>fp_opcode = opcode, fp_generation = generation, fp_sequence = sequence,
                fp_result = signed64 result, fp_handle = handle, fp_data_length = data_length, fp_service = service\<rparr> in
              Some (if \<not> response_valid value \<or> data_length \<noteq> of_nat (length b - 64) then (-1, None)
                else (0, Some value)) } } })"

definition kb2_fs_response_matches :: "kb2_fs_response option \<Rightarrow> kb2_fs_request option \<Rightarrow> bool" where
  "kb2_fs_response_matches response request =
     (case (response, request) of
        (Some p, Some r) \<Rightarrow> fp_opcode p = fr_opcode r \<and> fp_generation p = fr_generation r \<and> fp_sequence p = fr_sequence r
      | _ \<Rightarrow> False)"

section \<open>Credentials\<close>

definition credentials_writes :: "kb2_fs_credentials \<Rightarrow> writes" where
  "credentials_writes c =
     [(0, le32 (fc_uid c)), (4, le32 (fc_gid c)), (8, le32 (fc_euid c)), (12, le32 (fc_egid c)), (16, le32 (fc_suid c)),
      (20, le32 (fc_sgid c)), (24, le32 (fc_fsuid c)), (28, le32 (fc_fsgid c)), (64, le32 (fc_securebits c)),
      (68, le32 (fc_umask c)), (32, le64 (fc_cap_permitted c)), (40, le64 (fc_cap_effective c)),
      (48, le64 (fc_cap_inheritable c)), (56, le64 (fc_cap_ambient c))]"

definition kb2_fs_credentials_encode :: "bytes option \<Rightarrow> kb2_fs_credentials option \<Rightarrow> (int \<times> bytes option) option" where
  "kb2_fs_credentials_encode bytes credentials =
     (case (bytes, credentials) of
        (Some b, Some c) \<Rightarrow>
          if length b < 80 \<or> fc_umask c AND NOT 0x1FF \<noteq> 0 then Some (-1, bytes)
          else do { b' \<leftarrow> store_all b ((0, zeros 80) # credentials_writes c); Some (0, Some b') }
      | _ \<Rightarrow> Some (-1, bytes))"

definition kb2_fs_credentials_decode :: "bytes option \<Rightarrow> bool \<Rightarrow> (int \<times> kb2_fs_credentials option) option" where
  "kb2_fs_credentials_decode bytes credentials_out =
     (case bytes of
        None \<Rightarrow> Some (-1, None)
      | Some b \<Rightarrow>
          if \<not> credentials_out \<or> length b \<noteq> 80 then Some (-1, None)
          else do {
            reserved \<leftarrow> load_u64 b 72;
            if reserved \<noteq> 0 then Some (-1, None)
            else do {
              uid \<leftarrow> load_u32 b 0; gid \<leftarrow> load_u32 b 4; euid \<leftarrow> load_u32 b 8; egid \<leftarrow> load_u32 b 12;
              suid \<leftarrow> load_u32 b 16; sgid \<leftarrow> load_u32 b 20; fsuid \<leftarrow> load_u32 b 24; fsgid \<leftarrow> load_u32 b 28;
              securebits \<leftarrow> load_u32 b 64; umask \<leftarrow> load_u32 b 68;
              cap_permitted \<leftarrow> load_u64 b 32; cap_effective \<leftarrow> load_u64 b 40;
              cap_inheritable \<leftarrow> load_u64 b 48; cap_ambient \<leftarrow> load_u64 b 56;
              Some (if umask AND NOT 0x1FF \<noteq> 0 then (-1, None)
                else (0, Some \<lparr>fc_uid = uid, fc_gid = gid, fc_euid = euid, fc_egid = egid, fc_suid = suid, fc_sgid = sgid,
                  fc_fsuid = fsuid, fc_fsgid = fsgid, fc_cap_permitted = cap_permitted, fc_cap_effective = cap_effective,
                  fc_cap_inheritable = cap_inheritable, fc_cap_ambient = cap_ambient, fc_securebits = securebits,
                  fc_umask = umask\<rparr>)) } })"

section \<open>Policy facts\<close>














definition sample_request :: kb2_fs_request where
  "sample_request = \<lparr>fr_opcode = OP_OPENAT2, fr_generation = 1, fr_sequence = 2, fr_client = 3, fr_credential_generation = 1,
     fr_handle = 4, fr_second_handle = 0, fr_offset = -5, fr_length = 0, fr_flags = 0x241, fr_mode = 0, fr_resolve = 0,
     fr_mask = 0, fr_uid = 1000, fr_gid = 1000, fr_umask = 0x12, fr_path = \<lparr>sp_offset = 192, sp_length = 3\<rparr>,
     fr_second_path = \<lparr>sp_offset = 0, sp_length = 0\<rparr>, fr_groups = \<lparr>sp_offset = 196, sp_length = 4\<rparr>,
     fr_data = \<lparr>sp_offset = 0, sp_length = 0\<rparr>, fr_capabilities = 0\<rparr>"


section \<open>Spans and paths\<close>

text \<open>What the spans of a valid request are, over the natural numbers.\<close>

definition span_bytes :: "kb2_fs_span \<Rightarrow> nat set" where
  "span_bytes s = addresses (sp_offset s) (sp_length s)"

definition span_spec :: "nat \<Rightarrow> kb2_fs_span \<Rightarrow> bool" where
  "span_spec n s \<longleftrightarrow> span_bytes s \<subseteq> {192..<n} \<and> (sp_length s = 0 \<longrightarrow> sp_offset s = 0)"

definition request_spec :: "kb2_fs_request \<Rightarrow> nat \<Rightarrow> bool" where
  "request_spec r n \<longleftrightarrow> opcode_valid (fr_opcode r) \<and> fr_generation r \<noteq> 0 \<and> fr_sequence r \<noteq> 0 \<and>
     unat (fr_umask r) < 512 \<and> 192 \<le> n \<and> list_all (span_spec n) (request_spans r) \<and>
     sorted_wrt (\<lambda>s t. span_bytes s \<inter> span_bytes t = {}) (request_spans r) \<and>
     4 dvd unat (sp_offset (fr_groups r)) \<and> 4 dvd unat (sp_length (fr_groups r))"

lemma unat_of_nat_u64: "n < 2 ^ 64 \<Longrightarrow> unat (of_nat n :: u64) = n"
  by (simp add: unsigned_of_nat take_bit_nat_eq_self)

lemma span_valid_iff: "span_valid s sz \<longleftrightarrow> span_spec (unat sz) s"
proof (cases "sp_length s = 0")
  case False
  then have pos: "0 < unat (sp_length s)" by (simp add: unat_gt_0)
  have sub: "unat (sz - sp_offset s) = unat sz - unat (sp_offset s)" if "sp_offset s \<le> sz" using that by (rule unat_sub)
  show ?thesis using False pos sub
    by (auto simp: span_valid_def span_spec_def span_bytes_def addresses_def word_le_nat_alt)
qed (auto simp: span_valid_def span_spec_def span_bytes_def addresses_def)

lemma span_spec_end: "span_spec n s \<Longrightarrow> unat (sp_offset s) + unat (sp_length s) \<le> n"
  by (cases "sp_length s = 0") (auto simp: span_spec_def span_bytes_def addresses_def unat_eq_0)

lemma span_no_wrap: "span_spec (unat (sz :: u64)) s \<Longrightarrow> no_wrap (sp_offset s) (sp_length s)"
  using unat_u64_lt [of sz] span_spec_end [of "unat sz" s] by (simp add: no_wrap_def)

lemma spans_overlap_iff:
  assumes "span_spec (unat (sz :: u64)) s" "span_spec (unat sz) t"
  shows "spans_overlap s t \<longleftrightarrow> span_bytes s \<inter> span_bytes t \<noteq> {}"
  using overlap_iff [OF assms [THEN span_no_wrap]]
  by (cases "sp_length s = 0 \<or> sp_length t = 0") (auto simp: spans_overlap_def span_bytes_def addresses_def)

lemma and_3_iff: "(x :: u64) AND 3 = 0 \<longleftrightarrow> 4 dvd unat x"
proof -
  have "x AND 3 = 0 \<longleftrightarrow> take_bit 2 x = 0" by (simp add: take_bit_eq_mask mask_eq_exp_minus_1)
  also have "\<dots> \<longleftrightarrow> take_bit 2 (unat x) = 0" by (metis unat_eq_0 unsigned_take_bit_eq)
  finally show ?thesis by (simp add: take_bit_eq_0_iff)
qed

lemma umask_iff: "(x :: u32) AND NOT 0x1FF = 0 \<longleftrightarrow> unat x < 512"
proof -
  have "x AND NOT 0x1FF = 0 \<longleftrightarrow> take_bit 9 x = x"
    by (auto simp: bit_eq_iff bit_simps take_bit_eq_mask mask_eq_exp_minus_1)
  also have "\<dots> \<longleftrightarrow> take_bit 9 (unat x) = unat x" by (metis unsigned_take_bit_eq word_unat_eq_iff)
  finally show ?thesis by (simp add: take_bit_nat_eq_self_iff)
qed

lemma request_valid_iff: "request_valid r sz \<longleftrightarrow> request_spec r (unat sz)"
proof -
  have all4: "list_all P [0..<4] \<longleftrightarrow> P 0 \<and> P 1 \<and> P 2 \<and> P 3" "list_all Q [0..<3] \<longleftrightarrow> Q 0 \<and> Q 1 \<and> Q 2"
    "list_all Q [0..<2] \<longleftrightarrow> Q 0 \<and> Q 1" for P Q :: "nat \<Rightarrow> bool"
    by (simp_all add: numeral_eq_Suc)
  have spans: "list_all (\<lambda>i. span_valid (request_spans r ! i) sz \<and>
       list_all (\<lambda>j. \<not> spans_overlap (request_spans r ! i) (request_spans r ! j)) [0..<i]) [0..<4] \<longleftrightarrow>
     list_all (span_spec (unat sz)) (request_spans r) \<and> sorted_wrt (\<lambda>s t. span_bytes s \<inter> span_bytes t = {}) (request_spans r)"
    unfolding all4 by (auto simp: request_spans_def span_valid_iff spans_overlap_iff all4 simp del: list_all_upt)
  show ?thesis unfolding request_valid_def request_spec_def spans and_3_iff umask_iff
    by (auto simp: word_less_nat_alt)
qed

definition path_spec :: "bytes \<Rightarrow> kb2_fs_span \<Rightarrow> bool" where
  "path_spec b path \<longleftrightarrow> sp_length path = 0 \<or>
     (\<exists>name. 0 \<notin> set name \<and> slice b (unat (sp_offset path)) (unat (sp_length path)) = name @ [0])"

lemma path_ok_iff:
  assumes "unat (sp_offset p) + unat (sp_length p) \<le> length b"
  shows "path_ok b p = Some (path_spec b p)"
proof (cases "sp_length p = 0")
  case False
  then obtain m where m: "unat (sp_length p) = Suc m" using unat_eq_0 not0_implies_Suc by blast
  let ?o = "unat (sp_offset p)"
  have "length (slice b (?o + m) 1) = 1" using assms m by simp
  then obtain c where c: "slice b (?o + m) 1 = [c]" by (cases "slice b (?o + m) 1") auto
  have "slice b ?o (Suc m) = slice b ?o m @ [c]" using slice_append [of b ?o m 1] c by simp
  then show ?thesis using assms m False c by (auto simp: path_ok_def path_spec_def load_bytes_def)
qed (simp add: path_ok_def path_spec_def)

text \<open>C35. Path validation never leaves the buffer and accepts exactly the right requests: the opcode is
  known, generation and sequence are set, the umask holds permission bits, every span is empty at
  offset zero or lies behind the header and inside the buffer, no two spans share a byte, the groups
  are aligned words, and each of the two paths, where present, is one string that ends with its only
  zero byte.\<close>

theorem kb2_fs_request_validate_paths_correct:
  assumes "length b < 2 ^ 64"
  shows "kb2_fs_request_validate_paths (Some b) (Some r) =
    Some (if request_spec r (length b) \<and> path_spec b (fr_path r) \<and> path_spec b (fr_second_path r) then 0 else -1)"
proof (cases "request_spec r (length b)")
  case True
  then have "span_spec (length b) (fr_path r)" "span_spec (length b) (fr_second_path r)"
    by (simp_all add: request_spec_def request_spans_def)
  then show ?thesis using True unat_of_nat_u64 [OF assms]
    by (simp add: kb2_fs_request_validate_paths_def request_valid_iff path_ok_iff span_spec_end)
qed (use unat_of_nat_u64 [OF assms] in \<open>simp add: kb2_fs_request_validate_paths_def request_valid_iff\<close>)

definition sample_request_bytes :: bytes where
  "sample_request_bytes = replicate 192 0 @ [0x2F, 0x61, 0, 0, 1, 0, 0, 0]"

theorem kb2_fs_request_validate_paths_correct_witness:
  "length sample_request_bytes < 2 ^ 64 \<and> kb2_fs_request_validate_paths (Some sample_request_bytes) (Some sample_request) = Some 0 \<and>
   path_spec sample_request_bytes (fr_path sample_request)"
proof -
  have len: "length sample_request_bytes = 200" by (simp add: sample_request_bytes_def)
  have "request_spec sample_request 200"
    by (auto simp: request_spec_def request_spans_def span_spec_def span_bytes_def addresses_def sample_request_def opcode_valid_def)
  moreover have "path_spec sample_request_bytes (fr_path sample_request)" "path_spec sample_request_bytes (fr_second_path sample_request)"
    by (auto simp: path_spec_def sample_request_def sample_request_bytes_def slice_def intro: exI [where x = "[0x2F, 0x61]"])
  ultimately show ?thesis using kb2_fs_request_validate_paths_correct [of sample_request_bytes sample_request] len by simp
qed

section \<open>Images\<close>

definition request_fields :: "kb2_fs_request \<Rightarrow> bytes list" where
  "request_fields r =
     [fs_identity, le32 (fr_opcode r), le64 (fr_generation r), le64 (fr_sequence r), le64 (fr_client r),
      le64 (fr_credential_generation r), le64 (fr_handle r), le64 (fr_second_handle r), le64 (word_of_int (fr_offset r)),
      le64 (fr_length r), le64 (fr_flags r), le64 (fr_mode r), le64 (fr_resolve r), le32 (fr_mask r), le32 (fr_uid r),
      le32 (fr_gid r), le32 (fr_umask r), le64 (sp_offset (fr_path r)), le64 (sp_length (fr_path r)),
      le64 (sp_offset (fr_second_path r)), le64 (sp_length (fr_second_path r)), le64 (sp_offset (fr_groups r)),
      le64 (sp_length (fr_groups r)), le64 (sp_offset (fr_data r)), le64 (sp_length (fr_data r)),
      le64 (fr_capabilities r), le64 0]"

definition response_fields :: "kb2_fs_response \<Rightarrow> bytes list" where
  "response_fields p =
     [fs_identity, le32 (fp_opcode p), le64 (fp_generation p), le64 (fp_sequence p), le64 (word_of_int (fp_result p)),
      le64 (fp_handle p), le64 (fp_data_length p), le32 (fp_service p), zeros 12]"

definition credentials_fields :: "kb2_fs_credentials \<Rightarrow> bytes list" where
  "credentials_fields c =
     [le32 (fc_uid c), le32 (fc_gid c), le32 (fc_euid c), le32 (fc_egid c), le32 (fc_suid c), le32 (fc_sgid c),
      le32 (fc_fsuid c), le32 (fc_fsgid c), le64 (fc_cap_permitted c), le64 (fc_cap_effective c),
      le64 (fc_cap_inheritable c), le64 (fc_cap_ambient c), le32 (fc_securebits c), le32 (fc_umask c), le64 0]"

lemma length_fs_identity [simp]: "length fs_identity = 4" "fs_identity \<noteq> []"
  by (simp_all add: fs_identity_def)

lemma length_fs_fields:
  "length (concat (request_fields r)) = 192" "length (concat (response_fields p)) = 64"
  "length (concat (credentials_fields c)) = 80"
  by (simp_all add: request_fields_def response_fields_def credentials_fields_def)

lemma request_image:
  assumes "192 \<le> length b"
  shows "store_all b ((0, zeros 192) # request_writes r) = Some (concat (request_fields r) @ drop 192 b)"
proof (rule message_image)
  show "message_stores 192 (request_writes r)" by (simp add: message_stores_def request_writes_def)
  show "covers 0 (request_writes r) (request_fields r)"
    by (simp add: request_writes_def request_fields_def le64_0)
qed (use assms length_fs_fields in simp_all)

lemma response_image:
  assumes "64 \<le> length b"
  shows "store_all b ((0, zeros 64) # response_writes p) = Some (concat (response_fields p) @ drop 64 b)"
proof (rule message_image)
  show "message_stores 64 (response_writes p)" by (simp add: message_stores_def response_writes_def)
  show "covers 0 (response_writes p) (response_fields p)"
    by (simp add: response_writes_def response_fields_def)
qed (use assms length_fs_fields in simp_all)

lemma credentials_image:
  assumes "80 \<le> length b"
  shows "store_all b ((0, zeros 80) # credentials_writes c) = Some (concat (credentials_fields c) @ drop 80 b)"
proof (rule message_image)
  show "message_stores 80 (credentials_writes c)" by (simp add: message_stores_def credentials_writes_def)
  show "covers 0 (credentials_writes c) (credentials_fields c)"
    by (simp add: credentials_writes_def credentials_fields_def le64_0)
qed (use assms length_fs_fields in simp_all)

text \<open>The conversions between \<open>uint64_t\<close> and \<open>int64_t\<close> are inverse to each other.\<close>

definition int64 :: "int \<Rightarrow> bool" where
  "int64 i \<longleftrightarrow> - (2 ^ 63) \<le> i \<and> i < 2 ^ 63"

lemma int64_iff: "int64 i \<longleftrightarrow> - 9223372036854775808 \<le> i \<and> i \<le> 9223372036854775807"
  by (auto simp: int64_def)

lemma word_of_signed64: "word_of_int (signed64 v) = v"
proof -
  have "(0xFFFFFFFFFFFFFFFF :: u64) = -1" by simp
  then show ?thesis by (simp add: signed64_def)
qed

lemma int64_signed64: "int64 (signed64 v)"
proof (cases "v \<le> 0x7FFFFFFFFFFFFFFF")
  case True
  then have "uint v \<le> 0x7FFFFFFFFFFFFFFF" by (simp add: word_le_def)
  moreover have "0 \<le> uint v" by simp
  ultimately have "int64 (uint v)" unfolding int64_iff by linarith
  then show ?thesis using True by (simp add: signed64_def)
next
  case False
  let ?w = "0xFFFFFFFFFFFFFFFF - v"
  have "unat (0xFFFFFFFFFFFFFFFF :: u64) = 18446744073709551615" by simp
  moreover have "unat ?w = unat (0xFFFFFFFFFFFFFFFF :: u64) - unat v"
    using unat_u64_lt [of v] by (intro unat_sub) (simp add: word_le_nat_alt)
  moreover have "0x7FFFFFFFFFFFFFFF < unat v" using False by (simp add: word_le_nat_alt)
  moreover have "uint ?w = int (unat ?w)" by (rule uint_nat)
  ultimately have "uint ?w < 9223372036854775808" by linarith
  moreover have "0 \<le> uint ?w" by (rule uint_ge_0)
  ultimately have "int64 (-1 - uint ?w)" unfolding int64_iff by linarith
  then show ?thesis using False by (simp only: signed64_def if_False)
qed

lemma int64_inj: "int64 i \<Longrightarrow> int64 j \<Longrightarrow> (word_of_int i :: u64) = word_of_int j \<Longrightarrow> i = j"
proof -
  assume ij: "int64 i" "int64 j" "(word_of_int i :: u64) = word_of_int j"
  then have "i mod 2 ^ 64 = j mod 2 ^ 64" by (simp add: word_of_int_eq_iff take_bit_eq_mod)
  then have "2 ^ 64 dvd i - j" by (simp only: mod_eq_dvd_iff)
  moreover have "\<bar>i - j\<bar> < 2 ^ 64" using ij by (auto simp: int64_def)
  ultimately show ?thesis using zdvd_not_zless [of "\<bar>i - j\<bar>" "2 ^ 64"] by (cases "i = j") auto
qed

lemma signed64_iff: "signed64 v = i \<longleftrightarrow> v = word_of_int i \<and> int64 i"
  using word_of_signed64 [of v] int64_signed64 [of v] int64_inj [of "signed64 v" i] by auto

lemma request_fields_iff:
  assumes "192 \<le> length b"
  shows "take 192 b = concat (request_fields r) \<and> int64 (fr_offset r) \<longleftrightarrow>
    slice b 0 4 = fs_identity \<and> un64 (slice b 184 8) = 0 \<and> read_request b = Some r"
proof -
  have "read_request b = Some r \<longleftrightarrow> un32 (slice b 4 4) = fr_opcode r \<and> un64 (slice b 8 8) = fr_generation r \<and>
      un64 (slice b 16 8) = fr_sequence r \<and> un64 (slice b 24 8) = fr_client r \<and> un64 (slice b 32 8) = fr_credential_generation r \<and>
      un64 (slice b 40 8) = fr_handle r \<and> un64 (slice b 48 8) = fr_second_handle r \<and> signed64 (un64 (slice b 56 8)) = fr_offset r \<and>
      un64 (slice b 64 8) = fr_length r \<and> un64 (slice b 72 8) = fr_flags r \<and> un64 (slice b 80 8) = fr_mode r \<and>
      un64 (slice b 88 8) = fr_resolve r \<and> un32 (slice b 96 4) = fr_mask r \<and> un32 (slice b 100 4) = fr_uid r \<and>
      un32 (slice b 104 4) = fr_gid r \<and> un32 (slice b 108 4) = fr_umask r \<and>
      un64 (slice b 112 8) = sp_offset (fr_path r) \<and> un64 (slice b 120 8) = sp_length (fr_path r) \<and>
      un64 (slice b 128 8) = sp_offset (fr_second_path r) \<and> un64 (slice b 136 8) = sp_length (fr_second_path r) \<and>
      un64 (slice b 144 8) = sp_offset (fr_groups r) \<and> un64 (slice b 152 8) = sp_length (fr_groups r) \<and>
      un64 (slice b 160 8) = sp_offset (fr_data r) \<and> un64 (slice b 168 8) = sp_length (fr_data r) \<and>
      un64 (slice b 176 8) = fr_capabilities r"
    using assms by (cases r, cases "fr_path r", cases "fr_second_path r", cases "fr_groups r", cases "fr_data r")
      (simp add: read_request_def wire)
  then show ?thesis
    unfolding take_fields [OF length_fs_fields(1) assms] signed64_iff
    using assms by (simp add: request_fields_def un32_iff un64_iff) blast
qed

lemma response_decode_iff:
  "kb2_fs_response_decode (Some b) True = Some (0, Some p) \<longleftrightarrow>
     response_valid p \<and> int64 (fp_result p) \<and> 64 \<le> length b \<and> take 64 b = concat (response_fields p) \<and>
     fp_data_length p = of_nat (length b - 64)"
proof (cases "64 \<le> length b")
  case True
  have zero: "bytes_are_zero (slice b 52 12) \<longleftrightarrow> slice b 52 12 = zeros 12"
    using True by (simp add: bytes_are_zero_def zeros_def list_eq_iff_nth_eq list_all_length)
  define v where "v = \<lparr>fp_opcode = un32 (slice b 4 4), fp_generation = un64 (slice b 8 8), fp_sequence = un64 (slice b 16 8),
    fp_result = signed64 (un64 (slice b 24 8)), fp_handle = un64 (slice b 32 8), fp_data_length = un64 (slice b 40 8),
    fp_service = un32 (slice b 48 4)\<rparr>"
  have "take 64 b = concat (response_fields p) \<and> int64 (fp_result p) \<longleftrightarrow>
      slice b 0 4 = fs_identity \<and> slice b 52 12 = zeros 12 \<and> v = p"
    unfolding take_fields [OF length_fs_fields(2) True] v_def
    using True by (cases p) (simp add: response_fields_def signed64_iff un32_iff un64_iff, blast)
  moreover have "kb2_fs_response_decode (Some b) True = Some (if slice b 0 4 = fs_identity \<and> slice b 52 12 = zeros 12 \<and>
      response_valid v \<and> fp_data_length v = of_nat (length b - 64) then (0, Some v) else (-1, None))"
    using True unfolding v_def by (simp add: kb2_fs_response_decode_def wire zero Let_def) metis
  ultimately show ?thesis using True by (simp split: if_split) blast
qed (simp add: kb2_fs_response_decode_def)

lemma credentials_decode_iff:
  "kb2_fs_credentials_decode (Some b) True = Some (0, Some c) \<longleftrightarrow>
     fc_umask c AND NOT 0x1FF = 0 \<and> b = concat (credentials_fields c)"
proof (cases "length b = 80")
  case True
  then have len: "80 \<le> length b" by simp
  define v where "v = \<lparr>fc_uid = un32 (slice b 0 4), fc_gid = un32 (slice b 4 4), fc_euid = un32 (slice b 8 4), fc_egid = un32 (slice b 12 4),
    fc_suid = un32 (slice b 16 4), fc_sgid = un32 (slice b 20 4), fc_fsuid = un32 (slice b 24 4), fc_fsgid = un32 (slice b 28 4),
    fc_cap_permitted = un64 (slice b 32 8), fc_cap_effective = un64 (slice b 40 8), fc_cap_inheritable = un64 (slice b 48 8),
    fc_cap_ambient = un64 (slice b 56 8), fc_securebits = un32 (slice b 64 4), fc_umask = un32 (slice b 68 4)\<rparr>"
  have "b = concat (credentials_fields c) \<longleftrightarrow> un64 (slice b 72 8) = 0 \<and> v = c"
    unfolding v_def using len take_fields [OF length_fs_fields(3) len, of c] True
    by (cases c) (simp add: credentials_fields_def un32_iff un64_iff, blast)
  moreover have "kb2_fs_credentials_decode (Some b) True = Some (if un64 (slice b 72 8) = 0 \<and> fc_umask v AND NOT 0x1FF = 0
      then (0, Some v) else (-1, None))"
    using True unfolding v_def by (simp add: kb2_fs_credentials_decode_def wire)
  ultimately show ?thesis by (simp split: if_split) blast
qed (use length_fs_fields(3) [of c] in \<open>auto simp: kb2_fs_credentials_decode_def\<close>)

lemma read_request_total: "192 \<le> length b \<Longrightarrow> read_request b \<noteq> None"
  by (simp add: read_request_def wire)

lemma request_decode_iff:
  "kb2_fs_request_decode (Some b) n True = Some (0, Some r) \<longleftrightarrow>
     request_valid r n \<and> int64 (fr_offset r) \<and> 192 \<le> length b \<and> take 192 b = concat (request_fields r)"
proof (cases "192 \<le> length b")
  case True
  then obtain v where v: "read_request b = Some v" using read_request_total by blast
  have "kb2_fs_request_decode (Some b) n True = Some (if slice b 0 4 = fs_identity \<and> un64 (slice b 184 8) = 0 \<and>
      request_valid v n then (0, Some v) else (-1, None))"
    using True v by (simp add: kb2_fs_request_decode_def wire)
  then show ?thesis using True v request_fields_iff [OF True, of r] by (simp split: if_split) blast
qed (simp add: kb2_fs_request_decode_def)

lemma request_encode_iff:
  "kb2_fs_request_encode (Some b) n (Some r) = Some (0, Some b') \<longleftrightarrow>
     192 \<le> length b \<and> request_valid r n \<and> b' = concat (request_fields r) @ drop 192 b"
  by (auto simp: kb2_fs_request_encode_def request_image simp del: store_all.simps)

lemma response_encode_iff:
  "kb2_fs_response_encode (Some b) (Some p) = Some (0, Some b') \<longleftrightarrow>
     64 \<le> length b \<and> response_valid p \<and> b' = concat (response_fields p) @ drop 64 b"
  by (auto simp: kb2_fs_response_encode_def response_image simp del: store_all.simps)

lemma credentials_encode_iff:
  "kb2_fs_credentials_encode (Some b) (Some c) = Some (0, Some b') \<longleftrightarrow>
     80 \<le> length b \<and> fc_umask c AND NOT 0x1FF = 0 \<and> b' = concat (credentials_fields c) @ drop 80 b"
  by (auto simp: kb2_fs_credentials_encode_def credentials_image simp del: store_all.simps)

text \<open>C36. The messages of the file system protocol are canonical. Every request, response and set of
  credentials an encoder accepts is decoded to itself, its 64-bit signed fields included, with nothing
  changed behind it; and whatever a decoder accepts is exactly what the encoder writes for it. A
  response is accepted only with as much data behind it as it announces, credentials only alone.\<close>

theorem kb2_fs_messages_canonical:
  "(kb2_fs_request_encode (Some b) n (Some r) = Some (0, Some b') \<and> int64 (fr_offset r) \<longrightarrow>
      kb2_fs_request_decode (Some b') n True = Some (0, Some r) \<and> drop 192 b' = drop 192 b) \<and>
   (kb2_fs_request_decode (Some b) n True = Some (0, Some r) \<longrightarrow>
      kb2_fs_request_encode (Some b) n (Some r) = Some (0, Some b) \<and> int64 (fr_offset r)) \<and>
   (kb2_fs_response_encode (Some b) (Some p) = Some (0, Some b') \<and> int64 (fp_result p) \<longrightarrow>
      (kb2_fs_response_decode (Some b') True = Some (0, Some p) \<longleftrightarrow> fp_data_length p = of_nat (length b - 64)) \<and>
      drop 64 b' = drop 64 b) \<and>
   (kb2_fs_response_decode (Some b) True = Some (0, Some p) \<longrightarrow>
      kb2_fs_response_encode (Some b) (Some p) = Some (0, Some b) \<and> int64 (fp_result p)) \<and>
   (kb2_fs_credentials_encode (Some b) (Some c) = Some (0, Some b') \<longrightarrow>
      kb2_fs_credentials_decode (Some (take 80 b')) True = Some (0, Some c) \<and> drop 80 b' = drop 80 b) \<and>
   (kb2_fs_credentials_decode (Some b) True = Some (0, Some c) \<longrightarrow>
      kb2_fs_credentials_encode (Some b) (Some c) = Some (0, Some b))"
  unfolding request_encode_iff request_decode_iff response_encode_iff response_decode_iff credentials_encode_iff credentials_decode_iff
  using length_fs_fields(1) [of r] length_fs_fields(2) [of p] length_fs_fields(3) [of c] append_take_drop_id [of 192 b] append_take_drop_id [of 64 b]
  by (intro conjI impI) auto

definition sample_response :: kb2_fs_response where
  "sample_response = \<lparr>fp_opcode = OP_OPENAT2, fp_generation = 1, fp_sequence = 2, fp_result = -2, fp_handle = 0,
     fp_data_length = 0, fp_service = 0\<rparr>"

definition sample_credentials :: kb2_fs_credentials where
  "sample_credentials = \<lparr>fc_uid = 1, fc_gid = 2, fc_euid = 3, fc_egid = 4, fc_suid = 5, fc_sgid = 6, fc_fsuid = 7, fc_fsgid = 8,
     fc_cap_permitted = 9, fc_cap_effective = 10, fc_cap_inheritable = 11, fc_cap_ambient = 12, fc_securebits = 13, fc_umask = 18\<rparr>"

theorem kb2_fs_messages_canonical_witness:
  "\<exists>q p c. kb2_fs_request_encode (Some (zeros 200)) 200 (Some sample_request) = Some (0, Some q) \<and>
     kb2_fs_request_decode (Some q) 200 True = Some (0, Some sample_request) \<and>
     kb2_fs_request_encode (Some q) 200 (Some sample_request) = Some (0, Some q) \<and>
     kb2_fs_response_encode (Some (zeros 64)) (Some sample_response) = Some (0, Some p) \<and>
     kb2_fs_response_decode (Some p) True = Some (0, Some sample_response) \<and>
     kb2_fs_response_encode (Some p) (Some sample_response) = Some (0, Some p) \<and>
     kb2_fs_credentials_encode (Some (zeros 90)) (Some sample_credentials) = Some (0, Some c) \<and>
     kb2_fs_credentials_decode (Some (take 80 c)) True = Some (0, Some sample_credentials) \<and>
     kb2_fs_credentials_encode (Some (take 80 c)) (Some sample_credentials) = Some (0, Some (take 80 c))"
proof -
  have "request_valid sample_request 200" unfolding request_valid_iff
    by (auto simp: request_spec_def request_spans_def span_spec_def span_bytes_def addresses_def sample_request_def opcode_valid_def)
  then obtain q where q: "kb2_fs_request_encode (Some (zeros 200)) 200 (Some sample_request) = Some (0, Some q)"
    unfolding request_encode_iff by simp
  have int: "int64 (fr_offset sample_request)" "int64 (fp_result sample_response)"
    "fp_data_length sample_response = of_nat (length (zeros 64) - 64)"
    by (simp_all add: int64_def sample_request_def sample_response_def)
  have "response_valid sample_response" by (simp add: response_valid_def sample_response_def opcode_valid_def)
  then obtain p where p: "kb2_fs_response_encode (Some (zeros 64)) (Some sample_response) = Some (0, Some p)"
    unfolding response_encode_iff by simp
  obtain c where c: "kb2_fs_credentials_encode (Some (zeros 90)) (Some sample_credentials) = Some (0, Some c)"
    unfolding credentials_encode_iff by (simp add: sample_credentials_def)
  have "kb2_fs_request_decode (Some q) 200 True = Some (0, Some sample_request)"
    using kb2_fs_messages_canonical [where b = "zeros 200" and n = 200 and r = sample_request and b' = q] q int by blast
  moreover from this have "kb2_fs_request_encode (Some q) 200 (Some sample_request) = Some (0, Some q)"
    using kb2_fs_messages_canonical [where b = q and n = 200 and r = sample_request] by blast
  moreover have "kb2_fs_response_decode (Some p) True = Some (0, Some sample_response)"
    using kb2_fs_messages_canonical [where b = "zeros 64" and p = sample_response and b' = p] p int by blast
  moreover from this have "kb2_fs_response_encode (Some p) (Some sample_response) = Some (0, Some p)"
    using kb2_fs_messages_canonical [where b = p and p = sample_response] by blast
  moreover have "kb2_fs_credentials_decode (Some (take 80 c)) True = Some (0, Some sample_credentials)"
    using kb2_fs_messages_canonical [where b = "zeros 90" and c = sample_credentials and b' = c] c by blast
  moreover from this have "kb2_fs_credentials_encode (Some (take 80 c)) (Some sample_credentials) = Some (0, Some (take 80 c))"
    using kb2_fs_messages_canonical [where b = "take 80 c" and c = sample_credentials] by blast
  ultimately show ?thesis using q p c by blast
qed

text \<open>C37. The codecs of the file system protocol stay inside their buffers, whatever the arguments and
  the contents of the buffers are; an encoder that refuses leaves the buffer as it was, and a decoder
  that refuses delivers nothing.\<close>

theorem kb2_fs_codecs_safe:
  "(\<exists>v. kb2_fs_request_encode bytes n request = Some (-1, bytes) \<or>
        kb2_fs_request_encode bytes n request = Some (0, Some v)) \<and>
   (\<exists>v. kb2_fs_response_encode bytes response = Some (-1, bytes) \<or> kb2_fs_response_encode bytes response = Some (0, Some v)) \<and>
   (\<exists>v. kb2_fs_credentials_encode bytes credentials = Some (-1, bytes) \<or>
        kb2_fs_credentials_encode bytes credentials = Some (0, Some v)) \<and>
   kb2_fs_request_decode bytes n out \<in> {Some (-1, None)} \<union> range (\<lambda>v. Some (0, Some v)) \<and>
   kb2_fs_response_decode bytes out \<in> {Some (-1, None)} \<union> range (\<lambda>v. Some (0, Some v)) \<and>
   kb2_fs_credentials_decode bytes out \<in> {Some (-1, None)} \<union> range (\<lambda>v. Some (0, Some v))"
proof (intro conjI)
  show "\<exists>v. kb2_fs_request_encode bytes n request = Some (-1, bytes) \<or> kb2_fs_request_encode bytes n request = Some (0, Some v)"
    by (auto simp: kb2_fs_request_encode_def request_image simp del: store_all.simps split: option.split)
  show "\<exists>v. kb2_fs_response_encode bytes response = Some (-1, bytes) \<or> kb2_fs_response_encode bytes response = Some (0, Some v)"
    by (auto simp: kb2_fs_response_encode_def response_image simp del: store_all.simps split: option.split)
  show "\<exists>v. kb2_fs_credentials_encode bytes credentials = Some (-1, bytes) \<or>
      kb2_fs_credentials_encode bytes credentials = Some (0, Some v)"
    by (auto simp: kb2_fs_credentials_encode_def credentials_image simp del: store_all.simps split: option.split)
  show "kb2_fs_request_decode bytes n out \<in> {Some (-1, None)} \<union> range (\<lambda>v. Some (0, Some v))"
  proof (cases bytes)
    case (Some b)
    then show ?thesis using read_request_total [of b]
      by (cases "192 \<le> length b") (auto simp: kb2_fs_request_decode_def wire)
  qed (simp add: kb2_fs_request_decode_def)
  show "kb2_fs_response_decode bytes out \<in> {Some (-1, None)} \<union> range (\<lambda>v. Some (0, Some v))"
    by (cases bytes) (simp_all add: kb2_fs_response_decode_def wire Let_def)
  show "kb2_fs_credentials_decode bytes out \<in> {Some (-1, None)} \<union> range (\<lambda>v. Some (0, Some v))"
    by (cases bytes) (simp_all add: kb2_fs_credentials_decode_def wire)
qed

end
