(* ===== verification/Spec2Isabelle.thy ===== *)
theory Spec2Isabelle
  imports Virtqueue_Isolation Controller Grant_Policy Block_Device Gpu_Session Filesystem
begin

text \<open>
  \<^bold>\<open>A verification of the kobox2 core\<close>

  kobox2 runs Linux kernel modules in isolated user-space closures. Its core is a set of small C
  libraries without I/O of their own. A client describes the modules of a closure with the closure
  builder and seals it; the controller drives the life cycle of the closure through actions that the
  host performs and completes. The host and the closure talk through channels of split virtqueues in
  shared memory, over which they exchange enveloped messages. What a closure consists of is sent as a
  closure manifest, what it may touch as a resource grant that names the SHA-256 digest of the
  manifest. Services behind the queues have message codecs of their own: block devices, GPU sessions
  and the file system.

  \<^bold>\<open>Theories\<close> (sources relative to \<open>src/\<close>)

  \<^item> \<open>Prelude\<close>: C integer types, byte buffers, checked little-endian loads and stores (the
    \<open>kb2_load_*\<close>, \<open>kb2_store_*\<close>, \<open>get*\<close> and \<open>put*\<close> helpers of the sources), tables of wire records (locale
    \<open>wire_record\<close>), address ranges, binary search.
  \<^item> \<open>Protocol\<close>: \<open>protocol/src/protocol.c\<close>. The index loops of \<open>kb2_validate_channel_model\<close> decide a
    declarative contract over address sets; channel and envelope codecs are memory safe and round
    trip; the decoder accepts only valid channels.
  \<^item> \<open>Virtqueue\<close>, \<open>Virtqueue_Layout\<close>, \<open>Virtqueue_Safety\<close>, \<open>Virtqueue_Isolation\<close>: \<open>protocol/src/virtqueue.c\<close>.
    Operations are state transformers on \<open>vq_world\<close> over any memory backend, so that reads may return
    whatever a hostile peer wrote. The invariant of the private bookkeeping is kept by every sequence
    of calls (\<open>vq_reachable\<close>); the locale \<open>guarded_memory\<close>, interpreted on a recording backend, shows
    that every store goes where the own side may write; leases of different queues never overlap.
  \<^item> \<open>Virtqueue_Memory\<close>: \<open>protocol/src/virtqueue_memory.c\<close> and
    \<open>protocol/arch/x86_64/virtqueue_atomic.c\<close>, interpreted as the contract \<open>shared_memory\<close>.
  \<^item> \<open>Closure_Store\<close>, \<open>Closure_Graph\<close>, \<open>Closure\<close>: \<open>src/closure.c\<close> and \<open>src/closure_internal.h\<close>. Growable
    arrays over the host's allocator (locale \<open>growable_array\<close>), the builder's operations with their
    invariant, Kahn's algorithm and the reachability search against graph-theoretic specifications,
    sorting by the comparators (locale \<open>keyed_comparison\<close>), sealing against the declarative closure
    condition, with NO_MEMORY exactly when the allocator refused a request (\<open>refusal_laws\<close>), and an
    allocator ledger (\<open>allocator_laws\<close>) that shows that nothing leaks.
  \<^item> \<open>Controller\<close>: \<open>src/controller/controller.c\<close>. Any client and any host in any order
    (\<open>system_reachable\<close>); the controller refines an abstract host protocol, cleanup ends, a completion
    is taken only for the pending action that it names and consumes it, refused calls change nothing,
    nothing leaks.
  \<^item> \<open>Sha256\<close>: \<open>protocol/src/sha256.c\<close>. Streaming in any pieces equals FIPS 180-4 on the whole message
    (up to the standard's limit of \<open>2 ^ 64\<close> bits; the length field wraps above it). The round constants
    are computed as cube roots of primes, as the standard introduces them.
  \<^item> \<open>Tables\<close>: loops with early return, record codecs addressed by index (locale \<open>row_codec\<close>) and runs of
    equal keys, shared by the two following groups.
  \<^item> \<open>Closure_Manifest\<close>, \<open>Manifest_Encode\<close>: \<open>protocol/src/closure_manifest.c\<close>. The decoder accepts exactly
    the buffers that satisfy the manifest contract; the views it delivers are safe to access; encoding
    is safe and decoded to what was given (locale \<open>pooled_codec\<close>, an extension of \<open>row_codec\<close> by strings).
  \<^item> \<open>Resource_Grant\<close>, \<open>Grant_Encode\<close>, \<open>Grant_Policy\<close>: \<open>protocol/src/resource_grant.c\<close>. The same for grants,
    field by field and run by run against the source, and the exact policy of
    \<open>kb2_resource_grant_validate_manifest\<close>.
  \<^item> \<open>Message_Fields\<close>: fixed-size messages as sequences of fields, for the three following theories.
  \<^item> \<open>Block_Device\<close>: \<open>protocol/src/block_device.c\<close>. \<open>Gpu_Session\<close>: \<open>protocol/src/gpu_session.c\<close>.
    \<open>Filesystem\<close>: \<open>protocol/src/filesystem.c\<close>. The messages are canonical: decoders and encoders are inverse
    to each other on everything they accept. For the file system also the exact condition under which
    the spans and paths of a request are accepted, and the exact policy: the class of every request and,
    for every right, the requests that need it.

  \<^bold>\<open>Conventions.\<close> A buffer is the list of its bytes, and a size argument that accompanies a pointer is
  the length of the list. Loads and stores are checked: the outer \<open>option\<close> of an operation is \<open>None\<close> exactly
  where the C code would access memory outside the buffer, and that a theorem excludes \<open>None\<close> is memory
  safety. A NULL pointer is \<open>None\<close>, or \<open>Null n\<close> with a count; whether an output pointer is NULL is a
  \<open>bool\<close>. Machine integers are words that wrap; \<open>size_t\<close> is \<open>nat\<close>, with \<open>SIZE_MAX\<close> checks where the code has
  them. Layout constants are those of \<open>protocol/generated/include/kobox2\<close>. The host's allocator and the
  memory backend of the engine are parameters.

  \<^bold>\<open>Loops and bounds.\<close> Counting loops are structural recursion or have a \<open>termination\<close> proof. The loops of
  the graph check over linked edges and over the queue are \<open>partial_function\<close>s whose value is \<open>None\<close> if
  they do not end; the theorems on the graph check and on sealing show that they end on every storage
  a builder can hold. No fuel is used elsewhere. Theorems that need a buffer to be addressable state
  \<open>length b < 2 ^ 64\<close> or the bound the code checks.

  \<^bold>\<open>Not modelled.\<close> The GPU command protocol (\<open>protocol/src/gpu.c\<close>, \<open>gpu_completion.c\<close>, \<open>gpu_sync_file.h\<close> and
  the headers that describe the argument shapes of amdgpu and i915), the
  enumeration \<open>module_progress.h\<close>, the generated code \<open>core_runtime.h\<close> with its generator and schemas, the test hosts and
  test programs, and the build files. The accessors that return the hexadecimal schema digest as a C
  string are left out as well. Native memory is sequentially consistent: the ordering strength of the
  atomics is not represented.
\<close>

end
